(* ===== verification/Prelude.thy ===== *)
theory Prelude
  imports Complex_Main "HOL-Library.Word" "HOL-Library.AList"
begin

text \<open>
  Shared vocabulary of the development.

  \<^item> Text. A Rust \<open>String\<close> or \<open>&str\<close> is a list of \<^typ>\<open>char\<close>, one element per Unicode
    scalar value. The repertoire is U+0000 .. U+00FF (ASCII and Latin-1), on which the
    classification and case functions below agree with the Rust standard library;
    \<open>utf8\<close> gives the bytes of a text, so that \<open>str::len\<close>, \<open>as_bytes\<close> and \<open>bytes\<close> count
    bytes and \<open>chars\<close> counts scalar values.
  \<^item> Results. \<open>Result<T, E>\<close> is a sum with the error on the left.
  \<^item> Hash maps that the code iterates, counts or prunes are association lists with
    distinct keys, the order of the list standing for the (unspecified) iteration order.
  \<^item> Unsigned 64-bit counters and clocks are natural numbers, with the bound
    \<open>u64_max\<close> written out where the code uses checked or saturating arithmetic.

  The collections \<open>rust_str\<close> (facts on texts) and \<open>rust_invs\<close> (facts that an operation
  keeps an invariant) are filled by the component theories.
\<close>

named_theorems rust_str
named_theorems rust_invs

section \<open>Results\<close>

type_synonym 'a res = "string + 'a"

abbreviation Ok :: "'a \<Rightarrow> 'e + 'a" where "Ok \<equiv> Inr"
abbreviation Err :: "'e \<Rightarrow> 'e + 'a" where "Err \<equiv> Inl"

definition is_ok :: "'e + 'a \<Rightarrow> bool" where
  "is_ok r = (case r of Inl _ \<Rightarrow> False | Inr _ \<Rightarrow> True)"

definition u64_max :: nat where
  "u64_max = 2 ^ 64 - 1"

definition u64_sat_add :: "nat \<Rightarrow> nat \<Rightarrow> nat" where
  "u64_sat_add a b = min (a + b) u64_max"

definition u64_sat_mul :: "nat \<Rightarrow> nat \<Rightarrow> nat" where
  "u64_sat_mul a b = min (a * b) u64_max"

definition u64_checked_add :: "nat \<Rightarrow> nat \<Rightarrow> nat option" where
  "u64_checked_add a b = (if a + b \<le> u64_max then Some (a + b) else None)"

definition u64_checked_mul :: "nat \<Rightarrow> nat \<Rightarrow> nat option" where
  "u64_checked_mul a b = (if a * b \<le> u64_max then Some (a * b) else None)"

section \<open>Characters\<close>

abbreviation code :: "char \<Rightarrow> nat" where "code c \<equiv> of_char c"

definition is_ascii :: "char \<Rightarrow> bool" where
  "is_ascii c \<longleftrightarrow> code c < 128"

definition is_ascii_uppercase :: "char \<Rightarrow> bool" where
  "is_ascii_uppercase c \<longleftrightarrow> 65 \<le> code c \<and> code c \<le> 90"

definition is_ascii_lowercase :: "char \<Rightarrow> bool" where
  "is_ascii_lowercase c \<longleftrightarrow> 97 \<le> code c \<and> code c \<le> 122"

definition is_ascii_digit :: "char \<Rightarrow> bool" where
  "is_ascii_digit c \<longleftrightarrow> 48 \<le> code c \<and> code c \<le> 57"

definition is_whitespace :: "char \<Rightarrow> bool" where
  "is_whitespace c \<longleftrightarrow> (9 \<le> code c \<and> code c \<le> 13) \<or> code c = 32 \<or> code c = 133 \<or> code c = 160"

definition is_alphabetic :: "char \<Rightarrow> bool" where
  "is_alphabetic c \<longleftrightarrow> is_ascii_uppercase c \<or> is_ascii_lowercase c
     \<or> code c = 170 \<or> code c = 181 \<or> code c = 186
     \<or> (192 \<le> code c \<and> code c \<noteq> 215 \<and> code c \<noteq> 247)"

definition is_numeric :: "char \<Rightarrow> bool" where
  "is_numeric c \<longleftrightarrow> is_ascii_digit c \<or> code c \<in> {178, 179, 185, 188, 189, 190}"

definition is_alphanumeric :: "char \<Rightarrow> bool" where
  "is_alphanumeric c \<longleftrightarrow> is_alphabetic c \<or> is_numeric c"

definition is_uppercase :: "char \<Rightarrow> bool" where
  "is_uppercase c \<longleftrightarrow> is_ascii_uppercase c \<or> (192 \<le> code c \<and> code c \<le> 222 \<and> code c \<noteq> 215)"

definition ascii_lower :: "char \<Rightarrow> char" where
  "ascii_lower c = (if is_ascii_uppercase c then char_of (code c + 32) else c)"

definition ascii_upper :: "char \<Rightarrow> char" where
  "ascii_upper c = (if is_ascii_lowercase c then char_of (code c - 32) else c)"

definition char_lower :: "char \<Rightarrow> char" where
  "char_lower c = (if is_uppercase c then char_of (code c + 32) else c)"

text \<open>
  \<open>char::to_uppercase\<close> maps the sharp s (U+00DF) to two letters. The micro sign and y
  with diaeresis have upper-case forms outside the repertoire; they stay non-ASCII, so
  they are left as they are.
\<close>

definition char_upper :: "char \<Rightarrow> string" where
  "char_upper c =
     (if code c = 223 then ''SS''
      else if is_ascii_lowercase c \<or> (224 \<le> code c \<and> code c \<le> 254 \<and> code c \<noteq> 247)
      then [char_of (code c - 32)] else [c])"

definition utf8_char :: "char \<Rightarrow> char list" where
  "utf8_char c =
     (if is_ascii c then [c] else [char_of (192 + code c div 64), char_of (128 + code c mod 64)])"

section \<open>Texts\<close>

definition utf8 :: "string \<Rightarrow> char list" where
  "utf8 s = concat (map utf8_char s)"

definition str_len :: "string \<Rightarrow> nat" where
  "str_len s = length (utf8 s)"

definition to_ascii_lowercase :: "string \<Rightarrow> string" where
  "to_ascii_lowercase s = map ascii_lower s"

definition to_lowercase :: "string \<Rightarrow> string" where
  "to_lowercase s = map char_lower s"

definition to_uppercase :: "string \<Rightarrow> string" where
  "to_uppercase s = concat (map char_upper s)"

definition eq_ignore_ascii_case :: "string \<Rightarrow> string \<Rightarrow> bool" where
  "eq_ignore_ascii_case a b \<longleftrightarrow> to_ascii_lowercase a = to_ascii_lowercase b"

fun starts_with :: "'a list \<Rightarrow> 'a list \<Rightarrow> bool" where
  "starts_with s [] = True"
| "starts_with [] (p # ps) = False"
| "starts_with (c # s) (p # ps) = (c = p \<and> starts_with s ps)"

fun str_contains :: "'a list \<Rightarrow> 'a list \<Rightarrow> bool" where
  "str_contains [] p = (p = [])"
| "str_contains (c # s) p = (starts_with (c # s) p \<or> str_contains s p)"

text \<open>\<open>str::find\<close>.\<close>

fun find_str :: "string \<Rightarrow> string \<Rightarrow> nat option" where
  "find_str [] p = (if p = [] then Some 0 else None)"
| "find_str (c # s) p = (if starts_with (c # s) p then Some 0 else map_option Suc (find_str s p))"

definition ends_with :: "'a list \<Rightarrow> 'a list \<Rightarrow> bool" where
  "ends_with s p = starts_with (rev s) (rev p)"

definition strip_prefix :: "'a list \<Rightarrow> 'a list \<Rightarrow> 'a list option" where
  "strip_prefix s p = (if starts_with s p then Some (drop (length p) s) else None)"

definition strip_suffix :: "'a list \<Rightarrow> 'a list \<Rightarrow> 'a list option" where
  "strip_suffix s p = (if ends_with s p then Some (take (length s - length p) s) else None)"

definition trim_start :: "string \<Rightarrow> string" where
  "trim_start s = dropWhile is_whitespace s"

definition trim :: "string \<Rightarrow> string" where
  "trim s = rev (trim_start (rev (trim_start s)))"

fun split_ws_aux :: "string \<Rightarrow> string \<Rightarrow> string list" where
  "split_ws_aux acc [] = (if acc = [] then [] else [rev acc])"
| "split_ws_aux acc (c # s) =
     (if is_whitespace c then (if acc = [] then [] else [rev acc]) @ split_ws_aux [] s
      else split_ws_aux (c # acc) s)"

definition split_whitespace :: "string \<Rightarrow> string list" where
  "split_whitespace s = split_ws_aux [] s"

text \<open>\<open>str::split(c)\<close>: the pieces between the occurrences of \<open>c\<close>, at least one.\<close>

fun split_char :: "char \<Rightarrow> string \<Rightarrow> string list" where
  "split_char d [] = [[]]"
| "split_char d (c # s) =
     (if c = d then [] # split_char d s
      else (case split_char d s of [] \<Rightarrow> [[c]] | p # ps \<Rightarrow> (c # p) # ps))"

fun join_str :: "'a list \<Rightarrow> 'a list list \<Rightarrow> 'a list" where
  "join_str sep [] = []"
| "join_str sep [s] = s"
| "join_str sep (s # t # ss) = s @ sep @ join_str sep (t # ss)"

text \<open>\<open>str::replace\<close>; an empty pattern, which no caller passes, replaces nothing.\<close>

function str_replace :: "'a list \<Rightarrow> 'a list \<Rightarrow> 'a list \<Rightarrow> 'a list" where
  "str_replace [] m tag = []"
| "str_replace (c # s) m tag =
     (if m \<noteq> [] \<and> starts_with (c # s) m then tag @ str_replace (drop (length m) (c # s)) m tag
      else c # str_replace s m tag)"
  by pat_completeness auto
termination
  by (relation "measure (\<lambda>(s, _). length s)") auto

fun find_index :: "('a \<Rightarrow> bool) \<Rightarrow> 'a list \<Rightarrow> nat option" where
  "find_index P [] = None"
| "find_index P (x # xs) = (if P x then Some 0 else map_option Suc (find_index P xs))"

fun windows :: "nat \<Rightarrow> 'a list \<Rightarrow> 'a list list" where
  "windows n [] = (if n = 0 then [[]] else [])"
| "windows n (x # xs) = (if n \<le> Suc (length xs) then [take n (x # xs)] else []) @ windows n xs"

fun show_nat :: "nat \<Rightarrow> string" where
  "show_nat n =
     (if n < 10 then [char_of (48 + n)] else show_nat (n div 10) @ [char_of (48 + n mod 10)])"

declare show_nat.simps [simp del]

definition digits_value :: "string \<Rightarrow> nat" where
  "digits_value s = foldl (\<lambda>n c. 10 * n + (code c - 48)) 0 s"

text \<open>\<open>str::parse::<u64>\<close>: an optional plus sign, one or more digits, no overflow.\<close>

definition parse_u64 :: "string \<Rightarrow> nat option" where
  "parse_u64 s =
     (let ds = (case s of c # t \<Rightarrow> if c = CHR ''+'' then t else s | [] \<Rightarrow> s)
      in if ds \<noteq> [] \<and> list_all is_ascii_digit ds \<and> digits_value ds \<le> u64_max
         then Some (digits_value ds) else None)"

section \<open>Lemmas on texts\<close>

lemma starts_with_iff [rust_str]: "starts_with s p \<longleftrightarrow> (\<exists>t. s = p @ t)"
  by (induction s p rule: starts_with.induct) auto

lemma starts_with_self [simp]: "starts_with (p @ t) p"
  by (simp add: starts_with_iff)

lemma ends_with_iff [rust_str]: "ends_with s p \<longleftrightarrow> (\<exists>t. s = t @ p)"
  by (simp add: ends_with_def starts_with_iff) (metis rev_append rev_rev_ident)

lemma str_contains_iff [rust_str]: "str_contains s p \<longleftrightarrow> (\<exists>a b. s = a @ p @ b)"
proof (induction s p rule: str_contains.induct)
  case (2 c s p)
  show ?case
  proof
    assume "str_contains (c # s) p"
    then consider t where "c # s = p @ t" | a b where "s = a @ p @ b"
      using 2 by (auto simp: starts_with_iff)
    then show "\<exists>a b. c # s = a @ p @ b"
      by cases (metis append_Nil, metis append_Cons)
  next
    assume "\<exists>a b. c # s = a @ p @ b"
    then obtain a b where ab: "c # s = a @ p @ b" by blast
    show "str_contains (c # s) p"
    proof (cases a)
      case Nil
      with ab have "starts_with (c # s) p" by (simp add: starts_with_iff)
      then show ?thesis by simp
    next
      case (Cons d a')
      with ab have "s = a' @ p @ b" by simp
      with 2 show ?thesis by auto
    qed
  qed
qed auto

lemma str_contains_Nil [simp]: "str_contains s []"
  by (cases s) auto

lemma str_contains_trans:
  "str_contains s t \<Longrightarrow> str_contains t p \<Longrightarrow> str_contains s p"
  by (auto simp: str_contains_iff) (metis append.assoc)

lemma str_contains_append: "str_contains s p \<Longrightarrow> str_contains (a @ s @ b) p"
  by (auto simp: str_contains_iff) (metis append.assoc)

lemma str_contains_mid [simp]: "str_contains (a @ p @ b) p"
  by (auto simp: str_contains_iff)

lemma str_contains_prefix [simp]: "str_contains (p @ b) p"
  using str_contains_mid [of "[]" p b] by simp

lemma windows_take: "a @ w @ b = xs \<Longrightarrow> n = length w \<Longrightarrow> w \<in> set (windows n xs)"
proof (induction xs arbitrary: a)
  case (Cons x xs)
  show ?case
  proof (cases a)
    case Nil
    with Cons.prems have eq: "x # xs = w @ b" by simp
    then have "take n (x # xs) = w" "n \<le> length (x # xs)"
      unfolding eq using Cons.prems(2) by simp_all
    then show ?thesis by simp
  next
    case (Cons y a')
    then have "w \<in> set (windows n xs)" using Cons.prems Cons.IH [of a'] by simp
    then show ?thesis by simp
  qed
qed auto

lemma windows_sublist: "w \<in> set (windows n xs) \<Longrightarrow> length w = n \<and> (\<exists>a b. xs = a @ w @ b)"
proof (induction xs)
  case (Cons x xs)
  show ?case
  proof (cases "w \<in> set (windows n xs)")
    case True
    then show ?thesis using Cons.IH by (metis append_Cons)
  next
    case False
    then have "n \<le> Suc (length xs)" "w = take n (x # xs)"
      using Cons.prems by (auto split: if_splits)
    moreover have "x # xs = [] @ take n (x # xs) @ drop n (x # xs)" by simp
    ultimately show ?thesis by (metis length_Cons length_take min.absorb2)
  qed
qed (auto split: if_splits)

lemma windows_iff: "w \<in> set (windows n xs) \<longleftrightarrow> length w = n \<and> (\<exists>a b. xs = a @ w @ b)"
  using windows_take [of _ w _ xs n] windows_sublist [of w n xs] by metis

lemma utf8_append [simp]: "utf8 (a @ b) = utf8 a @ utf8 b"
  by (simp add: utf8_def)

lemma utf8_Nil [simp]: "utf8 [] = []"
  by (simp add: utf8_def)

lemma utf8_ascii: "list_all is_ascii s \<Longrightarrow> utf8 s = s"
  by (induction s) (auto simp: utf8_def utf8_char_def)

lemma code_lt_256: "code c < 256"
  by (cases c) (simp add: of_char_def)

lemma code_char_of: "n < 256 \<Longrightarrow> code (char_of n) = n"
  by (simp add: of_char_of)

lemma utf8_char_nonascii: "\<not> is_ascii c \<Longrightarrow> b \<in> set (utf8_char c) \<Longrightarrow> \<not> is_ascii b"
proof -
  assume "\<not> is_ascii c" "b \<in> set (utf8_char c)"
  moreover have "code c div 64 < 64" using code_lt_256 [of c] by linarith
  ultimately show ?thesis by (auto simp: utf8_char_def is_ascii_def code_char_of)
qed

text \<open>A text whose bytes all lie in an ASCII class is its own byte sequence.\<close>

lemma utf8_class:
  assumes "list_all P (utf8 s)" and "\<And>b. P b \<Longrightarrow> is_ascii b"
  shows "utf8 s = s"
  using assms(1)
proof (induction s)
  case (Cons c s)
  have "list_all P (utf8_char c)" using Cons.prems by (simp add: utf8_def)
  moreover have "utf8_char c \<noteq> []" by (simp add: utf8_char_def)
  ultimately have "is_ascii c"
    using utf8_char_nonascii [of c] assms(2) by (metis list.pred_set list.set_sel(1))
  then show ?case using Cons by (simp add: utf8_def utf8_char_def)
qed simp

lemma utf8_char_inj_append: "utf8_char c @ s = utf8_char d @ t \<Longrightarrow> c = d \<and> s = t"
proof -
  assume eq: "utf8_char c @ s = utf8_char d @ t"
  have b: "code c < 256" "code d < 256" by (rule code_lt_256)+
  show ?thesis
  proof (cases "is_ascii c = is_ascii d")
    case False
    then have "is_ascii (hd (utf8_char c)) \<noteq> is_ascii (hd (utf8_char d))"
      using utf8_char_nonascii [of c "hd (utf8_char c)"] utf8_char_nonascii [of d "hd (utf8_char d)"]
      by (cases "is_ascii c") (auto simp: utf8_char_def)
    moreover have "hd (utf8_char c) = hd (utf8_char d)"
      using arg_cong [OF eq, of hd] by (simp add: utf8_char_def split: if_splits)
    ultimately show ?thesis by simp
  next
    case True
    show ?thesis
    proof (cases "is_ascii c")
      case False
      have small: "192 + code c div 64 < 256" "192 + code d div 64 < 256"
        "128 + code c mod 64 < 256" "128 + code d mod 64 < 256" using b by linarith+
      have "code (char_of (192 + code c div 64)) = code (char_of (192 + code d div 64))"
        "code (char_of (128 + code c mod 64)) = code (char_of (128 + code d mod 64))" "s = t"
        using eq True False by (simp_all add: utf8_char_def)
      then have "code c div 64 = code d div 64" "code c mod 64 = code d mod 64" "s = t"
        unfolding code_char_of [OF small(1)] code_char_of [OF small(2)]
          code_char_of [OF small(3)] code_char_of [OF small(4)] by simp_all
      then show ?thesis by (metis div_mult_mod_eq of_char_eq_iff)
    qed (use True eq in \<open>simp add: utf8_char_def\<close>)
  qed
qed

lemma utf8_inj [simp]: "utf8 a = utf8 b \<longleftrightarrow> a = b"
proof
  show "utf8 a = utf8 b \<Longrightarrow> a = b"
  proof (induction a arbitrary: b)
    case Nil
    then show ?case by (cases b) (auto simp: utf8_def utf8_char_def split: if_splits)
  next
    case (Cons c a)
    then obtain d b' where b: "b = d # b'"
      by (cases b) (auto simp: utf8_def utf8_char_def split: if_splits)
    have "utf8_char c @ utf8 a = utf8_char d @ utf8 b'" using Cons.prems b by (simp add: utf8_def)
    then have "c = d" "utf8 a = utf8 b'" using utf8_char_inj_append by blast+
    then show ?case using Cons.IH b by simp
  qed
qed simp

section \<open>Lemmas on case folding\<close>

lemma code_char_lower: "code (char_lower c) = (if is_uppercase c then code c + 32 else code c)"
  by (auto simp: char_lower_def is_uppercase_def is_ascii_uppercase_def code_char_of)

lemma code_ascii_lower:
  "code (ascii_lower c) = (if is_ascii_uppercase c then code c + 32 else code c)"
  by (auto simp: ascii_lower_def is_ascii_uppercase_def code_char_of)

lemma char_lower_idem [simp]: "char_lower (char_lower c) = char_lower c"
proof (cases "is_uppercase c")
  case True
  then have "\<not> is_uppercase (char_lower c)"
    unfolding is_uppercase_def is_ascii_uppercase_def code_char_lower using True by auto
  then show ?thesis by (simp add: char_lower_def)
qed (simp add: char_lower_def)

lemma ascii_lower_idem [simp]: "ascii_lower (ascii_lower c) = ascii_lower c"
proof (cases "is_ascii_uppercase c")
  case True
  then have "\<not> is_ascii_uppercase (ascii_lower c)"
    unfolding is_ascii_uppercase_def code_ascii_lower using True by auto
  then show ?thesis by (simp add: ascii_lower_def)
qed (simp add: ascii_lower_def)

lemma to_lowercase_idem [simp]: "to_lowercase (to_lowercase s) = to_lowercase s"
  by (simp add: to_lowercase_def)

lemma to_ascii_lowercase_idem [simp]:
  "to_ascii_lowercase (to_ascii_lowercase s) = to_ascii_lowercase s"
  by (simp add: to_ascii_lowercase_def)

lemma eq_ignore_ascii_case_refl [simp]: "eq_ignore_ascii_case s s"
  by (simp add: eq_ignore_ascii_case_def)

text \<open>A character whose lower-case form is ASCII is ASCII, and both foldings agree there.\<close>

lemma char_lower_ascii: "is_ascii (char_lower c) \<Longrightarrow> is_ascii c \<and> char_lower c = ascii_lower c"
  unfolding is_ascii_def code_char_lower
  by (auto simp: char_lower_def ascii_lower_def is_uppercase_def is_ascii_uppercase_def
      split: if_splits)

lemma is_ascii_ascii_lower [simp]: "is_ascii (ascii_lower c) = is_ascii c"
  unfolding is_ascii_def code_ascii_lower by (auto simp: is_ascii_uppercase_def)

lemma map_char_lower_ascii:
  assumes "list_all is_ascii p" and "map char_lower m = p"
  shows "list_all is_ascii m \<and> map ascii_lower m = p"
  using assms
proof (induction m arbitrary: p)
  case (Cons c m)
  then obtain d p' where p: "p = d # p'" "char_lower c = d" "map char_lower m = p'" by auto
  with Cons.prems char_lower_ascii [of c] have "is_ascii c" "ascii_lower c = d" by auto
  moreover have "list_all is_ascii m \<and> map ascii_lower m = p'"
    using Cons.prems(1) p by (intro Cons.IH) simp_all
  ultimately show ?case using p by simp
qed simp

section \<open>Lemmas on trimming\<close>

lemma is_whitespace_ascii_lower [simp]: "is_whitespace (ascii_lower c) = is_whitespace c"
  unfolding is_whitespace_def code_ascii_lower by (auto simp: is_ascii_uppercase_def)

lemma dropWhile_ascii_lower:
  "dropWhile is_whitespace (map ascii_lower s) = map ascii_lower (dropWhile is_whitespace s)"
  by (induction s) auto

lemma trim_ascii_lower: "trim (map ascii_lower s) = map ascii_lower (trim s)"
  by (simp add: trim_def trim_start_def dropWhile_ascii_lower rev_map)

lemma dropWhile_rev_head:
  "t \<noteq> [] \<Longrightarrow> \<not> P (hd t) \<Longrightarrow> rev (dropWhile P (rev t)) \<noteq> [] \<and> hd (rev (dropWhile P (rev t))) = hd t"
proof (induction t rule: rev_induct)
  case (snoc x xs)
  show ?case
  proof (cases "xs = []")
    case False
    with snoc show ?thesis by (auto simp: hd_append)
  qed (use snoc in simp)
qed simp

lemma trim_ends:
  "trim s = [] \<or> (\<not> is_whitespace (hd (trim s)) \<and> \<not> is_whitespace (last (trim s)))"
proof (cases "trim_start s = []")
  case False
  then have h: "\<not> is_whitespace (hd (trim_start s))"
    by (simp add: trim_start_def hd_dropWhile)
  have "trim s \<noteq> []" "hd (trim s) = hd (trim_start s)"
    using dropWhile_rev_head [OF False, of is_whitespace] h
    by (simp_all add: trim_def trim_start_def [of "rev _"])
  moreover have "\<not> is_whitespace (last (trim s))"
    using \<open>trim s \<noteq> []\<close> by (simp add: trim_def last_rev trim_start_def [of "rev _"] hd_dropWhile)
  ultimately show ?thesis using h by simp
next
  case True
  then have "trim s = []" by (simp add: trim_def trim_start_def [of "[]"])
  then show ?thesis by simp
qed

lemma trim_id: "t = [] \<or> (\<not> is_whitespace (hd t) \<and> \<not> is_whitespace (last t)) \<Longrightarrow> trim t = t"
proof (cases "t = []")
  case False
  assume "t = [] \<or> (\<not> is_whitespace (hd t) \<and> \<not> is_whitespace (last t))"
  with False have "trim_start t = t" "trim_start (rev t) = rev t"
    by (auto simp: trim_start_def dropWhile_eq_self_iff hd_rev)
  then show ?thesis by (simp add: trim_def)
qed (simp add: trim_def trim_start_def)

lemma trim_idem [simp]: "trim (trim s) = trim s"
  by (rule trim_id, rule trim_ends)

lemma norm_idem: "to_ascii_lowercase (trim (to_ascii_lowercase (trim s))) = to_ascii_lowercase (trim s)"
  by (simp add: to_ascii_lowercase_def trim_ascii_lower o_def)

section \<open>Lemmas on association lists\<close>

lemma map_of_filter_distinct:
  "distinct (map fst kvs) \<Longrightarrow>
     map_of (filter (\<lambda>(k, v). P v) kvs) k = (case map_of kvs k of Some v \<Rightarrow> if P v then Some v else None | None \<Rightarrow> None)"
proof (induction kvs)
  case (Cons kv kvs)
  obtain k0 v0 where kv: "kv = (k0, v0)" by force
  have "map_of kvs k0 = None" using Cons.prems kv by (simp add: map_of_eq_None_iff)
  then show ?case using Cons kv by (cases "k = k0") auto
qed simp

lemma distinct_filter_keys: "distinct (map fst kvs) \<Longrightarrow> distinct (map fst (filter P kvs))"
  by (induction kvs) auto

lemma set_alist_update: "set (AList.update k v kvs) \<subseteq> insert (k, v) (set kvs)"
  by (induction kvs) auto

lemma set_alist_delete: "set (AList.delete k kvs) \<subseteq> set kvs"
  by (induction kvs) auto

lemma length_alist_update: "length (AList.update k v kvs) \<le> Suc (length kvs)"
  by (induction kvs) auto

lemma find_str_split: "find_str s p = Some n \<Longrightarrow> \<exists>r. s = take n s @ p @ r"
proof (induction s arbitrary: n)
  case (Cons c s)
  show ?case
  proof (cases "starts_with (c # s) p")
    case True
    then show ?thesis using Cons.prems by (auto simp: starts_with_iff)
  next
    case False
    then obtain m where "find_str s p = Some m" "n = Suc m" using Cons.prems by auto
    then show ?thesis using Cons.IH by auto
  qed
qed (auto split: if_splits)

lemma find_str_None: "find_str s p = None \<longleftrightarrow> \<not> str_contains s p"
  by (induction s) auto

lemma find_str_Some:
  "find_str s p = Some i \<Longrightarrow> i \<le> length s \<and> starts_with (drop i s) p"
  by (induction s arbitrary: i) (auto split: if_splits)

lemma find_str_le:
  "starts_with (drop j s) p \<Longrightarrow> j \<le> length s \<Longrightarrow> \<exists>i \<le> j. find_str s p = Some i"
proof (induction s arbitrary: j)
  case Nil
  then show ?case by (cases p) auto
next
  case (Cons c s)
  show ?case
  proof (cases "starts_with (c # s) p")
    case False
    then obtain k where "j = Suc k" using Cons.prems(1) by (cases j) auto
    then show ?thesis using False Cons.IH [of k] Cons.prems by auto
  qed auto
qed

lemma str_len_append [simp]: "str_len (a @ b) = str_len a + str_len b"
  by (simp add: str_len_def)

lemma str_len_Nil [simp]: "str_len [] = 0"
  by (simp add: str_len_def)

lemma str_len_ascii: "list_all is_ascii s \<Longrightarrow> str_len s = length s"
  by (simp add: str_len_def utf8_ascii)

end
