(* ===== verification/LoopGuard.thy ===== *)
theory LoopGuard
  imports Prelude
begin

text \<open>
  The tool-call loop guard (\<open>security/loop_guard.rs\<close>): a per-turn circuit breaker with a
  total budget, a budget per call hash and a ping-pong detector. Counters are 32-bit words
  and wrap as they do in a release build; the call hash is the 64-bit wrapping hash of the
  code. The human-readable messages are kept as values that carry their arguments.
\<close>

section \<open>Model\<close>

record loop_guard_config =
  max_repeat_calls :: "32 word"
  max_total_calls :: "32 word"
  max_pingpong_cycles :: "32 word"

definition default_loop_guard_config :: loop_guard_config where
  "default_loop_guard_config =
     \<lparr>max_repeat_calls = 3, max_total_calls = 20, max_pingpong_cycles = 3\<rparr>"

record loop_guard =
  call_counts :: "64 word \<rightharpoonup> 32 word"
  recent_tools :: "string list"
  total_calls :: "32 word"
  guard_config :: loop_guard_config

datatype loop_message =
    CircuitBreaker "32 word" "32 word"
  | RepeatBlocked string "32 word" "32 word"
  | RepeatWarning string "32 word"
  | PingPongBlocked string string "32 word"

datatype loop_check = Allow | Warn loop_message | Block loop_message

definition new_guard :: "loop_guard_config \<Rightarrow> loop_guard" where
  "new_guard cfg =
     \<lparr>call_counts = Map.empty, recent_tools = [], total_calls = 0, guard_config = cfg\<rparr>"

definition hash_step :: "64 word \<Rightarrow> char \<Rightarrow> 64 word" where
  "hash_step h b = h * 33 + of_nat (code b)"

definition hash_call :: "string \<Rightarrow> string \<Rightarrow> 64 word" where
  "hash_call tool_name args_json =
     foldl hash_step 5381 (utf8 tool_name @ '':'' @ utf8 args_json)"

function pingpong_cycles :: "string list \<Rightarrow> nat \<Rightarrow> 32 word \<Rightarrow> 32 word" where
  "pingpong_cycles tools pos cycles =
     (if pos \<ge> 4 \<and> tools ! (pos - 4) = tools ! (pos - 2) \<and> tools ! (pos - 3) = tools ! (pos - 1)
      then pingpong_cycles tools (pos - 2) (cycles + 1) else cycles)"
  by pat_completeness auto
termination
  by (relation "measure (\<lambda>(tools, pos, cycles). pos)") auto

declare pingpong_cycles.simps [simp del]

definition detect_pingpong :: "loop_guard \<Rightarrow> loop_message option" where
  "detect_pingpong g =
     (let tools = recent_tools g; len = length tools in
      if len < 4 then None
      else let cycles = pingpong_cycles tools len 0 in
        if cycles \<ge> max_pingpong_cycles (guard_config g)
        then Some (PingPongBlocked (tools ! (len - 2)) (tools ! (len - 1)) cycles)
        else None)"

definition call_count :: "loop_guard \<Rightarrow> 64 word \<Rightarrow> 32 word" where
  "call_count g h = (case call_counts g h of None \<Rightarrow> 0 | Some n \<Rightarrow> n)"

definition check_call :: "loop_guard \<Rightarrow> string \<Rightarrow> string \<Rightarrow> loop_check \<times> loop_guard" where
  "check_call g tool_name args_json =
     (let g1 = g\<lparr>total_calls := total_calls g + 1\<rparr> in
      if total_calls g1 > max_total_calls (guard_config g)
      then (Block (CircuitBreaker (total_calls g1) (max_total_calls (guard_config g))), g1)
      else
       let h = hash_call tool_name args_json;
           count = call_count g1 h + 1;
           g2 = g1\<lparr>call_counts := (call_counts g1)(h \<mapsto> count)\<rparr> in
       if count > max_repeat_calls (guard_config g)
       then (Block (RepeatBlocked tool_name count (max_repeat_calls (guard_config g))), g2)
       else if count = max_repeat_calls (guard_config g)
       then (Warn (RepeatWarning tool_name count), g2)
       else
        let g3 = g2\<lparr>recent_tools := recent_tools g2 @ [tool_name]\<rparr> in
        case detect_pingpong g3 of
          Some msg \<Rightarrow> (Block msg, g3)
        | None \<Rightarrow> (Allow, g3))"

definition reset_guard :: "loop_guard \<Rightarrow> loop_guard" where
  "reset_guard g = g\<lparr>call_counts := Map.empty, recent_tools := [], total_calls := 0\<rparr>"

text \<open>A turn: the tool calls of one conversation turn, in order, with the guard's answers.\<close>

fun run_calls :: "loop_guard \<Rightarrow> (string \<times> string) list \<Rightarrow> loop_check list" where
  "run_calls g [] = []"
| "run_calls g ((t, a) # cs) = (let (r, g') = check_call g t a in r # run_calls g' cs)"

definition passes :: "loop_check \<Rightarrow> bool" where
  "passes r = (case r of Block _ \<Rightarrow> False | _ \<Rightarrow> True)"

section \<open>One call\<close>

lemma passes_simps [simp]: "passes Allow" "passes (Warn m)" "\<not> passes (Block m)"
  by (simp_all add: passes_def)

lemma check_call_config [simp]: "guard_config (snd (check_call g t a)) = guard_config g"
  by (auto simp: check_call_def Let_def split: option.splits)

lemma check_call_total [simp]: "total_calls (snd (check_call g t a)) = total_calls g + 1"
  by (auto simp: check_call_def Let_def split: option.splits)

lemma check_call_passes_total:
  "passes (fst (check_call g t a)) \<Longrightarrow> total_calls g + 1 \<le> max_total_calls (guard_config g)"
  by (auto simp: check_call_def Let_def split: if_splits)

lemma check_call_passes_repeat:
  "passes (fst (check_call g t a)) \<Longrightarrow>
     call_count g (hash_call t a) + 1 \<le> max_repeat_calls (guard_config g)"
  by (auto simp: check_call_def Let_def call_count_def split: if_splits)

lemma check_call_count:
  "call_count (snd (check_call g t a)) h =
     (if h = hash_call t a \<and> total_calls g + 1 \<le> max_total_calls (guard_config g)
      then call_count g h + 1 else call_count g h)"
  by (auto simp: check_call_def Let_def call_count_def split: option.splits)

lemma unat_succ_32: "unat (w :: 32 word) + 1 < 2 ^ 32 \<Longrightarrow> unat (w + 1) = unat w + 1"
  by (simp add: unat_word_ariths)

lemma run_calls_budget:
  assumes "unat (total_calls g) + length cs < 2 ^ 32"
  shows "length (filter passes (run_calls g cs))
           \<le> unat (max_total_calls (guard_config g)) - unat (total_calls g)"
  using assms
proof (induction cs arbitrary: g)
  case (Cons c cs)
  obtain t a where c: "c = (t, a)" by (cases c)
  obtain r g' where step: "check_call g t a = (r, g')" by (cases "check_call g t a")
  have tot: "total_calls g' = total_calls g + 1" "guard_config g' = guard_config g"
    using check_call_total [of g t a] check_call_config [of g t a] step by simp_all
  have u: "unat (total_calls g') = unat (total_calls g) + 1"
    unfolding tot using Cons.prems by (intro unat_succ_32) simp
  have IH: "length (filter passes (run_calls g' cs))
              \<le> unat (max_total_calls (guard_config g)) - unat (total_calls g')"
    using Cons.IH [of g'] Cons.prems u tot by simp
  show ?case
  proof (cases "passes r")
    case True
    then have "total_calls g' \<le> max_total_calls (guard_config g)"
      using check_call_passes_total [of g t a] step tot by simp
    then have "unat (total_calls g) + 1 \<le> unat (max_total_calls (guard_config g))"
      using u by (simp add: word_le_nat_alt)
    then show ?thesis using IH u step c True by simp
  next
    case False
    then show ?thesis using IH u step c by simp
  qed
qed simp

lemma run_calls_repeat_budget:
  assumes "unat (call_count g (hash_call t a)) + length cs < 2 ^ 32"
  shows "length (filter (\<lambda>(c, r). c = (t, a) \<and> passes r) (zip cs (run_calls g cs)))
           \<le> unat (max_repeat_calls (guard_config g)) - unat (call_count g (hash_call t a))"
  using assms
proof (induction cs arbitrary: g)
  case (Cons c cs)
  obtain t' a' where c: "c = (t', a')" by (cases c)
  obtain r g' where step: "check_call g t' a' = (r, g')" by (cases "check_call g t' a'")
  let ?h = "hash_call t a"
  let ?n = "call_count g ?h" and ?n' = "call_count g' ?h"
  have cfg: "guard_config g' = guard_config g" using check_call_config [of g t' a'] step by simp
  have cnt: "?n' = (if ?h = hash_call t' a' \<and> total_calls g + 1 \<le> max_total_calls (guard_config g)
                    then ?n + 1 else ?n)"
    using check_call_count [of g t' a' ?h] step by simp
  have u: "unat (?n + 1) = unat ?n + 1" using Cons.prems by (intro unat_succ_32) simp
  have grow: "unat ?n \<le> unat ?n'" "unat ?n' \<le> unat ?n + 1" using cnt u by auto
  have IH: "length (filter (\<lambda>(c, r). c = (t, a) \<and> passes r) (zip cs (run_calls g' cs)))
              \<le> unat (max_repeat_calls (guard_config g)) - unat ?n'"
    using Cons.IH [of g'] Cons.prems grow cfg by simp
  show ?case
  proof (cases "c = (t, a) \<and> passes r")
    case True
    then have le: "?n + 1 \<le> max_repeat_calls (guard_config g)"
      using check_call_passes_repeat [of g t a] step c by simp
    have "total_calls g + 1 \<le> max_total_calls (guard_config g)"
      using True check_call_passes_total [of g t a] step c by simp
    then have "?n' = ?n + 1" using cnt True c by simp
    with le u have "unat ?n' = unat ?n + 1" "unat ?n + 1 \<le> unat (max_repeat_calls (guard_config g))"
      by (simp_all add: word_le_nat_alt)
    then show ?thesis using IH step c True by simp
  next
    case False
    have "length (filter (\<lambda>(c, r). c = (t, a) \<and> passes r) (zip cs (run_calls g' cs)))
            \<le> unat (max_repeat_calls (guard_config g)) - unat ?n"
      using IH grow(1) by linarith
    with False show ?thesis using step c by auto
  qed
qed simp

section \<open>The ping-pong detector\<close>

text \<open>The two-periodic tail the detector looks for: \<open>k\<close> extra cycles end at position \<open>pos\<close>.\<close>

definition alternates :: "string list \<Rightarrow> nat \<Rightarrow> nat \<Rightarrow> bool" where
  "alternates tools pos k \<longleftrightarrow>
     2 * k + 2 \<le> pos \<and> (\<forall>j. pos - 2 * k \<le> j \<and> j < pos \<longrightarrow> tools ! j = tools ! (j - 2))"

lemma alternates_0 [simp]: "alternates tools pos 0 \<longleftrightarrow> 2 \<le> pos"
  by (auto simp: alternates_def)

lemma alternates_Suc:
  "alternates tools pos (Suc k) \<longleftrightarrow>
     pos \<ge> 4 \<and> tools ! (pos - 4) = tools ! (pos - 2) \<and> tools ! (pos - 3) = tools ! (pos - 1)
     \<and> alternates tools (pos - 2) k" (is "?L \<longleftrightarrow> ?R")
proof
  assume L: ?L
  then have p: "2 * k + 4 \<le> pos"
    and q: "\<And>j. pos - 2 * k - 2 \<le> j \<Longrightarrow> j < pos \<Longrightarrow> tools ! j = tools ! (j - 2)"
    by (auto simp: alternates_def)
  have "alternates tools (pos - 2) k"
    unfolding alternates_def using p by (auto intro!: q)
  moreover have "pos - 2 - 2 = pos - 4" "pos - 1 - 2 = pos - 3" by simp_all
  ultimately show ?R using p q [of "pos - 2"] q [of "pos - 1"] by simp
next
  assume R: ?R
  then have p: "2 * k + 4 \<le> pos"
    and q: "\<And>j. pos - 2 - 2 * k \<le> j \<Longrightarrow> j < pos - 2 \<Longrightarrow> tools ! j = tools ! (j - 2)"
    by (auto simp: alternates_def)
  have "tools ! j = tools ! (j - 2)" if j: "pos - 2 * Suc k \<le> j" "j < pos" for j
  proof -
    consider "j = pos - 1" | "j = pos - 2" | "j < pos - 2" using j p by linarith
    then show ?thesis
    proof cases
      case 1
      moreover have "pos - 1 - 2 = pos - 3" by simp
      ultimately show ?thesis using R by simp
    next
      case 2
      moreover have "pos - 2 - 2 = pos - 4" by simp
      ultimately show ?thesis using R by simp
    next
      case 3
      then show ?thesis using j by (intro q) simp_all
    qed
  qed
  then show ?L using p by (simp add: alternates_def)
qed

lemma pingpong_cycles_count:
  assumes "2 \<le> pos"
  shows "\<exists>n. pingpong_cycles tools pos c = c + of_nat n \<and> 2 * n \<le> pos
           \<and> (\<forall>k. k \<le> n \<longleftrightarrow> alternates tools pos k)"
  using assms
proof (induction tools pos c rule: pingpong_cycles.induct)
  case (1 tools pos c)
  let ?g = "pos \<ge> 4 \<and> tools ! (pos - 4) = tools ! (pos - 2) \<and> tools ! (pos - 3) = tools ! (pos - 1)"
  show ?case
  proof (cases ?g)
    case True
    then obtain n where n: "pingpong_cycles tools (pos - 2) (c + 1) = c + 1 + of_nat n"
      "2 * n \<le> pos - 2" "\<And>k. k \<le> n \<longleftrightarrow> alternates tools (pos - 2) k"
      using "1.IH" [OF True] True by fastforce
    have "k \<le> Suc n \<longleftrightarrow> alternates tools pos k" for k
      using True n(3) by (cases k) (simp_all add: alternates_Suc)
    moreover have "pingpong_cycles tools pos c = c + of_nat (Suc n)"
      using True n(1) by (subst pingpong_cycles.simps) simp
    moreover have "2 * Suc n \<le> pos" using conjunct1 [OF True] n(2) by arith
    ultimately show ?thesis by blast
  next
    case False
    have "k \<le> 0 \<longleftrightarrow> alternates tools pos k" for k
      using False "1.prems" by (cases k) (auto simp: alternates_Suc)
    moreover have "pingpong_cycles tools pos c = c + of_nat 0"
      using False by (subst pingpong_cycles.simps) auto
    ultimately show ?thesis by (metis mult_0_right le0)
  qed
qed

lemma pingpong_cycles_ge:
  assumes "2 \<le> length tools" and "length tools < 2 ^ 32"
  shows "m \<le> pingpong_cycles tools (length tools) 0 \<longleftrightarrow> alternates tools (length tools) (unat m)"
proof -
  obtain n where n: "pingpong_cycles tools (length tools) 0 = of_nat n" "2 * n \<le> length tools"
    "\<And>k. k \<le> n \<longleftrightarrow> alternates tools (length tools) k"
    using pingpong_cycles_count [OF assms(1), of tools 0] by auto
  have "n < 2 ^ 32" using n(2) assms(2) by simp
  then have "unat (of_nat n :: 32 word) = n" by (simp add: unat_of_nat)
  then show ?thesis using n(1,3) by (simp add: word_le_nat_alt)
qed

section \<open>Properties\<close>

text \<open>The circuit breaker. Within one turn (fewer than \<open>2 ^ 32\<close> calls, so the 32-bit
  counter does not wrap) at most \<open>max_total_calls\<close> tool calls get through the guard, whatever
  the calls are.\<close>

theorem circuit_breaker_bound:
  assumes "length calls < 2 ^ 32"
  shows "length (filter passes (run_calls (new_guard cfg) calls)) \<le> unat (max_total_calls cfg)"
  using run_calls_budget [of "new_guard cfg" calls] assms by (simp add: new_guard_def)

theorem circuit_breaker_bound_witness:
  "length (filter passes (run_calls (new_guard \<lparr>max_repeat_calls = 9, max_total_calls = 1,
      max_pingpong_cycles = 3\<rparr>) [(''a'', ''1''), (''b'', ''2'')])) \<le> 1
   \<and> run_calls (new_guard \<lparr>max_repeat_calls = 9, max_total_calls = 1,
      max_pingpong_cycles = 3\<rparr>) [(''a'', ''1''), (''b'', ''2'')] = [Allow, Block (CircuitBreaker 2 1)]"
proof
  let ?cfg = "\<lparr>max_repeat_calls = 9, max_total_calls = 1, max_pingpong_cycles = 3\<rparr> :: loop_guard_config"
  show "length (filter passes (run_calls (new_guard ?cfg) [(''a'', ''1''), (''b'', ''2'')])) \<le> 1"
    using circuit_breaker_bound [of "[(''a'', ''1''), (''b'', ''2'')]" ?cfg] by simp
  show "run_calls (new_guard ?cfg) [(''a'', ''1''), (''b'', ''2'')] = [Allow, Block (CircuitBreaker 2 1)]"
    by (simp add: check_call_def new_guard_def Let_def detect_pingpong_def call_count_def)
qed

text \<open>The repeat limit. Within one turn, one and the same call (same tool, same arguments)
  gets through at most \<open>max_repeat_calls\<close> times, however it is interleaved with other calls.\<close>

theorem repeat_limit:
  assumes "length calls < 2 ^ 32"
  shows "length (filter (\<lambda>(c, r). c = (t, a) \<and> passes r)
            (zip calls (run_calls (new_guard cfg) calls))) \<le> unat (max_repeat_calls cfg)"
  using run_calls_repeat_budget [of "new_guard cfg" t a calls] assms
  by (simp add: new_guard_def call_count_def)

theorem repeat_limit_witness:
  "length (filter (\<lambda>(c, r). c = (''t'', ''x'') \<and> passes r)
     (zip [(''t'', ''x''), (''t'', ''x'')]
       (run_calls (new_guard default_loop_guard_config) [(''t'', ''x''), (''t'', ''x'')]))) \<le> 3"
  using repeat_limit [of "[(''t'', ''x''), (''t'', ''x'')]" "''t''" "''x''" default_loop_guard_config]
  by (simp add: default_loop_guard_config_def)

text \<open>The ping-pong detector fires exactly on two-periodic tails: it reports when, and only
  when, the last \<open>2 * max_pingpong_cycles + 2\<close> tools it has seen alternate between two names
  (each equals the one two places before it).\<close>

theorem detect_pingpong_iff:
  assumes "length (recent_tools g) < 2 ^ 32"
  shows "detect_pingpong g \<noteq> None \<longleftrightarrow>
     4 \<le> length (recent_tools g) \<and>
     alternates (recent_tools g) (length (recent_tools g))
       (unat (max_pingpong_cycles (guard_config g)))"
  using pingpong_cycles_ge [of "recent_tools g" "max_pingpong_cycles (guard_config g)"] assms
  by (auto simp: detect_pingpong_def Let_def)

theorem detect_pingpong_iff_witness:
  "detect_pingpong ((new_guard \<lparr>max_repeat_calls = 9, max_total_calls = 20, max_pingpong_cycles = 1\<rparr>)
     \<lparr>recent_tools := [''a'', ''b'', ''a'', ''b'']\<rparr>) \<noteq> None
   \<and> alternates [''a'', ''b'', ''a'', ''b''] 4 1"
proof -
  let ?g = "(new_guard \<lparr>max_repeat_calls = 9, max_total_calls = 20, max_pingpong_cycles = 1\<rparr>)
    \<lparr>recent_tools := [''a'', ''b'', ''a'', ''b'']\<rparr>"
  have r: "recent_tools ?g = [''a'', ''b'', ''a'', ''b'']"
    "max_pingpong_cycles (guard_config ?g) = 1" "length [''a'', ''b'', ''a'', ''b''] = (4 :: nat)"
    by (simp_all add: new_guard_def)
  have al: "alternates [''a'', ''b'', ''a'', ''b''] 4 1"
    unfolding One_nat_def alternates_Suc by simp
  have "detect_pingpong ?g \<noteq> None"
    using detect_pingpong_iff [of ?g] al unfolding r by simp
  with al show ?thesis by blast
qed

text \<open>A reset guard behaves like a fresh one.\<close>

lemma reset_guard_new: "reset_guard g = new_guard (guard_config g)"
  by (simp add: reset_guard_def new_guard_def)

end
