(* ===== verification/Taint.thy ===== *)
theory Taint
  imports Prelude
begin

text \<open>
  Information-flow labels (\<open>security/taint.rs\<close>): values carry a set of labels, every sink
  blocks a set of labels, and a value reaches a sink only through a check. The label set of
  a value is a HOL set; the order in which the hash set is walked only decides which of the
  blocked labels the error names, so the error carries the labels, the sink and the blocked
  ones.
\<close>

section \<open>Model\<close>

datatype taint_label = ExternalNetwork | UserInput | Pii | Secret | LlmOutput

datatype taint_sink = DisplayToUser | NetworkSend | Storage | ToolExec

record 'a tainted =
  tvalue :: 'a
  labels :: "taint_label set"

datatype taint_error = TaintViolation "taint_label set" taint_sink taint_label

definition tainted_new :: "'a \<Rightarrow> taint_label \<Rightarrow> 'a tainted" where
  "tainted_new v l = \<lparr>tvalue = v, labels = {l}\<rparr>"

definition tainted_clean :: "'a \<Rightarrow> 'a tainted" where
  "tainted_clean v = \<lparr>tvalue = v, labels = {}\<rparr>"

definition taint :: "taint_label \<Rightarrow> 'a tainted \<Rightarrow> 'a tainted" where
  "taint l t = t\<lparr>labels := insert l (labels t)\<rparr>"

definition merge_from :: "'b tainted \<Rightarrow> 'a tainted \<Rightarrow> 'a tainted" where
  "merge_from other t = t\<lparr>labels := labels t \<union> labels other\<rparr>"

fun blocked_labels :: "taint_sink \<Rightarrow> taint_label set" where
  "blocked_labels DisplayToUser = {Secret}"
| "blocked_labels NetworkSend = {Secret, Pii}"
| "blocked_labels Storage = {}"
| "blocked_labels ToolExec = {ExternalNetwork}"

text \<open>The labels in the order the hash set yields them: any enumeration \<open>ls\<close> of the set.\<close>

fun check_labels :: "taint_label set \<Rightarrow> taint_sink \<Rightarrow> taint_label list \<Rightarrow> taint_error + unit" where
  "check_labels all sink [] = Ok ()"
| "check_labels all sink (l # ls) =
     (if l \<in> blocked_labels sink then Err (TaintViolation all sink l)
      else check_labels all sink ls)"

definition check_sink :: "taint_label list \<Rightarrow> 'a tainted \<Rightarrow> taint_sink \<Rightarrow> taint_error + unit" where
  "check_sink order t sink = check_labels (labels t) sink order"

definition unwrap_checked :: "taint_label list \<Rightarrow> 'a tainted \<Rightarrow> taint_sink \<Rightarrow> taint_error + 'a" where
  "unwrap_checked order t sink =
     (case check_sink order t sink of Inl e \<Rightarrow> Err e | Inr _ \<Rightarrow> Ok (tvalue t))"

definition has_label :: "'a tainted \<Rightarrow> taint_label \<Rightarrow> bool" where
  "has_label t l \<longleftrightarrow> l \<in> labels t"

definition declassify :: "taint_label \<Rightarrow> 'a tainted \<Rightarrow> 'a tainted" where
  "declassify l t = t\<lparr>labels := labels t - {l}\<rparr>"

definition enumerates :: "taint_label list \<Rightarrow> 'a tainted \<Rightarrow> bool" where
  "enumerates order t \<longleftrightarrow> set order = labels t"

text \<open>The operations a flow through the tool system is made of.\<close>

datatype 'b taint_op = TaintOp taint_label | MergeOp "'b tainted" | DeclassifyOp taint_label

fun apply_taint_op :: "'b taint_op \<Rightarrow> 'a tainted \<Rightarrow> 'a tainted" where
  "apply_taint_op (TaintOp l) t = taint l t"
| "apply_taint_op (MergeOp other) t = merge_from other t"
| "apply_taint_op (DeclassifyOp l) t = declassify l t"

section \<open>Lemmas\<close>

lemma check_labels_ok: "check_labels all sink ls = Ok () \<longleftrightarrow> set ls \<inter> blocked_labels sink = {}"
  by (induction ls) auto

lemma check_labels_err:
  "check_labels all sink ls = Err e \<Longrightarrow>
     \<exists>l. e = TaintViolation all sink l \<and> l \<in> set ls \<and> l \<in> blocked_labels sink"
  by (induction ls) (auto split: if_splits)

lemma unwrap_checked_ok_iff:
  "enumerates order t \<Longrightarrow>
     unwrap_checked order t sink = Ok v \<longleftrightarrow> v = tvalue t \<and> labels t \<inter> blocked_labels sink = {}"
  using check_labels_ok [of "labels t" sink order]
  by (auto simp: unwrap_checked_def check_sink_def enumerates_def split: sum.splits)

lemma apply_taint_op_keeps:
  "l \<in> labels t \<Longrightarrow> DeclassifyOp l \<noteq> op \<Longrightarrow> l \<in> labels (apply_taint_op op t)"
  by (cases op) (auto simp: taint_def merge_from_def declassify_def)

lemma fold_taint_ops_keeps:
  "l \<in> labels t \<Longrightarrow> DeclassifyOp l \<notin> set ops \<Longrightarrow> l \<in> labels (fold apply_taint_op ops t)"
  by (induction ops arbitrary: t) (auto intro: apply_taint_op_keeps)

lemma taint_op_value [simp]: "tvalue (apply_taint_op op t) = tvalue t"
  by (cases op) (auto simp: taint_def merge_from_def declassify_def)

section \<open>Properties\<close>

text \<open>A value leaves its wrapper through a sink exactly when none of its labels is
  blocked there, in whatever order the label set is walked; otherwise the error names a label
  the value has and the sink blocks.\<close>

theorem unwrap_checked_correct:
  assumes "enumerates order t"
  shows "(labels t \<inter> blocked_labels sink = {} \<longrightarrow> unwrap_checked order t sink = Ok (tvalue t)) \<and>
     (labels t \<inter> blocked_labels sink \<noteq> {} \<longrightarrow>
       (\<exists>l. unwrap_checked order t sink = Err (TaintViolation (labels t) sink l)
          \<and> l \<in> labels t \<and> l \<in> blocked_labels sink))"
proof (cases "unwrap_checked order t sink")
  case (Inl e)
  then have "check_labels (labels t) sink order = Err e"
    by (auto simp: unwrap_checked_def check_sink_def split: sum.splits)
  then obtain l where "e = TaintViolation (labels t) sink l" "l \<in> set order" "l \<in> blocked_labels sink"
    using check_labels_err by blast
  with Inl assms unwrap_checked_ok_iff [OF assms, of sink "tvalue t"] show ?thesis
    by (auto simp: enumerates_def)
next
  case (Inr v)
  with unwrap_checked_ok_iff [OF assms, of sink v] show ?thesis by auto
qed

theorem unwrap_checked_correct_witness:
  "unwrap_checked [Pii] (tainted_new ''user@mail'' Pii) NetworkSend
     = Err (TaintViolation {Pii} NetworkSend Pii)
   \<and> unwrap_checked [Pii] (tainted_new ''user@mail'' Pii) DisplayToUser = Ok ''user@mail''"
proof -
  have en: "enumerates [Pii] (tainted_new ''user@mail'' Pii)"
    by (simp add: enumerates_def tainted_new_def)
  have lab: "labels (tainted_new ''user@mail'' Pii) = {Pii}"
    "tvalue (tainted_new ''user@mail'' Pii) = ''user@mail''" by (simp_all add: tainted_new_def)
  show ?thesis
    using unwrap_checked_correct [OF en, of NetworkSend] unwrap_checked_correct [OF en, of DisplayToUser]
    unfolding lab by simp
qed

text \<open>No laundering. A secret label stays on a value through any sequence of taints,
  merges and declassifications of other labels, so such a value never reaches the network or
  the user, and the computation never changes the value itself.\<close>

theorem secret_never_leaks:
  assumes "has_label t Secret" and "DeclassifyOp Secret \<notin> set ops"
    and "sink = DisplayToUser \<or> sink = NetworkSend"
    and "enumerates order (fold apply_taint_op ops t)"
  shows "\<exists>e. unwrap_checked order (fold apply_taint_op ops t) sink = Err e"
proof -
  have "Secret \<in> labels (fold apply_taint_op ops t)"
    using assms(1,2) by (auto simp: has_label_def intro: fold_taint_ops_keeps)
  moreover have "Secret \<in> blocked_labels sink" using assms(3) by auto
  ultimately show ?thesis using unwrap_checked_ok_iff [OF assms(4), of sink]
    by (cases "unwrap_checked order (fold apply_taint_op ops t) sink") auto
qed

theorem secret_never_leaks_witness:
  "\<exists>e. unwrap_checked [Secret, UserInput]
         (fold apply_taint_op [TaintOp UserInput, DeclassifyOp Pii :: string taint_op]
           (tainted_new ''sk-12345'' Secret)) NetworkSend = Err e"
  by (rule secret_never_leaks)
    (auto simp: has_label_def tainted_new_def enumerates_def taint_def declassify_def)

end
