(* ===== verification/Interfaces.thy ===== *)
theory Interfaces
  imports Prelude
begin

text \<open>
  Contracts that several components of the program share, as locales. Each is interpreted
  on the model's own operations in the theory of the component that provides them:

  \<^item> \<open>bounded_table\<close>: a table with a capacity, changed by operations that keep it within
    the capacity (pending confirmations, tool confirmations, sessions, timers, the action
    ledger);
  \<^item> \<open>window_limiter\<close>: a sliding-window rate limiter (home actions by origin, tools by name);
  \<^item> \<open>prefilter\<close>: a cheap test run before an expensive scan, which must not lose a match
    (prompt-injection scan, memory policy);
  \<^item> \<open>wire_enum\<close>: an enum with a textual form that is parsed back (memory policy columns,
    request origins);
  \<^item> \<open>byte_equality\<close>: the constant-time comparisons of secrets.
\<close>

section \<open>Tables with a capacity\<close>

locale bounded_table =
  fixes size_of :: "'s \<Rightarrow> nat"
    and cap :: "'s \<Rightarrow> nat"
    and op :: "'o \<Rightarrow> 's \<Rightarrow> 's"
    and wf :: "'s \<Rightarrow> bool"
  assumes wf_op: "wf s \<Longrightarrow> wf (op x s)"
    and cap_op: "wf s \<Longrightarrow> cap (op x s) = cap s"
    and bound_op: "wf s \<Longrightarrow> size_of s \<le> cap s \<Longrightarrow> size_of (op x s) \<le> cap s"
begin

lemma wf_run: "wf s \<Longrightarrow> wf (fold op xs s)"
  by (induction xs arbitrary: s) (simp_all add: wf_op)

lemma cap_run: "wf s \<Longrightarrow> cap (fold op xs s) = cap s"
  by (induction xs arbitrary: s) (simp_all add: wf_op cap_op)

lemma bound_run: "wf s \<Longrightarrow> size_of s \<le> cap s \<Longrightarrow> size_of (fold op xs s) \<le> cap s"
proof (induction xs arbitrary: s)
  case (Cons x xs)
  have "size_of (fold op xs (op x s)) \<le> cap (op x s)"
    using Cons.prems by (intro Cons.IH) (simp_all add: wf_op cap_op bound_op)
  then show ?case using Cons.prems(1) by (simp add: cap_op)
qed simp

end

section \<open>Sliding-window rate limiters\<close>

definition recent :: "nat \<Rightarrow> nat \<Rightarrow> nat list \<Rightarrow> nat list" where
  "recent window now bucket = dropWhile (\<lambda>ts. ts < now - window) bucket"

text \<open>The times at which a sequence of timed requests is admitted for one key.\<close>

fun admitted_times :: "(nat \<Rightarrow> 'k \<Rightarrow> 's \<Rightarrow> bool \<times> 's) \<Rightarrow> 'k \<Rightarrow> (nat \<times> 'k) list \<Rightarrow> 's \<Rightarrow> nat list" where
  "admitted_times admit k [] s = []"
| "admitted_times admit k ((now, k') # rs) s =
     (if k' = k \<and> fst (admit now k' s) then [now] else [])
     @ admitted_times admit k rs (snd (admit now k' s))"

definition in_window :: "nat \<Rightarrow> nat \<Rightarrow> nat list \<Rightarrow> nat list" where
  "in_window window t ts = filter (\<lambda>x. t \<le> x \<and> x \<le> t + window) ts"

lemma recent_keeps: "sorted b \<Longrightarrow> x \<in> set b \<Longrightarrow> x \<notin> set (recent w now b) \<Longrightarrow> x < now - w"
  unfolding recent_def by (metis UnE set_append set_takeWhileD takeWhile_dropWhile_id)

lemma recent_suffix: "\<exists>pre. b = pre @ recent w now b \<and> (\<forall>x \<in> set pre. x < now - w)"
  unfolding recent_def by (metis set_takeWhileD takeWhile_dropWhile_id)

locale window_limiter =
  fixes admit :: "nat \<Rightarrow> 'k \<Rightarrow> 's \<Rightarrow> bool \<times> 's"
    and bucket :: "'s \<Rightarrow> 'k \<Rightarrow> nat list"
    and limit :: "'k \<Rightarrow> nat"
    and limited :: "'k \<Rightarrow> bool"
    and window :: nat
  assumes admit_iff: "limited k \<Longrightarrow>
      fst (admit now k s) \<longleftrightarrow> length (recent window now (bucket s k)) < limit k"
    and admit_bucket: "limited k \<Longrightarrow> fst (admit now k s) \<Longrightarrow>
      bucket (snd (admit now k s)) k = recent window now (bucket s k) @ [now]"
    and refuse_bucket: "limited k \<Longrightarrow> \<not> fst (admit now k s) \<Longrightarrow>
      bucket (snd (admit now k s)) k \<in> {bucket s k, recent window now (bucket s k)}"
    and other_bucket: "k' \<noteq> k \<Longrightarrow> bucket (snd (admit now k' s)) k = bucket s k"
begin

definition tracks :: "'k \<Rightarrow> nat list \<Rightarrow> 's \<Rightarrow> nat \<Rightarrow> bool" where
  "tracks k adm s now \<longleftrightarrow> sorted adm \<and> (\<forall>x \<in> set adm. x \<le> now)
     \<and> (\<exists>pre. adm = pre @ bucket s k \<and> (\<forall>x \<in> set pre. x < now - window))
     \<and> (\<forall>t. length (in_window window t adm) \<le> limit k)"

lemma tracks_prefix:
  "sorted adm \<Longrightarrow> adm = pre @ b \<Longrightarrow> \<forall>x \<in> set pre. x < now - window \<Longrightarrow> now \<le> now' \<Longrightarrow>
     \<exists>pre'. adm = pre' @ recent window now' b \<and> (\<forall>x \<in> set pre'. x < now' - window)"
proof -
  assume a: "adm = pre @ b" "\<forall>x \<in> set pre. x < now - window" "now \<le> now'"
  obtain p where p: "b = p @ recent window now' b" "\<forall>x \<in> set p. x < now' - window"
    using recent_suffix by blast
  have "\<forall>x \<in> set (pre @ p). x < now' - window" using a(2,3) p(2) by fastforce
  moreover have "adm = (pre @ p) @ recent window now' b" using a(1) p(1) by simp
  ultimately show ?thesis by blast
qed

lemma tracks_admit:
  assumes "tracks k adm s now" and "now \<le> now'" and "limited k" and "fst (admit now' k s)"
  shows "tracks k (adm @ [now']) (snd (admit now' k s)) now'"
proof -
  let ?b = "recent window now' (bucket s k)"
  from assms(1) obtain pre where "sorted adm" and le: "\<forall>x \<in> set adm. x \<le> now"
    and "adm = pre @ bucket s k" "\<forall>x \<in> set pre. x < now - window"
    and ok: "\<forall>t. length (in_window window t adm) \<le> limit k" by (auto simp: tracks_def)
  from tracks_prefix [OF this(1,3,4) assms(2)] obtain p where p: "adm = p @ ?b"
    "\<forall>x \<in> set p. x < now' - window" by blast
  have "length (in_window window t (adm @ [now'])) \<le> limit k" for t
  proof (cases "t \<le> now' \<and> now' \<le> t + window")
    case True
    then have "in_window window t p = []" using p(2) by (fastforce simp: in_window_def filter_empty_conv)
    then have "in_window window t adm = in_window window t ?b" using p(1) by (simp add: in_window_def)
    then have "length (in_window window t adm) \<le> length ?b" by (simp add: in_window_def)
    moreover have "length ?b < limit k" using admit_iff assms(3,4) by blast
    ultimately show ?thesis by (simp add: in_window_def)
  next
    case False
    then show ?thesis using ok by (auto simp: in_window_def)
  qed
  moreover have "sorted (adm @ [now'])" "\<forall>x \<in> set (adm @ [now']). x \<le> now'"
    using \<open>sorted adm\<close> le assms(2) by (auto simp: sorted_append)
  moreover have "adm @ [now'] = p @ bucket (snd (admit now' k s)) k"
    using p(1) admit_bucket [OF assms(3,4)] by simp
  ultimately show ?thesis using p(2) unfolding tracks_def by blast
qed

lemma tracks_refuse:
  assumes "tracks k adm s now" and "now \<le> now'" and "limited k" and "\<not> fst (admit now' k s)"
  shows "tracks k adm (snd (admit now' k s)) now'"
proof -
  from assms(1) obtain pre where t: "sorted adm" "adm = pre @ bucket s k" "\<forall>x \<in> set pre. x < now - window"
    by (auto simp: tracks_def)
  have "\<exists>p. adm = p @ bucket (snd (admit now' k s)) k \<and> (\<forall>x \<in> set p. x < now' - window)"
    using refuse_bucket [OF assms(3,4)] tracks_prefix [OF t assms(2)] t(2,3) assms(2) by fastforce
  moreover have "\<forall>x \<in> set adm. x \<le> now'" using assms(1,2) by (auto simp: tracks_def)
  ultimately show ?thesis using assms(1) by (simp add: tracks_def)
qed

lemma tracks_other:
  assumes "tracks k adm s now" and "now \<le> now'" and "k' \<noteq> k"
  shows "tracks k adm (snd (admit now' k' s)) now'"
  using assms other_bucket [OF assms(3)] by (fastforce simp: tracks_def)

lemma tracks_run:
  "tracks k adm s now \<Longrightarrow> limited k \<Longrightarrow> sorted (map fst rs) \<Longrightarrow> \<forall>r \<in> set rs. now \<le> fst r \<Longrightarrow>
     \<forall>t. length (in_window window t (adm @ admitted_times admit k rs s)) \<le> limit k"
proof (induction rs arbitrary: adm s now)
  case (Cons r rs)
  obtain now' k' where r: "r = (now', k')" by force
  let ?new = "if k' = k \<and> fst (admit now' k' s) then [now'] else []"
  have "now \<le> now'" using Cons.prems(4) r by simp
  then have "tracks k (adm @ ?new) (snd (admit now' k' s)) now'"
    using Cons.prems(1,2) tracks_admit [of k adm s now now'] tracks_refuse [of k adm s now now']
      tracks_other [of k adm s now now' k'] by (cases "k' = k") auto
  then have "\<forall>t. length (in_window window t ((adm @ ?new) @ admitted_times admit k rs (snd (admit now' k' s)))) \<le> limit k"
    using Cons.prems r by (intro Cons.IH) auto
  then show ?case using r by simp
qed (simp add: tracks_def)

lemma window_bound:
  assumes "limited k" and "bucket s k = []" and "sorted (map fst rs)"
  shows "length (in_window window t (admitted_times admit k rs s)) \<le> limit k"
proof -
  have "tracks k [] s 0" using assms(2) by (simp add: tracks_def in_window_def)
  then show ?thesis using tracks_run [of k "[]" s 0 rs] assms(1,3) by simp
qed

end

section \<open>Prefilters\<close>

locale prefilter =
  fixes gate :: "'a \<Rightarrow> bool"
    and scan_hit :: "'a \<Rightarrow> bool"
  assumes gate_covers: "scan_hit x \<Longrightarrow> gate x"
begin

lemma gated_scan: "(gate x \<and> scan_hit x) = scan_hit x"
  using gate_covers by blast

lemma closed_gate: "\<not> gate x \<Longrightarrow> \<not> scan_hit x"
  using gate_covers by blast

end

section \<open>Enums with a textual form\<close>

locale wire_enum =
  fixes as_text :: "'a \<Rightarrow> string"
    and of_text :: "string \<Rightarrow> 'a"
  assumes of_as: "of_text (as_text x) = x"
    and of_text_norm: "of_text (to_ascii_lowercase (trim t)) = of_text t"
begin

lemma as_text_inj: "as_text x = as_text y \<longleftrightarrow> x = y"
  using of_as by metis

lemma of_text_spelling: "to_ascii_lowercase (trim t) = as_text x \<Longrightarrow> of_text t = x"
  using of_as of_text_norm by metis

end

section \<open>Comparing secrets\<close>

text \<open>The accumulator of the comparison loops: the differences of the byte pairs, or-ed.\<close>

unbundle bit_operations_syntax

definition byte :: "char \<Rightarrow> 8 word" where
  "byte c = of_nat (code c)"

definition byte_diff :: "char list \<Rightarrow> char list \<Rightarrow> 8 word" where
  "byte_diff a b = foldl (\<lambda>diff (x, y). diff OR (byte x XOR byte y)) 0 (zip a b)"

lemma byte_inj: "byte x = byte y \<longleftrightarrow> x = y"
proof
  assume "byte x = byte y"
  then have "unat (byte x) = unat (byte y)" by simp
  then have "code x mod 256 = code y mod 256"
    by (simp add: byte_def unsigned_of_nat take_bit_nat_def)
  then show "x = y" using code_lt_256 [of x] code_lt_256 [of y] by simp
qed simp

lemma or_zero_iff: "(a :: 8 word) OR b = 0 \<longleftrightarrow> a = 0 \<and> b = 0"
  by (metis or.right_neutral or_eq_0_iff)

lemma xor_zero_iff: "(a :: 8 word) XOR b = 0 \<longleftrightarrow> a = b"
  by (metis xor.assoc xor.right_neutral xor_self_eq xor.commute)

lemma foldl_or_zero:
  "foldl (\<lambda>diff (x, y). diff OR (byte x XOR byte y)) d xys = 0 \<longleftrightarrow>
     d = 0 \<and> (\<forall>(x, y) \<in> set xys. x = y)"
  by (induction xys arbitrary: d) (auto simp: or_zero_iff xor_zero_iff byte_inj)

lemma byte_diff_zero: "length a = length b \<Longrightarrow> byte_diff a b = 0 \<longleftrightarrow> a = b"
  unfolding byte_diff_def foldl_or_zero
  by (induction a b rule: list_induct2) auto

locale byte_equality =
  fixes eq :: "char list \<Rightarrow> char list \<Rightarrow> bool"
  assumes eq_correct: "eq a b \<longleftrightarrow> a = b"
begin

lemma eq_text: "eq (utf8 s) (utf8 t) \<longleftrightarrow> s = t"
  by (simp add: eq_correct)

end

end
