(* ===== verification/MemoryPolicy.thy ===== *)
theory MemoryPolicy
  imports Injection
begin

text \<open>
  The shared-space memory policy (\<open>memory/policy.rs\<close>): which memories may be written by
  voice, read aloud, injected into the shared prompt or sent to the anonymising proxy. Facts
  are classified by substring tables; each table sits behind a cheap trigger gate. The lemmas
  show that the private and cautious gates lose nothing, and determine exactly what the
  restricted-secret gate loses.
\<close>

section \<open>Data\<close>

datatype memory_scope = ScopeSession | ScopeHousehold | ScopePerson | ScopePrivate

datatype memory_sensitivity = SensNormal | SensCautious | SensRestricted

datatype spoken_memory_policy = SpokenAllow | SpokenConfirm | SpokenAppOnly | SpokenDeny

datatype identity_confidence = IdUnknown | IdLow | IdMedium | IdHigh

datatype memory_disclosure = DiscSpeak | DiscConfirm | DiscAppOnly | DiscDeny

datatype memory_disclosure_class =
  ClassPublic | ClassHousehold | ClassPerson | ClassSensitive | ClassPrivate | ClassRestricted

record memory_policy_metadata =
  scope :: memory_scope
  sensitivity :: memory_sensitivity
  spoken_policy :: spoken_memory_policy

record memory_read_context =
  identity_confidence :: identity_confidence
  explicit_named_person :: bool
  explicit_private_intent :: bool
  shared_space_voice :: bool

record memory_policy_decision =
  allowed :: bool
  disclosure :: memory_disclosure
  disclosure_class :: memory_disclosure_class
  reason :: string

fun confidence_rank :: "identity_confidence \<Rightarrow> nat" where
  "confidence_rank IdUnknown = 0"
| "confidence_rank IdLow = 1"
| "confidence_rank IdMedium = 2"
| "confidence_rank IdHigh = 3"

text \<open>The derived \<open>Ord\<close> of \<open>IdentityConfidence\<close>: the order of the variants.\<close>

instantiation identity_confidence :: linorder
begin

definition less_eq_identity_confidence :: "identity_confidence \<Rightarrow> identity_confidence \<Rightarrow> bool" where
  "a \<le> b \<longleftrightarrow> confidence_rank a \<le> confidence_rank b"

definition less_identity_confidence :: "identity_confidence \<Rightarrow> identity_confidence \<Rightarrow> bool" where
  "a < b \<longleftrightarrow> confidence_rank a < confidence_rank b"

instance
proof
  fix a b :: identity_confidence
  assume "a \<le> b" "b \<le> a"
  then show "a = b"
    by (cases a; cases b) (simp_all add: less_eq_identity_confidence_def)
qed (auto simp: less_eq_identity_confidence_def less_identity_confidence_def)

end

fun identity_confidence_as_str :: "identity_confidence \<Rightarrow> string" where
  "identity_confidence_as_str IdUnknown = ''unknown''"
| "identity_confidence_as_str IdLow = ''low''"
| "identity_confidence_as_str IdMedium = ''medium''"
| "identity_confidence_as_str IdHigh = ''high''"

fun scope_as_str :: "memory_scope \<Rightarrow> string" where
  "scope_as_str ScopeSession = ''session''"
| "scope_as_str ScopeHousehold = ''household''"
| "scope_as_str ScopePerson = ''person''"
| "scope_as_str ScopePrivate = ''private''"

definition scope_from_storage :: "string \<Rightarrow> memory_scope" where
  "scope_from_storage value =
     (let v = to_ascii_lowercase (trim value) in
      if v = ''session'' then ScopeSession
      else if v = ''person'' then ScopePerson
      else if v = ''private'' then ScopePrivate
      else ScopeHousehold)"

fun sensitivity_as_str :: "memory_sensitivity \<Rightarrow> string" where
  "sensitivity_as_str SensNormal = ''normal''"
| "sensitivity_as_str SensCautious = ''cautious''"
| "sensitivity_as_str SensRestricted = ''restricted''"

definition sensitivity_from_storage :: "string \<Rightarrow> memory_sensitivity" where
  "sensitivity_from_storage value =
     (let v = to_ascii_lowercase (trim value) in
      if v = ''cautious'' then SensCautious
      else if v = ''restricted'' then SensRestricted
      else SensNormal)"

fun spoken_policy_as_str :: "spoken_memory_policy \<Rightarrow> string" where
  "spoken_policy_as_str SpokenAllow = ''allow''"
| "spoken_policy_as_str SpokenConfirm = ''confirm''"
| "spoken_policy_as_str SpokenAppOnly = ''app_only''"
| "spoken_policy_as_str SpokenDeny = ''deny''"

definition spoken_policy_from_storage :: "string \<Rightarrow> spoken_memory_policy" where
  "spoken_policy_from_storage value =
     (let v = to_ascii_lowercase (trim value) in
      if v = ''confirm'' then SpokenConfirm
      else if v = ''app_only'' then SpokenAppOnly
      else if v = ''deny'' then SpokenDeny
      else SpokenAllow)"

fun disclosure_class_as_str :: "memory_disclosure_class \<Rightarrow> string" where
  "disclosure_class_as_str ClassPublic = ''public''"
| "disclosure_class_as_str ClassHousehold = ''household''"
| "disclosure_class_as_str ClassPerson = ''person''"
| "disclosure_class_as_str ClassSensitive = ''sensitive''"
| "disclosure_class_as_str ClassPrivate = ''private''"
| "disclosure_class_as_str ClassRestricted = ''restricted''"

section \<open>Substring tables and their gates\<close>

definition shared_room_voice :: memory_read_context where
  "shared_room_voice =
     \<lparr>identity_confidence = IdUnknown, explicit_named_person = False,
      explicit_private_intent = False, shared_space_voice = True\<rparr>"

definition contains_any :: "string \<Rightarrow> string list \<Rightarrow> bool" where
  "contains_any haystack needles = list_ex (str_contains haystack) needles"

definition starts_with_any :: "string \<Rightarrow> string list \<Rightarrow> bool" where
  "starts_with_any txt prefixes = list_ex (starts_with txt) prefixes"

definition text_mentions_named_person :: "string \<Rightarrow> bool" where
  "text_mentions_named_person lower \<longleftrightarrow>
    starts_with_any lower
     [''what does '', ''what did '', ''tell me about '', ''who is '', ''does '', ''is '',
     ''ask '', ''call '', ''text '', ''message '', ''remind '']
    \<or> contains_any lower
     ['' my wife'', '' my husband'', '' my son'', '' my daughter'', '' my mom'',
     '' my mother'', '' my dad'', '' my father'', '' my friend'', '' my partner'']"

definition text_has_private_intent :: "string \<Rightarrow> bool" where
  "text_has_private_intent lower = contains_any lower
     [''private'', ''privately'', ''for me only'',
     (''don'' @ [CHR 0x27] @ ''t say this aloud''), ''do not say this aloud'']"

definition memory_read_context_from_text ::
  "string \<Rightarrow> identity_confidence \<Rightarrow> bool \<Rightarrow> memory_read_context" where
  "memory_read_context_from_text txt conf shared =
     (let lower = to_ascii_lowercase (trim txt) in
      \<lparr>identity_confidence = conf,
       explicit_named_person = text_mentions_named_person lower,
       explicit_private_intent = text_has_private_intent lower,
       shared_space_voice = shared\<rparr>)"

definition policy_contains_ascii_ci :: "string \<Rightarrow> string \<Rightarrow> bool" where
  "policy_contains_ascii_ci haystack needle =
     (if needle = [] \<or> str_len haystack < str_len needle then False
      else list_ex (\<lambda>window. list_all (\<lambda>(l, r). ascii_lower l = ascii_lower r) (zip window (utf8 needle)))
             (windows (str_len needle) (utf8 haystack)))"

definition restricted_triggers :: "string list" where
  "restricted_triggers =
    [''password'', ''passcode'', ''pass:'', '' pass:'', ''one-time'', ''one time'', ''otp'',
     ''2fa'', ''recovery'', ''seed phrase'', ''private key'', ''secret key'', ''api key'',
     ''access token'', ''gate code'', ''door code'', ''garage code'', ''alarm code'',
     ''security code'', ''safe code'', ''combination'', '' lock combo'', ''credit card'',
     ''card number'', ''cvv'', ''account number'', ''confirmation number'', ''bank account'',
     ''routing number'', ''social security'', ''ssn'', ''passport'', ''driver license'',
     ''government id'', '' is in '', '' are in '', '' is inside '', '' are inside '',
     '' is kept '', '' are kept '', '' is stored '', '' are stored '', '' is hidden '',
     '' are hidden '', '' under '', '' behind '', ''birth certificate'', ''house key'',
     ''spare key'', ''safe key'', ''car title'', ''property deed'', ''documents are'',
     ''valuables are'', ''important documents'']"

definition needs_restricted_secret_scan :: "string \<Rightarrow> bool" where
  "needs_restricted_secret_scan txt = list_ex (policy_contains_ascii_ci txt) restricted_triggers"

definition private_triggers :: "string list" where
  "private_triggers =
    [''private'', ''for me only'', ''aloud'', ''remember this'']"

definition needs_private_intent_scan :: "string \<Rightarrow> bool" where
  "needs_private_intent_scan txt = list_ex (policy_contains_ascii_ci txt) private_triggers"

definition cautious_triggers :: "string list" where
  "cautious_triggers =
    [''medical'', ''mental health'', ''therapy'', ''legal'', ''secret'', ''medication'',
     ''prescription'', ''diagnosed'', ''diabetes'', ''cancer'', ''depression'', ''anxiety'',
     ''hypertension'', ''epilepsy'', ''asthma'', ''insulin'', ''chemotherapy'', ''dialysis'']"

definition needs_cautious_scan :: "string \<Rightarrow> bool" where
  "needs_cautious_scan txt = list_ex (policy_contains_ascii_ci txt) cautious_triggers"

definition needs_policy_content_lower :: "string \<Rightarrow> bool" where
  "needs_policy_content_lower content \<longleftrightarrow>
     needs_restricted_secret_scan content \<or> needs_private_intent_scan content
     \<or> needs_cautious_scan content"

definition private_intent_phrases :: "string list" where
  "private_intent_phrases =
    [''remember this privately'', ''private memory'', ''private note'', ''for me only'',
     ''do not say this aloud'', (''don'' @ [CHR 0x27] @ ''t say this aloud'')]"

definition has_private_intent :: "string \<Rightarrow> bool" where
  "has_private_intent lower = contains_any lower private_intent_phrases"

definition cautious_phrases :: "string list" where
  "cautious_phrases =
    [''medical diagnosis'', ''mental health'', ''therapy session'', ''legal problem'',
     ''personal secret'', ''medication'', ''prescription'', ''diagnosed with'',
     ''for diabetes'', ''for cancer'', ''for depression'', ''for anxiety'',
     ''for hypertension'', ''for epilepsy'', ''for asthma'', ''insulin'', ''chemotherapy'',
     ''dialysis'']"

definition is_cautious_memory :: "string \<Rightarrow> string \<Rightarrow> bool" where
  "is_cautious_memory kind lower \<longleftrightarrow>
     eq_ignore_ascii_case kind ''private''
     \<or> (needs_cautious_scan lower \<and> contains_any lower cautious_phrases)"

definition secret_phrases :: "string list" where
  "secret_phrases =
    [''password'', ''pass:'', '' pass:'', ''passcode'', ''one-time code'', ''one time code'',
     ''otp'', ''2fa code'', ''recovery code'', ''seed phrase'', ''recovery phrase'',
     ''private key'', ''secret key'', ''api key'', ''access token'']"

definition access_code_phrases :: "string list" where
  "access_code_phrases =
    [''gate code'', ''door code'', ''garage code'', ''alarm code'', ''security code'',
     ''safe code'', ''safe combination'', ''lock combination'', ''lock combo'',
     ''bike lock combo'', ''bicycle lock combo'', ''bike lock combination'',
     ''bicycle lock combination'']"

definition account_phrases :: "string list" where
  "account_phrases =
    [''credit card'', ''card number'', ''cvv'', ''account number'', ''confirmation number'',
     ''bank account'', ''routing number'', ''social security'', ''ssn'', ''passport number'',
     ''driver license number'', ''government id'']"

definition location_phrases :: "string list" where
  "location_phrases =
    ['' is in '', '' are in '', '' is inside '', '' are inside '', '' is kept in '',
     '' are kept in '', '' is kept at '', '' are kept at '', '' is stored in '',
     '' are stored in '', '' is stored at '', '' are stored at '', '' is hidden in '',
     '' are hidden in '', '' is hidden under '', '' are hidden under '', '' under '',
     '' behind '']"

definition contains_location_phrase :: "string \<Rightarrow> bool" where
  "contains_location_phrase lower = contains_any lower location_phrases"

definition sensitive_objects :: "string list" where
  "sensitive_objects =
    [''passport'', ''passports'', ''birth certificate'', ''birth certificates'',
     ''social security card'', ''ssn card'', ''government id'', ''house key'', ''spare key'',
     ''safe key'', ''car title'', ''property deed'']"

definition safe_location_phrases :: "string list" where
  "safe_location_phrases =
    [''documents are in the safe'', ''documents are inside the safe'',
     ''important documents are in'', ''important documents are kept'',
     ''valuables are in the safe'', ''valuables are inside the safe'']"

definition describes_sensitive_location :: "string \<Rightarrow> bool" where
  "describes_sensitive_location lower =
     (if contains_any lower sensitive_objects \<and> contains_location_phrase lower then True
      else contains_any lower safe_location_phrases)"

definition restricted_secret_reason :: "string \<Rightarrow> string option" where
  "restricted_secret_reason lower =
     (if contains_any lower secret_phrases then
        Some ''I should not store passwords, tokens, keys, or one-time codes as voice memory.''
      else if contains_any lower access_code_phrases then
        Some ''I should not store household access codes or lock combinations as voice memory.''
      else if contains_any lower account_phrases then
        Some ''I should not store payment, banking, or government ID details as voice memory.''
      else if describes_sensitive_location lower then
        Some ''I should not store sensitive document, key, or safe locations as voice memory.''
      else None)"

section \<open>Decisions\<close>

definition classify_memory :: "memory_policy_metadata \<Rightarrow> memory_disclosure_class" where
  "classify_memory m =
     (if sensitivity m = SensRestricted \<or> spoken_policy m = SpokenDeny then ClassRestricted
      else if scope m = ScopePrivate then ClassPrivate
      else if sensitivity m = SensCautious \<or> spoken_policy m = SpokenConfirm then ClassSensitive
      else (case scope m of
          ScopeSession \<Rightarrow> ClassHousehold
        | ScopeHousehold \<Rightarrow> ClassHousehold
        | ScopePerson \<Rightarrow> ClassPerson
        | ScopePrivate \<Rightarrow> ClassPrivate))"

definition decision_for_metadata ::
  "memory_policy_metadata \<Rightarrow> bool \<Rightarrow> memory_disclosure \<Rightarrow> string \<Rightarrow> memory_policy_decision" where
  "decision_for_metadata m ok d why =
     \<lparr>allowed = ok, disclosure = d, disclosure_class = classify_memory m, reason = why\<rparr>"

definition restricted_decision :: "string \<Rightarrow> memory_policy_decision" where
  "restricted_decision why =
     \<lparr>allowed = False, disclosure = DiscDeny, disclosure_class = ClassRestricted, reason = why\<rparr>"

text \<open>The match that both inference functions end with.\<close>

definition spoken_policy_for :: "memory_scope \<Rightarrow> memory_sensitivity \<Rightarrow> spoken_memory_policy" where
  "spoken_policy_for sc se =
     (if se = SensRestricted then SpokenDeny
      else if sc = ScopePrivate then SpokenAppOnly
      else if se = SensCautious then SpokenConfirm
      else SpokenAllow)"

definition kind_is_person :: "string \<Rightarrow> bool" where
  "kind_is_person kind_lower \<longleftrightarrow>
     kind_lower = ''person'' \<or> starts_with kind_lower ''person_''
     \<or> kind_lower = ''person-linked'' \<or> kind_lower = ''person_linked''"

definition infer_metadata_kind_only :: "string \<Rightarrow> memory_policy_metadata" where
  "infer_metadata_kind_only kind_lower =
     (let private_intent = (kind_lower = ''private'' \<or> starts_with kind_lower ''private_'');
          sc = (if private_intent then ScopePrivate
                else if kind_is_person kind_lower then ScopePerson else ScopeHousehold);
          se = (if private_intent then SensCautious else SensNormal)
      in \<lparr>scope = sc, sensitivity = se, spoken_policy = spoken_policy_for sc se\<rparr>)"

definition infer_metadata_lower :: "string \<Rightarrow> string \<Rightarrow> string \<Rightarrow> memory_policy_metadata" where
  "infer_metadata_lower kind kind_lower content_lower =
     (let private_intent = (kind_lower = ''private'' \<or> starts_with kind_lower ''private_''
            \<or> (needs_private_intent_scan content_lower \<and> has_private_intent content_lower));
          restricted = (needs_restricted_secret_scan content_lower
            \<and> restricted_secret_reason content_lower \<noteq> None);
          cautious = is_cautious_memory kind content_lower;
          sc = (if private_intent then ScopePrivate
                else if kind_is_person kind_lower then ScopePerson else ScopeHousehold);
          se = (if restricted then SensRestricted
                else if cautious \<or> private_intent then SensCautious else SensNormal)
      in \<lparr>scope = sc, sensitivity = se, spoken_policy = spoken_policy_for sc se\<rparr>)"

definition infer_metadata :: "string \<Rightarrow> string \<Rightarrow> memory_policy_metadata" where
  "infer_metadata kind content =
     (let kind_lower = to_lowercase (trim kind) in
      if \<not> needs_policy_content_lower content then infer_metadata_kind_only kind_lower
      else infer_metadata_lower kind kind_lower (to_lowercase content))"

definition private_write_reason :: string where
  "private_write_reason = ''Private personal memory requires an explicit app-backed flow in V1.''"

definition household_write_reason :: string where
  "household_write_reason = ''Memory is safe for household-shared storage.''"

definition assess_memory_write :: "string \<Rightarrow> string \<Rightarrow> memory_policy_decision" where
  "assess_memory_write kind content =
     (let kind_lower = to_lowercase (trim kind) in
      if needs_policy_content_lower content then
        (let content_lower = to_lowercase content;
             secret = (if needs_restricted_secret_scan content_lower
                       then restricted_secret_reason content_lower else None)
         in case secret of
              Some why \<Rightarrow> restricted_decision why
            | None \<Rightarrow>
                (let m = infer_metadata_lower kind kind_lower content_lower in
                 if scope m = ScopePrivate
                 then decision_for_metadata m False DiscAppOnly private_write_reason
                 else decision_for_metadata m True DiscSpeak household_write_reason))
      else
        (let m = infer_metadata_kind_only kind_lower in
         if scope m = ScopePrivate
         then decision_for_metadata m False DiscAppOnly private_write_reason
         else decision_for_metadata m True DiscSpeak household_write_reason))"

definition assess_memory_read ::
  "memory_policy_metadata \<Rightarrow> memory_read_context \<Rightarrow> memory_policy_decision" where
  "assess_memory_read m ctx =
     (if spoken_policy m = SpokenDeny \<or> sensitivity m = SensRestricted
      then decision_for_metadata m False DiscDeny ''Memory is restricted and must not be spoken.''
      else if scope m = ScopeSession \<or> scope m = ScopeHousehold then
        (case spoken_policy m of
           SpokenAllow \<Rightarrow> decision_for_metadata m True DiscSpeak
             ''Household memory is safe for shared-space use.''
         | SpokenConfirm \<Rightarrow> decision_for_metadata m False DiscConfirm
             ''Cautious household memory requires confirmation before speaking.''
         | SpokenAppOnly \<Rightarrow> decision_for_metadata m False DiscAppOnly
             ''Memory should be shown in the app instead of spoken.''
         | SpokenDeny \<Rightarrow> decision_for_metadata m False DiscDeny
             ''Memory policy denies spoken disclosure.'')
      else if scope m = ScopePerson then
        (if explicit_named_person ctx \<or> identity_confidence ctx \<ge> IdMedium
         then decision_for_metadata m True DiscSpeak
             ''Person-linked household memory is eligible in this context.''
         else decision_for_metadata m False DiscConfirm
             ''Person-linked memory needs explicit naming or stronger identity confidence.'')
      else
        (if explicit_private_intent ctx \<and> \<not> shared_space_voice ctx
         then decision_for_metadata m False DiscAppOnly
             ''Private memory should be presented through a personal interface.''
         else decision_for_metadata m False DiscDeny
             ''Private memory is not spoken in shared-room voice.''))"

datatype escalation_policy_kind = LocalOnly | Anonymized

definition escalation_policy :: "memory_policy_metadata \<Rightarrow> escalation_policy_kind" where
  "escalation_policy m =
     (if scope m = ScopePrivate \<or> sensitivity m = SensRestricted \<or> sensitivity m = SensCautious
      then LocalOnly else Anonymized)"

definition eligible_for_escalation :: "string \<Rightarrow> string \<Rightarrow> bool" where
  "eligible_for_escalation kind content =
     (if eq_ignore_ascii_case kind ''identity'' then False
      else escalation_policy (infer_metadata kind content) = Anonymized)"

definition may_inject_into_shared_prompt :: "string \<Rightarrow> string \<Rightarrow> bool" where
  "may_inject_into_shared_prompt kind content =
     allowed (assess_memory_read (infer_metadata kind content) shared_room_voice)"

section \<open>Vocabulary for the anonymising proxy\<close>

definition STOP_WORDS :: "string list" where
  "STOP_WORDS =
    [''User'', ''Users'', ''The'', ''A'', ''An'', ''My'', ''Our'', ''Your'', ''His'',
     ''Her'', ''Their'', ''Its'', ''This'', ''That'', ''These'', ''Those'', ''There'',
     ''Here'', ''We'', ''You'', ''He'', ''She'', ''They'', ''It'', ''I'']"

definition alpha_part :: "string \<Rightarrow> string" where
  "alpha_part w = filter is_alphabetic w"

definition is_proper :: "string \<Rightarrow> bool" where
  "is_proper w \<longleftrightarrow>
     (let alpha = alpha_part w in
      str_len alpha > 1
      \<and> (case alpha of [] \<Rightarrow> False | c # _ \<Rightarrow> is_uppercase c)
      \<and> alpha \<notin> set STOP_WORDS)"

definition push_new :: "'a list \<Rightarrow> 'a \<Rightarrow> 'a list" where
  "push_new terms t = (if t \<in> set terms then terms else terms @ [t])"

function extract_vocab_loop :: "string list \<Rightarrow> string list \<Rightarrow> string list" where
  "extract_vocab_loop terms [] = terms"
| "extract_vocab_loop terms (w # ws) =
     (if is_proper w then
        (let run = map alpha_part (w # takeWhile is_proper ws);
             terms1 = push_new terms (join_str '' '' run);
             terms2 = (if length run > 1 then push_new terms1 (hd run) else terms1)
         in extract_vocab_loop terms2 (dropWhile is_proper ws))
      else extract_vocab_loop terms ws)"
  by pat_completeness auto
termination
  by (relation "measure (\<lambda>(terms, ws). length ws)") (auto simp: length_dropWhile_le le_imp_less_Suc)

definition extract_vocab_terms :: "string \<Rightarrow> string list" where
  "extract_vocab_terms content = extract_vocab_loop [] (split_whitespace content)"

section \<open>Gates cover their tables\<close>

lemma policy_ci [simp, code]: "policy_contains_ascii_ci = contains_ascii_ci"
  by (intro ext) (simp add: policy_contains_ascii_ci_def contains_ascii_ci_def)

definition covers :: "string list \<Rightarrow> string list \<Rightarrow> bool" where
  "covers triggers phrases =
     list_all (\<lambda>p. list_ex (\<lambda>t. t \<noteq> [] \<and> list_all is_ascii t \<and> str_contains p t) triggers) phrases"

lemma lower_hit:
  assumes "str_contains (to_lowercase s) n" and "list_all is_ascii n" and "n \<noteq> []"
  shows "contains_ascii_ci s n"
proof -
  obtain a b where ab: "map char_lower s = a @ n @ b"
    using assms(1) by (auto simp: str_contains_iff to_lowercase_def)
  then obtain a' m b' where "s = a' @ m @ b'" "map char_lower m = n"
    by (auto simp: map_eq_append_conv append_eq_map_conv)
  then show ?thesis using assms(2,3) by (rule contains_ascii_ci_intro)
qed

lemma covers_hit:
  assumes "covers triggers phrases" and "contains_any (to_lowercase s) phrases"
  shows "list_ex (contains_ascii_ci s) triggers"
proof -
  obtain p where p: "p \<in> set phrases" "str_contains (to_lowercase s) p"
    using assms(2) by (auto simp: contains_any_def list_ex_iff)
  then obtain t where t: "t \<in> set triggers" "t \<noteq> []" "list_all is_ascii t" "str_contains p t"
    using assms(1) by (auto simp: covers_def list_all_iff list_ex_iff)
  then have "contains_ascii_ci s t"
    using p(2) str_contains_trans lower_hit by blast
  then show ?thesis using t(1) by (auto simp: list_ex_iff)
qed

lemma private_covers: "covers private_triggers private_intent_phrases"
  by code_simp

lemma cautious_covers: "covers cautious_triggers cautious_phrases"
  by code_simp

lemma secret_covers: "covers restricted_triggers secret_phrases"
  by code_simp

lemma account_covers: "covers restricted_triggers account_phrases"
  by code_simp

lemma covers_mono: "covers ts phrases \<Longrightarrow> set ts \<subseteq> set triggers \<Longrightarrow> covers triggers phrases"
  by (auto simp: covers_def list_all_iff list_ex_iff) blast

lemma location_covers: "covers restricted_triggers location_phrases"
proof (rule covers_mono)
  show "covers ['' is in '', '' are in '', '' is inside '', '' are inside '', '' is kept '', '' are kept '',
     '' is stored '', '' are stored '', '' is hidden '', '' are hidden '', '' under '', '' behind '']
     location_phrases" by code_simp
qed (simp add: restricted_triggers_def)

lemma safe_location_covers: "covers restricted_triggers safe_location_phrases"
  by code_simp

lemma access_code_covers:
  "covers restricted_triggers (filter (\<lambda>p. p \<noteq> ''lock combo'') access_code_phrases)"
  by code_simp

lemma lock_combo_trigger: "'' lock combo'' \<in> set restricted_triggers"
  by code_simp

text \<open>A restricted content that the trigger gate also sees: anything but a text whose only
  mention of \<open>lock combo\<close> is not preceded by a blank.\<close>

definition gate_visible :: "string \<Rightarrow> bool" where
  "gate_visible lower \<longleftrightarrow> (str_contains lower ''lock combo'' \<longrightarrow> str_contains lower '' lock combo'')"

definition restricted_hit :: "string \<Rightarrow> bool" where
  "restricted_hit s \<longleftrightarrow>
     restricted_secret_reason (to_lowercase s) \<noteq> None \<and> gate_visible (to_lowercase s)"

lemma access_code_gate:
  assumes "contains_any (to_lowercase s) access_code_phrases" and "gate_visible (to_lowercase s)"
  shows "list_ex (contains_ascii_ci s) restricted_triggers"
proof (cases "str_contains (to_lowercase s) ''lock combo''")
  case True
  then have "str_contains (to_lowercase s) '' lock combo''" using assms(2) by (simp add: gate_visible_def)
  then have "contains_ascii_ci s '' lock combo''" by (rule lower_hit) (simp_all add: is_ascii_def)
  then show ?thesis using lock_combo_trigger by (auto simp: list_ex_iff)
next
  case False
  then have "contains_any (to_lowercase s) (filter (\<lambda>p. p \<noteq> ''lock combo'') access_code_phrases)"
    using assms(1) by (auto simp: contains_any_def list_ex_iff)
  then show ?thesis by (rule covers_hit [OF access_code_covers])
qed

lemma restricted_gate_covers:
  assumes "restricted_hit s"
  shows "needs_restricted_secret_scan s"
proof -
  have vis: "gate_visible (to_lowercase s)" and "restricted_secret_reason (to_lowercase s) \<noteq> None"
    using assms by (auto simp: restricted_hit_def)
  then consider "contains_any (to_lowercase s) secret_phrases"
    | "contains_any (to_lowercase s) access_code_phrases"
    | "contains_any (to_lowercase s) account_phrases"
    | "contains_any (to_lowercase s) location_phrases"
    | "contains_any (to_lowercase s) safe_location_phrases"
    by (auto simp: restricted_secret_reason_def describes_sensitive_location_def
        contains_location_phrase_def split: if_splits)
  then show ?thesis
    unfolding needs_restricted_secret_scan_def policy_ci
    by cases (blast intro: covers_hit secret_covers account_covers location_covers
        safe_location_covers access_code_gate [OF _ vis])+
qed

interpretation private_gate:
  prefilter needs_private_intent_scan "\<lambda>s. has_private_intent (to_lowercase s)"
  by unfold_locales
    (auto simp: needs_private_intent_scan_def has_private_intent_def intro: covers_hit private_covers)

interpretation cautious_gate:
  prefilter needs_cautious_scan "\<lambda>s. contains_any (to_lowercase s) cautious_phrases"
  by unfold_locales (auto simp: needs_cautious_scan_def intro: covers_hit cautious_covers)

interpretation restricted_gate: prefilter needs_restricted_secret_scan restricted_hit
  by unfold_locales (rule restricted_gate_covers)

interpretation scope_column: wire_enum scope_as_str scope_from_storage
proof
  show "scope_from_storage (scope_as_str x) = x" for x by (cases x) (simp_all, code_simp+)
  show "scope_from_storage (to_ascii_lowercase (trim t)) = scope_from_storage t" for t
    by (simp add: scope_from_storage_def norm_idem)
qed

interpretation sensitivity_column: wire_enum sensitivity_as_str sensitivity_from_storage
proof
  show "sensitivity_from_storage (sensitivity_as_str x) = x" for x by (cases x) (simp_all, code_simp+)
  show "sensitivity_from_storage (to_ascii_lowercase (trim t)) = sensitivity_from_storage t" for t
    by (simp add: sensitivity_from_storage_def norm_idem)
qed

interpretation spoken_policy_column: wire_enum spoken_policy_as_str spoken_policy_from_storage
proof
  show "spoken_policy_from_storage (spoken_policy_as_str x) = x" for x by (cases x) (simp_all, code_simp+)
  show "spoken_policy_from_storage (to_ascii_lowercase (trim t)) = spoken_policy_from_storage t" for t
    by (simp add: spoken_policy_from_storage_def norm_idem)
qed

section \<open>Lemmas on decisions\<close>

lemma decision_fields [simp]:
  "allowed (decision_for_metadata m ok d w) = ok"
  "disclosure (decision_for_metadata m ok d w) = d"
  "disclosure_class (decision_for_metadata m ok d w) = classify_memory m"
  "allowed (restricted_decision w) = False"
  by (simp_all add: decision_for_metadata_def restricted_decision_def)

lemma restricted_visible_lower:
  "restricted_hit s \<Longrightarrow> needs_restricted_secret_scan (to_lowercase s)"
  using restricted_gate.gate_covers [of "to_lowercase s"] by (simp add: restricted_hit_def)

definition coherent :: "memory_policy_metadata \<Rightarrow> bool" where
  "coherent m \<longleftrightarrow> spoken_policy m = spoken_policy_for (scope m) (sensitivity m)
     \<and> scope m \<noteq> ScopeSession \<and> (scope m = ScopePrivate \<longrightarrow> sensitivity m \<noteq> SensNormal)"

lemma coherent_built:
  assumes "sc = (if p then ScopePrivate else if q then ScopePerson else ScopeHousehold)"
    and "se = (if r then SensRestricted else if c \<or> p then SensCautious else SensNormal)"
  shows "coherent \<lparr>scope = sc, sensitivity = se, spoken_policy = spoken_policy_for sc se\<rparr>"
  using assms by (simp add: coherent_def)

lemma coherent_kind_only: "coherent (infer_metadata_kind_only k)"
  unfolding infer_metadata_kind_only_def Let_def
  by (rule coherent_built [where r = False and c = False, OF refl]) simp

lemma coherent_lower: "coherent (infer_metadata_lower k kl c)"
  unfolding infer_metadata_lower_def Let_def by (rule coherent_built [OF refl refl])

lemma coherent_infer_metadata: "coherent (infer_metadata k c)"
  by (simp add: infer_metadata_def Let_def coherent_kind_only coherent_lower)

text \<open>Content that any of the tables flags gets a sensitivity above normal.\<close>

lemma infer_metadata_flagged:
  assumes "restricted_hit c \<or> has_private_intent (to_lowercase c)
      \<or> contains_any (to_lowercase c) cautious_phrases"
  shows "sensitivity (infer_metadata k c) \<noteq> SensNormal"
proof -
  have "needs_policy_content_lower c"
    using assms restricted_gate.gate_covers private_gate.gate_covers cautious_gate.gate_covers
    by (auto simp: needs_policy_content_lower_def)
  moreover have "needs_restricted_secret_scan (to_lowercase c) \<and> restricted_secret_reason (to_lowercase c) \<noteq> None
      \<or> needs_private_intent_scan (to_lowercase c) \<and> has_private_intent (to_lowercase c)
      \<or> is_cautious_memory k (to_lowercase c)"
    using assms restricted_visible_lower [of c]
      private_gate.gate_covers [of "to_lowercase c"] cautious_gate.gate_covers [of "to_lowercase c"]
    by (auto simp: restricted_hit_def is_cautious_memory_def)
  ultimately show ?thesis
    by (auto simp: infer_metadata_def infer_metadata_lower_def Let_def)
qed

lemma may_inject_iff:
  "may_inject_into_shared_prompt k c \<longleftrightarrow>
     scope (infer_metadata k c) = ScopeHousehold \<and> sensitivity (infer_metadata k c) = SensNormal"
proof -
  have "allowed (assess_memory_read m shared_room_voice) \<longleftrightarrow>
      scope m = ScopeHousehold \<and> sensitivity m = SensNormal" if "coherent m" for m
    using that
    by (cases "scope m"; cases "sensitivity m")
      (simp_all add: coherent_def assess_memory_read_def shared_room_voice_def spoken_policy_for_def
        less_eq_identity_confidence_def)
  then show ?thesis using coherent_infer_metadata by (simp add: may_inject_into_shared_prompt_def)
qed

section \<open>Vocabulary lemmas\<close>

lemma set_push_new [simp]: "set (push_new ts t) = insert t (set ts)"
  by (auto simp: push_new_def)

lemma distinct_push_new: "distinct ts \<Longrightarrow> distinct (push_new ts t)"
  by (simp add: push_new_def)

definition run_terms :: "string list \<Rightarrow> string list \<Rightarrow> string list" where
  "run_terms terms run =
     (let terms1 = push_new terms (join_str '' '' run)
      in if length run > 1 then push_new terms1 (hd run) else terms1)"

lemma extract_vocab_loop_run:
  "extract_vocab_loop terms (w # ws) =
     (if is_proper w
      then extract_vocab_loop (run_terms terms (map alpha_part (w # takeWhile is_proper ws)))
             (dropWhile is_proper ws)
      else extract_vocab_loop terms ws)"
  by (simp add: run_terms_def Let_def)

declare extract_vocab_loop.simps(2) [simp del]

lemma set_run_terms: "insert (join_str '' '' run) (set terms) \<subseteq> set (run_terms terms run)"
  by (auto simp: run_terms_def Let_def)

lemma distinct_run_terms: "distinct terms \<Longrightarrow> distinct (run_terms terms run)"
  by (simp add: run_terms_def Let_def distinct_push_new)

lemma vocab_induct [case_names Nil Proper Other]:
  assumes "\<And>terms. P terms []"
    and "\<And>terms w ws. is_proper w \<Longrightarrow>
      P (run_terms terms (map alpha_part (w # takeWhile is_proper ws))) (dropWhile is_proper ws) \<Longrightarrow>
      P terms (w # ws)"
    and "\<And>terms w ws. \<not> is_proper w \<Longrightarrow> P terms ws \<Longrightarrow> P terms (w # ws)"
  shows "P terms ws"
proof (induction "length ws" arbitrary: terms ws rule: less_induct)
  case less
  show ?case
  proof (cases ws)
    case (Cons w us)
    have "length (dropWhile is_proper us) < length ws" "length us < length ws"
      using Cons length_dropWhile_le [of is_proper us] by simp_all
    then show ?thesis using less assms(2,3) [of w terms us] Cons by (cases "is_proper w") simp_all
  qed (simp add: assms(1))
qed

lemma extract_vocab_loop_mono: "set terms \<subseteq> set (extract_vocab_loop terms ws)"
proof (induction terms ws rule: vocab_induct)
  case (Proper terms w ws)
  then show ?case using set_run_terms [of _ terms] by (simp add: extract_vocab_loop_run) blast
qed (simp_all add: extract_vocab_loop_run)

lemma extract_vocab_loop_distinct: "distinct terms \<Longrightarrow> distinct (extract_vocab_loop terms ws)"
  by (induction terms ws rule: vocab_induct) (simp_all add: extract_vocab_loop_run distinct_run_terms)

lemma join_str_contains: "w \<in> set ws \<Longrightarrow> str_contains (join_str sep ws) w"
proof (induction sep ws rule: join_str.induct)
  case (3 sep s t ss)
  then show ?case
  proof (cases "w = s")
    case False
    with 3 have "str_contains (join_str sep (t # ss)) w" by auto
    then show ?thesis using str_contains_append [of _ w "s @ sep" "[]"] by simp
  qed simp
qed (use str_contains_mid [of "[]" _ "[]"] in auto)

lemma extract_vocab_loop_complete:
  "w \<in> set ws \<Longrightarrow> is_proper w \<Longrightarrow>
     \<exists>t \<in> set (extract_vocab_loop terms ws). str_contains t (alpha_part w)"
proof (induction terms ws rule: vocab_induct)
  case (Proper terms v ws)
  let ?run = "map alpha_part (v # takeWhile is_proper ws)"
  have eq: "extract_vocab_loop terms (v # ws) =
      extract_vocab_loop (run_terms terms ?run) (dropWhile is_proper ws)"
    using Proper.hyps by (simp add: extract_vocab_loop_run)
  have "w \<in> set (v # takeWhile is_proper ws) \<or> w \<in> set (dropWhile is_proper ws)"
    using Proper.prems(1) set_append [of "takeWhile is_proper ws" "dropWhile is_proper ws"] by auto
  then show ?case
  proof
    assume "w \<in> set (dropWhile is_proper ws)"
    then show ?thesis using Proper eq by simp
  next
    assume "w \<in> set (v # takeWhile is_proper ws)"
    then have "str_contains (join_str '' '' ?run) (alpha_part w)"
      by (intro join_str_contains) auto
    then show ?thesis
      using set_run_terms [of ?run terms] extract_vocab_loop_mono [of "run_terms terms ?run"] eq
      by (metis insert_subset subset_iff)
  qed
qed (simp_all add: extract_vocab_loop_run, blast)

section \<open>Properties\<close>

text \<open>What a voice write refuses. Content that the secret tables flag (passwords, tokens,
  access codes, bank and identity numbers, locations of keys and documents) is refused with the
  table's reason whatever kind it is filed under, in any letter case, provided every mention of
  a lock combo is visible to the trigger gate (see the next property).\<close>

theorem restricted_write_refused:
  assumes "restricted_secret_reason (to_lowercase content) = Some why"
    and "gate_visible (to_lowercase content)"
  shows "assess_memory_write kind content = restricted_decision why"
proof -
  have hit: "restricted_hit content" using assms by (simp add: restricted_hit_def)
  then have "needs_policy_content_lower content"
    using restricted_gate.gate_covers by (simp add: needs_policy_content_lower_def)
  then show ?thesis
    using restricted_visible_lower [OF hit] assms(1) by (simp add: assess_memory_write_def Let_def)
qed

theorem restricted_write_refused_witness:
  "assess_memory_write ''fact'' ''The WiFi Password is hunter2''
     = restricted_decision ''I should not store passwords, tokens, keys, or one-time codes as voice memory.''"
  by (rule restricted_write_refused; code_simp)

text \<open>The gap in the trigger gate. The table of access codes flags \<open>lock combo\<close>, the gate in
  front of it only looks for the same words after a blank; so a padlock combination is flagged by
  the table and nevertheless accepted by the voice write path as shareable household memory.\<close>

theorem lock_combo_gate_gap:
  "restricted_secret_reason (to_lowercase ''Padlock combo: 4-8-21'') \<noteq> None
   \<and> allowed (assess_memory_write ''fact'' ''Padlock combo: 4-8-21'')
   \<and> may_inject_into_shared_prompt ''fact'' ''Padlock combo: 4-8-21''
   \<and> eligible_for_escalation ''fact'' ''Padlock combo: 4-8-21''"
proof -
  let ?c = "''Padlock combo: 4-8-21''"
  have low: "to_lowercase ?c = ''padlock combo: 4-8-21''" "map ascii_lower (utf8 ?c) = ''padlock combo: 4-8-21''"
    by code_simp+
  have kind: "to_lowercase (trim ''fact'') = ''fact''" "\<not> eq_ignore_ascii_case ''fact'' ''identity''"
    by code_simp+
  have fold: "list_all (\<lambda>t. map ascii_lower (utf8 t) = t)
      (restricted_triggers @ private_triggers @ cautious_triggers)" by code_simp
  have "\<not> list_ex (str_contains ''padlock combo: 4-8-21'')
      (restricted_triggers @ private_triggers @ cautious_triggers)"
    by (simp add: restricted_triggers_def private_triggers_def cautious_triggers_def)
  with fold have gate: "\<not> needs_policy_content_lower ?c"
    by (auto simp: needs_policy_content_lower_def needs_restricted_secret_scan_def low
        needs_private_intent_scan_def needs_cautious_scan_def contains_ascii_ci_spec
        list_ex_iff list_all_iff)
  have secret: "restricted_secret_reason (to_lowercase ?c) \<noteq> None"
    unfolding low by (simp add: restricted_secret_reason_def contains_any_def access_code_phrases_def)
  have meta: "infer_metadata ''fact'' ?c
      = \<lparr>scope = ScopeHousehold, sensitivity = SensNormal, spoken_policy = SpokenAllow\<rparr>"
    using gate by (simp add: infer_metadata_def kind infer_metadata_kind_only_def kind_is_person_def
        spoken_policy_for_def)
  have "allowed (assess_memory_write ''fact'' ?c)"
    using gate by (simp add: assess_memory_write_def kind infer_metadata_kind_only_def kind_is_person_def)
  with secret meta show ?thesis
    by (simp add: may_inject_iff eligible_for_escalation_def kind escalation_policy_def)
qed



text \<open>When a memory may be spoken. The read decision allows speech exactly for unrestricted
  session or household memories whose spoken policy is allow, and for unrestricted person-linked
  memories when the person is named or the speaker is identified with at least medium confidence.
  In particular the spoken policy of a person-linked memory (confirm, app only) is not consulted,
  and a private memory is never spoken.\<close>

theorem memory_read_allowed_iff:
  "allowed (assess_memory_read m ctx) \<longleftrightarrow>
     spoken_policy m \<noteq> SpokenDeny \<and> sensitivity m \<noteq> SensRestricted \<and>
     (scope m \<in> {ScopeSession, ScopeHousehold} \<and> spoken_policy m = SpokenAllow
      \<or> scope m = ScopePerson \<and> (explicit_named_person ctx \<or> IdMedium \<le> identity_confidence ctx))"
  by (auto simp: assess_memory_read_def split: spoken_memory_policy.splits)

text \<open>The policy columns survive storage. Each policy enum is read back from its stored text,
  also when the text has been padded with blanks or changed in letter case.\<close>

theorem policy_columns_roundtrip:
  "(to_ascii_lowercase (trim t1) = scope_as_str sc \<longrightarrow> scope_from_storage t1 = sc) \<and>
   (to_ascii_lowercase (trim t2) = sensitivity_as_str se \<longrightarrow> sensitivity_from_storage t2 = se) \<and>
   (to_ascii_lowercase (trim t3) = spoken_policy_as_str sp \<longrightarrow> spoken_policy_from_storage t3 = sp)"
  using scope_column.of_text_spelling sensitivity_column.of_text_spelling
    spoken_policy_column.of_text_spelling by blast

theorem policy_columns_roundtrip_witness:
  "scope_from_storage '' Private '' = ScopePrivate \<and> sensitivity_from_storage ''CAUTIOUS'' = SensCautious
   \<and> spoken_policy_from_storage ''app_only'' = SpokenAppOnly"
proof -
  have "to_ascii_lowercase (trim '' Private '') = scope_as_str ScopePrivate"
    "to_ascii_lowercase (trim ''CAUTIOUS'') = sensitivity_as_str SensCautious"
    "to_ascii_lowercase (trim ''app_only'') = spoken_policy_as_str SpokenAppOnly" by code_simp+
  then show ?thesis
    using policy_columns_roundtrip [of "'' Private ''" ScopePrivate "''CAUTIOUS''" SensCautious
        "''app_only''" SpokenAppOnly] by blast
qed

text \<open>The masking vocabulary is complete. Every proper noun of a fact (a word whose letters
  start with a capital and are not a stop word) occurs in one of the terms seeded into the
  proxy, and no term is seeded twice.\<close>

theorem vocab_terms_complete:
  "distinct (extract_vocab_terms content) \<and>
   (\<forall>w \<in> set (split_whitespace content). is_proper w \<longrightarrow>
      (\<exists>t \<in> set (extract_vocab_terms content). str_contains t (alpha_part w)))"
  using extract_vocab_loop_complete extract_vocab_loop_distinct [of "[]"]
  by (auto simp: extract_vocab_terms_def)

theorem vocab_terms_complete_witness:
  "\<exists>t \<in> set (extract_vocab_terms ''User met Alex Morgan.''). str_contains t ''Morgan''"
proof -
  have "''Morgan.'' \<in> set (split_whitespace ''User met Alex Morgan.'')" "is_proper ''Morgan.''"
    "alpha_part ''Morgan.'' = ''Morgan''" by code_simp+
  then show ?thesis using vocab_terms_complete [of "''User met Alex Morgan.''"] by force
qed

end
