(* ===== verification/Values.thy ===== *)
theory Values
  imports Prelude
begin

text \<open>
  Values that the components exchange: floating-point numbers and JSON.

  A float is a rational, an infinity or NaN, compared the IEEE way (every comparison with NaN is
  false). Literals of type \<open>f32\<close> are the exact binary values of the decimal in the source.
  \<open>round_bits\<close> rounds to a given number of significant bits, ties to even, within the exponent
  range of the format; \<open>fmt2\<close> is the \<open>{:.2}\<close> format, which prints the exact value rounded to two
  decimals, ties to even. The sign of zero is not represented.
\<close>

section \<open>Floats\<close>

datatype flt = NaN | NegInf | Fin rat | PosInf

fun flt_lt :: "flt \<Rightarrow> flt \<Rightarrow> bool" where
  "flt_lt NaN y = False"
| "flt_lt x NaN = False"
| "flt_lt NegInf y = (y \<noteq> NegInf)"
| "flt_lt x NegInf = False"
| "flt_lt PosInf y = False"
| "flt_lt (Fin a) PosInf = True"
| "flt_lt (Fin a) (Fin b) = (a < b)"

text \<open>\<open>f32::max\<close>: the other operand when one is NaN.\<close>

definition flt_max :: "flt \<Rightarrow> flt \<Rightarrow> flt" where
  "flt_max x y = (if x = NaN then y else if y = NaN then x else if flt_lt x y then y else x)"

definition round_half_even :: "rat \<Rightarrow> int" where
  "round_half_even q =
     (let f = \<lfloor>q\<rfloor>; d = q - of_int f
      in if d < 1 / 2 then f else if 1 / 2 < d then f + 1 else if even f then f else f + 1)"

fun nat_log2 :: "nat \<Rightarrow> nat" where
  "nat_log2 n = (if n < 2 then 0 else Suc (nat_log2 (n div 2)))"

declare nat_log2.simps [simp del]

definition pow2 :: "int \<Rightarrow> rat" where
  "pow2 e = (if 0 \<le> e then 2 ^ nat e else 1 / 2 ^ nat (- e))"

definition rat_log2 :: "rat \<Rightarrow> int" where
  "rat_log2 q =
     (let (n, d) = quotient_of q; e = int (nat_log2 (nat n)) - int (nat_log2 (nat d))
      in if q < pow2 e then e - 1 else e)"

definition round_bits :: "nat \<Rightarrow> rat \<Rightarrow> rat" where
  "round_bits p q =
     (if q = 0 then 0
      else let s = pow2 (rat_log2 \<bar>q\<bar> - int p + 1) in of_int (round_half_even (q / s)) * s)"

definition f64_of_nat :: "nat \<Rightarrow> rat" where
  "f64_of_nat n = round_bits 53 (of_nat n)"

definition show_int :: "int \<Rightarrow> string" where
  "show_int i = (if i < 0 then ''-'' else '''') @ show_nat (nat \<bar>i\<bar>)"

fun fmt2 :: "flt \<Rightarrow> string" where
  "fmt2 NaN = ''NaN''"
| "fmt2 PosInf = ''inf''"
| "fmt2 NegInf = ''-inf''"
| "fmt2 (Fin q) =
     (let n = nat \<bar>round_half_even (q * 100)\<bar>
      in (if q < 0 then ''-'' else '''') @ show_nat (n div 100) @ ''.''
         @ [char_of (48 + n mod 100 div 10), char_of (48 + n mod 10)])"

section \<open>JSON\<close>

text \<open>Numbers keep the three forms of the JSON library; an object is an association list in the
  order of its keys.\<close>

datatype jnum = PosInt nat | NegInt int | JFloat flt

datatype json = JNull | JBool bool | JNum jnum | JStr string | JArr "json list"
  | JObj "(string \<times> json) list"

fun json_get :: "json \<Rightarrow> string \<Rightarrow> json option" where
  "json_get (JObj kvs) k = map_of kvs k"
| "json_get _ k = None"

fun json_as_str :: "json \<Rightarrow> string option" where
  "json_as_str (JStr s) = Some s"
| "json_as_str _ = None"

fun json_as_bool :: "json \<Rightarrow> bool option" where
  "json_as_bool (JBool b) = Some b"
| "json_as_bool _ = None"

fun json_as_u64 :: "json \<Rightarrow> nat option" where
  "json_as_u64 (JNum (PosInt n)) = Some n"
| "json_as_u64 _ = None"

fun json_as_f64 :: "json \<Rightarrow> flt option" where
  "json_as_f64 (JNum (PosInt n)) = Some (Fin (f64_of_nat n))"
| "json_as_f64 (JNum (NegInt i)) = Some (Fin (round_bits 53 (of_int i)))"
| "json_as_f64 (JNum (JFloat f)) = Some f"
| "json_as_f64 _ = None"

text \<open>A float that is not finite becomes \<open>null\<close>.\<close>

definition json_of_f64 :: "flt \<Rightarrow> json" where
  "json_of_f64 v = (case v of Fin q \<Rightarrow> JNum (JFloat v) | _ \<Rightarrow> JNull)"

section \<open>Lemmas on floats\<close>

lemma flt_max_nan [simp]: "flt_max NaN y = y" "flt_max x NaN = x"
  by (simp_all add: flt_max_def)

lemma flt_lt_irrefl [simp]: "\<not> flt_lt x x"
  by (cases x) auto

lemma flt_lt_trans: "flt_lt x y \<Longrightarrow> flt_lt y z \<Longrightarrow> flt_lt x z"
  by (cases x; cases y; cases z) auto

lemma flt_lt_max: "y \<noteq> NaN \<Longrightarrow> flt_lt c y \<Longrightarrow> flt_lt c (flt_max x y)"
  by (auto simp: flt_max_def intro: flt_lt_trans) (cases c; cases x; cases y; auto)

lemma round_half_even_int [simp]: "round_half_even (of_int i) = i"
  by (simp add: round_half_even_def)

lemma round_half_even_dist: "\<bar>of_int (round_half_even q) - q\<bar> \<le> 1 / 2"
  unfolding round_half_even_def Let_def by (auto simp: abs_if) linarith+

end
