(* ===== verification/HomeAction.thy ===== *)
theory HomeAction
  imports Values Interfaces
begin

text \<open>
  The verbs of \<open>home_control\<close> (\<open>tools/home_action.rs\<close>): the action kinds of
  \<open>ha/provider.rs\<close>, the canonicalisation of what a model emits, with its allocation-free fast
  path, and the rewriting of the quick router's household verbs.
\<close>

section \<open>Verbs\<close>

datatype home_action_kind = TurnOn | TurnOff | Toggle | SetBrightness | SetTemperature
  | OpenIt | CloseIt | LockIt | UnlockIt | Activate

definition HOME_CONTROL_ACTIONS :: "string list" where
  "HOME_CONTROL_ACTIONS =
     [''turn_on'', ''turn_off'', ''toggle'', ''set_brightness'', ''set_temperature'', ''open'',
      ''close'', ''lock'', ''unlock'', ''activate'']"

definition action_requires_value :: "string \<Rightarrow> bool" where
  "action_requires_value action \<longleftrightarrow> action \<in> {''set_brightness'', ''set_temperature''}"

definition home_action_kind_of :: "string \<Rightarrow> string + home_action_kind" where
  "home_action_kind_of action =
     (if action = ''turn_on'' then Ok TurnOn
      else if action = ''turn_off'' then Ok TurnOff
      else if action = ''toggle'' then Ok Toggle
      else if action = ''set_brightness'' then Ok SetBrightness
      else if action = ''set_temperature'' then Ok SetTemperature
      else if action = ''open'' then Ok OpenIt
      else if action = ''close'' then Ok CloseIt
      else if action = ''lock'' then Ok LockIt
      else if action = ''unlock'' then Ok UnlockIt
      else if action \<in> {''activate'', ''activate_scene''} then Ok Activate
      else Err (''unknown home action: '' @ action))"

definition is_canonical_shape :: "string \<Rightarrow> bool" where
  "is_canonical_shape raw \<longleftrightarrow>
     raw \<noteq> [] \<and> list_all (\<lambda>b. b = CHR ''_'' \<or> is_ascii_lowercase b) (utf8 raw)"

definition synonym_of :: "string \<Rightarrow> string" where
  "synonym_of action =
     (if action \<in> {''deactivate'', ''disable'', ''switch_off'', ''power_off'', ''shut_off''}
      then ''turn_off''
      else if action \<in> {''enable'', ''switch_on'', ''power_on''} then ''turn_on''
      else if action = ''activate_scene'' then ''activate''
      else action)"

definition map_synonym :: "string \<Rightarrow> string option" where
  "map_synonym action = find (\<lambda>a. a = synonym_of action) HOME_CONTROL_ACTIONS"

definition normalize_action :: "string \<Rightarrow> string" where
  "normalize_action raw =
     map (\<lambda>c. if c = CHR '' '' \<or> c = CHR ''-'' then CHR ''_'' else c) (to_lowercase (trim raw))"

definition canon_home_control_action :: "string \<Rightarrow> string option" where
  "canon_home_control_action raw =
     (if is_canonical_shape raw then map_synonym raw else map_synonym (normalize_action raw))"

definition canonicalize_household_action :: "string \<Rightarrow> flt option \<Rightarrow> (string \<times> flt option) option" where
  "canonicalize_household_action action v =
     (case canon_home_control_action action of
        Some valid \<Rightarrow> Some (valid, v)
      | None \<Rightarrow> if action = ''set_level'' then Some (''set_brightness'', v) else None)"

section \<open>The fast path\<close>

definition verb_char :: "char \<Rightarrow> bool" where
  "verb_char b \<longleftrightarrow> b = CHR ''_'' \<or> is_ascii_lowercase b"

lemma verb_char_codes: "verb_char b \<Longrightarrow> code b = 95 \<or> (97 \<le> code b \<and> code b \<le> 122)"
  by (auto simp: verb_char_def is_ascii_lowercase_def)

lemma verb_char_fixed:
  assumes "verb_char b"
  shows "char_lower b = b" "\<not> is_whitespace b" "b \<noteq> CHR '' ''" "b \<noteq> CHR ''-''" "is_ascii b"
  using verb_char_codes [OF assms]
  by (auto simp: char_lower_def is_uppercase_def is_ascii_uppercase_def is_whitespace_def is_ascii_def)

lemma normalize_canonical:
  assumes "is_canonical_shape raw"
  shows "normalize_action raw = raw"
proof -
  have "utf8 raw = raw"
    using assms utf8_class [of verb_char raw] verb_char_fixed(5)
    by (simp add: is_canonical_shape_def verb_char_def [abs_def])
  then have all: "list_all verb_char raw" and ne: "raw \<noteq> []"
    using assms by (simp_all add: is_canonical_shape_def verb_char_def [abs_def])
  then have "trim raw = raw"
    by (intro trim_id) (auto simp: list_all_iff verb_char_fixed(2))
  with all show ?thesis
    by (auto simp: normalize_action_def to_lowercase_def list_all_iff verb_char_fixed intro!: map_idI)
qed

lemma map_synonym_verb: "map_synonym a = Some v \<Longrightarrow> v \<in> set HOME_CONTROL_ACTIONS"
  by (auto simp: map_synonym_def find_Some_iff) (metis nth_mem)

lemma verb_has_kind: "v \<in> set HOME_CONTROL_ACTIONS \<Longrightarrow> \<exists>k. home_action_kind_of v = Ok k"
  by (auto simp: HOME_CONTROL_ACTIONS_def home_action_kind_of_def)

lemma canon_verb_fixed:
  assumes "v \<in> set HOME_CONTROL_ACTIONS"
  shows "canon_home_control_action v = Some v"
proof -
  have "list_all (\<lambda>v. canon_home_control_action v = Some v) HOME_CONTROL_ACTIONS" by code_simp
  with assms show ?thesis by (simp add: list_all_iff)
qed

section \<open>Properties\<close>

text \<open>The allocation-free fast path of the verb canonicaliser changes nothing: for every text
  the answer is that of normalising first. An answer is one of the ten verbs, has an action kind,
  and canonicalises to itself.\<close>

theorem canon_fast_path:
  "canon_home_control_action raw = map_synonym (normalize_action raw) \<and>
   (\<forall>v. canon_home_control_action raw = Some v \<longrightarrow>
      v \<in> set HOME_CONTROL_ACTIONS \<and> (\<exists>k. home_action_kind_of v = Ok k)
      \<and> canon_home_control_action v = Some v)"
  using map_synonym_verb verb_has_kind canon_verb_fixed
  by (auto simp: canon_home_control_action_def normalize_canonical)

theorem canon_fast_path_witness:
  "\<exists>k. home_action_kind_of ''turn_off'' = Ok k \<and> canon_home_control_action '' Switch-OFF '' = Some ''turn_off''"
proof -
  have "canon_home_control_action '' Switch-OFF '' = Some ''turn_off''" by code_simp
  then show ?thesis using canon_fast_path [of "'' Switch-OFF ''"] by blast
qed

end
