(* ===== verification/OriginAuth.thy ===== *)
theory OriginAuth
  imports Interfaces
begin

text \<open>
  Request origins (\<open>RequestOrigin\<close> of \<open>tools/actuation.rs\<close>) and the resolution of the trusted
  origin of an HTTP request (\<open>origin_auth.rs\<close>, \<open>OriginAuthConfig\<close> of \<open>config.rs\<close>). Process
  environment variables are a parameter. Log lines are not part of the result.
\<close>

section \<open>Origins\<close>

datatype request_origin = Unknown | Voice | Dashboard | Api | Telegram | Repl | Confirmation

definition from_header :: "string \<Rightarrow> request_origin" where
  "from_header v =
     (let k = to_ascii_lowercase (trim v)
      in if k = ''voice'' then Voice
         else if k = ''dashboard'' then Dashboard
         else if k = ''api'' then Api
         else if k = ''telegram'' then Telegram
         else if k = ''repl'' then Repl
         else if k = ''confirmation'' then Confirmation
         else Unknown)"

fun as_policy_key :: "request_origin \<Rightarrow> string" where
  "as_policy_key Unknown = ''unknown''"
| "as_policy_key Voice = ''voice''"
| "as_policy_key Dashboard = ''dashboard''"
| "as_policy_key Api = ''api''"
| "as_policy_key Telegram = ''telegram''"
| "as_policy_key Repl = ''repl''"
| "as_policy_key Confirmation = ''confirmation''"

section \<open>Configuration\<close>

record origin_auth_config =
  cfg_require_token :: bool
  cfg_tokens :: "(string \<times> string) list"

definition KNOWN_ORIGINS :: "string list" where
  "KNOWN_ORIGINS = [''voice'', ''dashboard'', ''telegram'', ''repl'']"

definition to_ascii_uppercase :: "string \<Rightarrow> string" where
  "to_ascii_uppercase s = map ascii_upper s"

definition resolved_token :: "(string \<Rightarrow> string option) \<Rightarrow> origin_auth_config \<Rightarrow> string \<Rightarrow> string" where
  "resolved_token env cfg name =
     (let key = to_ascii_lowercase (trim name);
          from_env = trim (case env (''GENIE_ORIGIN_TOKEN_'' @ to_ascii_uppercase key) of
                             Some v \<Rightarrow> v | None \<Rightarrow> '''')
      in case map_of (cfg_tokens cfg) name of
           Some v \<Rightarrow> if trim v \<noteq> '''' then trim v else from_env
         | None \<Rightarrow> from_env)"

definition resolve_name ::
  "(string \<Rightarrow> string option) \<Rightarrow> origin_auth_config \<Rightarrow> string \<Rightarrow> (string \<times> string) list \<Rightarrow> (string \<times> string) list" where
  "resolve_name env cfg name out =
     (let key = to_ascii_lowercase (trim name); token = resolved_token env cfg name
      in if key = '''' \<or> map_of out key \<noteq> None then out
         else if token \<noteq> '''' then AList.update key token out else out)"

definition resolved_tokens :: "(string \<Rightarrow> string option) \<Rightarrow> origin_auth_config \<Rightarrow> (string \<times> string) list" where
  "resolved_tokens env cfg = fold (resolve_name env cfg) (map fst (cfg_tokens cfg) @ KNOWN_ORIGINS) []"

section \<open>The resolver\<close>

record origin_resolver =
  tokens :: "(request_origin \<times> string) list"
  require_token :: bool

definition never_on_wire :: "request_origin \<Rightarrow> bool" where
  "never_on_wire origin \<longleftrightarrow> origin \<in> {Unknown, Api, Confirmation}"

definition resolver_from_config :: "(string \<Rightarrow> string option) \<Rightarrow> origin_auth_config \<Rightarrow> origin_resolver" where
  "resolver_from_config env cfg =
     \<lparr>tokens = fold (\<lambda>(name, secret) ts.
          if never_on_wire (from_header name) then ts else AList.update (from_header name) secret ts)
        (resolved_tokens env cfg) [],
      require_token = cfg_require_token cfg\<rparr>"

definition insert_token :: "request_origin \<Rightarrow> string \<Rightarrow> origin_resolver \<Rightarrow> origin_resolver" where
  "insert_token origin token r =
     (if trim token \<noteq> '''' then r\<lparr>tokens := AList.update origin (trim token) (tokens r)\<rparr> else r)"

text \<open>Addresses: the four octets of an IPv4 address, the sixteen octets of an IPv6 address.\<close>

datatype ip_addr = V4 "8 word \<times> 8 word \<times> 8 word \<times> 8 word" | V6 "8 word list"

fun v4_is_loopback :: "8 word \<times> 8 word \<times> 8 word \<times> 8 word \<Rightarrow> bool" where
  "v4_is_loopback (a, b, c, d) = (a = 127)"

definition to_ipv4_mapped :: "8 word list \<Rightarrow> (8 word \<times> 8 word \<times> 8 word \<times> 8 word) option" where
  "to_ipv4_mapped os =
     (if length os = 16 \<and> take 12 os = replicate 10 0 @ [255, 255]
      then Some (os ! 12, os ! 13, os ! 14, os ! 15) else None)"

fun ip_is_loopback :: "ip_addr \<Rightarrow> bool" where
  "ip_is_loopback (V4 v4) = v4_is_loopback v4"
| "ip_is_loopback (V6 os) =
     (os = replicate 15 0 @ [1]
      \<or> (case to_ipv4_mapped os of Some v4 \<Rightarrow> v4_is_loopback v4 | None \<Rightarrow> False))"

definition constant_time_eq :: "char list \<Rightarrow> char list \<Rightarrow> bool" where
  "constant_time_eq a b = (if length a \<noteq> length b then False else byte_diff a b = 0)"

definition resolve :: "origin_resolver \<Rightarrow> ip_addr option \<Rightarrow> string option \<Rightarrow> string option \<Rightarrow> request_origin" where
  "resolve r peer claimed_header token_header =
     (let claimed = (case claimed_header of Some h \<Rightarrow> from_header h | None \<Rightarrow> Unknown)
      in if never_on_wire claimed then Api
         else case map_of (tokens r) claimed of
           Some expected \<Rightarrow>
             let presented = (case token_header of Some t \<Rightarrow> trim t | None \<Rightarrow> '''')
             in if presented \<noteq> '''' \<and> constant_time_eq (utf8 presented) (utf8 expected)
                then claimed else Api
         | None \<Rightarrow>
             let loopback = (case peer of Some ip \<Rightarrow> ip_is_loopback ip | None \<Rightarrow> False)
             in if loopback \<and> \<not> require_token r then claimed else Api)"

section \<open>Lemmas\<close>

lemma constant_time_eq_iff: "constant_time_eq a b \<longleftrightarrow> a = b"
  by (auto simp: constant_time_eq_def byte_diff_zero)

interpretation origin_secret: byte_equality constant_time_eq
  by unfold_locales (rule constant_time_eq_iff)

interpretation origin_header: wire_enum as_policy_key from_header
proof
  show "from_header (as_policy_key x) = x" for x
    by (induction x; code_simp)
  show "from_header (to_ascii_lowercase (trim t)) = from_header t" for t
    unfolding from_header_def Let_def norm_idem ..
qed

lemma resolve_name_keeps: "map_of out k \<noteq> None \<Longrightarrow> map_of (resolve_name env cfg n out) k \<noteq> None"
  by (auto simp: resolve_name_def Let_def update_conv')

lemma fold_resolve_name_keeps:
  "map_of out k \<noteq> None \<Longrightarrow> map_of (fold (resolve_name env cfg) ns out) k \<noteq> None"
  by (induction ns arbitrary: out) (simp_all add: resolve_name_keeps del: not_None_eq)

lemma fold_resolve_name_adds:
  assumes "n \<in> set ns" and "to_ascii_lowercase (trim n) = k" and "k \<noteq> ''''"
    and "\<And>m. to_ascii_lowercase (trim m) = k \<Longrightarrow> resolved_token env cfg m \<noteq> ''''"
  shows "map_of (fold (resolve_name env cfg) ns out) k \<noteq> None"
  using assms(1)
proof (induction ns arbitrary: out)
  case (Cons m ns)
  show ?case
  proof (cases "n = m")
    case True
    have "map_of (resolve_name env cfg m out) k \<noteq> None"
      using assms(2,3) assms(4) [of m] True
      by (simp add: resolve_name_def Let_def update_conv')
    then show ?thesis using fold_resolve_name_keeps by (simp del: not_None_eq)
  qed (use Cons in simp)
qed simp

definition good_secrets :: "('k \<times> string) list \<Rightarrow> bool" where
  "good_secrets kvs \<longleftrightarrow> list_all (\<lambda>(k, s). s \<noteq> '''' \<and> trim s = s) kvs"

lemma good_secrets_update:
  "good_secrets kvs \<Longrightarrow> s \<noteq> '''' \<Longrightarrow> trim s = s \<Longrightarrow> good_secrets (AList.update k s kvs)"
  by (induction kvs) (auto simp: good_secrets_def)

lemma resolved_token_trimmed: "trim (resolved_token env cfg n) = resolved_token env cfg n"
  by (simp add: resolved_token_def Let_def split: option.splits)

lemma good_resolve_name: "good_secrets out \<Longrightarrow> good_secrets (resolve_name env cfg n out)"
  by (simp add: resolve_name_def Let_def good_secrets_update resolved_token_trimmed)

lemma good_resolved_tokens: "good_secrets (resolved_tokens env cfg)"
proof -
  have "good_secrets (fold (resolve_name env cfg) ns out)" if "good_secrets out" for ns out
    using that by (induction ns arbitrary: out) (simp_all add: good_resolve_name)
  then show ?thesis unfolding resolved_tokens_def by (simp add: good_secrets_def)
qed

definition add_secret :: "string \<times> string \<Rightarrow> (request_origin \<times> string) list \<Rightarrow> (request_origin \<times> string) list" where
  "add_secret = (\<lambda>(name, secret) ts.
     if never_on_wire (from_header name) then ts else AList.update (from_header name) secret ts)"

lemma tokens_from_config:
  "tokens (resolver_from_config env cfg) = fold add_secret (resolved_tokens env cfg) []"
  by (simp add: resolver_from_config_def add_secret_def)

lemma good_add_secret: "good_secrets [kv] \<Longrightarrow> good_secrets ts \<Longrightarrow> good_secrets (add_secret kv ts)"
  by (cases kv) (simp add: add_secret_def good_secrets_update good_secrets_def [of "[_]"])

lemma good_fold_add_secret:
  "good_secrets kvs \<Longrightarrow> good_secrets ts \<Longrightarrow> good_secrets (fold add_secret kvs ts)"
proof (induction kvs arbitrary: ts)
  case (Cons kv kvs)
  have "good_secrets [kv]" "good_secrets kvs"
    using Cons.prems(1) by (simp_all add: good_secrets_def)
  then show ?case using Cons.IH [of "add_secret kv ts"] good_add_secret Cons.prems(2) by simp
qed simp

lemma fold_add_secret_keeps: "map_of ts orig \<noteq> None \<Longrightarrow> map_of (fold add_secret kvs ts) orig \<noteq> None"
proof (induction kvs arbitrary: ts)
  case (Cons kv kvs)
  have "map_of (add_secret kv ts) orig \<noteq> None"
    using Cons.prems by (cases kv) (simp add: add_secret_def update_conv')
  then show ?case using Cons.IH by (simp del: not_None_eq)
qed simp

lemma fold_add_secret_adds:
  "(k, s) \<in> set kvs \<Longrightarrow> from_header k = orig \<Longrightarrow> \<not> never_on_wire orig \<Longrightarrow>
     map_of (fold add_secret kvs ts) orig \<noteq> None"
proof (induction kvs arbitrary: ts)
  case (Cons kv kvs)
  show ?case
  proof (cases "kv = (k, s)")
    case True
    then have "map_of (add_secret kv ts) orig \<noteq> None"
      using Cons.prems by (simp add: add_secret_def update_conv')
    then show ?thesis using fold_add_secret_keeps by (simp del: not_None_eq)
  qed (use Cons in simp)
qed simp

lemma policy_key_known:
  "\<not> never_on_wire orig \<Longrightarrow> as_policy_key orig \<in> set KNOWN_ORIGINS
     \<and> to_ascii_lowercase (trim (as_policy_key orig)) = as_policy_key orig \<and> as_policy_key orig \<noteq> ''''"
  by (cases orig) (simp_all add: never_on_wire_def KNOWN_ORIGINS_def trim_def trim_start_def
      to_ascii_lowercase_def ascii_lower_def is_ascii_uppercase_def is_whitespace_def)

lemma env_token_present:
  assumes "env (''GENIE_ORIGIN_TOKEN_'' @ to_ascii_uppercase (as_policy_key orig)) = Some v"
    and "trim v \<noteq> ''''" and "\<not> never_on_wire orig"
  shows "map_of (tokens (resolver_from_config env cfg)) orig \<noteq> None"
proof -
  have "resolved_token env cfg m \<noteq> ''''" if "to_ascii_lowercase (trim m) = as_policy_key orig" for m
    using assms(1,2) that by (simp add: resolved_token_def Let_def split: option.splits)
  then have "map_of (resolved_tokens env cfg) (as_policy_key orig) \<noteq> None"
    unfolding resolved_tokens_def using policy_key_known [OF assms(3)]
    by (intro fold_resolve_name_adds [of "as_policy_key orig"]) auto
  then obtain s where "(as_policy_key orig, s) \<in> set (resolved_tokens env cfg)"
    by (auto dest: map_of_SomeD)
  then show ?thesis unfolding tokens_from_config
    using origin_header.of_as assms(3) by (intro fold_add_secret_adds)
qed

section \<open>Properties\<close>

text \<open>C3: no origin above the \<open>api\<close> floor without proof. A request resolves to another origin
  exactly when its header names that origin, the origin can be claimed over the wire, and either
  the secret configured for the origin is presented (nothing else helps, also from loopback), or
  no secret is configured, strict mode is off and the peer is a loopback address.\<close>

theorem origin_needs_proof:
  "resolve r peer claimed tok = orig \<and> orig \<noteq> Api \<longleftrightarrow>
     (\<exists>h. claimed = Some h \<and> from_header h = orig) \<and> \<not> never_on_wire orig \<and>
     (case map_of (tokens r) orig of
        Some secret \<Rightarrow> secret \<noteq> '''' \<and> (\<exists>t. tok = Some t \<and> trim t = secret)
      | None \<Rightarrow> \<not> require_token r \<and> (\<exists>ip. peer = Some ip \<and> ip_is_loopback ip))"
proof (cases claimed)
  case None
  then show ?thesis by (simp add: resolve_def never_on_wire_def)
next
  case (Some h)
  show ?thesis
  proof (cases "map_of (tokens r) (from_header h)")
    case None
    then show ?thesis using Some
      by (auto simp: resolve_def Let_def never_on_wire_def split: option.splits)
  next
    case (Some secret)
    then show ?thesis using \<open>claimed = Some h\<close>
      by (cases tok) (auto simp: resolve_def Let_def never_on_wire_def origin_secret.eq_text)
  qed
qed

text \<open>A secret in the environment always protects its channel. If the variable of a claimable
  origin holds a non-blank value, then whatever the configuration file says the resolver has a
  usable (non-blank, trimmed) secret for the origin, and a request without a token header never
  resolves to it, not even from loopback.\<close>

theorem env_secret_protects_origin:
  assumes "env (''GENIE_ORIGIN_TOKEN_'' @ to_ascii_uppercase (as_policy_key orig)) = Some v"
    and "trim v \<noteq> ''''" and "\<not> never_on_wire orig"
  shows "(\<exists>secret. map_of (tokens (resolver_from_config env cfg)) orig = Some secret
            \<and> secret \<noteq> '''' \<and> trim secret = secret)
         \<and> resolve (resolver_from_config env cfg) peer claimed None \<noteq> orig"
proof -
  obtain secret where some: "map_of (tokens (resolver_from_config env cfg)) orig = Some secret"
    using env_token_present [of env orig v cfg] assms by blast
  have "good_secrets (tokens (resolver_from_config env cfg))"
    unfolding tokens_from_config
    using good_fold_add_secret [OF good_resolved_tokens, of "[]"] by (simp add: good_secrets_def)
  then have "secret \<noteq> ''''" "trim secret = secret"
    using map_of_SomeD [OF some] by (auto simp: good_secrets_def list_all_iff)
  moreover have "resolve (resolver_from_config env cfg) peer claimed None \<noteq> orig"
    using assms(3) some by (auto simp: resolve_def Let_def never_on_wire_def split: option.splits)
  ultimately show ?thesis using some by blast
qed

theorem env_secret_protects_origin_witness:
  "resolve (resolver_from_config [''GENIE_ORIGIN_TOKEN_TELEGRAM'' \<mapsto> ''s3cret'']
      \<lparr>cfg_require_token = False, cfg_tokens = [('' Telegram'', '''')]\<rparr>)
     (Some (V4 (127, 0, 0, 1))) (Some ''telegram'') None \<noteq> Telegram"
proof -
  have key: "''GENIE_ORIGIN_TOKEN_'' @ to_ascii_uppercase (as_policy_key Telegram)
      = ''GENIE_ORIGIN_TOKEN_TELEGRAM''" by code_simp
  have v: "trim ''s3cret'' \<noteq> ''''" "\<not> never_on_wire Telegram" by code_simp+
  show ?thesis
    using env_secret_protects_origin [of "[''GENIE_ORIGIN_TOKEN_TELEGRAM'' \<mapsto> ''s3cret'']" Telegram
        "''s3cret''" "\<lparr>cfg_require_token = False, cfg_tokens = [('' Telegram'', '''')]\<rparr>"] key v
    by simp
qed

end
