(* ===== verification/HaPolicy.thy ===== *)
theory HaPolicy
  imports HomeAction OriginAuth
begin

text \<open>
  The household actuation policy (\<open>ha/policy.rs\<close>) over the provider's data (\<open>ha/provider.rs\<close>,
  \<open>ha/client.rs\<close>) and the \<open>actuation_safety\<close> configuration (\<open>config.rs\<close>): the static
  assessment of an action and the runtime gate in front of its execution.
\<close>

section \<open>Data\<close>

datatype home_target_kind = TkEntity | TkGroup | TkScene | TkScript

record home_target =
  tgt_kind :: home_target_kind
  tgt_query :: string
  display_name :: string
  entity_ids :: "string list"
  tgt_domain :: "string option"
  tgt_area :: "string option"
  tgt_confidence :: flt
  voice_safe :: bool

record home_action =
  act_kind :: home_action_kind
  act_target :: home_target
  act_value :: "flt option"

record entity =
  entity_id :: string
  ent_state :: string
  attributes :: json

record home_state =
  target_name :: string
  hs_domain :: "string option"
  hs_area :: "string option"
  entities :: "entity list"
  available :: bool
  hs_summary :: string

record integration_health =
  connected :: bool
  cached_graph :: bool
  health_message :: string

record action_result =
  success :: bool
  spoken_summary :: string
  affected_targets :: "string list"
  state_snapshot :: "home_state option"
  res_confidence :: "flt option"

record actuation_safety_config =
  safety_enabled :: bool
  min_target_confidence :: flt
  min_sensitive_confidence :: flt
  deny_multi_target_sensitive :: bool
  require_available_state :: bool
  allowed_origins :: "string list"
  max_actions_per_minute :: nat
  max_actions_per_minute_by_origin :: "(string \<times> nat) list"

text \<open>The values of the \<open>f32\<close> literals 0.78, 0.84, 0.88 and 0.90.\<close>

definition f32_078 :: flt where "f32_078 = Fin (3271557 / 4194304)"
definition f32_084 :: flt where "f32_084 = Fin (14092861 / 16777216)"
definition f32_088 :: flt where "f32_088 = Fin (7381975 / 8388608)"
definition f32_090 :: flt where "f32_090 = Fin (7549747 / 8388608)"

definition actuation_allowed_origins :: "string list" where
  "actuation_allowed_origins =
     [''voice'', ''dashboard'', ''api'', ''telegram'', ''repl'', ''confirmation'']"

definition default_actuation_safety :: actuation_safety_config where
  "default_actuation_safety =
     \<lparr>safety_enabled = True, min_target_confidence = f32_078, min_sensitive_confidence = f32_090,
      deny_multi_target_sensitive = True, require_available_state = True,
      allowed_origins = actuation_allowed_origins, max_actions_per_minute = 12,
      max_actions_per_minute_by_origin = []\<rparr>"

section \<open>Decisions\<close>

datatype action_risk = LowRisk | MediumRisk | HighRisk

record action_policy_decision =
  risk :: action_risk
  act_allowed :: bool
  requires_confirmation :: bool
  act_reason :: string

record runtime_safety_decision =
  rt_allowed :: bool
  rt_reason :: string

definition runtime_allow :: "string \<Rightarrow> runtime_safety_decision" where
  "runtime_allow why = \<lparr>rt_allowed = True, rt_reason = why\<rparr>"

definition runtime_deny :: "string \<Rightarrow> runtime_safety_decision" where
  "runtime_deny why = \<lparr>rt_allowed = False, rt_reason = why\<rparr>"

definition policy_allow :: "action_risk \<Rightarrow> string \<Rightarrow> action_policy_decision" where
  "policy_allow rk why =
     \<lparr>risk = rk, act_allowed = True, requires_confirmation = False, act_reason = why\<rparr>"

definition policy_require_confirmation :: "action_risk \<Rightarrow> string \<Rightarrow> action_policy_decision" where
  "policy_require_confirmation rk why =
     \<lparr>risk = rk, act_allowed = False, requires_confirmation = True, act_reason = why\<rparr>"

definition policy_deny :: "string \<Rightarrow> action_policy_decision" where
  "policy_deny why =
     \<lparr>risk = HighRisk, act_allowed = False, requires_confirmation = False, act_reason = why\<rparr>"

section \<open>The static assessment\<close>

definition opens_physical_barrier :: "home_target \<Rightarrow> bool" where
  "opens_physical_barrier t =
     (let descriptor = to_lowercase
            (display_name t @ '' '' @ tgt_query t @ '' '' @ join_str '' '' (entity_ids t))
      in str_contains descriptor ''garage'' \<or> str_contains descriptor ''door''
         \<or> str_contains descriptor ''gate'')"

definition residual_risk :: "string \<Rightarrow> home_action_kind \<Rightarrow> action_risk" where
  "residual_risk domain k =
     (if domain = ''climate'' \<and> k = SetTemperature then MediumRisk
      else if domain = ''cover'' \<and> k = CloseIt then MediumRisk
      else if domain = ''cover'' \<and> k = Toggle then MediumRisk
      else if domain = ''script'' \<and> k = Activate then MediumRisk
      else LowRisk)"

definition assess_home_action :: "home_action \<Rightarrow> action_policy_decision" where
  "assess_home_action a =
     (let t = act_target a; domain = (case tgt_domain t of Some d \<Rightarrow> d | None \<Rightarrow> '''') in
      if act_kind a = Activate \<and> tgt_kind t = TkScript \<and> \<not> voice_safe t
      then policy_deny (display_name t @ '' is not a voice-safe script'')
      else if \<not> voice_safe t
      then policy_require_confirmation HighRisk (display_name t @ '' is not marked voice-safe'')
      else if domain \<in> {''lock'', ''alarm_control_panel'', ''camera''}
      then policy_require_confirmation HighRisk
             (display_name t @ '' controls a sensitive '' @ domain @ '' device'')
      else if act_kind a = UnlockIt
      then policy_require_confirmation HighRisk
             (''unlocking '' @ display_name t @ '' requires confirmation'')
      else if act_kind a = OpenIt \<and> (domain = ''cover'' \<or> opens_physical_barrier t)
      then policy_require_confirmation HighRisk
             (''opening '' @ display_name t @ '' requires confirmation'')
      else policy_allow (residual_risk domain (act_kind a)) ''allowed by local household policy'')"

section \<open>The runtime gate\<close>

definition sensitive_risk :: "action_risk \<Rightarrow> bool" where
  "sensitive_risk rk \<longleftrightarrow> rk \<in> {MediumRisk, HighRisk}"

definition origin_floor :: "request_origin \<Rightarrow> flt \<Rightarrow> flt" where
  "origin_floor origin c =
     (case origin of
        Voice \<Rightarrow> flt_max c f32_088
      | Telegram \<Rightarrow> flt_max c f32_090
      | Api \<Rightarrow> flt_max c f32_084
      | _ \<Rightarrow> c)"

definition required_confidence ::
  "action_policy_decision \<Rightarrow> actuation_safety_config \<Rightarrow> request_origin \<Rightarrow> bool \<Rightarrow> flt" where
  "required_confidence policy cfg origin confirmed =
     (let base = (if sensitive_risk (risk policy) then min_sensitive_confidence cfg
                  else min_target_confidence cfg)
      in if confirmed then base else origin_floor origin base)"

definition assess_runtime_home_action ::
  "home_action \<Rightarrow> action_policy_decision \<Rightarrow> integration_health \<Rightarrow> home_state option \<Rightarrow>
     actuation_safety_config \<Rightarrow> request_origin \<Rightarrow> bool \<Rightarrow> runtime_safety_decision" where
  "assess_runtime_home_action a policy health current_state cfg origin confirmed =
     (let t = act_target a; required = required_confidence policy cfg origin confirmed in
      if \<not> safety_enabled cfg then runtime_allow ''runtime safety gate disabled''
      else if \<not> connected health
      then runtime_deny (''Home Assistant is not healthy enough for actuation: '' @ health_message health)
      else if entity_ids t = [] then runtime_deny ''target resolution produced no concrete entities''
      else if flt_lt (tgt_confidence t) required
      then runtime_deny (''target match confidence '' @ fmt2 (tgt_confidence t)
             @ '' is below required '' @ fmt2 required)
      else if deny_multi_target_sensitive cfg \<and> sensitive_risk (risk policy)
                \<and> 1 < length (entity_ids t)
      then runtime_deny (''sensitive action targets '' @ show_nat (length (entity_ids t))
             @ '' entities, which is too broad'')
      else if require_available_state cfg \<and> tgt_kind t \<notin> {TkScene, TkScript}
      then (case current_state of
              Some st \<Rightarrow> if available st then runtime_allow ''passed runtime actuation safety checks''
                         else runtime_deny (display_name t @ '' is currently unavailable'')
            | None \<Rightarrow> runtime_deny (''runtime safety check could not verify current state for ''
                         @ display_name t))
      else runtime_allow ''passed runtime actuation safety checks'')"

section \<open>Lemmas\<close>

lemma decision_simps [simp]:
  "rt_allowed (runtime_allow w)" "\<not> rt_allowed (runtime_deny w)"
  "rt_reason (runtime_allow w) = w" "rt_reason (runtime_deny w) = w"
  "act_allowed (policy_allow rk w)" "\<not> act_allowed (policy_require_confirmation rk w)"
  "\<not> act_allowed (policy_deny w)"
  "\<not> requires_confirmation (policy_allow rk w)"
  "requires_confirmation (policy_require_confirmation rk w)"
  "\<not> requires_confirmation (policy_deny w)"
  "risk (policy_allow rk w) = rk" "risk (policy_require_confirmation rk w) = rk"
  "risk (policy_deny w) = HighRisk"
  by (simp_all add: runtime_allow_def runtime_deny_def policy_allow_def
      policy_require_confirmation_def policy_deny_def)

definition target_domain :: "home_target \<Rightarrow> string" where
  "target_domain t = (case tgt_domain t of Some d \<Rightarrow> d | None \<Rightarrow> '''')"

text \<open>The actions that the household policy calls dangerous: anything on a target that is not
  voice-safe, on a lock, alarm panel or camera, unlocking, and opening a cover or barrier.\<close>

definition dangerous :: "home_action \<Rightarrow> bool" where
  "dangerous a \<longleftrightarrow> \<not> voice_safe (act_target a)
     \<or> target_domain (act_target a) \<in> {''lock'', ''alarm_control_panel'', ''camera''}
     \<or> act_kind a = UnlockIt
     \<or> act_kind a = OpenIt \<and> (target_domain (act_target a) = ''cover''
          \<or> opens_physical_barrier (act_target a))"

definition refused_script :: "home_action \<Rightarrow> bool" where
  "refused_script a \<longleftrightarrow>
     act_kind a = Activate \<and> tgt_kind (act_target a) = TkScript \<and> \<not> voice_safe (act_target a)"

lemma assess_allowed_iff: "act_allowed (assess_home_action a) \<longleftrightarrow> \<not> dangerous a"
  by (auto simp: assess_home_action_def Let_def dangerous_def target_domain_def)

lemma assess_confirmable_iff:
  "requires_confirmation (assess_home_action a) \<longleftrightarrow> dangerous a \<and> \<not> refused_script a"
  by (auto simp: assess_home_action_def Let_def dangerous_def target_domain_def refused_script_def)

lemma assess_high_iff: "risk (assess_home_action a) = HighRisk \<longleftrightarrow> dangerous a"
  by (auto simp: assess_home_action_def Let_def dangerous_def target_domain_def residual_risk_def)

text \<open>What the gate checks when it is switched on.\<close>

definition runtime_conditions ::
  "home_action \<Rightarrow> action_policy_decision \<Rightarrow> integration_health \<Rightarrow> home_state option \<Rightarrow>
     actuation_safety_config \<Rightarrow> request_origin \<Rightarrow> bool \<Rightarrow> bool" where
  "runtime_conditions a policy health st cfg origin confirmed \<longleftrightarrow>
     connected health \<and> entity_ids (act_target a) \<noteq> []
     \<and> \<not> flt_lt (tgt_confidence (act_target a)) (required_confidence policy cfg origin confirmed)
     \<and> (deny_multi_target_sensitive cfg \<and> sensitive_risk (risk policy) \<longrightarrow>
          length (entity_ids (act_target a)) \<le> 1)
     \<and> (require_available_state cfg \<and> tgt_kind (act_target a) \<notin> {TkScene, TkScript} \<longrightarrow>
          (\<exists>s. st = Some s \<and> available s))"

lemma runtime_allowed_iff:
  "rt_allowed (assess_runtime_home_action a policy health st cfg origin confirmed) \<longleftrightarrow>
     \<not> safety_enabled cfg \<or> runtime_conditions a policy health st cfg origin confirmed"
  by (cases st) (auto simp: assess_runtime_home_action_def Let_def runtime_conditions_def)

text \<open>Confirming never hurts: it only removes the floor of the origin.\<close>

lemma origin_floor_mono: "flt_lt c x \<Longrightarrow> flt_lt c (origin_floor origin x)"
  by (cases origin; cases x; cases c)
    (auto simp: origin_floor_def flt_max_def f32_084_def f32_088_def f32_090_def)

lemma runtime_confirm_mono:
  assumes "runtime_conditions a policy health st cfg origin False"
  shows "runtime_conditions a policy health st cfg origin' True"
  using assms origin_floor_mono
  by (fastforce simp: runtime_conditions_def required_confidence_def Let_def)

section \<open>Properties\<close>

text \<open>The static assessment. An action is allowed at once exactly when it is not dangerous;
  every dangerous action is high risk and asks for a confirmation, except that activating a script
  that is not voice-safe is refused outright.\<close>

theorem assess_home_action_correct:
  "(act_allowed (assess_home_action a) \<longleftrightarrow> \<not> dangerous a) \<and>
   (requires_confirmation (assess_home_action a) \<longleftrightarrow> dangerous a \<and> \<not> refused_script a) \<and>
   (risk (assess_home_action a) = HighRisk \<longleftrightarrow> dangerous a)"
  by (simp add: assess_allowed_iff assess_confirmable_iff assess_high_iff)

text \<open>The runtime gate. With the gate on, an action passes exactly when the integration is
  connected, the target has entities, its confidence is not below the floor for its risk (and, when
  unconfirmed, for its origin), a sensitive action has a single entity and the state of a device is
  known and available; a confirmation never turns a pass into a refusal.\<close>

theorem runtime_gate_correct:
  "(rt_allowed (assess_runtime_home_action a policy health st cfg origin confirmed) \<longleftrightarrow>
      \<not> safety_enabled cfg \<or> runtime_conditions a policy health st cfg origin confirmed) \<and>
   (rt_allowed (assess_runtime_home_action a policy health st cfg origin False) \<longrightarrow>
      rt_allowed (assess_runtime_home_action a policy health st cfg origin' True))"
  using runtime_confirm_mono by (auto simp: runtime_allowed_iff)

theorem runtime_gate_correct_witness:
  "rt_allowed (assess_runtime_home_action
      \<lparr>act_kind = TurnOn,
       act_target = \<lparr>tgt_kind = TkEntity, tgt_query = ''lamp'', display_name = ''Lamp'',
         entity_ids = [''light.lamp''], tgt_domain = Some ''light'', tgt_area = None,
         tgt_confidence = f32_090, voice_safe = True\<rparr>, act_value = None\<rparr>
      (policy_allow LowRisk '''') \<lparr>connected = True, cached_graph = False, health_message = ''ok''\<rparr>
      (Some \<lparr>target_name = ''Lamp'', hs_domain = None, hs_area = None, entities = [], available = True,
         hs_summary = ''''\<rparr>) default_actuation_safety Confirmation True)"
proof -
  let ?a = "\<lparr>act_kind = TurnOn,
       act_target = \<lparr>tgt_kind = TkEntity, tgt_query = ''lamp'', display_name = ''Lamp'',
         entity_ids = [''light.lamp''], tgt_domain = Some ''light'', tgt_area = None,
         tgt_confidence = f32_090, voice_safe = True\<rparr>, act_value = None\<rparr>"
  let ?h = "\<lparr>connected = True, cached_graph = False, health_message = ''ok''\<rparr>"
  let ?s = "Some \<lparr>target_name = ''Lamp'', hs_domain = None, hs_area = None, entities = [],
       available = True, hs_summary = ''''\<rparr>"
  have "rt_allowed (assess_runtime_home_action ?a (policy_allow LowRisk '''') ?h ?s
      default_actuation_safety Voice False)"
    by (simp add: assess_runtime_home_action_def Let_def default_actuation_safety_def sensitive_risk_def
        required_confidence_def origin_floor_def flt_max_def f32_078_def f32_088_def f32_090_def)
  then show ?thesis
    using runtime_gate_correct [of ?a "policy_allow LowRisk ''''" ?h ?s default_actuation_safety
        Voice False Confirmation] by blast
qed

text \<open>What the gate does not stop: an unset confidence (NaN) is not below any floor, so the
  comparison of the runtime gate lets such a target through from every origin.\<close>

lemma runtime_gate_nan_confidence:
  "rt_allowed (assess_runtime_home_action
      (a\<lparr>act_target := t\<lparr>tgt_confidence := NaN, tgt_kind := TkScene, entity_ids := [e]\<rparr>\<rparr>)
      policy \<lparr>connected = True, cached_graph = g, health_message = m\<rparr> st cfg origin confirmed)"
  by (simp add: runtime_allowed_iff runtime_conditions_def)

end
