(* ===== verification/Rounding.thy ===== *)
theory Rounding
  imports Values
begin

text \<open>
  Laws of the rounding of floating-point results: the exponent that \<open>round_bits\<close> works at, the
  relative error of one rounding, monotonicity at representable values, and the values that
  are multiples of one unit in the last place.
\<close>

section \<open>Powers of two\<close>

lemma pow2_powi: "pow2 e = 2 powi e"
  by (simp add: pow2_def power_int_def power_one_over)

lemma pow2_pos [simp]: "0 < pow2 e"
  by (simp add: pow2_powi)

lemma pow2_nonzero [simp]: "pow2 e \<noteq> 0"
  using pow2_pos [of e] by linarith

lemma pow2_add: "pow2 (a + b) = pow2 a * pow2 b"
  by (simp add: pow2_powi power_int_add)

lemma pow2_Suc: "pow2 (e + 1) = 2 * pow2 e"
  by (simp add: pow2_add) (simp add: pow2_def)

lemma pow2_nat [simp]: "pow2 (int n) = 2 ^ n"
  by (simp add: pow2_def)

lemma pow2_less: "a < b \<Longrightarrow> pow2 a < pow2 b"
  by (simp add: pow2_powi power_int_strict_increasing)

lemma pow2_less_iff [simp]: "pow2 a < pow2 b \<longleftrightarrow> a < b"
  using pow2_less [of a b] pow2_less [of b a] by (cases a b rule: linorder_cases) auto

lemma pow2_le_iff [simp]: "pow2 a \<le> pow2 b \<longleftrightarrow> a \<le> b"
  using pow2_less_iff [of b a] by (simp only: not_less [symmetric])

section \<open>The exponent\<close>

lemma nat_log2_bounds: "0 < n \<Longrightarrow> 2 ^ nat_log2 n \<le> n \<and> n < 2 * 2 ^ nat_log2 n"
proof (induction n rule: nat_log2.induct)
  case (1 n)
  show ?case
  proof (cases "n < 2")
    case True
    then show ?thesis using 1 by (simp add: nat_log2.simps [of n])
  next
    case False
    then have "2 ^ nat_log2 (n div 2) \<le> n div 2" "n div 2 < 2 * 2 ^ nat_log2 (n div 2)"
      using 1 by auto
    moreover from this have "2 * 2 ^ nat_log2 (n div 2) \<le> n" "n < 2 * (2 * 2 ^ nat_log2 (n div 2))"
      by linarith+
    ultimately show ?thesis using False by (simp add: nat_log2.simps [of n])
  qed
qed

lemma rat_log2_bounds:
  assumes "0 < q"
  shows "pow2 (rat_log2 q) \<le> q" and "q < 2 * pow2 (rat_log2 q)"
proof -
  obtain n d where nd: "quotient_of q = (n, d)" by force
  have d: "0 < d" using quotient_of_denom_pos [OF nd] .
  have q: "q = of_int n / of_int d" using quotient_of_div [OF nd] .
  have n: "0 < n" using assms d q by (simp add: zero_less_divide_iff)
  define a where "a = nat_log2 (nat n)"
  define b where "b = nat_log2 (nat d)"
  have "2 ^ a \<le> nat n" "nat n < 2 * 2 ^ a" "2 ^ b \<le> nat d" "nat d < 2 * 2 ^ b"
    using nat_log2_bounds [of "nat n"] nat_log2_bounds [of "nat d"] n d by (auto simp: a_def b_def)
  then have "2 ^ a \<le> n" "n < 2 * 2 ^ a" "2 ^ b \<le> d" "d < 2 * 2 ^ b"
    using n d by (simp_all add: le_nat_iff nat_less_iff)
  then have bn: "(2::rat) ^ a \<le> of_int n" "of_int n < (2::rat) * 2 ^ a"
    and bd: "(2::rat) ^ b \<le> of_int d" "of_int d < (2::rat) * 2 ^ b"
    using of_int_le_iff [of "2 ^ a" n, where 'a = rat] of_int_less_iff [of n "2 * 2 ^ a", where 'a = rat]
      of_int_le_iff [of "2 ^ b" d, where 'a = rat] of_int_less_iff [of d "2 * 2 ^ b", where 'a = rat]
    by simp_all
  have e: "pow2 (int a - int b) = 2 ^ a / 2 ^ b"
    by (simp add: pow2_powi power_int_diff)
  have lo: "pow2 (int a - int b) / 2 \<le> q"
  proof -
    have "(2::rat) ^ a / (2 * 2 ^ b) \<le> of_int n / of_int d"
      using bn bd d n by (intro frac_le) simp_all
    then show ?thesis using q e by simp
  qed
  have hi: "q < 2 * pow2 (int a - int b)"
  proof -
    have "of_int n / of_int d < (2 * 2 ^ a) / (2::rat) ^ b"
      using bn bd d n by (intro frac_less) simp_all
    then show ?thesis using q e by simp
  qed
  have half: "pow2 (int a - int b - 1) = pow2 (int a - int b) / 2"
    using pow2_Suc [of "int a - int b - 1"] by simp
  have l: "rat_log2 q = (if q < pow2 (int a - int b) then int a - int b - 1 else int a - int b)"
    by (simp add: rat_log2_def nd a_def b_def Let_def)
  show "pow2 (rat_log2 q) \<le> q" "q < 2 * pow2 (rat_log2 q)"
    using lo hi half by (auto simp: l)
qed

lemma rat_log2_unique:
  assumes "pow2 e \<le> q" and "q < 2 * pow2 e"
  shows "rat_log2 q = e"
proof -
  have q: "0 < q" using assms(1) pow2_pos [of e] by linarith
  have "pow2 (rat_log2 q) < pow2 (e + 1)" "pow2 e < pow2 (rat_log2 q + 1)"
    using rat_log2_bounds [OF q] assms unfolding pow2_Suc by linarith+
  then show ?thesis by simp
qed

lemma rat_log2_nonneg: "1 \<le> q \<Longrightarrow> 0 \<le> rat_log2 q"
proof -
  assume q: "1 \<le> q"
  then have "q < pow2 (rat_log2 q + 1)" using rat_log2_bounds(2) [of q] by (simp add: pow2_Suc)
  moreover have "pow2 0 = 1" by (simp add: pow2_def)
  ultimately have "pow2 0 < pow2 (rat_log2 q + 1)" using q by linarith
  then show ?thesis by simp
qed

section \<open>Rounding\<close>

lemma round_half_even_mono: "x \<le> y \<Longrightarrow> round_half_even x \<le> round_half_even y"
proof (rule ccontr)
  assume le: "x \<le> y" and "\<not> round_half_even x \<le> round_half_even y"
  then have lt: "of_int (round_half_even y) + 1 \<le> (of_int (round_half_even x) :: rat)" by linarith
  have dx: "\<bar>of_int (round_half_even x) - x\<bar> \<le> 1 / 2" and dy: "\<bar>of_int (round_half_even y) - y\<bar> \<le> 1 / 2"
    by (rule round_half_even_dist)+
  then have "x = y" using lt le by linarith
  then show False using lt by simp
qed

lemma round_half_even_ge: "of_int k \<le> x \<Longrightarrow> k \<le> round_half_even x"
  using round_half_even_mono [of "of_int k" x] by simp

lemma round_half_even_le: "x \<le> of_int k \<Longrightarrow> round_half_even x \<le> k"
  using round_half_even_mono [of x "of_int k"] by simp

lemma round_half_even_near: "\<bar>x - of_int k\<bar> < 1 / 2 \<Longrightarrow> round_half_even x = k"
proof -
  assume "\<bar>x - of_int k\<bar> < 1 / 2"
  then have "\<bar>of_int (round_half_even x) - (of_int k :: rat)\<bar> < 1"
    using round_half_even_dist [of x] by linarith
  then show ?thesis by linarith
qed

lemma round_bits_0 [simp]: "round_bits p 0 = 0"
  by (simp add: round_bits_def)

text \<open>The relative error of one rounding to \<open>p\<close> bits is at most \<open>2\<^sup>-\<^sup>p\<close>.\<close>

lemma round_bits_error: "\<bar>round_bits p q - q\<bar> \<le> \<bar>q\<bar> * pow2 (- int p)"
proof (cases "q = 0")
  case False
  define s where "s = pow2 (rat_log2 \<bar>q\<bar> - int p + 1)"
  have s: "0 < s" "round_bits p q = of_int (round_half_even (q / s)) * s"
    using False by (simp_all add: s_def round_bits_def Let_def)
  have "\<bar>round_bits p q - q\<bar> = \<bar>of_int (round_half_even (q / s)) - q / s\<bar> * s"
    using s by (simp add: abs_mult_pos [symmetric] left_diff_distrib del: times_divide_eq_left) (simp add: field_simps)
  also have "\<dots> \<le> 1 / 2 * s" using round_half_even_dist [of "q / s"] s(1) by (intro mult_right_mono) simp_all
  also have "\<dots> = pow2 (rat_log2 \<bar>q\<bar>) * pow2 (- int p)"
    using pow2_Suc [of "rat_log2 \<bar>q\<bar> - int p"] by (simp add: s_def pow2_add [symmetric])
  also have "\<dots> \<le> \<bar>q\<bar> * pow2 (- int p)"
    using rat_log2_bounds(1) [of "\<bar>q\<bar>"] False
    by (intro mult_right_mono less_imp_le [OF pow2_pos]) simp
  finally show ?thesis .
qed simp

lemma round_bits_nonneg: "0 \<le> q \<Longrightarrow> 0 \<le> round_bits p q"
proof (cases "q = 0")
  case False
  assume "0 \<le> q"
  then show ?thesis using False pow2_pos [of "rat_log2 q - int p + 1"]
    round_half_even_ge [of 0 "q / pow2 (rat_log2 q - int p + 1)"]
    by (simp add: round_bits_def Let_def divide_nonneg_pos mult_nonneg_nonneg less_imp_le)
qed simp

text \<open>At a known exponent the result is a multiple of the unit in the last place.\<close>

lemma round_bits_at:
  assumes "pow2 e \<le> q" and "q < 2 * pow2 e"
  shows "round_bits p q = of_int (round_half_even (q / pow2 (e - int p + 1))) * pow2 (e - int p + 1)"
proof -
  have "0 < q" using assms(1) pow2_pos [of e] by linarith
  then show ?thesis using rat_log2_unique [OF assms] by (simp add: round_bits_def Let_def)
qed

lemma round_bits_fixed:
  assumes "pow2 e \<le> q" and "q < 2 * pow2 e" and "q = of_int k * pow2 (e - int p + 1)"
  shows "round_bits p q = q"
  using round_bits_at [OF assms(1,2), of p] pow2_pos [of "e - int p + 1"] assms(3) by simp

lemma round_bits_ge_pow2:
  assumes "0 < q" and "0 < p"
  shows "pow2 (rat_log2 q) \<le> round_bits p q"
proof -
  define s where "s = pow2 (rat_log2 q - int p + 1)"
  have s: "0 < s" "pow2 (rat_log2 q) = 2 ^ (p - 1) * s"
  proof -
    have "rat_log2 q = int (p - 1) + (rat_log2 q - int p + 1)" using assms(2) by simp
    then have "pow2 (rat_log2 q) = pow2 (int (p - 1)) * s" unfolding s_def pow2_add [symmetric] by simp
    then show "pow2 (rat_log2 q) = 2 ^ (p - 1) * s" by (simp only: pow2_nat)
  qed (simp add: s_def)
  have "of_int (2 ^ (p - 1)) \<le> q / s"
    using rat_log2_bounds(1) [OF assms(1)] s by (simp add: le_divide_eq)
  then have "2 ^ (p - 1) \<le> round_half_even (q / s)" by (rule round_half_even_ge)
  then have "of_int (2 ^ (p - 1)) \<le> (of_int (round_half_even (q / s)) :: rat)" by (simp only: of_int_le_iff)
  then have "2 ^ (p - 1) * s \<le> of_int (round_half_even (q / s)) * s"
    using s(1) by (intro mult_right_mono) simp_all
  then show ?thesis using assms(1) s(2) by (simp add: round_bits_def s_def Let_def)
qed

lemma round_bits_ge_one: "1 \<le> q \<Longrightarrow> 0 < p \<Longrightarrow> 1 \<le> round_bits p q"
proof -
  assume q: "1 \<le> q" and p: "0 < p"
  have "pow2 0 \<le> pow2 (rat_log2 q)" using rat_log2_nonneg [OF q] by simp
  moreover have "pow2 0 = 1" by (simp add: pow2_def)
  moreover have "pow2 (rat_log2 q) \<le> round_bits p q" using q p by (intro round_bits_ge_pow2) simp_all
  ultimately show ?thesis by linarith
qed

text \<open>A value with at most \<open>p\<close> significant bits is not changed.\<close>

lemma round_bits_representable:
  assumes "q = of_int m * pow2 e" and "\<bar>q\<bar> < pow2 (e + int p)"
  shows "round_bits p q = q"
proof (cases "q = 0")
  case False
  define l where "l = rat_log2 \<bar>q\<bar>"
  define i where "i = nat (e - (l - int p + 1))"
  have "pow2 l < pow2 (e + int p)"
    using rat_log2_bounds(1) [of "\<bar>q\<bar>"] False assms(2) unfolding l_def by linarith
  then have "e = int i + (l - int p + 1)" by (simp add: i_def)
  then have "pow2 e = 2 ^ i * pow2 (l - int p + 1)" using pow2_add [of "int i"] by simp
  then have "q / pow2 (l - int p + 1) = of_int (m * 2 ^ i)"
    using assms(1) pow2_pos [of "l - int p + 1"] by simp
  then show ?thesis
    using False pow2_pos [of "l - int p + 1"] unfolding round_bits_def l_def [symmetric] Let_def
    by (simp only: round_half_even_int if_False) (simp add: field_simps)
qed simp

end
