(* ===== verification/HaGraph.thy ===== *)
theory HaGraph
  imports HaPolicy Rounding "HOL-Library.List_Lexorder" "HOL-Library.Char_ord"
begin

text \<open>
  The map of the house and the choice of a target (\<open>ha/provider.rs\<close>, \<open>ha/entity_fidelity.rs\<close>):
  the graph built from the states and areas that Home Assistant reports, the scores between a
  query and the aliases of a device, and \<open>resolve_target_in_graph\<close>.

  Scores are \<open>f32\<close> values: each operation rounds its exact result to 24 bits.
\<close>

section \<open>Data\<close>

record area_ref =
  ar_id :: string
  ar_name :: string
  ar_aliases :: "string list"

record device_ref =
  dr_id :: string
  dr_name :: string
  dr_domain :: string
  dr_area :: "string option"
  dr_entity_ids :: "string list"
  dr_aliases :: "string list"
  dr_capabilities :: "string list"

record entity_ref =
  er_id :: string
  er_name :: string
  er_domain :: string
  er_area :: "string option"
  er_aliases :: "string list"
  er_state :: string
  er_capabilities :: "string list"

record scene_ref =
  sr_id :: string
  sr_name :: string
  sr_area :: "string option"
  sr_aliases :: "string list"
  sr_voice_safe :: bool

type_synonym script_ref = scene_ref

record alias_ref =
  al_alias :: string
  al_target_id :: string
  al_kind :: string

record home_graph =
  hg_areas :: "area_ref list"
  hg_devices :: "device_ref list"
  hg_entities :: "entity_ref list"
  hg_scenes :: "scene_ref list"
  hg_scripts :: "script_ref list"
  hg_aliases :: "alias_ref list"
  hg_domains :: "string list"
  hg_capabilities :: "string list"

record area_template_entry =
  at_id :: string
  at_name :: string
  at_entities :: "string list"

section \<open>Words of a query\<close>

fun split_if :: "(char \<Rightarrow> bool) \<Rightarrow> string \<Rightarrow> string list" where
  "split_if P [] = [[]]"
| "split_if P (c # s) =
     (if P c then [] # split_if P s
      else (case split_if P s of [] \<Rightarrow> [[c]] | p # ps \<Rightarrow> (c # p) # ps))"

definition query_tokens :: "string \<Rightarrow> string list" where
  "query_tokens t = filter (\<lambda>w. w \<noteq> []) (split_if (\<lambda>c. \<not> is_alphanumeric c) (to_lowercase t))"

definition domain_of_word :: "string \<Rightarrow> string option" where
  "domain_of_word w =
     (if w \<in> {''light'', ''lights'', ''lamp'', ''lamps''} then Some ''light''
      else if w \<in> {''fan'', ''fans''} then Some ''fan''
      else if w \<in> {''thermostat'', ''temperature'', ''heat'', ''heating'', ''cooling'', ''ac''} then Some ''climate''
      else if w \<in> {''blind'', ''blinds'', ''shade'', ''shades'', ''curtain'', ''curtains'', ''cover'', ''covers'', ''garage''}
      then Some ''cover''
      else if w \<in> {''lock'', ''locks'', ''unlock''} then Some ''lock''
      else if w \<in> {''switch'', ''switches'', ''plug'', ''outlet''} then Some ''switch''
      else None)"

definition BENIGN_QUERY_TOKENS :: "string list" where
  "BENIGN_QUERY_TOKENS =
     [''all'', ''the'', ''a'', ''an'', ''every'', ''any'', ''my'', ''our'', ''this'', ''that'', ''please'', ''now'',
      ''here'', ''turn'', ''switch'', ''set'', ''get'', ''status'', ''of'', ''to'', ''in'']"

text \<open>An element of the list is the domain and the area of one entity.\<close>

definition whole_home_resolution_is_trustworthy :: "(string \<times> string option) list \<Rightarrow> string \<Rightarrow> bool" where
  "whole_home_resolution_is_trustworthy views t =
     (let tokens = query_tokens t in
      case List.map_filter domain_of_word tokens of
        [] \<Rightarrow> True
      | domain # _ \<Rightarrow>
          let valid_place = concat (map query_tokens
                (List.map_filter snd (filter (\<lambda>(d, a). d = domain) views)))
          in list_all (\<lambda>w. domain_of_word w \<noteq> None \<or> w \<in> set BENIGN_QUERY_TOKENS \<or> w \<in> set valid_place)
               tokens)"

definition is_ascii_alphanumeric :: "char \<Rightarrow> bool" where
  "is_ascii_alphanumeric c \<longleftrightarrow> is_ascii_uppercase c \<or> is_ascii_lowercase c \<or> is_ascii_digit c"

definition is_ascii_whitespace :: "char \<Rightarrow> bool" where
  "is_ascii_whitespace c \<longleftrightarrow> code c \<in> {9, 10, 12, 13, 32}"

definition normalize_phrase :: "string \<Rightarrow> string" where
  "normalize_phrase s =
     join_str '' '' (split_whitespace
       (map (\<lambda>c. if is_ascii_alphanumeric c \<or> is_ascii_whitespace c then c else CHR '' '') (to_lowercase s)))"

section \<open>Building the graph\<close>

definition is_voice_relevant_domain :: "string \<Rightarrow> bool" where
  "is_voice_relevant_domain d \<longleftrightarrow>
     d \<in> {''light'', ''switch'', ''fan'', ''scene'', ''script'', ''climate'', ''cover'', ''lock'', ''sensor'',
           ''binary_sensor'', ''media_player''}"

definition domain_synonyms :: "string \<Rightarrow> string list" where
  "domain_synonyms d =
     (if d = ''light'' then [''light'', ''lights'', ''lamp'', ''lamps'']
      else if d = ''switch'' then [''switch'', ''switches'', ''plug'', ''outlet'']
      else if d = ''fan'' then [''fan'', ''fans'']
      else if d = ''climate'' then [''thermostat'', ''temperature'', ''heater'']
      else if d = ''cover'' then [''cover'', ''covers'', ''blind'', ''blinds'']
      else if d = ''lock'' then [''lock'', ''locks'', ''door lock'']
      else if d = ''scene'' then [''scene'', ''scenes'']
      else if d = ''script'' then [''script'', ''routine'']
      else [])"

fun dedup_loop :: "string list \<Rightarrow> string list \<Rightarrow> string list" where
  "dedup_loop seen [] = []"
| "dedup_loop seen (v # vs) =
     (let v = trim v in
      if v \<noteq> [] \<and> v \<notin> set seen then v # dedup_loop (v # seen) vs else dedup_loop seen vs)"

definition dedup_aliases :: "string list \<Rightarrow> string list" where
  "dedup_aliases values = dedup_loop [] values"

definition build_aliases :: "string \<Rightarrow> string \<Rightarrow> string option \<Rightarrow> string list" where
  "build_aliases name domain area =
     (let aliases = normalize_phrase name # domain_synonyms domain;
          aliases = (case area of
              None \<Rightarrow> aliases
            | Some a \<Rightarrow> let area_norm = normalize_phrase a in
                aliases @ [area_norm @ '' '' @ normalize_phrase name]
                  @ map (\<lambda>syn. area_norm @ '' '' @ syn) (domain_synonyms domain))
      in dedup_aliases aliases)"

definition capabilities_for :: "string \<Rightarrow> json \<Rightarrow> string list" where
  "capabilities_for domain attrs =
     [domain] @
     (if domain = ''light''
      then [''turn_on'', ''turn_off''] @ (if json_get attrs ''brightness'' \<noteq> None then [''set_brightness''] else [])
      else if domain \<in> {''switch'', ''fan''} then [''turn_on'', ''turn_off'']
      else if domain = ''climate'' then [''set_temperature'']
      else if domain = ''cover'' then [''open'', ''close'']
      else if domain = ''lock'' then [''lock'', ''unlock'']
      else if domain \<in> {''scene'', ''script''} then [''activate'']
      else [])"

definition friendly_name :: "entity \<Rightarrow> string" where
  "friendly_name e =
     (case Option.bind (json_get (attributes e) ''friendly_name'') json_as_str of Some s \<Rightarrow> s | None \<Rightarrow> entity_id e)"

definition is_voice_safe_script :: "entity \<Rightarrow> bool" where
  "is_voice_safe_script e =
     (let raw_name = to_lowercase (friendly_name e); raw_entity_id = to_lowercase (entity_id e);
          name = normalize_phrase (friendly_name e);
          eid = normalize_phrase (map (\<lambda>c. if c = CHR ''.'' then CHR '' '' else c) (entity_id e))
      in str_contains raw_name ''[voice]'' \<or> str_contains raw_name ''(voice)''
         \<or> starts_with name ''voice '' \<or> str_contains eid '' voice ''
         \<or> str_contains raw_entity_id ''voice_'' \<or> str_contains raw_entity_id ''genie_'')"

definition entity_domain :: "string \<Rightarrow> string" where
  "entity_domain eid = hd (split_char (CHR ''.'') eid)"

text \<open>The area of an entity: areas listed later overwrite earlier ones.\<close>

definition entity_to_area :: "area_template_entry list \<Rightarrow> string \<Rightarrow> string option" where
  "entity_to_area areas eid =
     map_of (rev (concat (map (\<lambda>a. map (\<lambda>i. (i, at_name a)) (at_entities a)) areas))) eid"

definition area_ref_of :: "area_template_entry \<Rightarrow> area_ref" where
  "area_ref_of a =
     \<lparr>ar_id = at_id a, ar_name = at_name a, ar_aliases = dedup_aliases [normalize_phrase (at_name a)]\<rparr>"

definition entity_ref_of :: "area_template_entry list \<Rightarrow> entity \<Rightarrow> entity_ref" where
  "entity_ref_of areas st =
     (let domain = entity_domain (entity_id st); name = friendly_name st;
          area = entity_to_area areas (entity_id st)
      in \<lparr>er_id = entity_id st, er_name = name, er_domain = domain, er_area = area,
          er_aliases = build_aliases name domain area, er_state = ent_state st,
          er_capabilities = capabilities_for domain (attributes st)\<rparr>)"

definition scene_ref_of :: "bool \<Rightarrow> entity_ref \<Rightarrow> scene_ref" where
  "scene_ref_of safe e =
     \<lparr>sr_id = er_id e, sr_name = er_name e, sr_area = er_area e, sr_aliases = er_aliases e, sr_voice_safe = safe\<rparr>"

definition device_ref_of :: "entity_ref \<Rightarrow> device_ref" where
  "device_ref_of e =
     \<lparr>dr_id = er_id e, dr_name = er_name e, dr_domain = er_domain e, dr_area = er_area e,
      dr_entity_ids = [er_id e], dr_aliases = er_aliases e, dr_capabilities = er_capabilities e\<rparr>"

definition btree_set :: "string list \<Rightarrow> string list" where
  "btree_set xs = sort (remdups xs)"

definition build_graph :: "entity list \<Rightarrow> area_template_entry list \<Rightarrow> home_graph" where
  "build_graph states areas =
     (let relevant = filter (\<lambda>st. is_voice_relevant_domain (entity_domain (entity_id st))) states;
          refs = map (\<lambda>st. (st, entity_ref_of areas st)) relevant;
          area_refs = map area_ref_of areas
      in \<lparr>hg_areas = area_refs,
          hg_devices = map (device_ref_of \<circ> snd) (filter (\<lambda>(_, e). er_domain e \<notin> {''scene'', ''script''}) refs),
          hg_entities = map snd refs,
          hg_scenes = map (scene_ref_of True \<circ> snd) (filter (\<lambda>(_, e). er_domain e = ''scene'') refs),
          hg_scripts = map (\<lambda>(st, e). scene_ref_of (is_voice_safe_script st) e)
            (filter (\<lambda>(_, e). er_domain e = ''script'') refs),
          hg_aliases = concat (map (\<lambda>a. map (\<lambda>al. \<lparr>al_alias = al, al_target_id = ar_id a, al_kind = ''area''\<rparr>)
                (ar_aliases a)) area_refs)
            @ concat (map (\<lambda>(_, e). map (\<lambda>al. \<lparr>al_alias = al, al_target_id = er_id e, al_kind = er_domain e\<rparr>)
                (er_aliases e)) refs),
          hg_domains = btree_set (map (er_domain \<circ> snd) refs),
          hg_capabilities = btree_set (concat (map (er_capabilities \<circ> snd) refs))\<rparr>)"

section \<open>Scores\<close>

definition f32_of_nat :: "nat \<Rightarrow> rat" where "f32_of_nat n = round_bits 24 (of_nat n)"
definition f32_add :: "rat \<Rightarrow> rat \<Rightarrow> rat" where "f32_add a b = round_bits 24 (a + b)"
definition f32_sub :: "rat \<Rightarrow> rat \<Rightarrow> rat" where "f32_sub a b = round_bits 24 (a - b)"
definition f32_mul :: "rat \<Rightarrow> rat \<Rightarrow> rat" where "f32_mul a b = round_bits 24 (a * b)"
definition f32_div :: "rat \<Rightarrow> rat \<Rightarrow> rat" where "f32_div a b = round_bits 24 (a / b)"

text \<open>The \<open>f32\<close> literals 0.35, 0.15, 0.42, 0.45, 0.8 and 1e-3.\<close>

definition f32_035 :: rat where "f32_035 = 11744051 / 33554432"
definition f32_015 :: rat where "f32_015 = 5033165 / 33554432"
definition NAMED_ENTITY_MATCH_THRESHOLD :: rat where "NAMED_ENTITY_MATCH_THRESHOLD = 14092861 / 33554432"
definition f32_045 :: rat where "f32_045 = 7549747 / 16777216"
definition f32_080 :: rat where "f32_080 = 13421773 / 16777216"
definition NAMED_ENTITY_TIE_EPSILON :: rat where "NAMED_ENTITY_TIE_EPSILON = 8589935 / 8589934592"

definition matching_words :: "string list \<Rightarrow> string list \<Rightarrow> nat" where
  "matching_words qws cws =
     length (filter (\<lambda>qw. list_ex (\<lambda>cw. str_contains cw qw \<or> str_contains qw cw) cws) qws)"

definition fuzzy_score :: "string list \<Rightarrow> string \<Rightarrow> string \<Rightarrow> rat" where
  "fuzzy_score query_words q candidate =
     (let candidate_words = split_whitespace candidate; score = 0;
          score = (if candidate = q then f32_add score 1
                   else if str_contains candidate q \<or> str_contains q candidate then f32_add score (3 / 4)
                   else score);
          score = (if query_words \<noteq> []
                   then f32_add score (f32_mul (f32_div (f32_of_nat (matching_words query_words candidate_words))
                          (f32_of_nat (length query_words))) f32_035)
                   else score);
          score = (if starts_with candidate q then f32_add score f32_015 else score)
      in min score 1)"

definition best_alias_score :: "string list \<Rightarrow> string \<Rightarrow> string list \<Rightarrow> rat" where
  "best_alias_score query_words q aliases = foldl max 0 (map (fuzzy_score query_words q) aliases)"

definition best_area_match :: "area_ref list \<Rightarrow> string \<Rightarrow> (string \<times> rat) option" where
  "best_area_match areas q =
     (let query_words = split_whitespace q in
      foldl (\<lambda>best area.
          let score = best_alias_score query_words q (ar_aliases area)
          in if score > f32_045 \<and> (case best of None \<Rightarrow> True | Some (_, b) \<Rightarrow> score > b)
             then Some (ar_name area, score) else best) None areas)"

definition infer_domain :: "string \<Rightarrow> string option" where
  "infer_domain q =
     (let tokens = query_tokens q in
      find (\<lambda>domain. list_ex (\<lambda>w. domain_of_word w = Some domain
              \<or> (domain = ''climate'' \<and> w \<in> {''warmer'', ''cooler''})) tokens)
        [''light'', ''switch'', ''fan'', ''climate'', ''cover'', ''lock''])"

definition query_is_bare_area_domain :: "string \<Rightarrow> string \<Rightarrow> string \<Rightarrow> bool" where
  "query_is_bare_area_domain q area_name domain =
     (let area_tokens = split_whitespace (normalize_phrase area_name);
          domain_tokens = concat (map split_whitespace (domain_synonyms domain))
      in list_all (\<lambda>w. w \<in> set area_tokens \<or> w \<in> set domain_tokens \<or> domain_of_word w = Some domain)
           (split_whitespace q))"

definition query_is_bare_area :: "string \<Rightarrow> string \<Rightarrow> bool" where
  "query_is_bare_area q area_name =
     list_all (\<lambda>w. w \<in> set (split_whitespace (normalize_phrase area_name))) (split_whitespace q)"

section \<open>Choosing a target\<close>

definition or_else :: "'a option \<Rightarrow> 'a option \<Rightarrow> 'a option" where
  "or_else a b = (case a of Some x \<Rightarrow> Some x | None \<Rightarrow> b)"

definition domain_label :: "string \<Rightarrow> nat \<Rightarrow> string" where
  "domain_label d count =
     (if d = ''light'' then (if count = 1 then ''light'' else ''lights'')
      else if d = ''switch'' then (if count = 1 then ''switch'' else ''switches'')
      else if d = ''fan'' then (if count = 1 then ''fan'' else ''fans'')
      else if d = ''cover'' then (if count = 1 then ''cover'' else ''covers'')
      else if d = ''lock'' then (if count = 1 then ''lock'' else ''locks'')
      else if d = ''climate'' then (if count = 1 then ''thermostat'' else ''thermostats'')
      else ''devices'')"

definition domain_plural_label :: "string \<Rightarrow> string" where
  "domain_plural_label d =
     (if d = ''light'' then ''lights'' else if d = ''switch'' then ''switches'' else if d = ''fan'' then ''fans''
      else if d = ''cover'' then ''covers'' else if d = ''lock'' then ''locks''
      else if d = ''climate'' then ''thermostats'' else ''devices'')"

definition WHOLE_HOME_DOMAIN_CONFIDENCE :: flt where
  "WHOLE_HOME_DOMAIN_CONFIDENCE = f32_090"

text \<open>The target that stands for one entity, with the confidence of the match.\<close>

definition entity_target :: "string \<Rightarrow> entity_ref \<Rightarrow> flt \<Rightarrow> home_target" where
  "entity_target query e conf =
     \<lparr>tgt_kind = TkEntity, tgt_query = query, display_name = er_name e, entity_ids = [er_id e],
      tgt_domain = Some (er_domain e), tgt_area = er_area e, tgt_confidence = conf,
      voice_safe = (er_domain e \<noteq> ''lock'')\<rparr>"

text \<open>The target that stands for a scene or a script.\<close>

definition scene_target :: "home_target_kind \<Rightarrow> string \<Rightarrow> string \<Rightarrow> scene_ref \<Rightarrow> flt \<Rightarrow> bool \<Rightarrow> home_target" where
  "scene_target k domain query sc conf safe =
     \<lparr>tgt_kind = k, tgt_query = query, display_name = sr_name sc, entity_ids = [sr_id sc],
      tgt_domain = Some domain, tgt_area = sr_area sc, tgt_confidence = conf, voice_safe = safe\<rparr>"

definition resolve_exact_entity_id ::
  "home_graph \<Rightarrow> string \<Rightarrow> home_action_kind option \<Rightarrow> home_target option" where
  "resolve_exact_entity_id g query hint =
     (let query = trim query in
      case find (\<lambda>e. eq_ignore_ascii_case (er_id e) query) (hg_entities g) of
        None \<Rightarrow> None
      | Some e \<Rightarrow>
          if er_domain e \<in> {''scene'', ''script''} \<and> hint \<notin> {Some Activate, None} then None
          else if er_domain e = ''scene''
          then Some (entity_target query e (Fin 1)\<lparr>tgt_kind := TkScene, voice_safe := True\<rparr>)
          else if er_domain e = ''script''
          then map_option (\<lambda>sc. scene_target TkScript ''script'' query sc (Fin 1) (sr_voice_safe sc))
                 (find (\<lambda>sc. eq_ignore_ascii_case (sr_id sc) query) (hg_scripts g))
          else Some (entity_target query e (Fin 1)))"

definition entity_views :: "home_graph \<Rightarrow> (string \<times> string option) list" where
  "entity_views g = map (\<lambda>e. (er_domain e, er_area e)) (hg_entities g)"

definition resolve_domain_target :: "home_graph \<Rightarrow> string \<Rightarrow> string \<Rightarrow> home_target option" where
  "resolve_domain_target g query domain =
     (let ids = map er_id (filter (\<lambda>e. er_domain e = domain) (hg_entities g)) in
      if ids = [] then None
      else if \<not> whole_home_resolution_is_trustworthy (entity_views g) query then None
      else Some \<lparr>tgt_kind = TkGroup, tgt_query = query, display_name = ''All '' @ domain_plural_label domain,
                 entity_ids = ids, tgt_domain = Some domain, tgt_area = None,
                 tgt_confidence = WHOLE_HOME_DOMAIN_CONFIDENCE, voice_safe = (domain \<noteq> ''lock'')\<rparr>)"

definition resolve_group_target ::
  "home_graph \<Rightarrow> string \<Rightarrow> string \<Rightarrow> string \<Rightarrow> rat \<Rightarrow> home_target option" where
  "resolve_group_target g query domain area_name conf =
     (let ids = map er_id (filter (\<lambda>e. er_domain e = domain \<and> er_area e = Some area_name) (hg_entities g)) in
      if ids = [] then None
      else Some \<lparr>tgt_kind = TkGroup, tgt_query = query,
                 display_name = area_name @ '' '' @ domain_label domain (length ids),
                 entity_ids = ids, tgt_domain = Some domain, tgt_area = Some area_name,
                 tgt_confidence = Fin conf, voice_safe = (domain \<noteq> ''lock'')\<rparr>)"

text \<open>Scores within \<open>NAMED_ENTITY_TIE_EPSILON\<close> of the best so far are ties; a score above that margin
  starts a new list.\<close>

definition named_entity_step ::
  "string \<Rightarrow> string list \<Rightarrow> rat \<times> entity_ref list \<Rightarrow> entity_ref \<Rightarrow> rat \<times> entity_ref list" where
  "named_entity_step q query_words bt e =
     (let (best, tied) = bt in
      if er_domain e \<in> {''scene'', ''script''} then (best, tied)
      else let score = best_alias_score query_words q (er_aliases e) in
           if score \<le> NAMED_ENTITY_MATCH_THRESHOLD then (best, tied)
           else if score > f32_add best NAMED_ENTITY_TIE_EPSILON then (score, [e])
           else if \<bar>f32_sub score best\<bar> \<le> NAMED_ENTITY_TIE_EPSILON then (max best score, tied @ [e])
           else (best, tied))"

definition tied_named_entity_matches ::
  "home_graph \<Rightarrow> string \<Rightarrow> string list \<Rightarrow> rat \<times> entity_ref list" where
  "tied_named_entity_matches g q query_words =
     foldl (named_entity_step q query_words) (0, []) (hg_entities g)"

definition top_named_entity_match ::
  "home_graph \<Rightarrow> string \<Rightarrow> string list \<Rightarrow> (rat \<times> entity_ref) option" where
  "top_named_entity_match g q query_words =
     (case tied_named_entity_matches g q query_words of (score, [e]) \<Rightarrow> Some (score, e) | _ \<Rightarrow> None)"

text \<open>One round of the loops over scenes and scripts.\<close>

definition scene_step ::
  "home_target_kind \<Rightarrow> string \<Rightarrow> string \<Rightarrow> string \<Rightarrow> string list \<Rightarrow> (rat \<times> home_target) option \<Rightarrow> scene_ref \<Rightarrow>
     (rat \<times> home_target) option" where
  "scene_step k domain query q query_words best sc =
     (let score = best_alias_score query_words q (sr_aliases sc) in
      if (k = TkScript \<longrightarrow> sr_voice_safe sc) \<and> score > NAMED_ENTITY_MATCH_THRESHOLD
         \<and> (case best of None \<Rightarrow> True | Some (s, _) \<Rightarrow> score > s)
      then Some (score, scene_target k domain query sc (Fin score) True) else best)"

definition resolve_named_entity ::
  "home_graph \<Rightarrow> string \<Rightarrow> home_action_kind option \<Rightarrow> home_target option" where
  "resolve_named_entity g query hint =
     (let q = normalize_phrase query; query_words = split_whitespace q;
          best_scene = (if hint = Some Activate
            then foldl (scene_step TkScript ''script'' query q query_words)
                   (foldl (scene_step TkScene ''scene'' query q query_words) None (hg_scenes g)) (hg_scripts g)
            else None);
          best_entity = (case top_named_entity_match g q query_words of
              None \<Rightarrow> None
            | Some (score, e) \<Rightarrow> Some (score, entity_target query e (Fin score)))
      in map_option snd (or_else best_scene best_entity))"

definition resolve_target_in_graph ::
  "home_graph \<Rightarrow> string \<Rightarrow> home_action_kind option \<Rightarrow> home_target option" where
  "resolve_target_in_graph g query hint =
     (let q = normalize_phrase query;
          area_match = best_area_match (hg_areas g) q; domain_match = infer_domain q
      in or_else (resolve_exact_entity_id g query hint)
        (or_else (case (area_match, domain_match) of
             (Some (area_name, area_score), Some domain) \<Rightarrow>
               if query_is_bare_area_domain q area_name domain
               then resolve_group_target g query domain area_name area_score
               else or_else (resolve_named_entity g query hint)
                      (resolve_group_target g query domain area_name area_score)
           | _ \<Rightarrow> None)
        (or_else (case (area_match, domain_match) of
             (None, Some domain) \<Rightarrow> resolve_domain_target g query domain
           | _ \<Rightarrow> None)
        (or_else (case (hint, area_match) of
             (None, Some (area_name, area_score)) \<Rightarrow>
               or_else (if \<not> query_is_bare_area q area_name then resolve_named_entity g query hint else None)
                 (resolve_group_target g query ''light'' area_name (f32_mul area_score f32_080))
           | _ \<Rightarrow> None)
         (resolve_named_entity g query hint)))))"

definition ambiguous_named_entity_candidates :: "home_graph \<Rightarrow> string \<Rightarrow> string list option" where
  "ambiguous_named_entity_candidates g query =
     (let q = normalize_phrase query; (_, tied) = tied_named_entity_matches g q (split_whitespace q)
      in if length tied > 1 then Some (map er_name tied) else None)"

definition query_rejects_whole_home_fidelity :: "home_graph \<Rightarrow> string \<Rightarrow> bool" where
  "query_rejects_whole_home_fidelity g query =
     (let q = normalize_phrase query in
      if best_area_match (hg_areas g) q \<noteq> None \<or> infer_domain q = None then False
      else \<not> whole_home_resolution_is_trustworthy (entity_views g) query)"

definition format_disambiguation_candidates :: "string list \<Rightarrow> string" where
  "format_disambiguation_candidates cs =
     (case cs of
        [] \<Rightarrow> ''''
      | [a] \<Rightarrow> a
      | [a, b] \<Rightarrow> a @ '' or '' @ b
      | _ \<Rightarrow> join_str '', '' (butlast cs) @ '', or '' @ last cs)"

section \<open>Scores are multiples of one unit\<close>

text \<open>A score that counts as a match lies between 3/4 and 1, so it is a multiple of \<open>2\<^sup>-\<^sup>2\<^sup>4\<close>: no rounding
  blurs the comparison of two matches.\<close>

definition unit24 :: "int \<Rightarrow> rat" where "unit24 k = of_int k / 16777216"

lemma unit24_simps [simp]:
  "unit24 j < unit24 k \<longleftrightarrow> j < k" "unit24 j \<le> unit24 k \<longleftrightarrow> j \<le> k" "unit24 j = unit24 k \<longleftrightarrow> j = k"
  by (simp_all add: unit24_def field_simps)

lemma unit24_diff: "unit24 j - unit24 k = unit24 (j - k)"
  by (simp add: unit24_def diff_divide_distrib)

lemma round24_error: "\<bar>round_bits 24 q - q\<bar> \<le> \<bar>q\<bar> * (1 / 16777216)"
  using round_bits_error [of 24 q] by (simp add: pow2_def)

lemma round24_upper:
  assumes "0 \<le> q" and "q \<le> c"
  shows "round_bits 24 q \<le> c * (16777217 / 16777216)"
proof -
  have "\<bar>round_bits 24 q - q\<bar> \<le> \<bar>q\<bar> * (1 / 16777216)" by (rule round24_error)
  then show ?thesis using assms by linarith
qed

lemma round24_half_one:
  assumes "1 / 2 \<le> q" and "q < 1"
  shows "round_bits 24 q = unit24 (round_half_even (q * 16777216))"
  using round_bits_at [of "-1" q 24] assms by (simp add: pow2_def unit24_def)

lemma round24_ge_three_quarters:
  assumes "3 / 4 \<le> q"
  shows "3 / 4 \<le> round_bits 24 q"
proof (cases "q < 1")
  case True
  have "12582912 \<le> round_half_even (q * 16777216)" using assms by (intro round_half_even_ge) simp
  then have "unit24 12582912 \<le> round_bits 24 q" using round24_half_one [of q] True assms by simp
  then show ?thesis by (simp add: unit24_def)
next
  case False
  have "\<bar>round_bits 24 q - q\<bar> \<le> \<bar>q\<bar> * (1 / 16777216)" by (rule round24_error)
  then show ?thesis using False by linarith
qed

lemma round24_capped_unit:
  assumes "3 / 4 \<le> q"
  shows "\<exists>k. min (round_bits 24 q) 1 = unit24 k"
proof (cases "q < 1")
  case True
  then have "round_bits 24 q = unit24 (round_half_even (q * 16777216))"
    using assms by (intro round24_half_one) simp_all
  moreover have "(1 :: rat) = unit24 16777216" by (simp add: unit24_def)
  ultimately show ?thesis by (metis min_def)
next
  case False
  then have "1 \<le> round_bits 24 q" by (intro round_bits_ge_one) simp_all
  then have "min (round_bits 24 q) 1 = unit24 16777216" by (simp add: unit24_def)
  then show ?thesis by blast
qed

lemma f32_add_unit:
  assumes "12582912 \<le> j" and "j \<le> 16777216" and "k \<le> 16777216"
  shows "f32_add (unit24 j) NAMED_ENTITY_TIE_EPSILON < unit24 k \<longleftrightarrow> j + 16777 < k"
proof -
  define q where "q = unit24 j + NAMED_ENTITY_TIE_EPSILON"
  have q: "q * 16777216 = of_int j + 8589935 / 512"
    by (simp add: q_def unit24_def NAMED_ENTITY_TIE_EPSILON_def field_simps)
  show ?thesis
  proof (cases "j \<le> 16760438")
    case True
    have "(of_int j :: rat) \<le> 16760438" "(12582912 :: rat) \<le> of_int j" using True assms(1) by simp_all
    then have "1 / 2 \<le> q" "q < 1" using q by linarith+
    then have "f32_add (unit24 j) NAMED_ENTITY_TIE_EPSILON = unit24 (round_half_even (q * 16777216))"
      unfolding f32_add_def q_def [symmetric] by (rule round24_half_one)
    also have "round_half_even (q * 16777216) = j + 16777"
      by (rule round_half_even_near) (simp add: q)
    finally show ?thesis by simp
  next
    case False
    then have "(16760439 :: rat) \<le> of_int j" by simp
    then have ge: "unit24 16777216 \<le> f32_add (unit24 j) NAMED_ENTITY_TIE_EPSILON"
    proof -
      assume j: "(16760439 :: rat) \<le> of_int j"
      show ?thesis
      proof (cases "q < 1")
        case True
        have "16777216 \<le> round_half_even (q * 16777216)"
        proof -
          have "of_int 16777216 - 1 / 2 < q * 16777216" using j q by simp
          then show ?thesis using round_half_even_dist [of "q * 16777216"] by linarith
        qed
        then show ?thesis using round24_half_one [of q] True j q
          unfolding f32_add_def q_def [symmetric] by simp
      next
        case False
        then show ?thesis using round_bits_ge_one [of q 24]
          unfolding f32_add_def q_def [symmetric] by (simp add: unit24_def)
      qed
    qed
    then have "\<not> f32_add (unit24 j) NAMED_ENTITY_TIE_EPSILON < unit24 k"
      using unit24_simps(2) [of k 16777216] assms(3) by linarith
    then show ?thesis using False assms(3) by linarith
  qed
qed

lemma f32_sub_unit: "\<bar>j - k\<bar> < 16777216 \<Longrightarrow> f32_sub (unit24 j) (unit24 k) = unit24 (j - k)"
  unfolding f32_sub_def unit24_diff
  by (rule round_bits_representable [of _ "j - k" "-24"])
    (simp_all add: unit24_def pow2_def flip: of_int_abs)

lemma f32_sub_unit_tie:
  assumes "\<bar>j - k\<bar> < 16777216"
  shows "\<bar>f32_sub (unit24 j) (unit24 k)\<bar> \<le> NAMED_ENTITY_TIE_EPSILON \<longleftrightarrow> \<bar>j - k\<bar> \<le> 16777"
proof -
  have "\<bar>unit24 (j - k)\<bar> = unit24 \<bar>j - k\<bar>" by (simp add: unit24_def)
  moreover have "unit24 n \<le> NAMED_ENTITY_TIE_EPSILON \<longleftrightarrow> n \<le> 16777" for n :: int
  proof -
    have "unit24 n \<le> NAMED_ENTITY_TIE_EPSILON \<longleftrightarrow> (of_int n :: rat) \<le> 8589935 / 512"
      by (simp add: unit24_def NAMED_ENTITY_TIE_EPSILON_def field_simps)
    also have "\<dots> \<longleftrightarrow> n \<le> 16777"
    proof
      assume "(of_int n :: rat) \<le> 8589935 / 512"
      then have "(of_int n :: rat) < of_int 16778" by simp
      then show "n \<le> 16777" by simp
    next
      assume "n \<le> 16777"
      then have "(of_int n :: rat) \<le> 16777" by simp
      then show "(of_int n :: rat) \<le> 8589935 / 512" by simp
    qed
    finally show ?thesis .
  qed
  ultimately show ?thesis by (simp add: f32_sub_unit [OF assms])
qed

section \<open>Scores\<close>

lemma f32_mul_le:
  assumes "0 \<le> a" and "a \<le> 1001 / 1000"
  shows "0 \<le> f32_mul a f32_035" and "f32_mul a f32_035 \<le> 36 / 100"
proof -
  have nn: "0 \<le> a * f32_035" using assms(1) by (simp add: f32_035_def)
  then show "0 \<le> f32_mul a f32_035" unfolding f32_mul_def by (rule round_bits_nonneg)
  have "a * f32_035 \<le> 1001 / 1000 * (11744051 / 33554432)"
    unfolding f32_035_def using assms by (intro mult_right_mono) simp_all
  moreover have "\<bar>f32_mul a f32_035 - a * f32_035\<bar> \<le> \<bar>a * f32_035\<bar> * (1 / 16777216)"
    unfolding f32_mul_def by (rule round24_error)
  ultimately show "f32_mul a f32_035 \<le> 36 / 100" using nn by linarith
qed

lemma f32_word_ratio:
  assumes "m \<le> n" and "0 < n"
  shows "0 \<le> f32_div (f32_of_nat m) (f32_of_nat n)" and "f32_div (f32_of_nat m) (f32_of_nat n) \<le> 1001 / 1000"
proof -
  let ?u = "1 / 16777216 :: rat"
  have em: "\<bar>f32_of_nat m - of_nat m\<bar> \<le> of_nat m * ?u" and en: "\<bar>f32_of_nat n - of_nat n\<bar> \<le> of_nat n * ?u"
    unfolding f32_of_nat_def using round24_error [of "of_nat m"] round24_error [of "of_nat n"] by simp_all
  have mn: "(of_nat m :: rat) \<le> of_nat n" "(0 :: rat) \<le> of_nat m" "(0 :: rat) < of_nat n" using assms by simp_all
  have m: "0 \<le> f32_of_nat m" unfolding f32_of_nat_def by (rule round_bits_nonneg) simp
  have n: "0 < f32_of_nat n" using en mn by linarith
  have "f32_of_nat m \<le> f32_of_nat n * (10001 / 10000)" using em en mn by linarith
  then have q: "f32_of_nat m / f32_of_nat n \<le> 10001 / 10000" using n by (simp add: divide_le_eq mult.commute)
  have nn: "0 \<le> f32_of_nat m / f32_of_nat n" using m n by simp
  then show "0 \<le> f32_div (f32_of_nat m) (f32_of_nat n)" unfolding f32_div_def by (rule round_bits_nonneg)
  then show "f32_div (f32_of_nat m) (f32_of_nat n) \<le> 1001 / 1000"
    using round24_upper [OF nn q] by (simp add: f32_div_def)
qed

lemma matching_words_le: "matching_words qws cws \<le> length qws"
  by (simp add: matching_words_def)

text \<open>The share of the score that counts matching words.\<close>

definition word_share :: "string list \<Rightarrow> string \<Rightarrow> rat" where
  "word_share qws cand = f32_mul (f32_div (f32_of_nat (matching_words qws (split_whitespace cand)))
     (f32_of_nat (length qws))) f32_035"

lemma word_share_bounds:
  assumes "qws \<noteq> []"
  shows "0 \<le> word_share qws cand" and "word_share qws cand \<le> 36 / 100"
  using f32_mul_le [OF f32_word_ratio [OF matching_words_le [of qws "split_whitespace cand"]]] assms
  by (simp_all add: word_share_def)

lemma round24_small: "0 \<le> q \<Longrightarrow> q \<le> 36 / 100 \<Longrightarrow> round_bits 24 q \<le> NAMED_ENTITY_MATCH_THRESHOLD"
proof -
  assume q: "0 \<le> q" "q \<le> 36 / 100"
  have "\<bar>round_bits 24 q - q\<bar> \<le> \<bar>q\<bar> * (1 / 16777216)" by (rule round24_error)
  then show ?thesis using q unfolding NAMED_ENTITY_MATCH_THRESHOLD_def by linarith
qed

lemma fuzzy_score_cases:
  "fuzzy_score qws q cand \<le> NAMED_ENTITY_MATCH_THRESHOLD
   \<or> (\<exists>x. 3 / 4 \<le> x \<and> fuzzy_score qws q cand = min (round_bits 24 x) 1)"
proof (cases "cand = q \<or> str_contains cand q \<or> str_contains q cand")
  case False
  then have nostart: "\<not> starts_with cand q" by (auto simp: starts_with_iff)
  show ?thesis
  proof (cases "qws = []")
    case True
    then show ?thesis using False nostart by (simp add: fuzzy_score_def NAMED_ENTITY_MATCH_THRESHOLD_def)
  next
    case ne: False
    have "fuzzy_score qws q cand = min (f32_add 0 (word_share qws cand)) 1"
      using False nostart ne by (simp add: fuzzy_score_def word_share_def)
    moreover have "f32_add 0 (word_share qws cand) \<le> NAMED_ENTITY_MATCH_THRESHOLD"
      unfolding f32_add_def using word_share_bounds [OF ne] by (intro round24_small) simp_all
    ultimately show ?thesis by linarith
  qed
next
  case True
  define s1 where "s1 = round_bits 24 (if cand = q then 1 else 3 / 4)"
  have s1: "3 / 4 \<le> s1" unfolding s1_def by (rule round24_ge_three_quarters) simp
  define s2 where "s2 = (if qws \<noteq> [] then f32_add s1 (word_share qws cand) else s1)"
  have s2: "\<exists>x. 3 / 4 \<le> x \<and> s2 = round_bits 24 x"
  proof (cases "qws = []")
    case True
    then show ?thesis by (intro exI [of _ "if cand = q then 1 else 3 / 4"]) (simp add: s2_def s1_def)
  next
    case False
    have "3 / 4 \<le> s1 + word_share qws cand" using s1 word_share_bounds(1) [OF False, of cand] by linarith
    then show ?thesis using False by (intro exI [of _ "s1 + word_share qws cand"]) (simp add: s2_def f32_add_def)
  qed
  then have "3 / 4 \<le> s2" using round24_ge_three_quarters by blast
  then have s3: "\<exists>x. 3 / 4 \<le> x \<and> (if starts_with cand q then f32_add s2 f32_015 else s2) = round_bits 24 x"
    using s2 by (auto simp: f32_add_def f32_015_def intro!: exI [of _ "s2 + 5033165 / 33554432"])
  have "fuzzy_score qws q cand = min (if starts_with cand q then f32_add s2 f32_015 else s2) 1"
    using True by (auto simp: fuzzy_score_def Let_def word_share_def s2_def s1_def f32_add_def)
  then show ?thesis using s3 by auto
qed

lemma foldl_max_cases: "foldl max (a :: 'a :: linorder) xs = a \<or> foldl max a xs \<in> set xs"
proof (induction xs arbitrary: a)
  case (Cons x xs)
  show ?case using Cons.IH [of "max a x"] by (auto simp: max_def split: if_splits)
qed simp

lemma best_alias_score_cases:
  "best_alias_score qws q aliases \<le> NAMED_ENTITY_MATCH_THRESHOLD
   \<or> (\<exists>k. 12582912 \<le> k \<and> k \<le> 16777216 \<and> best_alias_score qws q aliases = unit24 k)"
proof (cases "best_alias_score qws q aliases = 0")
  case True
  then show ?thesis by (simp add: NAMED_ENTITY_MATCH_THRESHOLD_def)
next
  case False
  then obtain a where a: "best_alias_score qws q aliases = fuzzy_score qws q a"
    using foldl_max_cases [of 0 "map (fuzzy_score qws q) aliases"] by (auto simp: best_alias_score_def)
  show ?thesis
  proof (cases "fuzzy_score qws q a \<le> NAMED_ENTITY_MATCH_THRESHOLD")
    case False
    then obtain x where x: "3 / 4 \<le> x" "fuzzy_score qws q a = min (round_bits 24 x) 1"
      using fuzzy_score_cases [of qws q a] by blast
    obtain k where k: "fuzzy_score qws q a = unit24 k" using round24_capped_unit [OF x(1)] x(2) by auto
    have "unit24 12582912 \<le> unit24 k" "unit24 k \<le> unit24 16777216"
      using round24_ge_three_quarters [OF x(1)] x(2) k by (auto simp: unit24_def min_def split: if_splits)
    then show ?thesis using a k by auto
  qed (simp add: a)
qed

section \<open>The named match\<close>

text \<open>The running comparison on the integer multiples: the margin is 16777 units.\<close>

fun tie_step :: "int \<times> 'a list \<Rightarrow> int \<times> 'a \<Rightarrow> int \<times> 'a list" where
  "tie_step (b, t) (k, e) =
     (if b + 16777 < k then (k, [e]) else if \<bar>k - b\<bar> \<le> 16777 then (max k b, t @ [e]) else (b, t))"

definition ahead :: "int \<Rightarrow> (int \<times> 'a) list \<Rightarrow> bool" where
  "ahead k xs \<longleftrightarrow> list_all (\<lambda>(k', e'). k' + 16777 < k) xs"

lemma ahead_append [simp]: "ahead k (xs @ ys) \<longleftrightarrow> ahead k xs \<and> ahead k ys"
  by (simp add: ahead_def)

lemma tie_fold_best:
  assumes "list_all (\<lambda>(k, e). 16777 < k) L" and "L \<noteq> []"
  shows "fst (foldl tie_step (0, []) L) \<in> fst ` set L
     \<and> list_all (\<lambda>(k, e). k \<le> fst (foldl tie_step (0, []) L)) L \<and> snd (foldl tie_step (0, []) L) \<noteq> []"
  using assms
proof (induction L rule: rev_induct)
  case (snoc x L)
  obtain k e where x: "x = (k, e)" by force
  obtain b t where bt: "foldl tie_step (0, []) L = (b, t)" by force
  show ?case
  proof (cases "L = []")
    case True
    then show ?thesis using snoc.prems x by simp
  next
    case False
    then have IH: "b \<in> fst ` set L" "list_all (\<lambda>(k, e). k \<le> b) L" "t \<noteq> []"
      using snoc.IH snoc.prems bt by auto
    have mono: "list_all (\<lambda>(k, e). k \<le> c) L" if "b \<le> c" for c
      using IH(2) that by (auto simp: list_all_iff)
    show ?thesis using bt x IH mono [of k] mono [of b] mono [of "max k b"]
      by (auto simp: max_def image_iff)
  qed
qed simp

lemma tie_fold_single:
  assumes "list_all (\<lambda>(k, e). 16777 < k) L"
  shows "snd (foldl tie_step (0, []) L) = [e]
     \<longleftrightarrow> (\<exists>xs ys k. L = xs @ (k, e) # ys \<and> k = fst (foldl tie_step (0, []) L) \<and> ahead k xs \<and> ahead k ys)"
  using assms
proof (induction L arbitrary: e rule: rev_induct)
  case (snoc x L)
  obtain k0 e0 where x: "x = (k0, e0)" by force
  obtain b t where bt: "foldl tie_step (0, []) L = (b, t)" by force
  have k0: "16777 < k0" and L: "list_all (\<lambda>(k, e). 16777 < k) L" using snoc.prems x by simp_all
  have IH: "t = [e] \<longleftrightarrow> (\<exists>xs ys. L = xs @ (b, e) # ys \<and> ahead b xs \<and> ahead b ys)" for e
    using snoc.IH [OF L, of e] bt by simp
  have best: "b \<in> fst ` set L" "list_all (\<lambda>(k, e). k \<le> b) L" "t \<noteq> []" if "L \<noteq> []"
    using tie_fold_best [OF L that] bt by simp_all
  have b0: "b = 0" "t = []" if "L = []" using bt that by simp_all
  consider (clear) "b + 16777 < k0" | (tie) "\<bar>k0 - b\<bar> \<le> 16777" "L \<noteq> []" | (skip) "k0 + 16777 < b" "L \<noteq> []"
    using k0 b0 by (cases "L = []") linarith+
  then show ?case
  proof cases
    case clear
    then have res: "foldl tie_step (0, []) (L @ [(k0, e0)]) = (k0, [e0])" using bt x by simp
    have "ahead k0 L" using best clear by (cases "L = []") (auto simp: ahead_def list_all_iff)
    then have "\<exists>xs ys. L @ [(k0, e0)] = xs @ (k0, e0) # ys \<and> ahead k0 xs \<and> ahead k0 ys"
      by (intro exI [of _ L] exI [of _ "[]"]) (simp add: ahead_def)
    moreover have "e = e0" if "L @ [(k0, e0)] = xs @ (k0, e) # ys" "ahead k0 xs" "ahead k0 ys" for xs ys
      using that by (cases ys rule: rev_cases) (auto simp: ahead_def)
    ultimately have "(\<exists>xs ys. L @ [(k0, e0)] = xs @ (k0, e) # ys \<and> ahead k0 xs \<and> ahead k0 ys) \<longleftrightarrow> e0 = e"
      by blast
    then show ?thesis unfolding x res by simp
  next
    case tie
    then have "\<not> b + 16777 < k0" by linarith
    then have res: "foldl tie_step (0, []) (L @ [(k0, e0)]) = (max k0 b, t @ [e0])" using bt x tie by simp
    have "\<not> (\<exists>xs ys. L @ [(k0, e0)] = xs @ (max k0 b, e) # ys \<and> ahead (max k0 b) xs \<and> ahead (max k0 b) ys)"
    proof
      assume "\<exists>xs ys. L @ [(k0, e0)] = xs @ (max k0 b, e) # ys \<and> ahead (max k0 b) xs \<and> ahead (max k0 b) ys"
      then obtain xs ys where s: "L @ [(k0, e0)] = xs @ (max k0 b, e) # ys" "ahead (max k0 b) xs" "ahead (max k0 b) ys"
        by blast
      show False
      proof (cases ys rule: rev_cases)
        case Nil
        then have "ahead (max k0 b) L" using s by simp
        then show False using best(1) [OF tie(2)] tie(1) by (auto simp: ahead_def list_all_iff)
      next
        case (snoc zs z)
        then have "ahead (max k0 b) [(k0, e0)]" using s by simp
        then show False using tie(1) by (simp add: ahead_def)
      qed
    qed
    then show ?thesis using best(3) [OF tie(2)] unfolding x res by (auto simp: append_eq_Cons_conv)
  next
    case skip
    then have "\<not> b + 16777 < k0" "\<not> \<bar>k0 - b\<bar> \<le> 16777" by linarith+
    then have res: "foldl tie_step (0, []) (L @ [(k0, e0)]) = (b, t)" using bt x by simp
    have "(\<exists>xs ys. L @ [(k0, e0)] = xs @ (b, e) # ys \<and> ahead b xs \<and> ahead b ys)
        \<longleftrightarrow> (\<exists>xs ys. L = xs @ (b, e) # ys \<and> ahead b xs \<and> ahead b ys)" (is "?l \<longleftrightarrow> ?r")
    proof
      assume ?l
      then obtain xs ys where s: "L @ [(k0, e0)] = xs @ (b, e) # ys" "ahead b xs" "ahead b ys" by blast
      then obtain zs where "ys = zs @ [(k0, e0)]" using skip(1) by (cases ys rule: rev_cases) auto
      then show ?r using s by auto
    next
      assume ?r
      then obtain xs ys where s: "L = xs @ (b, e) # ys" "ahead b xs" "ahead b ys" by blast
      have "ahead b (ys @ [(k0, e0)])" using s skip(1) by (simp add: ahead_def)
      then show ?l using s by (intro exI [of _ xs] exI [of _ "ys @ [(k0, e0)]"]) simp
    qed
    then show ?thesis using IH unfolding x res by simp
  qed
qed simp

text \<open>The loop over the entities is the integer loop over those that match.\<close>

definition named_entities :: "home_graph \<Rightarrow> entity_ref list" where
  "named_entities g = filter (\<lambda>e. er_domain e \<notin> {''scene'', ''script''}) (hg_entities g)"

definition name_score :: "string \<Rightarrow> string list \<Rightarrow> entity_ref \<Rightarrow> rat" where
  "name_score q query_words e = best_alias_score query_words q (er_aliases e)"

definition score_unit :: "rat \<Rightarrow> int" where
  "score_unit s = \<lfloor>s * 16777216\<rfloor>"

definition matching_entities :: "string \<Rightarrow> string list \<Rightarrow> entity_ref list \<Rightarrow> entity_ref list" where
  "matching_entities q qws es = filter (\<lambda>e. er_domain e \<notin> {''scene'', ''script''}
     \<and> NAMED_ENTITY_MATCH_THRESHOLD < name_score q qws e) es"

lemma score_unit_unit24 [simp]: "score_unit (unit24 k) = k"
  by (simp add: score_unit_def unit24_def)

lemma match_unit:
  assumes "NAMED_ENTITY_MATCH_THRESHOLD < name_score q qws e"
  shows "name_score q qws e = unit24 (score_unit (name_score q qws e))"
    and "12582912 \<le> score_unit (name_score q qws e)" and "score_unit (name_score q qws e) \<le> 16777216"
  using best_alias_score_cases [of qws q "er_aliases e"] assms by (auto simp: name_score_def)

lemma f32_add_zero_tie: "12582912 \<le> k \<Longrightarrow> f32_add 0 NAMED_ENTITY_TIE_EPSILON < unit24 k"
proof -
  assume k: "12582912 \<le> k"
  have "round_bits 24 NAMED_ENTITY_TIE_EPSILON \<le> NAMED_ENTITY_TIE_EPSILON * (16777217 / 16777216)"
    by (rule round24_upper) (simp_all add: NAMED_ENTITY_TIE_EPSILON_def)
  then have "f32_add 0 NAMED_ENTITY_TIE_EPSILON < 1 / 2"
    by (simp add: f32_add_def NAMED_ENTITY_TIE_EPSILON_def)
  moreover have "1 / 2 < unit24 12582912" by (simp add: unit24_def)
  moreover have "unit24 12582912 \<le> unit24 k" using k by simp
  ultimately show ?thesis by linarith
qed

definition best_ok :: "int \<Rightarrow> bool" where
  "best_ok b \<longleftrightarrow> b = 0 \<or> (12582912 \<le> b \<and> b \<le> 16777216)"

lemma named_entity_step_tie:
  assumes "best_ok b" and "er_domain e \<notin> {''scene'', ''script''}"
    and m: "NAMED_ENTITY_MATCH_THRESHOLD < name_score q qws e"
  shows "named_entity_step q qws (unit24 b, t) e
     = (let (b', t') = tie_step (b, t) (score_unit (name_score q qws e), e) in (unit24 b', t'))"
proof -
  define k where "k = score_unit (name_score q qws e)"
  have k: "name_score q qws e = unit24 k" "12582912 \<le> k" "k \<le> 16777216"
    using match_unit [OF m] by (simp_all add: k_def)
  have "f32_add (unit24 b) NAMED_ENTITY_TIE_EPSILON < unit24 k \<longleftrightarrow> b + 16777 < k"
  proof (cases "b = 0")
    case True
    then show ?thesis using f32_add_zero_tie [OF k(2)] k by (simp add: unit24_def)
  next
    case False
    then show ?thesis using assms(1) k by (intro f32_add_unit) (auto simp: best_ok_def)
  qed
  moreover have "\<bar>f32_sub (unit24 k) (unit24 b)\<bar> \<le> NAMED_ENTITY_TIE_EPSILON \<longleftrightarrow> \<bar>k - b\<bar> \<le> 16777"
    if "\<not> b + 16777 < k"
    using that assms(1) k by (intro f32_sub_unit_tie) (auto simp: best_ok_def)
  moreover have "max (unit24 b) (unit24 k) = unit24 (max k b)" by (simp add: max_def)
  moreover have "\<not> unit24 k \<le> NAMED_ENTITY_MATCH_THRESHOLD" using m k(1) by simp
  ultimately show ?thesis using assms(2) k(1)
    by (cases "b + 16777 < k"; cases "\<bar>k - b\<bar> \<le> 16777")
      (simp add: named_entity_step_def name_score_def [symmetric] k_def [symmetric] Let_def; arith?)+
qed

lemma named_entity_step_skip:
  "\<not> (er_domain e \<notin> {''scene'', ''script''} \<and> NAMED_ENTITY_MATCH_THRESHOLD < name_score q qws e)
     \<Longrightarrow> named_entity_step q qws bt e = bt"
  by (auto simp: named_entity_step_def name_score_def Let_def split: prod.split)

lemma tie_step_best_ok:
  "best_ok b \<Longrightarrow> 12582912 \<le> k \<Longrightarrow> k \<le> 16777216 \<Longrightarrow> best_ok (fst (tie_step (b, t) (k, e)))"
  by (auto simp: best_ok_def max_def)

lemma named_fold_tie:
  assumes "best_ok b"
  shows "foldl (named_entity_step q qws) (unit24 b, t) es
     = (let (b', t') = foldl tie_step (b, t) (map (\<lambda>e. (score_unit (name_score q qws e), e)) (matching_entities q qws es))
        in (unit24 b', t'))"
  using assms
proof (induction es arbitrary: b t)
  case (Cons e es)
  show ?case
  proof (cases "er_domain e \<notin> {''scene'', ''script''} \<and> NAMED_ENTITY_MATCH_THRESHOLD < name_score q qws e")
    case True
    let ?k = "score_unit (name_score q qws e)"
    obtain b1 t1 where s: "tie_step (b, t) (?k, e) = (b1, t1)" by force
    have "best_ok b1" using tie_step_best_ok [OF Cons.prems match_unit(2,3)] True s by (metis fst_conv)
    moreover have "named_entity_step q qws (unit24 b, t) e = (unit24 b1, t1)"
      using named_entity_step_tie [OF Cons.prems, of e q qws t] True s by simp
    moreover have "matching_entities q qws (e # es) = e # matching_entities q qws es"
      using True by (simp add: matching_entities_def)
    ultimately show ?thesis using Cons.IH [of b1 t1] s by (simp del: tie_step.simps)
  next
    case False
    then have "matching_entities q qws (e # es) = matching_entities q qws es"
      by (simp add: matching_entities_def)
    moreover have "foldl (named_entity_step q qws) (unit24 b, t) (e # es)
        = foldl (named_entity_step q qws) (unit24 b, t) es"
      using named_entity_step_skip [OF False] by (simp only: foldl_Cons)
    ultimately show ?thesis using Cons.IH [OF Cons.prems] by (simp only:)
  qed
qed (simp add: matching_entities_def)

lemma tied_matches_eq:
  "tied_named_entity_matches g q qws
     = (let (b, t) = foldl tie_step (0, []) (map (\<lambda>e. (score_unit (name_score q qws e), e))
                       (matching_entities q qws (hg_entities g)))
        in (unit24 b, t))"
  using named_fold_tie [of 0 q qws "[]" "hg_entities g"]
  by (simp add: tied_named_entity_matches_def best_ok_def unit24_def)

lemma best_alias_score_nonneg: "0 \<le> best_alias_score qws q aliases"
proof -
  have "a \<le> foldl max a xs" for a :: rat and xs
    by (induction xs arbitrary: a) (auto intro: order_trans [OF max.cobounded1])
  then show ?thesis by (simp add: best_alias_score_def)
qed

text \<open>An entity stays behind the match exactly when it does not match, or by the margin.\<close>

lemma behind_iff:
  assumes m: "NAMED_ENTITY_MATCH_THRESHOLD < name_score q qws e"
  shows "f32_add (name_score q qws e') NAMED_ENTITY_TIE_EPSILON < name_score q qws e
     \<longleftrightarrow> name_score q qws e' \<le> NAMED_ENTITY_MATCH_THRESHOLD
         \<or> score_unit (name_score q qws e') + 16777 < score_unit (name_score q qws e)"
proof (cases "name_score q qws e' \<le> NAMED_ENTITY_MATCH_THRESHOLD")
  case True
  have "f32_add (name_score q qws e') NAMED_ENTITY_TIE_EPSILON
      \<le> (NAMED_ENTITY_MATCH_THRESHOLD + NAMED_ENTITY_TIE_EPSILON) * (16777217 / 16777216)"
    unfolding f32_add_def using True best_alias_score_nonneg [of qws q "er_aliases e'"]
    by (intro round24_upper) (simp_all add: name_score_def NAMED_ENTITY_TIE_EPSILON_def)
  also have "\<dots> < unit24 12582912"
    by (simp add: NAMED_ENTITY_MATCH_THRESHOLD_def NAMED_ENTITY_TIE_EPSILON_def unit24_def)
  also have "\<dots> \<le> name_score q qws e"
    using match_unit(2) [OF m] by (subst match_unit(1) [OF m]) simp
  finally show ?thesis using True by simp
next
  case False
  then have m': "NAMED_ENTITY_MATCH_THRESHOLD < name_score q qws e'" by simp
  have "f32_add (unit24 (score_unit (name_score q qws e'))) NAMED_ENTITY_TIE_EPSILON
      < unit24 (score_unit (name_score q qws e))
    \<longleftrightarrow> score_unit (name_score q qws e') + 16777 < score_unit (name_score q qws e)"
    using match_unit [OF m] match_unit [OF m'] by (intro f32_add_unit)
  then show ?thesis using False match_unit(1) [OF m] match_unit(1) [OF m'] by simp
qed

lemma behind_ahead:
  assumes m: "NAMED_ENTITY_MATCH_THRESHOLD < name_score q qws e"
  shows "list_all (\<lambda>e'. f32_add (name_score q qws e') NAMED_ENTITY_TIE_EPSILON < name_score q qws e) xs
     \<longleftrightarrow> ahead (score_unit (name_score q qws e)) (map (\<lambda>e. (score_unit (name_score q qws e), e))
           (filter (\<lambda>e. NAMED_ENTITY_MATCH_THRESHOLD < name_score q qws e) xs))"
  using behind_iff [OF m] by (auto simp: ahead_def list_all_iff not_less)

lemma matching_named:
  "matching_entities q qws (hg_entities g)
     = filter (\<lambda>e. NAMED_ENTITY_MATCH_THRESHOLD < name_score q qws e) (named_entities g)"
  by (simp add: matching_entities_def named_entities_def conj_commute)

lemma top_named_iff:
  "top_named_entity_match g q qws = Some (s, e)
     \<longleftrightarrow> snd (tied_named_entity_matches g q qws) = [e] \<and> s = fst (tied_named_entity_matches g q qws)"
  by (auto simp: top_named_entity_match_def split: prod.split list.split)

lemma filter_split:
  "filter P xs = us @ e # vs \<Longrightarrow> \<exists>as bs. xs = as @ e # bs \<and> us = filter P as \<and> vs = filter P bs \<and> P e"
proof (induction xs arbitrary: us)
  case (Cons x xs)
  show ?case
  proof (cases "P x")
    case False
    then obtain as bs where "xs = as @ e # bs" "us = filter P as" "vs = filter P bs" "P e"
      using Cons.IH [of us] Cons.prems by auto
    then show ?thesis using False by (intro exI [of _ "x # as"] exI [of _ bs]) simp
  next
    case True
    show ?thesis
    proof (cases us)
      case Nil
      then show ?thesis using Cons.prems True by (intro exI [of _ "[]"] exI [of _ xs]) auto
    next
      case (Cons u us')
      then have "filter P xs = us' @ e # vs" "u = x" using Cons.prems True by auto
      then obtain as bs where "xs = as @ e # bs" "us' = filter P as" "vs = filter P bs" "P e"
        using Cons.IH [of us'] by blast
      then show ?thesis using True \<open>u = x\<close> Cons by (intro exI [of _ "x # as"] exI [of _ bs]) simp
    qed
  qed
qed simp

lemma matching_units: "list_all (\<lambda>(k, e). 16777 < k) (map (\<lambda>e. (score_unit (name_score q qws e), e))
    (matching_entities q qws es))"
  using match_unit(2) by (fastforce simp: list_all_iff matching_entities_def)

lemma tied_subset:
  "set (snd (foldl (named_entity_step q qws) bt es))
     \<subseteq> set (snd bt) \<union> set (filter (\<lambda>e. er_domain e \<notin> {''scene'', ''script''}) es)"
proof (induction es arbitrary: bt)
  case (Cons e es)
  have "set (snd (named_entity_step q qws bt e))
      \<subseteq> set (snd bt) \<union> (if er_domain e \<notin> {''scene'', ''script''} then {e} else {})"
    by (auto simp: named_entity_step_def Let_def split: prod.split)
  then show ?case using Cons.IH [of "named_entity_step q qws bt e"] by (auto split: if_splits)
qed simp

lemma top_named_in: "top_named_entity_match g q qws = Some (s, e) \<Longrightarrow> e \<in> set (named_entities g)"
  using tied_subset [of q qws "(0, [])" "hg_entities g"]
  by (simp add: top_named_iff tied_named_entity_matches_def named_entities_def)

text \<open>C7: a device is chosen by name only when it is unambiguous: the match of a query is the
  entity \<open>e\<close> exactly when \<open>e\<close> is a named entity (neither scene nor script) whose score exceeds the
  threshold and the score of every other named entity by more than the tie margin, as \<open>f32\<close>
  arithmetic measures it. Two devices that score alike are never told apart by their order in the
  graph, and a device ahead of all others is always found.\<close>

theorem named_match_unambiguous:
  "top_named_entity_match g q qws = Some (s, e)
     \<longleftrightarrow> (\<exists>xs ys. named_entities g = xs @ e # ys \<and> s = name_score q qws e
            \<and> NAMED_ENTITY_MATCH_THRESHOLD < s
            \<and> list_all (\<lambda>e'. f32_add (name_score q qws e') NAMED_ENTITY_TIE_EPSILON < s) (xs @ ys))"
proof -
  let ?P = "\<lambda>e. NAMED_ENTITY_MATCH_THRESHOLD < name_score q qws e"
  let ?key = "\<lambda>e. (score_unit (name_score q qws e), e)"
  define L where "L = map ?key (filter ?P (named_entities g))"
  obtain b t where bt: "foldl tie_step (0, []) L = (b, t)" by force
  have units: "list_all (\<lambda>(k, e). 16777 < k) L"
    using matching_units [of q qws "hg_entities g"] by (simp add: L_def matching_named)
  have tied: "tied_named_entity_matches g q qws = (unit24 b, t)"
    using tied_matches_eq [of g q qws] bt by (simp add: matching_named L_def [symmetric])
  have single: "t = [e] \<longleftrightarrow> (\<exists>xs ys. L = xs @ (b, e) # ys \<and> ahead b xs \<and> ahead b ys)"
    using tie_fold_single [OF units, of e] bt by simp
  show ?thesis
  proof
    assume "top_named_entity_match g q qws = Some (s, e)"
    then have "t = [e]" "s = unit24 b" using tied by (simp_all add: top_named_iff)
    then obtain xs' ys' where L: "L = xs' @ (b, e) # ys'" "ahead b xs'" "ahead b ys'" using single by blast
    then obtain us vs where uv: "filter ?P (named_entities g) = us @ e # vs" "xs' = map ?key us" "ys' = map ?key vs"
      "b = score_unit (name_score q qws e)"
      unfolding L_def by (auto simp: map_eq_append_conv map_eq_Cons_conv)
    obtain xs ys where xy: "named_entities g = xs @ e # ys" "us = filter ?P xs" "vs = filter ?P ys" "?P e"
      using filter_split [OF uv(1)] by blast
    have "list_all (\<lambda>e'. f32_add (name_score q qws e') NAMED_ENTITY_TIE_EPSILON < name_score q qws e) (xs @ ys)"
      using behind_ahead [OF xy(4), of "xs @ ys"] L uv xy by simp
    then show "\<exists>xs ys. named_entities g = xs @ e # ys \<and> s = name_score q qws e
        \<and> NAMED_ENTITY_MATCH_THRESHOLD < s
        \<and> list_all (\<lambda>e'. f32_add (name_score q qws e') NAMED_ENTITY_TIE_EPSILON < s) (xs @ ys)"
      using xy match_unit(1) [OF xy(4)] \<open>s = unit24 b\<close> uv(4) by (intro exI [of _ xs] exI [of _ ys]) simp
  next
    assume "\<exists>xs ys. named_entities g = xs @ e # ys \<and> s = name_score q qws e
        \<and> NAMED_ENTITY_MATCH_THRESHOLD < s
        \<and> list_all (\<lambda>e'. f32_add (name_score q qws e') NAMED_ENTITY_TIE_EPSILON < s) (xs @ ys)"
    then obtain xs ys where s: "named_entities g = xs @ e # ys" "s = name_score q qws e" "?P e"
      "list_all (\<lambda>e'. f32_add (name_score q qws e') NAMED_ENTITY_TIE_EPSILON < name_score q qws e) (xs @ ys)"
      by blast
    define k where "k = score_unit (name_score q qws e)"
    have L: "L = map ?key (filter ?P xs) @ (k, e) # map ?key (filter ?P ys)"
      using s by (simp add: L_def k_def)
    have a: "ahead k (map ?key (filter ?P xs))" "ahead k (map ?key (filter ?P ys))"
      using behind_ahead [OF s(3), of "xs @ ys"] s(4) by (simp_all add: k_def)
    have "b \<in> fst ` set L" "list_all (\<lambda>(k, e). k \<le> b) L" using tie_fold_best [OF units] bt L by auto
    then have "k = b" using L a by (auto simp: ahead_def list_all_iff)
    then have "t = [e]" using single L a by blast
    then show "top_named_entity_match g q qws = Some (s, e)"
      using tied s match_unit(1) [OF s(3)] \<open>k = b\<close> by (simp add: top_named_iff k_def)
  qed
qed

section \<open>What a target can be\<close>

text \<open>\<open>graph_of\<close>: every entry of the graph comes from a reported state, under its own domain.\<close>

definition graph_of :: "entity list \<Rightarrow> home_graph \<Rightarrow> bool" where
  "graph_of states g \<longleftrightarrow>
     (\<forall>e \<in> set (hg_entities g). \<exists>st \<in> set states. er_id e = entity_id st \<and> er_domain e = entity_domain (entity_id st))
     \<and> (\<forall>sc \<in> set (hg_scenes g). \<exists>st \<in> set states. sr_id sc = entity_id st \<and> entity_domain (entity_id st) = ''scene'')
     \<and> (\<forall>sc \<in> set (hg_scripts g). \<exists>st \<in> set states. sr_id sc = entity_id st \<and> entity_domain (entity_id st) = ''script''
           \<and> sr_voice_safe sc = is_voice_safe_script st)"

text \<open>\<open>target_of_house\<close>: a target names reported entities of one domain, is marked voice-safe
  neither for locks nor for scripts without the marker, and is a scene or script exactly for those
  domains.\<close>

definition target_of_house :: "entity list \<Rightarrow> home_target \<Rightarrow> bool" where
  "target_of_house states t \<longleftrightarrow> entity_ids t \<noteq> [] \<and>
     (\<exists>d. tgt_domain t = Some d
        \<and> (\<forall>i \<in> set (entity_ids t). entity_domain i = d \<and> i \<in> entity_id ` set states)
        \<and> (voice_safe t \<longrightarrow> d \<noteq> ''lock'')
        \<and> (tgt_kind t = TkScene \<longleftrightarrow> d = ''scene'') \<and> (tgt_kind t = TkScript \<longleftrightarrow> d = ''script'')
        \<and> (d = ''script'' \<and> voice_safe t
             \<longrightarrow> (\<exists>st \<in> set states. entity_ids t = [entity_id st] \<and> is_voice_safe_script st)))"

definition target_opt_ok :: "entity list \<Rightarrow> home_target option \<Rightarrow> bool" where
  "target_opt_ok states r \<longleftrightarrow> (case r of None \<Rightarrow> True | Some t \<Rightarrow> target_of_house states t)"

lemma target_opt_ok_simps [simp]:
  "target_opt_ok states None" "target_opt_ok states (Some t) = target_of_house states t"
  by (simp_all add: target_opt_ok_def)

lemma or_else_ok [intro]:
  "target_opt_ok states a \<Longrightarrow> target_opt_ok states b \<Longrightarrow> target_opt_ok states (or_else a b)"
  by (auto simp: or_else_def split: option.splits)

lemma build_graph_of: "graph_of states (build_graph states areas)"
  by (auto simp: graph_of_def build_graph_def Let_def entity_ref_of_def scene_ref_of_def)

lemma graph_of_entity:
  "graph_of states g \<Longrightarrow> e \<in> set (hg_entities g) \<Longrightarrow>
     er_id e \<in> entity_id ` set states \<and> er_domain e = entity_domain (er_id e)"
  unfolding graph_of_def by (metis image_eqI)

lemma entity_target_ok:
  assumes "graph_of states g" and "e \<in> set (hg_entities g)" and "er_domain e \<notin> {''scene'', ''script''}"
  shows "target_of_house states (entity_target query e conf)"
  using graph_of_entity [OF assms(1,2)] assms(3) by (auto simp: target_of_house_def entity_target_def)

lemma scene_target_ok:
  assumes "graph_of states g" and "sc \<in> set (hg_scenes g)"
  shows "target_of_house states (scene_target TkScene ''scene'' query sc conf safe)"
  using assms unfolding graph_of_def target_of_house_def scene_target_def by fastforce

lemma script_target_ok:
  assumes "graph_of states g" and "sc \<in> set (hg_scripts g)" and "safe \<longrightarrow> sr_voice_safe sc"
  shows "target_of_house states (scene_target TkScript ''script'' query sc conf safe)"
proof -
  obtain st where "st \<in> set states" "sr_id sc = entity_id st" "entity_domain (entity_id st) = ''script''"
    "sr_voice_safe sc = is_voice_safe_script st"
    using assms(1,2) by (auto simp: graph_of_def)
  then show ?thesis using assms(3) by (auto simp: target_of_house_def scene_target_def)
qed

lemma group_ok:
  assumes "graph_of states g" and "ids = map er_id (filter (\<lambda>e. er_domain e = domain \<and> P e) (hg_entities g))"
    and "ids \<noteq> []" and "domain \<notin> {''scene'', ''script''}"
  shows "target_of_house states \<lparr>tgt_kind = TkGroup, tgt_query = query, display_name = nm, entity_ids = ids,
     tgt_domain = Some domain, tgt_area = ar, tgt_confidence = conf, voice_safe = (domain \<noteq> ''lock'')\<rparr>"
  using assms graph_of_entity [OF assms(1)] by (auto simp: target_of_house_def)

lemma find_in_set: "find P xs = Some x \<Longrightarrow> x \<in> set xs"
  by (induction xs) (auto split: if_splits)

lemma infer_domain_kind: "infer_domain q = Some d \<Longrightarrow> d \<notin> {''scene'', ''script''}"
  unfolding infer_domain_def Let_def by (drule find_in_set) auto

lemma resolve_exact_ok:
  assumes "graph_of states g"
  shows "target_opt_ok states (resolve_exact_entity_id g query hint)"
proof (cases "find (\<lambda>e. eq_ignore_ascii_case (er_id e) (trim query)) (hg_entities g)")
  case (Some e)
  then have e: "e \<in> set (hg_entities g)" by (auto simp: find_Some_iff)
  have scene: "target_of_house states (entity_target (trim query) e (Fin 1)\<lparr>tgt_kind := TkScene, voice_safe := True\<rparr>)"
    if "er_domain e = ''scene''"
    using graph_of_entity [OF assms e] that by (auto simp: target_of_house_def entity_target_def)
  have script: "target_opt_ok states (map_option (\<lambda>sc. scene_target TkScript ''script'' (trim query) sc (Fin 1) (sr_voice_safe sc))
      (find (\<lambda>sc. eq_ignore_ascii_case (sr_id sc) (trim query)) (hg_scripts g)))"
  proof (cases "find (\<lambda>sc. eq_ignore_ascii_case (sr_id sc) (trim query)) (hg_scripts g)")
    case (Some sc)
    then have "sc \<in> set (hg_scripts g)" by (auto simp: find_Some_iff)
    then show ?thesis using Some script_target_ok [OF assms] by simp
  qed simp
  show ?thesis
    using Some scene script entity_target_ok [OF assms e] by (simp add: resolve_exact_entity_id_def Let_def)
qed (simp add: resolve_exact_entity_id_def Let_def)

lemma resolve_domain_ok:
  "graph_of states g \<Longrightarrow> domain \<notin> {''scene'', ''script''} \<Longrightarrow> target_opt_ok states (resolve_domain_target g query domain)"
  unfolding resolve_domain_target_def Let_def
  by (simp only: if_split target_opt_ok_simps) (auto intro: group_ok [where P = "\<lambda>e. True"])

lemma resolve_group_ok:
  "graph_of states g \<Longrightarrow> domain \<notin> {''scene'', ''script''} \<Longrightarrow>
     target_opt_ok states (resolve_group_target g query domain area_name conf)"
  unfolding resolve_group_target_def Let_def
  by (simp only: if_split target_opt_ok_simps) (auto intro: group_ok)

lemma scene_fold_ok:
  assumes "\<And>sc conf. sc \<in> set scs \<Longrightarrow> (k = TkScript \<longrightarrow> sr_voice_safe sc) \<Longrightarrow>
      target_of_house states (scene_target k domain query sc conf True)"
    and "target_opt_ok states (map_option snd best)"
  shows "target_opt_ok states (map_option snd (foldl (scene_step k domain query q qws) best scs))"
  using assms
proof (induction scs arbitrary: best)
  case (Cons sc scs)
  have "target_opt_ok states (map_option snd (scene_step k domain query q qws best sc))"
    using Cons.prems by (auto simp: scene_step_def Let_def)
  then show ?case using Cons.IH [of "scene_step k domain query q qws best sc"] Cons.prems(1) by simp
qed simp

lemma resolve_named_ok:
  assumes "graph_of states g"
  shows "target_opt_ok states (resolve_named_entity g query hint)"
proof -
  let ?q = "normalize_phrase query" let ?ws = "split_whitespace ?q"
  let ?scenes = "foldl (scene_step TkScript ''script'' query ?q ?ws)
      (foldl (scene_step TkScene ''scene'' query ?q ?ws) None (hg_scenes g)) (hg_scripts g)"
  have scenes: "target_opt_ok states (map_option snd ?scenes)"
    by (intro scene_fold_ok) (simp_all add: scene_target_ok [OF assms] script_target_ok [OF assms])
  have named: "target_of_house states (entity_target query e (Fin s))"
    if top: "top_named_entity_match g ?q ?ws = Some (s, e)" for s e
  proof -
    have "e \<in> set (named_entities g)" using top_named_in [OF top] .
    then show ?thesis using entity_target_ok [OF assms] by (auto simp: named_entities_def)
  qed
  have "map_option snd (or_else a b) = or_else (map_option snd a) (map_option snd b)" for a b :: "(rat \<times> home_target) option"
    by (simp add: or_else_def split: option.split)
  then show ?thesis
    using scenes named unfolding resolve_named_entity_def Let_def
    by (auto simp: or_else_def split: option.splits)
qed

lemma resolved_target_ok: "target_opt_ok states (resolve_target_in_graph (build_graph states areas) query hint)"
proof -
  let ?g = "build_graph states areas"
  note g = build_graph_of [of states areas]
  have light: "target_opt_ok states (resolve_group_target ?g query ''light'' a c)" for a c
    by (rule resolve_group_ok [OF g]) simp
  have group: "target_opt_ok states (resolve_group_target ?g query d a c)"
    "target_opt_ok states (resolve_domain_target ?g query d)"
    if "infer_domain (normalize_phrase query) = Some d" for d a c
    using resolve_group_ok [OF g infer_domain_kind [OF that]] resolve_domain_ok [OF g infer_domain_kind [OF that]]
    by simp_all
  show ?thesis
    unfolding resolve_target_in_graph_def Let_def
    by (intro or_else_ok resolve_exact_ok [OF g] resolve_named_ok [OF g])
      (auto simp: light group intro!: or_else_ok resolve_named_ok [OF g] split: option.split)
qed

text \<open>C26: whatever the query, a resolved target names at least one entity that Home Assistant
  reported, all of one domain; it is marked voice-safe for no lock, and for a script only when that
  very script carries the operator's marker; scenes and scripts are never part of a group.\<close>

theorem resolved_target_sound:
  "case resolve_target_in_graph (build_graph states areas) query hint of
     None \<Rightarrow> True | Some t \<Rightarrow> target_of_house states t"
  using resolved_target_ok [of states areas query hint] by (simp add: target_opt_ok_def)

text \<open>\<open>group_exact\<close>: a group holds every entity of its domain, in its area or in the whole house, and
  the whole house is meant only when the words of the query name no other place.\<close>

definition group_exact :: "home_graph \<Rightarrow> string \<Rightarrow> home_target \<Rightarrow> bool" where
  "group_exact g query t \<longleftrightarrow> (tgt_kind t = TkGroup \<longrightarrow>
     (\<exists>d. tgt_domain t = Some d
        \<and> entity_ids t = map er_id (filter (\<lambda>e. er_domain e = d \<and> (tgt_area t = None \<or> er_area e = tgt_area t))
              (hg_entities g))
        \<and> (tgt_area t = None \<longrightarrow> whole_home_resolution_is_trustworthy (entity_views g) query)))"

lemma or_else_pred [intro]: "pred_option P a \<Longrightarrow> pred_option P b \<Longrightarrow> pred_option P (or_else a b)"
  by (auto simp: or_else_def split: option.splits)

lemma single_target_exact:
  "group_exact g q (entity_target query e conf)"
  "group_exact g q (entity_target query e conf\<lparr>tgt_kind := TkScene, voice_safe := safe\<rparr>)"
  "k \<noteq> TkGroup \<Longrightarrow> group_exact g q (scene_target k d query sc conf safe)"
  by (simp_all add: group_exact_def entity_target_def scene_target_def)

lemma scene_fold_exact:
  "k \<noteq> TkGroup \<Longrightarrow> pred_option (group_exact g query') (map_option snd best) \<Longrightarrow>
     pred_option (group_exact g query') (map_option snd (foldl (scene_step k domain query q qws) best scs))"
proof (induction scs arbitrary: best)
  case (Cons sc scs)
  have "pred_option (group_exact g query') (map_option snd (scene_step k domain query q qws best sc))"
    using Cons.prems by (simp add: scene_step_def Let_def single_target_exact(3))
  then show ?case using Cons.IH [of "scene_step k domain query q qws best sc"] Cons.prems(1) by simp
qed simp

lemma resolve_named_exact: "pred_option (group_exact g query) (resolve_named_entity g query hint)"
proof -
  let ?q = "normalize_phrase query" let ?ws = "split_whitespace ?q"
  have "pred_option (group_exact g query) (map_option snd
      (foldl (scene_step TkScript ''script'' query ?q ?ws)
        (foldl (scene_step TkScene ''scene'' query ?q ?ws) None (hg_scenes g)) (hg_scripts g)))"
    by (intro scene_fold_exact) simp_all
  then show ?thesis unfolding resolve_named_entity_def Let_def
    by (auto simp: or_else_def single_target_exact split: option.splits)
qed

lemma resolve_exact_exact: "pred_option (group_exact g query) (resolve_exact_entity_id g query hint)"
  unfolding resolve_exact_entity_id_def Let_def
  by (auto simp: single_target_exact pred_option_def split: option.split)

lemma resolve_group_exact: "pred_option (group_exact g query) (resolve_group_target g query d a conf)"
  by (simp add: resolve_group_target_def Let_def group_exact_def)

lemma resolve_domain_exact: "pred_option (group_exact g query) (resolve_domain_target g query d)"
  by (simp add: resolve_domain_target_def Let_def group_exact_def)

text \<open>A group is never a part of what its name says: it holds all the entities of the domain
  in the area, or in the whole house; and the whole house is chosen only when every word of the
  query is a device word, a filler or a word of an area that has such a device, so that a request
  for a room the house does not have switches nothing.\<close>

theorem group_target_exact:
  "case resolve_target_in_graph g query hint of None \<Rightarrow> True | Some t \<Rightarrow> group_exact g query t"
proof -
  have "pred_option (group_exact g query) (resolve_target_in_graph g query hint)"
    unfolding resolve_target_in_graph_def Let_def
    by (intro or_else_pred resolve_exact_exact resolve_named_exact)
      (auto simp: resolve_group_exact resolve_domain_exact intro!: or_else_pred resolve_named_exact
        resolve_group_exact split: option.split)
  then show ?thesis by (auto split: option.split)
qed

end
