(* ===== verification/Actuation.thy ===== *)
theory Actuation
  imports HaPolicy
begin

text \<open>
  Actuation bookkeeping (\<open>tools/actuation.rs\<close>): pending confirmations, the action ledger with
  its undo information, the audit trail. The clock readings and the random bytes of each
  operation are arguments, in the order the code takes them; the mutexes of the code make each
  operation atomic, so that interleaved callers are sequences of operations.
\<close>

section \<open>Data\<close>

definition ACTION_HISTORY_LIMIT :: nat where "ACTION_HISTORY_LIMIT = 32"

definition MAX_PENDING_CONFIRMATIONS :: nat where "MAX_PENDING_CONFIRMATIONS = 64"

record pending_confirmation =
  token :: string
  pc_entity :: string
  pc_action :: string
  pc_value :: "flt option"
  pc_reason :: string
  requested_by :: request_origin
  created_ms :: nat
  expires_ms :: nat

record undo_restore =
  ur_action :: string
  ur_value :: "flt option"

record recorded_action =
  ra_id :: nat
  undo_of :: "nat option"
  ra_entity :: string
  ra_action :: string
  ra_value :: "flt option"
  inverse_verb :: "string option"
  restore :: "undo_restore option"
  ra_origin :: request_origin
  ra_summary :: string
  ra_confidence :: "flt option"
  executed_ms :: nat

record confirmation_state =
  conf_next_id :: nat
  pending :: "(string \<times> pending_confirmation) list"

record ledger_state =
  led_next_id :: nat
  actions :: "recorded_action list"
  undone :: "nat set"

definition new_confirmations :: confirmation_state where
  "new_confirmations = \<lparr>conf_next_id = 0, pending = []\<rparr>"

definition new_ledger :: ledger_state where
  "new_ledger = \<lparr>led_next_id = 0, actions = [], undone = {}\<rparr>"

section \<open>Tokens\<close>

definition HEX :: string where "HEX = ''0123456789abcdef''"

definition hex_byte :: "8 word \<Rightarrow> string" where
  "hex_byte b = [HEX ! unat (drop_bit 4 b), HEX ! unat (b AND 15)]"

definition random_token :: "8 word list \<Rightarrow> string" where
  "random_token bytes = ''act-'' @ concat (map hex_byte bytes)"

definition ct_eq :: "char list \<Rightarrow> char list \<Rightarrow> bool" where
  "ct_eq a b = (if length a \<noteq> length b then False else byte_diff a b = 0)"

section \<open>Pending confirmations\<close>

definition prune_expired :: "nat \<Rightarrow> (string \<times> pending_confirmation) list \<Rightarrow> (string \<times> pending_confirmation) list" where
  "prune_expired now p = filter (\<lambda>(k, item). now < expires_ms item) p"

definition issue ::
  "nat \<Rightarrow> nat \<Rightarrow> 8 word list \<Rightarrow> string \<Rightarrow> string \<Rightarrow> flt option \<Rightarrow> string \<Rightarrow> request_origin \<Rightarrow>
     confirmation_state \<Rightarrow> pending_confirmation option \<times> confirmation_state" where
  "issue now1 now2 rnd entity action v why origin s =
     (let s = s\<lparr>pending := prune_expired now1 (pending s)\<rparr> in
      if MAX_PENDING_CONFIRMATIONS \<le> length (pending s) then (None, s)
      else let s = s\<lparr>conf_next_id := conf_next_id s + 1\<rparr>;
               tok = random_token rnd;
               p = \<lparr>token = tok, pc_entity = entity, pc_action = action, pc_value = v, pc_reason = why,
                    requested_by = origin, created_ms = now2, expires_ms = now2 + 10 * 60 * 1000\<rparr>
           in (Some p, s\<lparr>pending := AList.update tok p (pending s)\<rparr>))"

definition match_token :: "string \<Rightarrow> string list \<Rightarrow> string option" where
  "match_token tok ks =
     foldl (\<lambda>matched k. if ct_eq (utf8 k) (utf8 tok) then Some k else matched) None ks"

definition confirm ::
  "nat \<Rightarrow> string \<Rightarrow> confirmation_state \<Rightarrow> pending_confirmation option \<times> confirmation_state" where
  "confirm now tok s =
     (let s = s\<lparr>pending := prune_expired now (pending s)\<rparr> in
      case match_token tok (map fst (pending s)) of
        None \<Rightarrow> (None, s)
      | Some k \<Rightarrow> (map_of (pending s) k, s\<lparr>pending := AList.delete k (pending s)\<rparr>))"

definition list_confirmations ::
  "nat \<Rightarrow> confirmation_state \<Rightarrow> pending_confirmation list \<times> confirmation_state" where
  "list_confirmations now s =
     (let s = s\<lparr>pending := prune_expired now (pending s)\<rparr>
      in (sort_key created_ms (map snd (pending s)), s))"

section \<open>The action ledger\<close>

definition inverse_action :: "string \<Rightarrow> string option" where
  "inverse_action action =
     (if action = ''turn_on'' then Some ''turn_off''
      else if action = ''turn_off'' then Some ''turn_on''
      else if action = ''open'' then Some ''close''
      else if action = ''close'' then Some ''open''
      else if action = ''lock'' then Some ''unlock''
      else if action = ''unlock'' then Some ''lock''
      else None)"

function evict :: "ledger_state \<Rightarrow> ledger_state" where
  "evict s =
     (if ACTION_HISTORY_LIMIT < length (actions s)
      then evict (s\<lparr>actions := tl (actions s), undone := undone s - {ra_id (hd (actions s))}\<rparr>)
      else s)"

  by auto
termination
  by (relation "measure (length \<circ> actions)") (auto simp: ACTION_HISTORY_LIMIT_def)

declare evict.simps [simp del]

definition record_internal ::
  "nat \<Rightarrow> string \<Rightarrow> string \<Rightarrow> flt option \<Rightarrow> request_origin \<Rightarrow> string \<Rightarrow> flt option \<Rightarrow> nat option \<Rightarrow>
     undo_restore option \<Rightarrow> ledger_state \<Rightarrow> recorded_action \<times> ledger_state" where
  "record_internal now entity action v origin summary confidence original back s =
     (let item = \<lparr>ra_id = led_next_id s + 1, undo_of = original, ra_entity = entity, ra_action = action,
            ra_value = v, inverse_verb = inverse_action action, restore = back, ra_origin = origin,
            ra_summary = summary, ra_confidence = confidence, executed_ms = now\<rparr>;
          undone' = (case original of Some i \<Rightarrow> insert i (undone s) | None \<Rightarrow> undone s)
      in (item, evict \<lparr>led_next_id = led_next_id s + 1, actions = actions s @ [item], undone = undone'\<rparr>))"

definition ledger_record ::
  "nat \<Rightarrow> string \<Rightarrow> string \<Rightarrow> flt option \<Rightarrow> request_origin \<Rightarrow> string \<Rightarrow> flt option \<Rightarrow>
     undo_restore option \<Rightarrow> ledger_state \<Rightarrow> recorded_action \<times> ledger_state" where
  "ledger_record now entity action v origin summary confidence back s =
     record_internal now entity action v origin summary confidence None back s"

definition record_undo ::
  "nat \<Rightarrow> nat \<Rightarrow> string \<Rightarrow> string \<Rightarrow> flt option \<Rightarrow> request_origin \<Rightarrow> string \<Rightarrow> flt option \<Rightarrow>
     undo_restore option \<Rightarrow> ledger_state \<Rightarrow> recorded_action \<times> ledger_state" where
  "record_undo now original entity action v origin summary confidence back s =
     record_internal now entity action v origin summary confidence (Some original) back s"

definition list_actions :: "ledger_state \<Rightarrow> recorded_action list" where
  "list_actions s = rev (actions s)"

definition undoable :: "ledger_state \<Rightarrow> recorded_action \<Rightarrow> bool" where
  "undoable s item \<longleftrightarrow> undo_of item = None \<and> ra_id item \<notin> undone s
     \<and> (restore item \<noteq> None \<or> inverse_verb item \<noteq> None)"

definition last_undoable :: "ledger_state \<Rightarrow> recorded_action option" where
  "last_undoable s = find (undoable s) (rev (actions s))"

definition undo_home_control_args :: "recorded_action \<Rightarrow> json option" where
  "undo_home_control_args a =
     (case restore a of
        Some r \<Rightarrow> Some (JObj ([(''action'', JStr (ur_action r)), (''entity'', JStr (ra_entity a))]
                   @ (case ur_value r of Some v \<Rightarrow> [(''value'', json_of_f64 v)] | None \<Rightarrow> [])))
      | None \<Rightarrow> (case inverse_verb a of
            Some i \<Rightarrow> Some (JObj [(''action'', JStr i), (''entity'', JStr (ra_entity a))])
          | None \<Rightarrow> None))"

definition hydrate_one :: "recorded_action \<Rightarrow> ledger_state \<Rightarrow> ledger_state" where
  "hydrate_one a s =
     \<lparr>led_next_id = max (led_next_id s) (ra_id a), actions = actions s @ [a],
      undone = (case undo_of a of Some i \<Rightarrow> insert i (undone s) | None \<Rightarrow> undone s)\<rparr>"

definition hydrate :: "recorded_action list \<Rightarrow> ledger_state \<Rightarrow> ledger_state" where
  "hydrate as s =
     fold hydrate_one (rev (take ACTION_HISTORY_LIMIT (rev as)))
       (s\<lparr>actions := [], undone := {}, led_next_id := 0\<rparr>)"

section \<open>Restoring the state before an action\<close>

definition undo_restore_for_power_state :: "string \<Rightarrow> undo_restore option" where
  "undo_restore_for_power_state st =
     (if st = ''on'' then Some \<lparr>ur_action = ''turn_on'', ur_value = None\<rparr>
      else if st = ''off'' then Some \<lparr>ur_action = ''turn_off'', ur_value = None\<rparr>
      else if st = ''open'' then Some \<lparr>ur_action = ''open'', ur_value = None\<rparr>
      else if st = ''closed'' then Some \<lparr>ur_action = ''close'', ur_value = None\<rparr>
      else if st = ''locked'' then Some \<lparr>ur_action = ''lock'', ur_value = None\<rparr>
      else if st = ''unlocked'' then Some \<lparr>ur_action = ''unlock'', ur_value = None\<rparr>
      else None)"

text \<open>\<open>brightness as f64 * 100.0 / 255.0\<close>, each operation rounded to 53 bits.\<close>

definition brightness_percent :: "nat \<Rightarrow> flt" where
  "brightness_percent b = Fin (round_bits 53 (round_bits 53 (f64_of_nat b * 100) / 255))"

definition attribute_f64 :: "entity \<Rightarrow> string \<Rightarrow> flt option" where
  "attribute_f64 e k = Option.bind (json_get (attributes e) k) json_as_f64"

definition restore_for_entity :: "string \<Rightarrow> entity \<Rightarrow> undo_restore option" where
  "restore_for_entity action e =
     (if action = ''set_brightness'' then
        if ent_state e = ''off'' then Some \<lparr>ur_action = ''turn_off'', ur_value = None\<rparr>
        else map_option (\<lambda>b. \<lparr>ur_action = ''set_brightness'', ur_value = Some (brightness_percent b)\<rparr>)
               (Option.bind (json_get (attributes e) ''brightness'') json_as_u64)
      else if action = ''set_temperature'' then
        if ent_state e = ''off'' then Some \<lparr>ur_action = ''turn_off'', ur_value = None\<rparr>
        else map_option (\<lambda>t. \<lparr>ur_action = ''set_temperature'', ur_value = Some t\<rparr>)
               (case attribute_f64 e ''temperature'' of
                  Some t \<Rightarrow> Some t
                | None \<Rightarrow> attribute_f64 e ''target_temp'')
      else if action = ''toggle'' then undo_restore_for_power_state (ent_state e)
      else None)"

definition undo_restore_from_prior :: "string \<Rightarrow> home_state \<Rightarrow> undo_restore option" where
  "undo_restore_from_prior action prior =
     (case entities prior of
        [] \<Rightarrow> None
      | e # es \<Rightarrow> if list_all (\<lambda>e'. restore_for_entity action e' = restore_for_entity action e) es
                 then restore_for_entity action e else None)"

section \<open>The audit trail\<close>

datatype audit_status = ConfirmationIssued | BlockedPolicy | BlockedRuntime | Executed | Failed

record audit_event =
  ts_ms :: nat
  au_status :: audit_status
  au_origin :: request_origin
  au_entity :: string
  au_action :: string
  au_value :: "flt option"
  au_reason :: string
  au_token :: "string option"
  au_confidence :: "flt option"
  action_id :: "nat option"
  au_undo_of :: "nat option"
  au_restore :: "undo_restore option"

datatype audit_error = CreateDir string | OpenLog string | Serialize string | WriteLine string

fun audit_error_display :: "audit_error \<Rightarrow> string" where
  "audit_error_display (CreateDir e) = ''audit log: create parent directory: '' @ e"
| "audit_error_display (OpenLog e) = ''audit log: open file for append: '' @ e"
| "audit_error_display (Serialize e) = ''audit log: serialize event: '' @ e"
| "audit_error_display (WriteLine e) = ''audit log: write line: '' @ e"

text \<open>A logger without a path is disabled. The outcome of appending one line (the steps that
  create the directory, open, serialise and write) is the argument \<open>io\<close>; the log is the
  sequence of events whose line was written.\<close>

record audit_logger =
  log_path :: "string option"
  log_lines :: "audit_event list"

definition append_event ::
  "(audit_event \<Rightarrow> audit_error + unit) \<Rightarrow> audit_event \<Rightarrow> audit_logger \<Rightarrow> (audit_error + unit) \<times> audit_logger" where
  "append_event io ev l =
     (case log_path l of
        None \<Rightarrow> (Ok (), l)
      | Some p \<Rightarrow> (case io ev of
            Inl e \<Rightarrow> (Err e, l)
          | Inr u \<Rightarrow> (Ok (), l\<lparr>log_lines := log_lines l @ [ev]\<rparr>)))"

definition append_or_log ::
  "(audit_event \<Rightarrow> audit_error + unit) \<Rightarrow> audit_event \<Rightarrow> audit_logger \<Rightarrow> audit_logger" where
  "append_or_log io ev l = snd (append_event io ev l)"

definition audit_event_to_recorded_action :: "audit_event \<Rightarrow> recorded_action option" where
  "audit_event_to_recorded_action ev =
     (if au_status ev \<noteq> Executed then None
      else map_option (\<lambda>i. \<lparr>ra_id = i, undo_of = au_undo_of ev, ra_entity = au_entity ev,
             ra_action = au_action ev, ra_value = au_value ev, inverse_verb = inverse_action (au_action ev),
             restore = au_restore ev, ra_origin = au_origin ev, ra_summary = au_reason ev,
             ra_confidence = au_confidence ev, executed_ms = ts_ms ev\<rparr>) (action_id ev))"

text \<open>\<open>tail n\<close> is the result of reading the last \<open>n\<close> lines of the log, \<open>parse\<close> the decoding of a
  line; both are arguments here (the first is modelled with the file reader).\<close>

definition read_recent_executed_actions ::
  "string option \<Rightarrow> (nat \<Rightarrow> string + 'line list) \<Rightarrow> ('line \<Rightarrow> audit_event option) \<Rightarrow> nat \<Rightarrow> recorded_action list" where
  "read_recent_executed_actions path tail parse limit =
     (case path of
        None \<Rightarrow> []
      | Some p \<Rightarrow>
          (case tail (max (u64_sat_mul limit 16) limit) of
             Inl e \<Rightarrow> []
           | Inr lines \<Rightarrow>
               let as = List.map_filter (\<lambda>l. Option.bind (parse l) audit_event_to_recorded_action) lines
               in if limit < length as then drop (length as - limit) as else as))"

section \<open>Confirmations: lemmas\<close>

lemma ct_eq_iff: "ct_eq a b \<longleftrightarrow> a = b"
  by (auto simp: ct_eq_def byte_diff_zero)

interpretation token_bytes: byte_equality ct_eq
  by unfold_locales (rule ct_eq_iff)

lemma match_token_eq: "match_token tok ks = (if tok \<in> set ks then Some tok else None)"
  by (induction ks rule: rev_induct) (auto simp: match_token_def token_bytes.eq_text)

definition conf_inv :: "confirmation_state \<Rightarrow> bool" where
  "conf_inv s \<longleftrightarrow> distinct (map fst (pending s)) \<and>
     (\<forall>(k, p) \<in> set (pending s). token p = k \<and> expires_ms p = created_ms p + 600000)"

datatype conf_op =
  IssueOp nat nat "8 word list" string string "flt option" string request_origin
| ConfirmOp nat string
| ListOp nat

fun conf_step :: "conf_op \<Rightarrow> confirmation_state \<Rightarrow> confirmation_state" where
  "conf_step (IssueOp n1 n2 r e a v w orig) s = snd (issue n1 n2 r e a v w orig s)"
| "conf_step (ConfirmOp n t) s = snd (confirm n t s)"
| "conf_step (ListOp n) s = snd (list_confirmations n s)"

lemma prune_expired_props:
  "set (prune_expired now p) \<subseteq> set p" "length (prune_expired now p) \<le> length p"
  "distinct (map fst p) \<Longrightarrow> distinct (map fst (prune_expired now p))"
  by (auto simp: prune_expired_def distinct_filter_keys)

lemma map_of_prune:
  "distinct (map fst p) \<Longrightarrow> map_of (prune_expired now p) k =
     (case map_of p k of Some v \<Rightarrow> if now < expires_ms v then Some v else None | None \<Rightarrow> None)"
  unfolding prune_expired_def by (rule map_of_filter_distinct)

lemma conf_inv_prune: "conf_inv s \<Longrightarrow> conf_inv (s\<lparr>pending := prune_expired now (pending s)\<rparr>)"
  using prune_expired_props [where now = now and p = "pending s"] by (auto simp: conf_inv_def)

lemma conf_inv_update:
  "conf_inv s \<Longrightarrow> token p = k \<Longrightarrow> expires_ms p = created_ms p + 600000 \<Longrightarrow>
     conf_inv (s\<lparr>conf_next_id := n, pending := AList.update k p (pending s)\<rparr>)"
  using set_alist_update [of k p "pending s"] by (auto simp: conf_inv_def distinct_update)

lemma conf_inv_delete: "conf_inv s \<Longrightarrow> conf_inv (s\<lparr>pending := AList.delete k (pending s)\<rparr>)"
  using set_alist_delete [of k "pending s"] by (auto simp: conf_inv_def distinct_delete)

lemma conf_inv_issue [rust_invs]: "conf_inv s \<Longrightarrow> conf_inv (snd (issue n1 n2 r e a v w orig s))"
proof -
  assume "conf_inv s"
  from conf_inv_prune [OF this, of n1] show ?thesis
    unfolding issue_def Let_def
    by (auto dest!: conf_inv_update [where s = "s\<lparr>pending := prune_expired n1 (pending s)\<rparr>"
          and k = "random_token r" and n = "conf_next_id s + 1"
          and p = "\<lparr>token = random_token r, pc_entity = e, pc_action = a, pc_value = v, pc_reason = w,
                    requested_by = orig, created_ms = n2, expires_ms = n2 + 600000\<rparr>"])
qed

lemma conf_inv_confirm [rust_invs]: "conf_inv s \<Longrightarrow> conf_inv (snd (confirm n t s))"
  using conf_inv_prune [of s n] conf_inv_delete [of "s\<lparr>pending := prune_expired n (pending s)\<rparr>"]
  by (auto simp: confirm_def Let_def split: option.splits)

lemma conf_inv_list [rust_invs]: "conf_inv s \<Longrightarrow> conf_inv (snd (list_confirmations n s))"
  using conf_inv_prune [of s n] by (simp add: list_confirmations_def Let_def)

lemma conf_inv_step: "conf_inv s \<Longrightarrow> conf_inv (conf_step op s)"
  by (cases op) (simp_all add: rust_invs)

lemma conf_step_bound:
  "length (pending s) \<le> MAX_PENDING_CONFIRMATIONS \<Longrightarrow>
     length (pending (conf_step op s)) \<le> MAX_PENDING_CONFIRMATIONS"
proof (cases op)
  case (IssueOp n1 n2 r e a v w orig)
  let ?p = "prune_expired n1 (pending s)"
  assume "length (pending s) \<le> MAX_PENDING_CONFIRMATIONS"
  then show ?thesis
    using IssueOp prune_expired_props(2) [of n1 "pending s"] length_alist_update [of _ _ ?p]
    by (force simp: issue_def Let_def intro: order_trans)
next
  case (ConfirmOp n t)
  assume "length (pending s) \<le> MAX_PENDING_CONFIRMATIONS"
  then show ?thesis
    using ConfirmOp prune_expired_props(2) [of n "pending s"]
      length_delete_le [of _ "prune_expired n (pending s)"]
    by (auto simp: confirm_def Let_def split: option.splits) (meson order_trans)
next
  case (ListOp n)
  assume "length (pending s) \<le> MAX_PENDING_CONFIRMATIONS"
  then show ?thesis
    using ListOp prune_expired_props(2) [of n "pending s"] by (simp add: list_confirmations_def Let_def)
qed

interpretation confirmation_table: bounded_table "\<lambda>s. length (pending s)"
  "\<lambda>s. MAX_PENDING_CONFIRMATIONS" conf_step conf_inv
  by unfold_locales (simp_all add: conf_inv_step conf_step_bound)

text \<open>The operations seen through the lookup of one token.\<close>

definition live :: "nat \<Rightarrow> pending_confirmation option \<Rightarrow> pending_confirmation option" where
  "live now p = (case p of Some q \<Rightarrow> if now < expires_ms q then p else None | None \<Rightarrow> None)"

lemma lookup_confirm:
  assumes "conf_inv s"
  shows "fst (confirm n t s) = live n (map_of (pending s) t)"
    and "map_of (pending (snd (confirm n t s))) k = (if k = t then None else live n (map_of (pending s) k))"
proof -
  have d: "distinct (map fst (pending s))" using assms by (simp add: conf_inv_def)
  have l: "map_of (prune_expired n (pending s)) k = live n (map_of (pending s) k)" for k
    by (simp add: map_of_prune [OF d] live_def split: option.splits)
  have "t \<notin> set (map fst (prune_expired n (pending s))) \<longleftrightarrow> map_of (prune_expired n (pending s)) t = None"
    by (simp add: map_of_eq_None_iff)
  then show "fst (confirm n t s) = live n (map_of (pending s) t)"
    and "map_of (pending (snd (confirm n t s))) k = (if k = t then None else live n (map_of (pending s) k))"
    by (auto simp: confirm_def Let_def match_token_eq l delete_conv')
qed

lemma lookup_issue:
  assumes "conf_inv s" and "k \<noteq> random_token r"
  shows "map_of (pending (snd (issue n1 n2 r e a v w orig s))) k = live n1 (map_of (pending s) k)"
proof -
  have d: "distinct (map fst (pending s))" using assms by (simp add: conf_inv_def)
  have l: "map_of (prune_expired n1 (pending s)) k = live n1 (map_of (pending s) k)" for k
    by (simp add: map_of_prune [OF d] live_def split: option.splits)
  then show ?thesis using assms(2) by (simp add: issue_def Let_def update_conv')
qed

lemma lookup_list:
  assumes "conf_inv s"
  shows "map_of (pending (snd (list_confirmations n s))) k = live n (map_of (pending s) k)"
  using assms by (simp add: list_confirmations_def Let_def map_of_prune conf_inv_def live_def split: option.splits)

lemma issue_some:
  assumes "issue n1 n2 r e a v w orig s = (Some p, s')"
  shows "map_of (pending s') (token p) = Some p \<and> token p = random_token r
    \<and> pc_entity p = e \<and> pc_action p = a \<and> pc_value p = v \<and> pc_reason p = w \<and> requested_by p = orig
    \<and> expires_ms p = n2 + 600000"
  using assms by (auto simp: issue_def Let_def update_conv' split: if_splits)

fun op_time :: "conf_op \<Rightarrow> nat" where
  "op_time (IssueOp n1 n2 r e a v w orig) = n1"
| "op_time (ConfirmOp n t) = n"
| "op_time (ListOp n) = n"

fun mints :: "string \<Rightarrow> conf_op \<Rightarrow> bool" where
  "mints t (IssueOp n1 n2 r e a v w orig) = (random_token r = t)"
| "mints t op = False"

fun redeems :: "string \<Rightarrow> conf_op \<Rightarrow> bool" where
  "redeems t (ConfirmOp n k) = (k = t)"
| "redeems t op = False"

lemma lookup_step:
  assumes "conf_inv s" and "\<not> mints t op"
  shows "map_of (pending (conf_step op s)) t =
     (if redeems t op then None else live (op_time op) (map_of (pending s) t))"
  using assms lookup_confirm(2) [OF assms(1)] lookup_issue [OF assms(1)] lookup_list [OF assms(1)]
  by (cases op) auto

lemma lookup_steps_absent:
  "conf_inv s \<Longrightarrow> \<forall>op \<in> set ops. \<not> mints t op \<Longrightarrow> map_of (pending s) t = None \<Longrightarrow>
     map_of (pending (fold conf_step ops s)) t = None"
  by (induction ops arbitrary: s) (simp_all add: lookup_step live_def conf_inv_step)

lemma lookup_steps_present:
  "conf_inv s \<Longrightarrow> \<forall>op \<in> set ops. \<not> mints t op \<and> \<not> redeems t op \<and> op_time op < expires_ms p \<Longrightarrow>
     map_of (pending s) t = Some p \<Longrightarrow> map_of (pending (fold conf_step ops s)) t = Some p"
  by (induction ops arbitrary: s) (simp_all add: lookup_step live_def conf_inv_step)

lemma conf_inv_new: "conf_inv new_confirmations"
  by (simp add: conf_inv_def new_confirmations_def)

section \<open>Tokens: lemmas\<close>

lemma HEX_inj: "i < 16 \<Longrightarrow> j < 16 \<Longrightarrow> HEX ! i = HEX ! j \<longleftrightarrow> i = j"
  by (rule nth_eq_iff_index_eq) (simp_all add: HEX_def)

lemma hex_byte_inj: "hex_byte a = hex_byte b \<longleftrightarrow> a = b"
proof
  assume eq: "hex_byte a = hex_byte b"
  have m: "unat (w AND 15) = unat w mod 16" for w :: "8 word"
  proof -
    have "w AND 15 = take_bit 4 w" by (simp add: take_bit_eq_mask mask_eq_exp_minus_1)
    then show ?thesis by (simp add: unsigned_take_bit_eq take_bit_nat_def)
  qed
  have d: "unat (drop_bit 4 w) = unat w div 16" for w :: "8 word"
    by (simp add: unat_drop_bit_eq drop_bit_nat_def)
  have "unat a div 16 < 16" "unat b div 16 < 16" 
    using unsigned_less [of a, where 'a = nat] unsigned_less [of b, where 'a = nat] by simp_all
  then have "unat a div 16 = unat b div 16" "unat a mod 16 = unat b mod 16"
    using eq HEX_inj [of "unat a div 16" "unat b div 16"] HEX_inj [of "unat a mod 16" "unat b mod 16"]
    by (simp_all add: hex_byte_def m d)
  then have "unat a = unat b" by (metis div_mult_mod_eq)
  then show "a = b" by (rule unsigned_word_eqI)
qed simp

lemma hex_byte_len: "length (hex_byte a) = 2"
  by (simp add: hex_byte_def)

lemma random_token_inj: "length a = length b \<Longrightarrow> random_token a = random_token b \<longleftrightarrow> a = b"
proof -
  assume "length a = length b"
  then have "concat (map hex_byte a) = concat (map hex_byte b) \<longleftrightarrow> a = b"
    by (induction a b rule: list_induct2) (simp_all add: hex_byte_len hex_byte_inj)
  then show ?thesis by (simp add: random_token_def)
qed

section \<open>The ledger: lemmas\<close>

definition last_n :: "nat \<Rightarrow> 'a list \<Rightarrow> 'a list" where
  "last_n n xs = drop (length xs - n) xs"

lemma evict_eq:
  "evict s = s\<lparr>actions := last_n ACTION_HISTORY_LIMIT (actions s),
     undone := undone s - ra_id ` set (take (length (actions s) - ACTION_HISTORY_LIMIT) (actions s))\<rparr>"
proof (induction s rule: evict.induct)
  case (1 s)
  show ?case
  proof (cases "ACTION_HISTORY_LIMIT < length (actions s)")
    case True
    then obtain a as where as: "actions s = a # as" by (cases "actions s") auto
    let ?k = "length as - ACTION_HISTORY_LIMIT"
    have k: "length (actions s) - ACTION_HISTORY_LIMIT = Suc ?k" using True as by simp
    have "undone s - {ra_id a} - X = undone s - insert (ra_id a) X" for X by auto
    then show ?thesis
      unfolding evict.simps [of s] last_n_def k using 1 [OF True] True as
      by (simp add: last_n_def)
  next
    case False
    then show ?thesis unfolding evict.simps [of s] by (simp add: last_n_def)
  qed
qed

datatype led_op =
  LRecord nat string string "flt option" request_origin string "flt option" "undo_restore option"
| LUndo nat nat string string "flt option" request_origin string "flt option" "undo_restore option"

fun led_step :: "led_op \<Rightarrow> ledger_state \<Rightarrow> recorded_action \<times> ledger_state" where
  "led_step (LRecord n e a v orig m c b) s = ledger_record n e a v orig m c b s"
| "led_step (LUndo n i e a v orig m c b) s = record_undo n i e a v orig m c b s"

fun undo_target :: "led_op \<Rightarrow> nat option" where
  "undo_target (LRecord n e a v orig m c b) = None"
| "undo_target (LUndo n i e a v orig m c b) = Some i"

lemma led_step_bound: "length (actions (snd (led_step op s))) \<le> ACTION_HISTORY_LIMIT"
  by (cases op) (simp_all add: ledger_record_def record_undo_def record_internal_def Let_def evict_eq last_n_def)

interpretation ledger_table: bounded_table "\<lambda>s. length (actions s)" "\<lambda>s. ACTION_HISTORY_LIMIT"
  "\<lambda>op s. snd (led_step op s)" "\<lambda>s. True"
  by unfold_locales (simp_all add: led_step_bound)

text \<open>Runs of the ledger from a fresh start, with the history of all items ever recorded. The
  dispatcher takes the item to undo from the ledger, so an undo refers to an earlier item.\<close>

inductive led_run :: "recorded_action list \<Rightarrow> ledger_state \<Rightarrow> bool" where
  led_start: "led_run [] new_ledger"
| led_op: "led_run hist s \<Longrightarrow> (\<And>i. undo_target op = Some i \<Longrightarrow> i \<le> led_next_id s) \<Longrightarrow>
     led_step op s = (item, s') \<Longrightarrow> led_run (hist @ [item]) s'"

definition undo_refs :: "recorded_action list \<Rightarrow> nat set" where
  "undo_refs as = {i. \<exists>a \<in> set as. undo_of a = Some i}"

definition led_inv :: "recorded_action list \<Rightarrow> ledger_state \<Rightarrow> bool" where
  "led_inv hist s \<longleftrightarrow>
     map ra_id hist = [1..<length hist + 1] \<and> led_next_id s = length hist
     \<and> actions s = last_n ACTION_HISTORY_LIMIT hist
     \<and> undone s \<subseteq> {..length hist}
     \<and> (\<forall>k < length hist. \<forall>i. undo_of (hist ! k) = Some i \<longrightarrow> i \<le> k)
     \<and> (\<forall>a \<in> set (actions s). ra_id a \<in> undone s \<longleftrightarrow> ra_id a \<in> undo_refs hist)"

lemma led_step_shape:
  assumes "led_step op s = (item, s')"
  shows "ra_id item = led_next_id s + 1 \<and> undo_of item = undo_target op \<and>
    s' = evict \<lparr>led_next_id = led_next_id s + 1, actions = actions s @ [item],
      undone = undone s \<union> set_option (undo_target op)\<rparr>"
  using assms by (cases op) (auto simp: ledger_record_def record_undo_def record_internal_def Let_def)

lemma last_n_snoc: "last_n n (last_n n xs @ [x]) = last_n n (xs @ [x])"
  by (cases "n \<le> length xs") (simp_all add: last_n_def Suc_diff_le)

lemma last_n_length: "length (last_n n xs) = min n (length xs)"
  by (auto simp: last_n_def)

lemma last_n_set: "x \<in> set (last_n n xs) \<Longrightarrow> x \<in> set xs"
  by (auto simp: last_n_def dest: in_set_dropD)

lemma map_last_n: "map f (last_n n xs) = last_n n (map f xs)"
  by (simp add: last_n_def drop_map)

lemma led_inv_ids_distinct: "led_inv hist s \<Longrightarrow> distinct (map ra_id hist)"
  by (simp add: led_inv_def)

lemma led_inv_ids_bound: "led_inv hist s \<Longrightarrow> a \<in> set hist \<Longrightarrow> 1 \<le> ra_id a \<and> ra_id a \<le> length hist"
proof -
  assume "led_inv hist s" "a \<in> set hist"
  then have "ra_id a \<in> set [1..<length hist + 1]"
    unfolding led_inv_def by (metis image_eqI image_set)
  then show ?thesis by auto
qed

lemma led_inv_step:
  assumes inv: "led_inv hist s" and past: "\<And>i. undo_target op = Some i \<Longrightarrow> i \<le> led_next_id s"
    and step: "led_step op s = (item, s')"
  shows "led_inv (hist @ [item]) s'"
proof -
  note shape = led_step_shape [OF step]
  let ?n = "length hist" and ?h = "hist @ [item]"
  have n: "led_next_id s = ?n" using inv by (simp add: led_inv_def)
  have acts: "actions s' = last_n ACTION_HISTORY_LIMIT ?h"
    using shape inv by (simp add: evict_eq last_n_snoc led_inv_def)
  have ids: "map ra_id ?h = [1..<length ?h + 1]"
    using inv shape n by (simp add: led_inv_def)
  have refs: "undo_refs ?h = undo_refs hist \<union> set_option (undo_target op)"
    using shape by (auto simp: undo_refs_def)
  let ?gone = "ra_id ` set (take (length (actions s @ [item]) - ACTION_HISTORY_LIMIT) (actions s @ [item]))"
  have und: "undone s' = (undone s \<union> set_option (undo_target op)) - ?gone"
    using shape by (simp add: evict_eq)
  have old: "set_option (undo_target op) \<subseteq> {..?n}" using past n by (cases "undo_target op") auto
  have sub: "undone s' \<subseteq> {..length ?h}" using und old inv by (auto simp: led_inv_def)
  have below: "undo_of (?h ! k) = Some i \<Longrightarrow> i \<le> k" if "k < length ?h" for k i
    using that inv shape past n by (cases "k < ?n") (auto simp: led_inv_def nth_append)
  have win: "ra_id a \<in> undone s' \<longleftrightarrow> ra_id a \<in> undo_refs ?h" if a: "a \<in> set (actions s')" for a
  proof -
    have split: "actions s @ [item] =
        take (length (actions s @ [item]) - ACTION_HISTORY_LIMIT) (actions s @ [item]) @ actions s'"
      unfolding shape [THEN conjunct2, THEN conjunct2] evict_eq last_n_def by (simp del: append_take_drop_id
          take_append drop_append length_append add: append_take_drop_id)
    have "\<exists>pre. ?h = pre @ (actions s @ [item])"
      using inv by (metis led_inv_def append_assoc append_take_drop_id last_n_def)
    then obtain pre where "?h = pre @ (actions s @ [item])" by blast
    then have "distinct (map ra_id (actions s @ [item]))"
      using ids by (metis distinct_append distinct_upt map_append)
    then have kept: "ra_id a \<notin> ?gone"
      using a split by (metis (no_types, lifting) IntI distinct_append empty_iff image_eqI image_set map_append)
    show ?thesis
    proof (cases "a = item")
      case True
      then have "ra_id a = ?n + 1" using shape n by simp
      moreover have "undo_refs hist \<subseteq> {..?n}"
        using inv by (fastforce simp: undo_refs_def led_inv_def in_set_conv_nth)
      ultimately show ?thesis using und refs old inv by (auto simp: led_inv_def)
    next
      case False
      then have "a \<in> set (actions s)" using a split by (metis UnE empty_iff in_set_dropD
            insert_iff last_n_def last_n_snoc list.set(1) list.set(2) set_append acts Un_iff)
      then show ?thesis using und refs kept inv by (auto simp: led_inv_def)
    qed
  qed
  show ?thesis using acts ids sub below win n shape
    by (auto simp: led_inv_def evict_eq)
qed

lemma led_run_inv: "led_run hist s \<Longrightarrow> led_inv hist s"
proof (induction rule: led_run.induct)
  case led_start
  show ?case by (simp add: led_inv_def new_ledger_def last_n_def)
next
  case (led_op hist s op item s')
  then show ?case by (metis led_inv_step)
qed

text \<open>What an audit line keeps of an item: everything but the summary and the exact time.\<close>

definition core :: "recorded_action \<Rightarrow> recorded_action" where
  "core a = a\<lparr>ra_summary := '''', executed_ms := 0\<rparr>"

lemma core_fields [simp]:
  "ra_id (core a) = ra_id a" "undo_of (core a) = undo_of a" "restore (core a) = restore a"
  "inverse_verb (core a) = inverse_verb a" "ra_entity (core a) = ra_entity a"
  by (simp_all add: core_def)

lemma core_eqD: "core a = core b \<Longrightarrow> ra_id a = ra_id b \<and> undo_of a = undo_of b
    \<and> restore a = restore b \<and> inverse_verb a = inverse_verb b \<and> ra_entity a = ra_entity b"
  by (metis core_fields)

lemma fold_hydrate:
  "fold hydrate_one as s = \<lparr>led_next_id = fold (\<lambda>a n. max n (ra_id a)) as (led_next_id s),
     actions = actions s @ as, undone = undone s \<union> undo_refs as\<rparr>"
  by (induction as arbitrary: s)
    (auto simp: hydrate_one_def undo_refs_def split: option.splits)

lemma hydrate_eq:
  "hydrate as s = \<lparr>led_next_id = fold (\<lambda>a n. max n (ra_id a)) (last_n ACTION_HISTORY_LIMIT as) 0,
     actions = last_n ACTION_HISTORY_LIMIT as, undone = undo_refs (last_n ACTION_HISTORY_LIMIT as)\<rparr>"
  by (simp add: hydrate_def fold_hydrate last_n_def rev_take)

lemma fold_max_upt: "fold max [i..<j] n = (if i < j then max n (j - 1) else n)"
  for i j n :: nat
  by (induction j) auto

lemma fold_max_ids: "fold (\<lambda>a n. max n (ra_id a)) as n = fold max (map ra_id as) n"
  by (induction as arbitrary: n) (auto simp: max.commute)

lemma led_inv_id_at:
  assumes "led_inv hist s" and "k < length hist"
  shows "ra_id (hist ! k) = k + 1"
proof -
  have "map ra_id hist ! k = [1..<length hist + 1] ! k" using assms(1) by (simp add: led_inv_def)
  then show ?thesis using assms(2) by (simp del: upt_Suc)
qed

lemma led_inv_window_refs:
  assumes "led_inv hist s" and "a \<in> set (actions s)"
  shows "ra_id a \<in> undone s \<longleftrightarrow> ra_id a \<in> undo_refs (actions s)"
proof -
  let ?m = "length hist - ACTION_HISTORY_LIMIT"
  have acts: "actions s = drop ?m hist" using assms(1) by (simp add: led_inv_def last_n_def)
  have win: "hist ! j \<in> set (actions s)" if "?m \<le> j" "j < length hist" for j
    unfolding acts in_set_conv_nth using that by (intro exI [of _ "j - ?m"]) auto
  obtain k where k: "k < length hist" "?m \<le> k" "a = hist ! k"
  proof -
    obtain d where "d < length (drop ?m hist)" "a = drop ?m hist ! d"
      using assms(2) unfolding acts in_set_conv_nth by blast
    then show ?thesis by (intro that [of "?m + d"]) auto
  qed
  have "ra_id a \<in> undo_refs (actions s)" if r: "ra_id a \<in> undo_refs hist"
  proof -
    from r obtain j where j: "j < length hist" "undo_of (hist ! j) = Some (ra_id a)"
      by (auto simp: undo_refs_def in_set_conv_nth)
    then have "ra_id a \<le> j" using assms(1) by (simp add: led_inv_def)
    then have "?m \<le> j" using led_inv_id_at [OF assms(1) k(1)] k(2,3) by simp
    then show ?thesis using win j by (auto simp: undo_refs_def)
  qed
  moreover have "undo_refs (actions s) \<subseteq> undo_refs hist"
    unfolding acts by (auto simp: undo_refs_def dest: in_set_dropD)
  ultimately show ?thesis using assms by (auto simp: led_inv_def)
qed

lemma led_inv_next_id:
  assumes "led_inv hist s"
  shows "led_next_id s = fold max (map ra_id (actions s)) 0"
proof -
  let ?m = "length hist - ACTION_HISTORY_LIMIT"
  have "actions s = drop ?m hist" using assms by (simp add: led_inv_def last_n_def)
  then have "map ra_id (actions s) = drop ?m (map ra_id hist)" by (simp only: drop_map)
  then have "map ra_id (actions s) = [?m + 1..<length hist + 1]"
    using assms by (simp add: led_inv_def del: upt_Suc)
  moreover have "?m < length hist \<or> hist = []" by (cases hist) (simp_all add: ACTION_HISTORY_LIMIT_def)
  ultimately show ?thesis using assms
    by (auto simp: fold_max_upt led_inv_def simp del: upt_Suc)
qed

lemma find_core:
  "map core xs = map core ys \<Longrightarrow> (\<And>x y. x \<in> set xs \<Longrightarrow> y \<in> set ys \<Longrightarrow> core x = core y \<Longrightarrow> P x = Q y) \<Longrightarrow>
     map_option core (find P xs) = map_option core (find Q ys)"
proof (induction xs arbitrary: ys)
  case (Cons x xs)
  then obtain y ys' where ys: "ys = y # ys'" "core x = core y" "map core xs = map core ys'" by auto
  have "P x = Q y" using Cons.prems(2) ys(1,2) by simp
  moreover have "map_option core (find P xs) = map_option core (find Q ys')"
    using Cons.prems(2) ys by (intro Cons.IH) auto
  ultimately show ?case using ys(1,2) by simp
qed simp

lemma undo_refs_core: "map core xs = map core ys \<Longrightarrow> undo_refs xs = undo_refs ys"
proof (induction xs arbitrary: ys)
  case (Cons x xs)
  then obtain y ys' where ys: "ys = y # ys'" "core x = core y" "map core xs = map core ys'" by auto
  then have "undo_of x = undo_of y" "undo_refs xs = undo_refs ys'" using core_eqD Cons.IH by blast+
  then show ?case using ys(1) by (auto simp: undo_refs_def)
qed simp

lemma last_undoable_SomeD:
  assumes "last_undoable s = Some a"
  shows "a \<in> set (actions s) \<and> undoable s a"
proof -
  obtain i where "i < length (rev (actions s))" "undoable s a" "a = rev (actions s) ! i"
    using assms by (auto simp: last_undoable_def find_Some_iff)
  then show ?thesis by (metis nth_mem set_rev)
qed

section \<open>Properties\<close>

text \<open>C15: a confirmation token works until it is used or expires. After any sequence of other
  requests, confirmations and listings before the expiry (none of which draws the same random
  token or redeems it), confirming returns exactly the request that was stored; ten minutes after
  it was issued it returns nothing.\<close>

theorem confirmation_roundtrip:
  assumes "issue n1 n2 r e a v w orig (fold conf_step before new_confirmations) = (Some p, s)"
    and "\<forall>op \<in> set ops. \<not> mints (token p) op \<and> \<not> redeems (token p) op \<and> op_time op < n2 + 600000"
  shows "fst (confirm now (token p) (fold conf_step ops s)) = (if now < n2 + 600000 then Some p else None)
    \<and> pc_entity p = e \<and> pc_action p = a \<and> pc_value p = v \<and> requested_by p = orig"
proof -
  have inv: "conf_inv s"
    using conf_inv_issue [OF confirmation_table.wf_run [OF conf_inv_new], of n1 n2 r e a v w orig before]
      assms(1) by simp
  note p = issue_some [OF assms(1)]
  have "map_of (pending (fold conf_step ops s)) (token p) = Some p"
    using assms(2) p inv by (intro lookup_steps_present) auto
  then show ?thesis
    using lookup_confirm(1) [OF confirmation_table.wf_run [OF inv], of now "token p" ops] p
    by (simp add: live_def)
qed

theorem confirmation_roundtrip_witness:
  "fst (confirm 500000 (random_token [1])
     (snd (list_confirmations 400000 (snd (issue 0 0 [1] ''lock.front'' ''unlock'' None ''why'' Voice
        new_confirmations)))))
   \<noteq> None"
proof -
  let ?i = "issue 0 0 [1] ''lock.front'' ''unlock'' None ''why'' Voice (fold conf_step [] new_confirmations)"
  obtain p s where i: "?i = (Some p, s)"
    by (simp add: issue_def new_confirmations_def MAX_PENDING_CONFIRMATIONS_def prune_expired_def Let_def)
  then have "token p = random_token [1]" using issue_some by blast
  then show ?thesis
    using confirmation_roundtrip [OF i, of "[ListOp 400000]" 500000] i by simp
qed

text \<open>C2: a confirmation is single-use. Once a token has been presented, it never confirms
  anything again, whatever happens in between, unless the same random token is drawn anew.\<close>

theorem confirmation_one_shot:
  assumes "\<forall>op \<in> set ops. \<not> mints t op"
  shows "fst (confirm later t (fold conf_step ops (snd (confirm now t (fold conf_step before new_confirmations)))))
     = None"
proof -
  let ?s = "snd (confirm now t (fold conf_step before new_confirmations))"
  have inv0: "conf_inv (fold conf_step before new_confirmations)"
    by (rule confirmation_table.wf_run [OF conf_inv_new])
  then have inv: "conf_inv ?s" by (rule conf_inv_confirm)
  have "map_of (pending (fold conf_step ops ?s)) t = None"
    using assms lookup_confirm(2) [OF inv0] by (intro lookup_steps_absent [OF inv]) auto
  then show ?thesis
    using lookup_confirm(1) [OF confirmation_table.wf_run [OF inv]] by (simp add: live_def)
qed

theorem confirmation_one_shot_witness:
  "fst (confirm 7 ''act-01'' (fold conf_step [ListOp 6] (snd (confirm 5 ''act-01''
     (fold conf_step [IssueOp 0 0 [1] ''lock.front'' ''unlock'' None ''why'' Voice] new_confirmations)))))
   = None"
  by (rule confirmation_one_shot) simp

text \<open>At most 64 confirmations are ever pending, over any interleaving of requests,
  confirmations and listings, and different 16-byte draws give different tokens.\<close>

theorem pending_confirmations_bounded:
  "length (pending (fold conf_step ops new_confirmations)) \<le> 64 \<and>
   (length r1 = length r2 \<longrightarrow> (random_token r1 = random_token r2 \<longleftrightarrow> r1 = r2))"
  using confirmation_table.bound_run [OF conf_inv_new, of ops] random_token_inj
  by (simp add: new_confirmations_def MAX_PENDING_CONFIRMATIONS_def)

theorem pending_confirmations_bounded_witness:
  "length (pending (fold conf_step [IssueOp 0 0 [1] ''e'' ''a'' None ''w'' Voice] new_confirmations)) \<le> 64
   \<and> random_token [1, 2] \<noteq> random_token [2, 1]"
  using pending_confirmations_bounded [of "[IssueOp 0 0 [1] ''e'' ''a'' None ''w'' Voice]" "[1, 2]" "[2, 1]"]
  by simp

text \<open>C17: an action is undone at most once. In every run of the ledger, the action offered for
  undo is one of the last 32, is not itself an undo, and no recorded action is an undo of it; in
  particular it is never offered again after its undo was recorded.\<close>

theorem undo_at_most_once:
  assumes "led_run hist s" and "last_undoable s = Some a"
  shows "a \<in> set hist \<and> length (actions s) \<le> 32 \<and> undo_of a = None
    \<and> (\<forall>b \<in> set hist. undo_of b \<noteq> Some (ra_id a)) \<and> undo_home_control_args a \<noteq> None"
proof -
  have inv: "led_inv hist s" by (rule led_run_inv [OF assms(1)])
  have a: "a \<in> set (actions s)" "undoable s a" using last_undoable_SomeD [OF assms(2)] by blast+
  then have "a \<in> set hist" "ra_id a \<notin> undo_refs hist"
    using inv last_n_set by (auto simp: led_inv_def undoable_def)
  moreover have "length (actions s) \<le> 32"
    using inv by (simp add: led_inv_def last_n_length ACTION_HISTORY_LIMIT_def)
  moreover have "undo_home_control_args a \<noteq> None"
    using a(2) by (auto simp: undoable_def undo_home_control_args_def split: option.splits)
  ultimately show ?thesis using a(2) by (auto simp: undoable_def undo_refs_def)
qed

lemma led_run_record:
  "led_run hist s \<Longrightarrow> led_run (hist @ [fst (ledger_record n e a v orig m c b s)]) (snd (ledger_record n e a v orig m c b s))"
  by (rule led_op [where op = "LRecord n e a v orig m c b"]) simp_all

abbreviation lamp_on :: "recorded_action \<times> ledger_state" where
  "lamp_on \<equiv> ledger_record 7 ''light.lamp'' ''turn_on'' None Voice ''done'' None None new_ledger"

lemma lamp_on_run: "led_run [fst lamp_on] (snd lamp_on)"
  using led_run_record [OF led_start] by simp

lemma lamp_on_undoable: "last_undoable (snd lamp_on) = Some (fst lamp_on)"
  by (simp add: ledger_record_def record_internal_def Let_def new_ledger_def evict.simps
      ACTION_HISTORY_LIMIT_def last_undoable_def undoable_def inverse_action_def)

theorem undo_at_most_once_witness:
  "undo_of (fst lamp_on) \<noteq> Some (ra_id (fst lamp_on)) \<and> undo_home_control_args (fst lamp_on) \<noteq> None"
  using undo_at_most_once [OF lamp_on_run lamp_on_undoable] by simp

text \<open>C16: the ledger survives a restart. Rebuilding it from the audit trail of a run (which keeps
  every field of an item but its summary and exact time) gives the same next identifier, the same
  recent actions, and the same action to undo.\<close>

theorem ledger_survives_restart:
  assumes "led_run hist s" and "map core trail = map core hist"
  shows "led_next_id (hydrate trail s0) = led_next_id s
    \<and> map core (actions (hydrate trail s0)) = map core (actions s)
    \<and> map_option core (last_undoable (hydrate trail s0)) = map_option core (last_undoable s)"
proof -
  have inv: "led_inv hist s" by (rule led_run_inv [OF assms(1)])
  let ?w = "last_n ACTION_HISTORY_LIMIT trail"
  have w: "map core ?w = map core (actions s)"
    using assms(2) inv by (simp add: map_last_n led_inv_def)
  then have ids: "map ra_id ?w = map ra_id (actions s)"
    by (metis (mono_tags, lifting) core_fields(1) comp_apply map_map map_eq_conv)
  have next': "led_next_id (hydrate trail s0) = led_next_id s"
    using led_inv_next_id [OF inv] ids by (simp add: hydrate_eq fold_max_ids)
  have "undoable (hydrate trail s0) x = undoable s y"
    if "x \<in> set (rev ?w)" "y \<in> set (rev (actions s))" "core x = core y" for x y
    using core_eqD [OF that(3)] led_inv_window_refs [OF inv, of y] that(2) undo_refs_core [OF w]
    by (simp add: undoable_def hydrate_eq)
  then have "map_option core (last_undoable (hydrate trail s0)) = map_option core (last_undoable s)"
    unfolding last_undoable_def hydrate_eq [of trail s0] using w
    by (intro find_core) (simp_all add: rev_map [symmetric] hydrate_eq)
  with next' w show ?thesis by (simp add: hydrate_eq)
qed

theorem ledger_survives_restart_witness:
  "map_option core (last_undoable (hydrate [(fst lamp_on)\<lparr>ra_summary := ''home action executed''\<rparr>] new_ledger))
     = Some (core (fst lamp_on))"
proof -
  have "map core [(fst lamp_on)\<lparr>ra_summary := ''home action executed''\<rparr>] = map core [fst lamp_on]"
    by (simp add: core_def)
  then show ?thesis
    using ledger_survives_restart [OF lamp_on_run] lamp_on_undoable by simp
qed

end
