(* ===== verification/ToolGate.thy ===== *)
theory ToolGate
  imports HaPolicy
begin

text \<open>
  The gate in front of every tool call (\<open>tools/dispatch/mod.rs\<close>): origin allow and deny lists,
  the two-leg confirmation of sensitive tools, the sliding-window rate limiters, the audit line of
  each decision, and the table of known tools (\<open>dispatch/skill.rs\<close> for loaded skills).

  Arguments of the model: the clock readings of a call, the JSON printer behind the confirmation
  key and the hash behind the confirmation token (library code whose algorithm is not fixed).
\<close>

section \<open>Configuration and calls\<close>

record tool_policy_config =
  tp_enabled :: bool
  allowed_tools_by_origin :: "string \<rightharpoonup> string list"
  denied_tools_by_origin :: "string \<rightharpoonup> string list"
  max_actions_per_minute_by_tool :: "string \<rightharpoonup> nat"
  requires_confirmation_tools :: "string list"
  confirmation_ttl_secs :: nat

definition default_tool_policy :: tool_policy_config where
  "default_tool_policy =
     \<lparr>tp_enabled = True, allowed_tools_by_origin = Map.empty, denied_tools_by_origin = Map.empty,
      max_actions_per_minute_by_tool = Map.empty, requires_confirmation_tools = [],
      confirmation_ttl_secs = 120\<rparr>"

datatype tool_action_class = ReadOnly | Diagnostic | MemoryRead | MemoryWrite | HomeActuation
  | Media | Network | TimerClass | Skill

fun action_class_as_str :: "tool_action_class \<Rightarrow> string" where
  "action_class_as_str ReadOnly = ''read_only''"
| "action_class_as_str Diagnostic = ''diagnostic''"
| "action_class_as_str MemoryRead = ''memory_read''"
| "action_class_as_str MemoryWrite = ''memory_write''"
| "action_class_as_str HomeActuation = ''home_actuation''"
| "action_class_as_str Media = ''media''"
| "action_class_as_str Network = ''network''"
| "action_class_as_str TimerClass = ''timer''"
| "action_class_as_str Skill = ''skill''"

definition tool_action_class_of :: "string \<Rightarrow> tool_action_class" where
  "tool_action_class_of name =
     (if name \<in> {''home_control'', ''home_undo''} then HomeActuation
      else if name = ''play_media'' then Media
      else if name = ''memory_recall'' then MemoryRead
      else if name \<in> {''memory_forget'', ''memory_store''} then MemoryWrite
      else if name \<in> {''memory_status'', ''system_info'', ''action_history''} then Diagnostic
      else if name \<in> {''web_search'', ''get_weather''} then Network
      else if name = ''set_timer'' then TimerClass
      else if name \<in> {''home_status'', ''get_time'', ''calculate''} then ReadOnly
      else Skill)"

text \<open>The read context of the memory tools is carried along and not looked at by the gate.\<close>

record 'm tool_execution_context =
  ctx_memory :: "'m option"
  request_origin :: request_origin
  confirmed :: bool

record tool_call =
  call_name :: string
  arguments :: json

record tool_result =
  res_tool :: string
  res_class :: tool_action_class
  res_success :: bool
  res_output :: string

section \<open>Origin lists\<close>

definition origin_tool_list :: "(string \<rightharpoonup> string list) \<Rightarrow> string \<Rightarrow> string list option" where
  "origin_tool_list rules origin_key =
     (case rules origin_key of Some ts \<Rightarrow> Some ts | None \<Rightarrow> rules ''*'')"

definition tool_matches :: "string list \<Rightarrow> string \<Rightarrow> bool" where
  "tool_matches ts tool_name \<longleftrightarrow> list_ex (\<lambda>t. t = ''*'' \<or> t = tool_name) ts"

definition tool_list_contains :: "(string \<rightharpoonup> string list) \<Rightarrow> string \<Rightarrow> string \<Rightarrow> bool" where
  "tool_list_contains rules origin_key tool_name =
     (case origin_tool_list rules origin_key of Some ts \<Rightarrow> tool_matches ts tool_name | None \<Rightarrow> False)"

definition tool_origin_allowed :: "tool_policy_config \<Rightarrow> request_origin \<Rightarrow> string \<Rightarrow> string + unit" where
  "tool_origin_allowed policy origin tool_name =
     (let key = as_policy_key origin in
      if \<not> tp_enabled policy then Ok ()
      else if tool_list_contains (denied_tools_by_origin policy) key tool_name
      then Err (''tool '' @ [CHR 0x27] @ tool_name @ [CHR 0x27] @ '' is denied for origin ''
                @ [CHR 0x27] @ key @ [CHR 0x27])
      else case origin_tool_list (allowed_tools_by_origin policy) key of
          Some ts \<Rightarrow> if tool_matches ts tool_name then Ok ()
             else Err (''tool '' @ [CHR 0x27] @ tool_name @ [CHR 0x27]
                       @ '' is not in the allowlist for origin '' @ [CHR 0x27] @ key @ [CHR 0x27])
        | None \<Rightarrow> Ok ())"

definition actuation_origin_allowed :: "actuation_safety_config \<Rightarrow> request_origin \<Rightarrow> bool" where
  "actuation_origin_allowed cfg origin \<longleftrightarrow>
     list_ex (\<lambda>a. eq_ignore_ascii_case (trim a) (as_policy_key origin)) (allowed_origins cfg)"

section \<open>Rate limiters\<close>

definition ACTUATION_RATE_WINDOW_MS :: nat where "ACTUATION_RATE_WINDOW_MS = 60000"

definition count_noun :: "nat \<Rightarrow> string \<Rightarrow> string \<Rightarrow> string" where
  "count_noun n singular plural =
     (if n = 1 then ''1 '' @ singular else show_nat n @ '' '' @ plural)"

type_synonym 'k attempts = "'k \<rightharpoonup> nat list"

definition bucket_of :: "'k attempts \<Rightarrow> 'k \<Rightarrow> nat list" where
  "bucket_of m k = (case m k of Some b \<Rightarrow> b | None \<Rightarrow> [])"

definition actuation_rate_limit :: "actuation_safety_config \<Rightarrow> request_origin \<Rightarrow> nat" where
  "actuation_rate_limit cfg origin =
     (case find (\<lambda>(key, n). eq_ignore_ascii_case (trim key) (as_policy_key origin))
             (max_actions_per_minute_by_origin cfg) of
        Some (key, n) \<Rightarrow> n
      | None \<Rightarrow> max_actions_per_minute cfg)"

definition actuation_check_and_record ::
  "actuation_safety_config \<Rightarrow> nat \<Rightarrow> request_origin \<Rightarrow> request_origin attempts \<Rightarrow>
     (string + unit) \<times> request_origin attempts" where
  "actuation_check_and_record cfg now origin attempts =
     (let limit = actuation_rate_limit cfg origin in
      if limit = 0
      then (Err (''actuation from '' @ [CHR 0x27] @ as_policy_key origin @ [CHR 0x27]
                 @ '' is rate-limited to zero actions per minute''), attempts)
      else let cutoff = now - ACTUATION_RATE_WINDOW_MS;
               bucket = dropWhile (\<lambda>ts. ts < cutoff) (bucket_of attempts origin)
           in if limit \<le> length bucket
              then (Err (''actuation from '' @ [CHR 0x27] @ as_policy_key origin @ [CHR 0x27]
                         @ '' exceeded '' @ count_noun limit ''action'' ''actions'' @ '' per minute''),
                    attempts(origin \<mapsto> bucket))
              else (Ok (), attempts(origin \<mapsto> bucket @ [now])))"

definition tool_rate_limit :: "tool_policy_config \<Rightarrow> string \<Rightarrow> nat option" where
  "tool_rate_limit policy tool =
     (if \<not> tp_enabled policy then None
      else case max_actions_per_minute_by_tool policy tool of
             Some n \<Rightarrow> Some n
           | None \<Rightarrow> max_actions_per_minute_by_tool policy ''*'')"

definition tool_check_and_record ::
  "tool_policy_config \<Rightarrow> nat \<Rightarrow> string \<Rightarrow> string attempts \<Rightarrow> (string + unit) \<times> string attempts" where
  "tool_check_and_record policy now tool attempts =
     (case tool_rate_limit policy tool of
        None \<Rightarrow> (Ok (), attempts)
      | Some limit \<Rightarrow>
          if limit = 0
          then (Err (''tool '' @ [CHR 0x27] @ tool @ [CHR 0x27]
                     @ '' is rate-limited to zero calls per minute''), attempts)
          else let cutoff = now - ACTUATION_RATE_WINDOW_MS;
                   bucket = dropWhile (\<lambda>ts. ts < cutoff) (bucket_of attempts tool)
               in if limit \<le> length bucket
                  then (Err (''tool '' @ [CHR 0x27] @ tool @ [CHR 0x27] @ '' exceeded ''
                             @ count_noun limit ''call'' ''calls'' @ '' per minute''),
                        attempts(tool \<mapsto> bucket))
                  else (Ok (), attempts(tool \<mapsto> bucket @ [now])))"

section \<open>Two-leg confirmation of sensitive tools\<close>

definition TOOL_CONFIRMATION_RETENTION_MS :: nat where
  "TOOL_CONFIRMATION_RETENTION_MS = 60 * 60 * 1000"

definition MAX_TOOL_CONFIRMATIONS :: nat where "MAX_TOOL_CONFIRMATIONS = 256"

datatype tool_confirm_decision = Pending string | Confirmed | Expired

definition tool_requires_confirmation :: "tool_policy_config \<Rightarrow> string \<Rightarrow> bool" where
  "tool_requires_confirmation policy tool \<longleftrightarrow> tp_enabled policy \<and>
     list_ex (\<lambda>e. e = ''*'' \<or> eq_ignore_ascii_case (trim e) tool) (requires_confirmation_tools policy)"

definition tool_confirmation_key :: "(json \<Rightarrow> string) \<Rightarrow> request_origin \<Rightarrow> string \<Rightarrow> json \<Rightarrow> string" where
  "tool_confirmation_key to_json origin tool args =
     as_policy_key origin @ [CHR 0x1F] @ tool @ [CHR 0x1F] @ to_json args"

definition tool_confirmation_token :: "(string \<Rightarrow> string) \<Rightarrow> string \<Rightarrow> string" where
  "tool_confirmation_token hash_hex key = ''conf-'' @ hash_hex key"

text \<open>\<open>min_by_key\<close>: the first entry with the least time.\<close>

fun oldest_leg :: "(string \<times> nat) list \<Rightarrow> (string \<times> nat) option" where
  "oldest_leg [] = None"
| "oldest_leg (e # es) =
     (case oldest_leg es of
        Some m \<Rightarrow> Some (if snd m < snd e then m else e)
      | None \<Rightarrow> Some e)"

definition make_room :: "string \<Rightarrow> (string \<times> nat) list \<Rightarrow> (string \<times> nat) list" where
  "make_room key legs =
     (if MAX_TOOL_CONFIRMATIONS \<le> length legs \<and> map_of legs key = None
      then (case oldest_leg legs of Some (old, t) \<Rightarrow> AList.delete old legs | None \<Rightarrow> legs)
      else legs)"

definition evaluate ::
  "(string \<Rightarrow> string) \<Rightarrow> nat \<Rightarrow> string \<Rightarrow> nat \<Rightarrow> bool \<Rightarrow> (string \<times> nat) list \<Rightarrow>
     tool_confirm_decision \<times> (string \<times> nat) list" where
  "evaluate hash_hex now key ttl_ms is_confirmed legs =
     (let legs = filter (\<lambda>(k, first_seen). now - first_seen < TOOL_CONFIRMATION_RETENTION_MS) legs in
      if \<not> is_confirmed
      then (Pending (tool_confirmation_token hash_hex key), AList.update key now (make_room key legs))
      else (case map_of legs key of
              Some first_seen \<Rightarrow> if now - first_seen \<le> ttl_ms then Confirmed else Expired
            | None \<Rightarrow> Expired, AList.delete key legs))"

section \<open>The gate\<close>

datatype gate_decision = GateExecuted | GateError | DeniedPolicy | RateLimited
  | PendingConfirmation | ConfirmationExpired

fun gate_decision_as_str :: "gate_decision \<Rightarrow> string" where
  "gate_decision_as_str GateExecuted = ''executed''"
| "gate_decision_as_str GateError = ''error''"
| "gate_decision_as_str DeniedPolicy = ''denied_policy''"
| "gate_decision_as_str RateLimited = ''rate_limited''"
| "gate_decision_as_str PendingConfirmation = ''pending_confirmation''"
| "gate_decision_as_str ConfirmationExpired = ''confirmation_expired''"

record tool_audit_event =
  te_ts_ms :: nat
  te_tool :: string
  te_class :: tool_action_class
  te_origin :: request_origin
  te_success :: bool
  te_decision :: string
  te_duration_ms :: nat
  argument_keys :: "string list"
  output_chars :: nat

text \<open>The readings of one call: the wall clock at the confirmation gate, at the rate limiter and
  at the audit line, and the time elapsed since the call started.\<close>

record gate_clock =
  at_confirm :: nat
  at_rate :: nat
  at_audit :: nat
  elapsed :: nat

record gate_state =
  tool_attempts :: "string attempts"
  legs :: "(string \<times> nat) list"
  tool_audit :: "tool_audit_event list"

record gate_env =
  env_policy :: tool_policy_config
  env_to_json :: "json \<Rightarrow> string"
  env_hash_hex :: "string \<Rightarrow> string"

fun str_le :: "string \<Rightarrow> string \<Rightarrow> bool" where
  "str_le [] t = True"
| "str_le (c # s) [] = False"
| "str_le (c # s) (d # t) = (code c < code d \<or> c = d \<and> str_le s t)"

fun insert_key :: "string \<Rightarrow> string list \<Rightarrow> string list" where
  "insert_key k [] = [k]"
| "insert_key k (x # xs) = (if str_le k x then k # x # xs else x # insert_key k xs)"

definition tool_argument_keys :: "json \<Rightarrow> string list" where
  "tool_argument_keys args =
     (case args of JObj kvs \<Rightarrow> foldr insert_key (map fst kvs) [] | _ \<Rightarrow> [])"

definition audit_gate_decision ::
  "gate_clock \<Rightarrow> tool_call \<Rightarrow> 'm tool_execution_context \<Rightarrow> tool_result \<Rightarrow> gate_decision \<Rightarrow>
     gate_state \<Rightarrow> gate_state" where
  "audit_gate_decision clk call ctx res d s =
     s\<lparr>tool_audit := tool_audit s @
       [\<lparr>te_ts_ms = at_audit clk, te_tool = call_name call, te_class = res_class res,
         te_origin = request_origin ctx, te_success = res_success res,
         te_decision = gate_decision_as_str d, te_duration_ms = elapsed clk,
         argument_keys = tool_argument_keys (arguments call), output_chars = length (res_output res)\<rparr>]\<rparr>"

definition reject ::
  "gate_clock \<Rightarrow> tool_call \<Rightarrow> 'm tool_execution_context \<Rightarrow> bool \<Rightarrow> string \<Rightarrow> gate_decision \<Rightarrow>
     gate_state \<Rightarrow> tool_result option \<times> gate_state" where
  "reject clk call ctx ok out d s =
     (let res = \<lparr>res_tool = call_name call, res_class = tool_action_class_of (call_name call),
            res_success = ok, res_output = out\<rparr>
      in (Some res, audit_gate_decision clk call ctx res d s))"

definition gate_rate ::
  "gate_env \<Rightarrow> gate_clock \<Rightarrow> tool_call \<Rightarrow> 'm tool_execution_context \<Rightarrow> gate_state \<Rightarrow>
     tool_result option \<times> gate_state" where
  "gate_rate env clk call ctx s =
     (if confirmed ctx then (None, s)
      else case tool_check_and_record (env_policy env) (at_rate clk) (call_name call) (tool_attempts s) of
          (Inl e, atts) \<Rightarrow> reject clk call ctx False (''Tool blocked by rate limit: '' @ e) RateLimited
                             (s\<lparr>tool_attempts := atts\<rparr>)
        | (Inr u, atts) \<Rightarrow> (None, s\<lparr>tool_attempts := atts\<rparr>))"

definition pending_output :: "tool_policy_config \<Rightarrow> string \<Rightarrow> string \<Rightarrow> string" where
  "pending_output policy name tok =
     ''Confirmation required before I run '' @ [CHR 0x27] @ name @ [CHR 0x27]
     @ ''. Re-issue the same request within '' @ show_nat (confirmation_ttl_secs policy)
     @ ''s to proceed (confirmation token '' @ tok @ '').''"

definition expired_output :: "tool_policy_config \<Rightarrow> string \<Rightarrow> string" where
  "expired_output policy name =
     ''Confirmation for '' @ [CHR 0x27] @ name @ [CHR 0x27] @ '' expired or was never requested; the ''
     @ show_nat (confirmation_ttl_secs policy)
     @ ''s window elapsed. Request it again to restart confirmation.''"

definition run_gate ::
  "gate_env \<Rightarrow> gate_clock \<Rightarrow> tool_call \<Rightarrow> 'm tool_execution_context \<Rightarrow> gate_state \<Rightarrow>
     tool_result option \<times> gate_state" where
  "run_gate env clk call ctx s =
     (let policy = env_policy env; name = call_name call in
      case tool_origin_allowed policy (request_origin ctx) name of
        Inl e \<Rightarrow> reject clk call ctx False (''Tool blocked by origin policy: '' @ e) DeniedPolicy s
      | Inr u \<Rightarrow>
          if tool_requires_confirmation policy name
          then let key = tool_confirmation_key (env_to_json env) (request_origin ctx) name (arguments call);
                   ttl_ms = u64_sat_mul (confirmation_ttl_secs policy) 1000;
                   (d, legs') = evaluate (env_hash_hex env) (at_confirm clk) key ttl_ms (confirmed ctx) (legs s);
                   s = s\<lparr>legs := legs'\<rparr>
               in (case d of
                     Pending tok \<Rightarrow>
                       reject clk call ctx True (pending_output policy name tok) PendingConfirmation s
                   | Expired \<Rightarrow>
                       reject clk call ctx False (expired_output policy name) ConfirmationExpired s
                   | Confirmed \<Rightarrow> gate_rate env clk call ctx s)
          else gate_rate env clk call ctx s)"

text \<open>\<open>audit_gated_tool\<close>: the audit line of a call that passed the gate.\<close>

definition audit_gated_tool ::
  "gate_clock \<Rightarrow> tool_call \<Rightarrow> 'm tool_execution_context \<Rightarrow> bool \<Rightarrow> string \<Rightarrow> gate_state \<Rightarrow> gate_state" where
  "audit_gated_tool clk call ctx ok out s =
     audit_gate_decision clk call ctx
       \<lparr>res_tool = call_name call, res_class = tool_action_class_of (call_name call),
        res_success = ok, res_output = out\<rparr> (if ok then GateExecuted else GateError) s"

text \<open>\<open>execute_with_context\<close> around the tool bodies: \<open>body\<close> runs the tool named by the call on the
  rest of the dispatcher's state.\<close>

definition execute_with_context ::
  "(tool_call \<Rightarrow> 'm tool_execution_context \<Rightarrow> 'd \<Rightarrow> (string + string) \<times> 'd) \<Rightarrow>
     gate_env \<Rightarrow> gate_clock \<Rightarrow> gate_clock \<Rightarrow> tool_call \<Rightarrow> 'm tool_execution_context \<Rightarrow>
     gate_state \<times> 'd \<Rightarrow> tool_result \<times> gate_state \<times> 'd" where
  "execute_with_context body env clk clk_end call ctx gs =
     (case run_gate env clk call ctx (fst gs) of
        (Some rejected, g) \<Rightarrow> (rejected, g, snd gs)
      | (None, g) \<Rightarrow>
          let (r, d) = body call ctx (snd gs);
              res = (case r of
                  Inr out \<Rightarrow> \<lparr>res_tool = call_name call, res_class = tool_action_class_of (call_name call),
                               res_success = True, res_output = out\<rparr>
                | Inl e \<Rightarrow> \<lparr>res_tool = call_name call, res_class = tool_action_class_of (call_name call),
                             res_success = False, res_output = e\<rparr>)
          in (res, audit_gate_decision clk_end call ctx res
                     (if res_success res then GateExecuted else GateError) g, d))"

section \<open>Known tools\<close>

definition BASE_TOOLS :: "string list" where
  "BASE_TOOLS = [''set_timer'', ''get_time'', ''get_weather'', ''system_info'', ''calculate'',
     ''play_media'', ''memory_recall'', ''memory_status'', ''memory_forget'', ''memory_store'']"

definition HOME_TOOLS :: "string list" where
  "HOME_TOOLS = [''home_control'', ''home_status'', ''home_undo'', ''action_history'']"

definition skill_tool_name_loaded :: "string list option \<Rightarrow> string \<Rightarrow> bool" where
  "skill_tool_name_loaded loaded name =
     (case loaded of None \<Rightarrow> False | Some names \<Rightarrow> list_ex (\<lambda>n. n = name) names)"

definition is_known_tool :: "bool \<Rightarrow> bool \<Rightarrow> string list option \<Rightarrow> string \<Rightarrow> bool" where
  "is_known_tool has_home has_web loaded name \<longleftrightarrow>
     (if name \<in> set BASE_TOOLS then True
      else if has_home \<and> name \<in> set HOME_TOOLS then True
      else if has_web \<and> name = ''web_search'' then True
      else skill_tool_name_loaded loaded name)"

text \<open>The names of \<open>tool_defs\<close>, in the order the table is built.\<close>

definition tool_def_names :: "bool \<Rightarrow> bool \<Rightarrow> string list option \<Rightarrow> string list" where
  "tool_def_names has_home has_web loaded =
     (if has_home then [''home_control'', ''home_status'', ''home_undo'', ''action_history''] else [])
     @ [''set_timer'', ''get_time'', ''get_weather'']
     @ (if has_web then [''web_search''] else [])
     @ [''system_info'', ''calculate'', ''play_media'']
     @ [''memory_recall'', ''memory_status'', ''memory_forget'', ''memory_store'']
     @ (case loaded of Some names \<Rightarrow> names | None \<Rightarrow> [])"

section \<open>Rate limiters: lemmas\<close>

definition admit_actuation ::
  "actuation_safety_config \<Rightarrow> nat \<Rightarrow> request_origin \<Rightarrow> request_origin attempts \<Rightarrow> bool \<times> request_origin attempts" where
  "admit_actuation cfg now k m =
     (is_ok (fst (actuation_check_and_record cfg now k m)), snd (actuation_check_and_record cfg now k m))"

definition admit_tool ::
  "tool_policy_config \<Rightarrow> nat \<Rightarrow> string \<Rightarrow> string attempts \<Rightarrow> bool \<times> string attempts" where
  "admit_tool policy now k m =
     (is_ok (fst (tool_check_and_record policy now k m)), snd (tool_check_and_record policy now k m))"

lemma bucket_of_upd [simp]: "bucket_of (m(k \<mapsto> b)) k' = (if k' = k then b else bucket_of m k')"
  by (simp add: bucket_of_def)

lemma is_ok_simps [simp]: "is_ok (Inr x)" "\<not> is_ok (Inl e)"
  by (simp_all add: is_ok_def)

interpretation actuation_limiter: window_limiter "admit_actuation cfg" bucket_of
  "actuation_rate_limit cfg" "\<lambda>k. True" ACTUATION_RATE_WINDOW_MS for cfg
  by unfold_locales (auto simp: admit_actuation_def actuation_check_and_record_def Let_def recent_def split: if_splits)

interpretation tool_limiter: window_limiter "admit_tool policy" bucket_of
  "\<lambda>k. the (tool_rate_limit policy k)" "\<lambda>k. tool_rate_limit policy k \<noteq> None" ACTUATION_RATE_WINDOW_MS
  for policy
  by unfold_locales
    (auto simp: admit_tool_def tool_check_and_record_def Let_def recent_def split: option.splits if_splits)

section \<open>Confirmation legs: lemmas\<close>

lemma oldest_leg_mem: "oldest_leg es = Some m \<Longrightarrow> m \<in> set es"
  by (induction es arbitrary: m) (auto split: option.splits if_splits)

lemma oldest_leg_none: "oldest_leg es = None \<longleftrightarrow> es = []"
  by (induction es) (auto split: option.splits)

lemma length_delete_mem: "k \<in> fst ` set kvs \<Longrightarrow> length (AList.delete k kvs) < length kvs"
proof (induction kvs)
  case (Cons kv kvs)
  show ?case
  proof (cases "fst kv = k")
    case True
    then show ?thesis using length_delete_le [of k kvs] by (simp add: less_Suc_eq_le)
  next
    case False
    then have "k \<in> fst ` set kvs" using Cons.prems by auto
    then show ?thesis using Cons.IH False by simp
  qed
qed simp

lemma length_update_mem: "map_of kvs k \<noteq> None \<Longrightarrow> length (AList.update k v kvs) = length kvs"
  by (induction kvs) (auto split: if_splits)

lemma make_room_length:
  assumes "length legs0 \<le> MAX_TOOL_CONFIRMATIONS"
  shows "length (AList.update key now (make_room key legs0)) \<le> MAX_TOOL_CONFIRMATIONS"
proof (cases "map_of legs0 key = None \<and> MAX_TOOL_CONFIRMATIONS \<le> length legs0")
  case True
  then have "legs0 \<noteq> []" by (auto simp: MAX_TOOL_CONFIRMATIONS_def)
  then obtain old t where o: "oldest_leg legs0 = Some (old, t)"
    using oldest_leg_none by (metis not_None_eq surj_pair)
  then have "length (AList.delete old legs0) < length legs0"
    using oldest_leg_mem [OF o] by (intro length_delete_mem) force
  then show ?thesis
    using True o assms length_alist_update [of key now "AList.delete old legs0"] by (simp add: make_room_def)
next
  case False
  then have m: "make_room key legs0 = legs0" by (auto simp: make_room_def)
  show ?thesis
  proof (cases "map_of legs0 key = None")
    case True
    with False show ?thesis using m length_alist_update [of key now legs0] by simp
  next
    case False
    then show ?thesis using m assms length_update_mem [of legs0 key now] by simp
  qed
qed

definition leg_step ::
  "(string \<Rightarrow> string) \<Rightarrow> nat \<times> string \<times> nat \<times> bool \<Rightarrow> (string \<times> nat) list \<Rightarrow> (string \<times> nat) list" where
  "leg_step h = (\<lambda>(now, key, ttl, c) ls. snd (evaluate h now key ttl c ls))"

lemma evaluate_bound:
  "length ls \<le> MAX_TOOL_CONFIRMATIONS \<Longrightarrow> length (leg_step h x ls) \<le> MAX_TOOL_CONFIRMATIONS"
proof -
  assume a: "length ls \<le> MAX_TOOL_CONFIRMATIONS"
  obtain now key ttl c where x: "x = (now, key, ttl, c)" by (cases x)
  let ?ls = "filter (\<lambda>(k, first_seen). now - first_seen < TOOL_CONFIRMATION_RETENTION_MS) ls"
  have l: "length ?ls \<le> MAX_TOOL_CONFIRMATIONS"
    using a length_filter_le [of _ ls] order_trans by blast
  have d: "length (AList.delete key ?ls) \<le> MAX_TOOL_CONFIRMATIONS"
    using l length_delete_le [of key ?ls] by (rule order_trans [rotated])
  from make_room_length [OF l] d show ?thesis
    by (simp add: x leg_step_def evaluate_def Let_def)
qed

lemma make_room_distinct: "distinct (map fst ls) \<Longrightarrow> distinct (map fst (make_room key ls))"
  by (auto simp: make_room_def distinct_delete split: option.splits)

lemma evaluate_distinct: "distinct (map fst ls) \<Longrightarrow> distinct (map fst (leg_step h x ls))"
  by (cases x) (auto simp: leg_step_def evaluate_def Let_def
      intro!: distinct_update distinct_delete make_room_distinct distinct_filter_keys)

interpretation leg_table: bounded_table length "\<lambda>ls. MAX_TOOL_CONFIRMATIONS" "leg_step h"
  "\<lambda>ls. distinct (map fst ls)" for h
  by unfold_locales (simp_all add: evaluate_bound evaluate_distinct)

lemma evaluate_confirmed_iff:
  assumes "distinct (map fst ls)"
  shows "fst (evaluate h now key ttl True ls) = Confirmed \<longleftrightarrow>
    (\<exists>t. map_of ls key = Some t \<and> now - t < TOOL_CONFIRMATION_RETENTION_MS \<and> now - t \<le> ttl)"
  using map_of_filter_distinct [OF assms, of "\<lambda>t. now - t < TOOL_CONFIRMATION_RETENTION_MS" key]
  by (auto simp: evaluate_def Let_def split: option.splits if_splits)

lemma evaluate_first_leg: "fst (evaluate h now key ttl False ls) = Pending (tool_confirmation_token h key)"
  "map_of (snd (evaluate h now key ttl False ls)) key = Some now"
  by (simp_all add: evaluate_def Let_def update_conv')

lemma evaluate_consumes: "map_of (snd (evaluate h now key ttl True ls)) key = None"
  by (simp add: evaluate_def Let_def delete_conv')

section \<open>The gate: lemmas\<close>

lemma reject_simps [simp]:
  "fst (reject clk call ctx ok out d s) = Some \<lparr>res_tool = call_name call,
     res_class = tool_action_class_of (call_name call), res_success = ok, res_output = out\<rparr>"
  "tool_audit (snd (reject clk call ctx ok out d s)) \<noteq> tool_audit s"
  "length (tool_audit (snd (reject clk call ctx ok out d s))) = Suc (length (tool_audit s))"
  by (simp_all add: reject_def audit_gate_decision_def Let_def)

lemma gate_rate_pass:
  "fst (gate_rate env clk call ctx s) = None \<longleftrightarrow>
     confirmed ctx \<or> is_ok (fst (tool_check_and_record (env_policy env) (at_rate clk) (call_name call) (tool_attempts s)))"
  by (auto simp: gate_rate_def is_ok_def split: prod.splits sum.splits)

lemma gate_rate_audit:
  "length (tool_audit (snd (gate_rate env clk call ctx s))) =
     length (tool_audit s) + (if fst (gate_rate env clk call ctx s) = None then 0 else 1)"
  by (auto simp: gate_rate_def split: prod.splits sum.splits)

text \<open>What the origin lists say of a call.\<close>

definition acl_permits :: "tool_policy_config \<Rightarrow> request_origin \<Rightarrow> string \<Rightarrow> bool" where
  "acl_permits policy origin tool \<longleftrightarrow> \<not> tp_enabled policy \<or>
     \<not> (\<exists>ts. origin_tool_list (denied_tools_by_origin policy) (as_policy_key origin) = Some ts
            \<and> (''*'' \<in> set ts \<or> tool \<in> set ts))
     \<and> (\<forall>ts. origin_tool_list (allowed_tools_by_origin policy) (as_policy_key origin) = Some ts \<longrightarrow>
            ''*'' \<in> set ts \<or> tool \<in> set ts)"

lemma tool_matches_iff: "tool_matches ts tool \<longleftrightarrow> ''*'' \<in> set ts \<or> tool \<in> set ts"
  by (auto simp: tool_matches_def list_ex_iff)

lemma tool_origin_allowed_iff: "is_ok (tool_origin_allowed policy origin tool) \<longleftrightarrow> acl_permits policy origin tool"
  by (auto simp: tool_origin_allowed_def acl_permits_def tool_list_contains_def tool_matches_iff Let_def
      split: option.splits)

definition confirmed_leg :: "gate_env \<Rightarrow> gate_clock \<Rightarrow> tool_call \<Rightarrow> 'm tool_execution_context \<Rightarrow> gate_state \<Rightarrow> bool" where
  "confirmed_leg env clk call ctx s \<longleftrightarrow> confirmed ctx \<and>
     fst (evaluate (env_hash_hex env) (at_confirm clk)
       (tool_confirmation_key (env_to_json env) (request_origin ctx) (call_name call) (arguments call))
       (u64_sat_mul (confirmation_ttl_secs (env_policy env)) 1000) True (legs s)) = Confirmed"

lemma run_gate_pass_iff:
  "fst (run_gate env clk call ctx s) = None \<longleftrightarrow>
     acl_permits (env_policy env) (request_origin ctx) (call_name call)
     \<and> (tool_requires_confirmation (env_policy env) (call_name call) \<longrightarrow> confirmed_leg env clk call ctx s)
     \<and> (confirmed ctx \<or> is_ok (fst (tool_check_and_record (env_policy env) (at_rate clk)
           (call_name call) (tool_attempts s))))"
proof (cases "tool_origin_allowed (env_policy env) (request_origin ctx) (call_name call)")
  case (Inl e)
  then show ?thesis using tool_origin_allowed_iff [of "env_policy env" "request_origin ctx" "call_name call"]
    by (simp add: run_gate_def Let_def)
next
  case (Inr u)
  then have acl: "acl_permits (env_policy env) (request_origin ctx) (call_name call)"
    using tool_origin_allowed_iff [of "env_policy env" "request_origin ctx" "call_name call"] by simp
  show ?thesis
  proof (cases "tool_requires_confirmation (env_policy env) (call_name call)")
    case False
    then show ?thesis using Inr acl by (simp add: run_gate_def Let_def gate_rate_pass)
  next
    case True
    obtain d ls where e: "evaluate (env_hash_hex env) (at_confirm clk)
        (tool_confirmation_key (env_to_json env) (request_origin ctx) (call_name call) (arguments call))
        (u64_sat_mul (confirmation_ttl_secs (env_policy env)) 1000) (confirmed ctx) (legs s) = (d, ls)"
      by force
    have "confirmed_leg env clk call ctx s \<longleftrightarrow> confirmed ctx \<and> d = Confirmed"
      using e by (auto simp: confirmed_leg_def)
    moreover have "\<not> confirmed ctx \<Longrightarrow> d \<noteq> Confirmed"
      using evaluate_first_leg(1) e by (metis fst_conv tool_confirm_decision.distinct(1))
    ultimately show ?thesis using Inr acl True e
      by (cases d) (auto simp: run_gate_def Let_def gate_rate_pass)
  qed
qed

lemma run_gate_audit:
  "length (tool_audit (snd (run_gate env clk call ctx s))) =
     length (tool_audit s) + (if fst (run_gate env clk call ctx s) = None then 0 else 1)"
  by (auto simp: run_gate_def Let_def gate_rate_audit
      split: sum.splits prod.splits tool_confirm_decision.splits)

section \<open>Properties\<close>

text \<open>C4: no minute is over its limit. For requests at non-decreasing clock times, starting with
  empty buckets, the home actions admitted for an origin, and the calls admitted for a tool with a
  limit, number at most the limit in every closed window of 60 seconds, whatever is requested for
  other origins and tools in between.\<close>

theorem rate_limits_hold:
  assumes "sorted (map fst reqs)" and "sorted (map fst calls)"
    and "tool_rate_limit policy tool = Some n"
  shows "length (in_window 60000 t (admitted_times (admit_actuation cfg) origin reqs Map.empty))
           \<le> actuation_rate_limit cfg origin
       \<and> length (in_window 60000 t (admitted_times (admit_tool policy) tool calls Map.empty)) \<le> n"
  using actuation_limiter.window_bound [of Map.empty origin reqs t cfg] assms
    tool_limiter.window_bound [of policy tool Map.empty calls t]
  by (simp add: bucket_of_def ACTUATION_RATE_WINDOW_MS_def)

theorem rate_limits_hold_witness:
  "length (in_window 60000 0 (admitted_times (admit_actuation
       (default_actuation_safety\<lparr>max_actions_per_minute := 1\<rparr>)) Voice [(5, Voice), (6, Voice)] Map.empty))
     \<le> actuation_rate_limit (default_actuation_safety\<lparr>max_actions_per_minute := 1\<rparr>) Voice
   \<and> length (in_window 60000 0 (admitted_times (admit_tool
       (default_tool_policy\<lparr>max_actions_per_minute_by_tool := [''*'' \<mapsto> 2]\<rparr>)) ''play_media''
         [(1, ''play_media'')] Map.empty)) \<le> 2"
  by (rule rate_limits_hold) (simp_all add: tool_rate_limit_def default_tool_policy_def)



text \<open>Repeating is not confirming. A call of a tool listed as requiring confirmation that does
  not carry the confirmed flag is refused after any history of the gate, also when the very same
  request was issued just before; the reply that asks to re-issue the request never leads to an
  execution by re-issuing it.\<close>

theorem unconfirmed_sensitive_tool_never_passes:
  assumes "tool_requires_confirmation (env_policy env) (call_name call)" and "\<not> confirmed ctx"
  shows "fst (run_gate env clk call ctx s) \<noteq> None
       \<and> fst (run_gate env clk' call ctx (snd (run_gate env clk call ctx s))) \<noteq> None"
  using assms by (simp add: run_gate_pass_iff confirmed_leg_def del: not_None_eq)

theorem unconfirmed_sensitive_tool_never_passes_witness:
  "fst (run_gate \<lparr>env_policy = default_tool_policy\<lparr>requires_confirmation_tools := [''*'']\<rparr>,
        env_to_json = (\<lambda>j. ''{}''), env_hash_hex = id\<rparr>
      \<lparr>at_confirm = 1, at_rate = 1, at_audit = 1, elapsed = 0\<rparr>
      \<lparr>call_name = ''play_media'', arguments = JNull\<rparr>
      \<lparr>ctx_memory = None :: unit option, request_origin = Voice, confirmed = False\<rparr>
      \<lparr>tool_attempts = Map.empty, legs = [], tool_audit = []\<rparr>) \<noteq> None"
  by (rule unconfirmed_sensitive_tool_never_passes [THEN conjunct1])
    (simp_all add: tool_requires_confirmation_def default_tool_policy_def)

text \<open>The two legs. In every state reached from an empty gate at most 256 first legs are held;
  a confirming leg right after its first leg succeeds exactly when it comes within the configured
  time (and within the hour that legs are kept), and it uses the leg up: a second confirming leg is
  reported as expired.\<close>

theorem confirmation_legs:
  assumes "ls = fold (leg_step h) evs []"
  shows "length ls \<le> 256
    \<and> (fst (evaluate h later key ttl True (snd (evaluate h now key ttl False ls))) = Confirmed
         \<longleftrightarrow> later - now \<le> ttl \<and> later - now < 3600000)
    \<and> fst (evaluate h again key ttl' True (snd (evaluate h later key ttl True ls))) = Expired"
proof -
  have d: "distinct (map fst ls)" using leg_table.wf_run [of "[]" h evs] assms by simp
  have d2: "distinct (map fst (snd (evaluate h n key ttl c ls)))" for n c
    using evaluate_distinct [OF d, of h "(n, key, ttl, c)"] by (simp add: leg_step_def)
  have "fst (evaluate h again key ttl' True (snd (evaluate h later key ttl True ls))) \<noteq> Confirmed"
    using evaluate_confirmed_iff [OF d2] evaluate_consumes by simp
  moreover have "fst (evaluate h n k tt True l) \<noteq> Pending tok" for n k tt l tok
    by (auto simp: evaluate_def Let_def split: option.splits)
  ultimately have "fst (evaluate h again key ttl' True (snd (evaluate h later key ttl True ls))) = Expired"
    by (metis tool_confirm_decision.exhaust)
  moreover have "length ls \<le> 256"
    using leg_table.bound_run [of "[]" h evs] assms by (simp add: MAX_TOOL_CONFIRMATIONS_def)
  ultimately show ?thesis
    using evaluate_confirmed_iff [OF d2] evaluate_first_leg(2)
    by (auto simp: TOOL_CONFIRMATION_RETENTION_MS_def)
qed

theorem confirmation_legs_witness:
  "fst (evaluate id 900 ''k'' 1000 True (snd (evaluate id 100 ''k'' 1000 False
     (fold (leg_step id) [(5, ''other'', 1000, False)] [])))) = Confirmed"
  using confirmation_legs [of "fold (leg_step id) [(5, ''other'', 1000, False)] []" id
      "[(5, ''other'', 1000, False)]" 900 "''k''" 1000 100] by simp

text \<open>The tool-name test of the call parser agrees with the table of tool definitions, for
  every combination of home automation, web search and loaded skills.\<close>

theorem is_known_tool_iff:
  "is_known_tool has_home has_web loaded name \<longleftrightarrow> name \<in> set (tool_def_names has_home has_web loaded)"
  by (cases loaded)
    (auto simp: is_known_tool_def tool_def_names_def BASE_TOOLS_def HOME_TOOLS_def
      skill_tool_name_loaded_def list_ex_iff)

end
