(* ===== verification/HomeControl.thy ===== *)
theory HomeControl
  imports Actuation ToolGate
begin

text \<open>
  Carrying out a home action: \<open>control\<close> of \<open>tools/home.rs\<close> and the \<open>home_control\<close>, \<open>home_undo\<close>
  and confirmation handlers of \<open>tools/dispatch/home.rs\<close>.

  The provider (\<open>HomeAutomationProvider\<close>) is an argument: a record of operations that pass the
  state of the house along and may fail. The device aliases of the memory store, the outcome of
  writing an audit line, the clock readings and the random bytes are arguments too.
\<close>

section \<open>The provider\<close>

record 'w provider =
  pv_health :: "'w \<Rightarrow> integration_health \<times> 'w"
  pv_resolve_target :: "string \<Rightarrow> home_action_kind option \<Rightarrow> 'w \<Rightarrow> (string + home_target) \<times> 'w"
  pv_get_state :: "home_target \<Rightarrow> 'w \<Rightarrow> (string + home_state) \<times> 'w"
  pv_execute :: "home_action \<Rightarrow> 'w \<Rightarrow> (string + action_result) \<times> 'w"

datatype control_outcome = ExecutedOutcome string "flt option" | ConfirmationRequired string string

definition parse_action :: "string \<Rightarrow> string + home_action_kind" where
  "parse_action action =
     (if action = ''turn_on'' then Ok TurnOn
      else if action = ''turn_off'' then Ok TurnOff
      else if action = ''toggle'' then Ok Toggle
      else if action = ''set_brightness'' then Ok SetBrightness
      else if action = ''set_temperature'' then Ok SetTemperature
      else if action = ''open'' then Ok OpenIt
      else if action = ''close'' then Ok CloseIt
      else if action = ''lock'' then Ok LockIt
      else if action = ''unlock'' then Ok UnlockIt
      else if action \<in> {''activate'', ''activate_scene''} then Ok Activate
      else Err (''unknown home action: '' @ action))"

fun origin_label :: "request_origin \<Rightarrow> string option" where
  "origin_label Voice = Some ''voice''"
| "origin_label Telegram = Some ''telegram''"
| "origin_label Api = Some ''the API''"
| "origin_label Dashboard = Some ''the dashboard''"
| "origin_label Repl = Some ''the REPL''"
| "origin_label Unknown = None"
| "origin_label Confirmation = None"

definition read_current_state ::
  "'w provider \<Rightarrow> home_target \<Rightarrow> 'w \<Rightarrow> (string + home_state option) \<times> 'w" where
  "read_current_state p t w =
     (if tgt_kind t \<in> {TkScene, TkScript} then (Ok None, w)
      else case pv_get_state p t w of
             (Inl e, w) \<Rightarrow> (Err e, w)
           | (Inr st, w) \<Rightarrow> (Ok (Some st), w))"

text \<open>The part of \<open>control\<close> after the policy checks: the runtime gate and the execution.\<close>

definition control_execute ::
  "'w provider \<Rightarrow> home_action \<Rightarrow> action_policy_decision \<Rightarrow> actuation_safety_config \<Rightarrow> request_origin \<Rightarrow>
     bool \<Rightarrow> 'w \<Rightarrow> (string + control_outcome) \<times> 'w" where
  "control_execute p a policy cfg origin is_confirmed w =
     (let (health, w) = pv_health p w;
          (st, w) = read_current_state p (act_target a) w
      in case st of
           Inl e \<Rightarrow> (Err e, w)
         | Inr current_state \<Rightarrow>
             let runtime = assess_runtime_home_action a policy health current_state cfg origin is_confirmed
             in if \<not> rt_allowed runtime
                then (Err (''Home action blocked by runtime safety: '' @ rt_reason runtime), w)
                else (case pv_execute p a w of
                        (Inl e, w) \<Rightarrow> (Err e, w)
                      | (Inr res, w) \<Rightarrow> (Ok (ExecutedOutcome (spoken_summary res) (res_confidence res)), w)))"

definition control ::
  "'w provider \<Rightarrow> string \<Rightarrow> string \<Rightarrow> flt option \<Rightarrow> actuation_safety_config \<Rightarrow> request_origin \<Rightarrow>
     bool \<Rightarrow> 'w \<Rightarrow> (string + control_outcome) \<times> 'w" where
  "control p target_query action v cfg origin is_confirmed w =
     (case parse_action action of
        Inl e \<Rightarrow> (Err e, w)
      | Inr k \<Rightarrow>
          (case pv_resolve_target p target_query (Some k) w of
             (Inl e, w) \<Rightarrow> (Err e, w)
           | (Inr t, w) \<Rightarrow>
               let a = \<lparr>act_kind = k, act_target = t, act_value = v\<rparr>; policy = assess_home_action a in
               if \<not> act_allowed policy \<and> requires_confirmation policy \<and> \<not> is_confirmed
               then (Ok (ConfirmationRequired (act_reason policy) (display_name t)), w)
               else if \<not> act_allowed policy \<and> \<not> requires_confirmation policy
               then (Err (''Home action blocked by local policy: '' @ act_reason policy), w)
               else if \<not> is_confirmed \<and> risk policy \<noteq> LowRisk \<and> origin_label origin \<noteq> None
               then (Ok (ConfirmationRequired (display_name t @ '' from '' @ the (origin_label origin)
                            @ '' requires local confirmation'') (display_name t)), w)
               else control_execute p a policy cfg origin is_confirmed w))"

definition status ::
  "'w provider \<Rightarrow> string \<Rightarrow> 'w \<Rightarrow> (string + string) \<times> 'w" where
  "status p target_query w =
     (case pv_resolve_target p target_query None w of
        (Inl e, w) \<Rightarrow> (Err e, w)
      | (Inr t, w) \<Rightarrow> (case pv_get_state p t w of
            (Inl e, w) \<Rightarrow> (Err e, w)
          | (Inr st, w) \<Rightarrow> (Ok (hs_summary st), w)))"

section \<open>Arguments\<close>

definition non_blank_str :: "json \<Rightarrow> string \<Rightarrow> string option" where
  "non_blank_str args k =
     (case Option.bind (json_get args k) json_as_str of
        Some s \<Rightarrow> if trim s \<noteq> '''' then Some (trim s) else None
      | None \<Rightarrow> None)"

definition quoted :: "string \<Rightarrow> string" where
  "quoted s = [CHR 0x27] @ s @ [CHR 0x27]"

definition parse_value :: "json \<Rightarrow> string + flt option" where
  "parse_value args =
     (case json_get args ''value'' of
        None \<Rightarrow> Ok None
      | Some JNull \<Rightarrow> Ok None
      | Some provided \<Rightarrow> (case json_as_f64 provided of
            Some v \<Rightarrow> Ok (Some v)
          | None \<Rightarrow> Err (''home_control '' @ quoted ''value'' @ '' must be a number when provided'')))"

definition parse_home_control_args :: "json \<Rightarrow> string + string \<times> string \<times> flt option" where
  "parse_home_control_args args =
     (case non_blank_str args ''entity'' of
        None \<Rightarrow> Err (''home_control requires non-empty string argument '' @ quoted ''entity'')
      | Some entity \<Rightarrow>
          (case Option.bind (json_get args ''action'') json_as_str of
             None \<Rightarrow> Err (''home_control requires string argument '' @ quoted ''action'')
           | Some raw \<Rightarrow>
               (case canon_home_control_action raw of
                  None \<Rightarrow> Err (''home_control action '' @ quoted raw @ '' is invalid; expected one of: ''
                            @ join_str '', '' HOME_CONTROL_ACTIONS)
                | Some action \<Rightarrow>
                    (case parse_value args of
                       Inl e \<Rightarrow> Err e
                     | Inr v \<Rightarrow>
                         if v = None \<and> action_requires_value action
                         then Err (''home_control '' @ quoted action
                                   @ '' requires a numeric argument '' @ quoted ''value'')
                         else Ok (entity, action, v)))))"

definition parse_home_status_args :: "json \<Rightarrow> string + string" where
  "parse_home_status_args args =
     (case non_blank_str args ''entity'' of
        None \<Rightarrow> Err (''home_status requires non-empty string argument '' @ quoted ''entity'')
      | Some entity \<Rightarrow> Ok entity)"

section \<open>The dispatcher's home state\<close>

record 'w home_env =
  he_provider :: "'w provider option"
  he_aliases :: "(string \<Rightarrow> string option) option"
  he_safety :: actuation_safety_config
  he_audit_io :: "audit_event \<Rightarrow> audit_error + unit"

record 'w home_disp =
  confs :: confirmation_state
  ledger :: ledger_state
  act_attempts :: "request_origin attempts"
  audit :: audit_logger
  house :: 'w

record home_clock =
  hc_rate :: nat
  hc_issue :: "nat \<times> nat"
  hc_random :: "8 word list"
  hc_record :: nat
  hc_audit :: nat

definition TOO_MANY_PENDING_CONFIRMATIONS :: string where
  "TOO_MANY_PENDING_CONFIRMATIONS =
     ''Too many pending home confirmations; confirm or wait for existing ones to expire before requesting another.''"

definition resolve_device_alias :: "(string \<Rightarrow> string option) option \<Rightarrow> string \<Rightarrow> string" where
  "resolve_device_alias aliases query =
     (case aliases of
        None \<Rightarrow> query
      | Some f \<Rightarrow> (case f query of Some target_id \<Rightarrow> target_id | None \<Rightarrow> query))"

definition home_event ::
  "nat \<Rightarrow> audit_status \<Rightarrow> request_origin \<Rightarrow> string \<Rightarrow> string \<Rightarrow> flt option \<Rightarrow> string \<Rightarrow> audit_event" where
  "home_event now st origin entity action v why =
     \<lparr>ts_ms = now, au_status = st, au_origin = origin, au_entity = entity, au_action = action,
      au_value = v, au_reason = why, au_token = None, au_confidence = None, action_id = None,
      au_undo_of = None, au_restore = None\<rparr>"

definition log_event :: "'w home_env \<Rightarrow> audit_event \<Rightarrow> 'w home_disp \<Rightarrow> 'w home_disp" where
  "log_event env ev d = d\<lparr>audit := append_or_log (he_audit_io env) ev (audit d)\<rparr>"

definition error_status :: "string \<Rightarrow> audit_status" where
  "error_status e =
     (if str_contains e ''local policy'' then BlockedPolicy
      else if str_contains e ''runtime safety'' then BlockedRuntime
      else Failed)"

text \<open>The restore information taken before a set or toggle: failures of the lookups only lose it.\<close>

definition prior_restore ::
  "'w provider \<Rightarrow> string \<Rightarrow> string \<Rightarrow> 'w \<Rightarrow> undo_restore option \<times> 'w" where
  "prior_restore p entity action w =
     (case home_action_kind_of action of
        Inl e \<Rightarrow> (None, w)
      | Inr k \<Rightarrow> (case pv_resolve_target p entity (Some k) w of
            (Inl e, w) \<Rightarrow> (None, w)
          | (Inr t, w) \<Rightarrow> (case pv_get_state p t w of
                (Inl e, w) \<Rightarrow> (None, w)
              | (Inr prior, w) \<Rightarrow> (undo_restore_from_prior action prior, w))))"

definition finish_executed ::
  "'w home_env \<Rightarrow> home_clock \<Rightarrow> request_origin \<Rightarrow> string \<Rightarrow> string \<Rightarrow> flt option \<Rightarrow> nat option \<Rightarrow>
     undo_restore option \<Rightarrow> string \<Rightarrow> flt option \<Rightarrow> 'w home_disp \<Rightarrow> (string + string) \<times> 'w home_disp" where
  "finish_executed env clk origin entity action v original back output confidence d =
     (let (item, led) =
            (case original of
               Some i \<Rightarrow> record_undo (hc_record clk) i entity action v origin output confidence None (ledger d)
             | None \<Rightarrow> ledger_record (hc_record clk) entity action v origin output confidence back (ledger d));
          ev = (home_event (hc_audit clk) Executed origin entity action v ''home action executed'')
                 \<lparr>au_confidence := confidence, action_id := Some (ra_id item),
                  au_undo_of := undo_of item, au_restore := restore item\<rparr>
      in (Ok output, log_event env ev (d\<lparr>ledger := led\<rparr>)))"

definition finish_confirmation ::
  "'w home_env \<Rightarrow> home_clock \<Rightarrow> request_origin \<Rightarrow> string \<Rightarrow> string \<Rightarrow> flt option \<Rightarrow> string \<Rightarrow>
     'w home_disp \<Rightarrow> (string + string) \<times> 'w home_disp" where
  "finish_confirmation env clk origin entity action v why d =
     (case issue (fst (hc_issue clk)) (snd (hc_issue clk)) (hc_random clk) entity action v why origin (confs d) of
        (None, cs) \<Rightarrow> (Ok TOO_MANY_PENDING_CONFIRMATIONS, d\<lparr>confs := cs\<rparr>)
      | (Some p, cs) \<Rightarrow>
          (Ok (''Confirmation required before I can do that: '' @ why
               @ ''. Confirm this pending action from the local dashboard (or POST /api/actuation/confirm with its token from /api/actuation/pending).''),
           log_event env ((home_event (hc_audit clk) ConfirmationIssued origin entity action v why)
             \<lparr>au_token := Some (token p)\<rparr>) (d\<lparr>confs := cs\<rparr>)))"

definition finish_control ::
  "'w home_env \<Rightarrow> home_clock \<Rightarrow> request_origin \<Rightarrow> string \<Rightarrow> string \<Rightarrow> flt option \<Rightarrow> nat option \<Rightarrow>
     undo_restore option \<Rightarrow> string + control_outcome \<Rightarrow> 'w home_disp \<Rightarrow> (string + string) \<times> 'w home_disp" where
  "finish_control env clk origin entity action v original back outcome d =
     (case outcome of
        Inr (ExecutedOutcome output confidence) \<Rightarrow>
          finish_executed env clk origin entity action v original back output confidence d
      | Inr (ConfirmationRequired why t) \<Rightarrow> finish_confirmation env clk origin entity action v why d
      | Inl e \<Rightarrow>
          (Err e, log_event env (home_event (hc_audit clk) (error_status e) origin entity action v e) d))"

text \<open>A pre-confirmed request does not charge the rate limiter again.\<close>

definition charge_rate ::
  "'w home_env \<Rightarrow> home_clock \<Rightarrow> 'm tool_execution_context \<Rightarrow> request_origin attempts \<Rightarrow>
     (string + unit) \<times> request_origin attempts" where
  "charge_rate env clk ctx atts =
     (if confirmed ctx then (Ok (), atts)
      else actuation_check_and_record (he_safety env) (hc_rate clk) (request_origin ctx) atts)"

definition capture_restore ::
  "'w provider \<Rightarrow> nat option \<Rightarrow> string \<Rightarrow> string \<Rightarrow> 'w \<Rightarrow> undo_restore option \<times> 'w" where
  "capture_restore p original entity action w =
     (if original = None \<and> action \<in> {''set_brightness'', ''set_temperature'', ''toggle''}
      then prior_restore p entity action w else (None, w))"

definition exec_home_control_inner ::
  "'w home_env \<Rightarrow> home_clock \<Rightarrow> json \<Rightarrow> 'm tool_execution_context \<Rightarrow> nat option \<Rightarrow> 'w home_disp \<Rightarrow>
     (string + string) \<times> 'w home_disp" where
  "exec_home_control_inner env clk args ctx original d =
     (case he_provider env of
        None \<Rightarrow> (Err ''Home Assistant not connected'', d)
      | Some p \<Rightarrow>
     (case parse_home_control_args args of
        Inl e \<Rightarrow> (Err e, d)
      | Inr (entity_name, action, v) \<Rightarrow>
     (let entity = resolve_device_alias (he_aliases env) entity_name; origin = request_origin ctx in
      if \<not> actuation_origin_allowed (he_safety env) origin
      then let why = ''actuation from '' @ quoted (as_policy_key origin) @ '' is not allowed by channel policy''
           in (Err (''Home action blocked by channel policy: '' @ why),
               log_event env (home_event (hc_audit clk) BlockedPolicy origin entity action v why) d)
      else
     (let (rate, atts) = charge_rate env clk ctx (act_attempts d);
          d = d\<lparr>act_attempts := atts\<rparr>
      in case rate of
        Inl why \<Rightarrow>
          (Err (''Home action blocked by rate limit: '' @ why),
           log_event env (home_event (hc_audit clk) BlockedRuntime origin entity action v why) d)
      | Inr u \<Rightarrow>
     (let (back, w) = capture_restore p original entity action (house d);
          (outcome, w) = control p entity action v (he_safety env) origin (confirmed ctx) w;
          d = d\<lparr>house := w\<rparr>
      in finish_control env clk origin entity action v original back outcome d)))))"

definition exec_home_control ::
  "'w home_env \<Rightarrow> home_clock \<Rightarrow> json \<Rightarrow> 'm tool_execution_context \<Rightarrow> 'w home_disp \<Rightarrow>
     (string + string) \<times> 'w home_disp" where
  "exec_home_control env clk args ctx d = exec_home_control_inner env clk args ctx None d"

definition format_undo_output :: "string \<Rightarrow> string" where
  "format_undo_output output =
     (if starts_with output ''Confirmation required'' \<or> output = TOO_MANY_PENDING_CONFIRMATIONS then output
      else ''Undid the last home action. '' @ output)"

definition exec_home_undo ::
  "'w home_env \<Rightarrow> home_clock \<Rightarrow> 'm tool_execution_context \<Rightarrow> 'w home_disp \<Rightarrow>
     (string + string) \<times> 'w home_disp" where
  "exec_home_undo env clk ctx d =
     (case last_undoable (ledger d) of
        None \<Rightarrow> (Err ''No recent reversible home action to undo.'', d)
      | Some a \<Rightarrow> (case undo_home_control_args a of
            None \<Rightarrow> (Err ''No recent reversible home action to undo.'', d)
          | Some args \<Rightarrow> (case exec_home_control_inner env clk args ctx (Some (ra_id a)) d of
                (Inl e, d) \<Rightarrow> (Err e, d)
              | (Inr output, d) \<Rightarrow> (Ok (format_undo_output output), d))))"

definition exec_home_status ::
  "'w home_env \<Rightarrow> json \<Rightarrow> 'w home_disp \<Rightarrow> (string + string) \<times> 'w home_disp" where
  "exec_home_status env args d =
     (case he_provider env of
        None \<Rightarrow> (Err ''Home Assistant not connected'', d)
      | Some p \<Rightarrow> (case parse_home_status_args args of
            Inl e \<Rightarrow> (Err e, d)
          | Inr entity \<Rightarrow>
              (case status p (resolve_device_alias (he_aliases env) entity) (house d) of
                 (r, w) \<Rightarrow> (r, d\<lparr>house := w\<rparr>))))"

text \<open>The tool bodies reached through the gate, with home control, undo and status filled in; the
  other tools are the argument \<open>other\<close>.\<close>

definition home_body ::
  "(tool_call \<Rightarrow> 'm tool_execution_context \<Rightarrow> 'w home_disp \<Rightarrow> (string + string) \<times> 'w home_disp) \<Rightarrow>
     'w home_env \<Rightarrow> home_clock \<Rightarrow> tool_call \<Rightarrow> 'm tool_execution_context \<Rightarrow> 'w home_disp \<Rightarrow>
     (string + string) \<times> 'w home_disp" where
  "home_body other env clk call ctx d =
     (if call_name call = ''home_control'' then exec_home_control env clk (arguments call) ctx d
      else if call_name call = ''home_status'' then exec_home_status env (arguments call) d
      else if call_name call = ''home_undo'' then exec_home_undo env clk ctx d
      else other call ctx d)"

definition pending_args :: "pending_confirmation \<Rightarrow> json" where
  "pending_args p =
     JObj [(''action'', JStr (pc_action p)), (''entity'', JStr (pc_entity p)),
           (''value'', case pc_value p of Some v \<Rightarrow> json_of_f64 v | None \<Rightarrow> JNull)]"

definition confirm_pending_home_action ::
  "(tool_call \<Rightarrow> 'm tool_execution_context \<Rightarrow> 'w home_disp \<Rightarrow> (string + string) \<times> 'w home_disp) \<Rightarrow>
     gate_env \<Rightarrow> gate_clock \<Rightarrow> gate_clock \<Rightarrow> 'w home_env \<Rightarrow> home_clock \<Rightarrow> nat \<Rightarrow> string \<Rightarrow>
     gate_state \<times> 'w home_disp \<Rightarrow> (string + string) \<times> gate_state \<times> 'w home_disp" where
  "confirm_pending_home_action other genv clk1 clk2 env clk now tok gs =
     (case confirm now tok (confs (snd gs)) of
        (None, cs) \<Rightarrow> (Err ''unknown or expired confirmation token'', fst gs, (snd gs)\<lparr>confs := cs\<rparr>)
      | (Some p, cs) \<Rightarrow>
          (case execute_with_context (home_body other env clk) genv clk1 clk2
                  \<lparr>call_name = ''home_control'', arguments = pending_args p\<rparr>
                  \<lparr>ctx_memory = None, request_origin = requested_by p, confirmed = True\<rparr>
                  (fst gs, (snd gs)\<lparr>confs := cs\<rparr>) of
             (res, g, d) \<Rightarrow> (if res_success res then Ok (res_output res) else Err (res_output res), g, d)))"

section \<open>What reaches the house\<close>

text \<open>A provider that also keeps the list of the actions it was asked to execute. It is a way to
  speak about any provider: the first component of its state is the provider's own.\<close>

definition lift_house :: "('w \<Rightarrow> 'r \<times> 'w) \<Rightarrow> 'w \<times> home_action list \<Rightarrow> 'r \<times> 'w \<times> home_action list" where
  "lift_house f wl = (case f (fst wl) of (r, w) \<Rightarrow> (r, w, snd wl))"

definition logged :: "'w provider \<Rightarrow> ('w \<times> home_action list) provider" where
  "logged p =
     \<lparr>pv_health = lift_house (pv_health p),
      pv_resolve_target = (\<lambda>q k. lift_house (pv_resolve_target p q k)),
      pv_get_state = (\<lambda>t. lift_house (pv_get_state p t)),
      pv_execute = (\<lambda>a wl. case pv_execute p a (fst wl) of (r, w) \<Rightarrow> (r, w, snd wl @ [a]))\<rparr>"

lemma logged_simps:
  "snd (snd (pv_health (logged p) wl)) = snd wl"
  "snd (snd (pv_resolve_target (logged p) q k wl)) = snd wl"
  "snd (snd (pv_get_state (logged p) t wl)) = snd wl"
  "snd (snd (pv_execute (logged p) a wl)) = snd wl @ [a]"
  by (simp_all add: logged_def lift_house_def split: prod.splits)

lemma logged_D:
  "pv_health (logged p) wl = (h, wl') \<Longrightarrow> snd wl' = snd wl"
  "pv_resolve_target (logged p) q k wl = (t, wl') \<Longrightarrow> snd wl' = snd wl"
  "pv_get_state (logged p) tg wl = (st, wl') \<Longrightarrow> snd wl' = snd wl"
  using logged_simps(1) [of p wl] logged_simps(2) [of p q k wl] logged_simps(3) [of p tg wl] by auto

definition permitted :: "actuation_safety_config \<Rightarrow> request_origin \<Rightarrow> bool \<Rightarrow> home_action \<Rightarrow> bool" where
  "permitted cfg origin is_confirmed a \<longleftrightarrow>
     \<not> refused_script a \<and> (dangerous a \<longrightarrow> is_confirmed)
     \<and> (risk (assess_home_action a) \<noteq> LowRisk \<and> origin_label origin \<noteq> None \<longrightarrow> is_confirmed)
     \<and> (safety_enabled cfg \<longrightarrow>
          (\<exists>health st. runtime_conditions a (assess_home_action a) health st cfg origin is_confirmed))"

text \<open>What one run of an operation may add to the executed actions.\<close>

definition adds_permitted ::
  "(home_action \<Rightarrow> bool) \<Rightarrow> home_action list \<Rightarrow> home_action list \<Rightarrow> bool" where
  "adds_permitted P l l' \<longleftrightarrow> l' = l \<or> (\<exists>a. l' = l @ [a] \<and> P a)"

lemma control_execute_house:
  assumes "\<not> refused_script a" and "dangerous a \<longrightarrow> c"
    and "risk (assess_home_action a) \<noteq> LowRisk \<and> origin_label origin \<noteq> None \<longrightarrow> c"
    and "control_execute (logged p) a (assess_home_action a) cfg origin c wl = (r, wl')"
  shows "adds_permitted (\<lambda>b. b = a \<and> permitted cfg origin c a) (snd wl) (snd wl')"
proof -
  obtain h w1 where h: "pv_health (logged p) wl = (h, w1)" by (rule prod.exhaust)
  obtain st w2 where g: "read_current_state (logged p) (act_target a) w1 = (st, w2)" by (rule prod.exhaust)
  have w2: "snd w2 = snd wl"
    using g logged_D(1) [OF h] logged_D(3) [of p "act_target a" w1]
    by (auto simp: read_current_state_def split: if_splits prod.splits sum.splits)
  show ?thesis
  proof (cases st)
    case (Inl e)
    then show ?thesis using assms(4) g h w2 by (simp add: control_execute_def adds_permitted_def)
  next
    case (Inr cs)
    let ?rt = "assess_runtime_home_action a (assess_home_action a) h cs cfg origin c"
    show ?thesis
    proof (cases "rt_allowed ?rt")
      case False
      then show ?thesis using assms(4) Inr g h w2 by (simp add: control_execute_def adds_permitted_def)
    next
      case True
      then have "permitted cfg origin c a"
        using assms(1-3) runtime_allowed_iff [of a "assess_home_action a" h cs cfg origin c]
        by (auto simp: permitted_def)
      moreover have "wl' = snd (pv_execute (logged p) a w2)"
        using assms(4) Inr g h True by (auto simp: control_execute_def split: prod.splits sum.splits)
      ultimately show ?thesis using logged_simps(4) [of p a w2] w2 by (simp add: adds_permitted_def)
    qed
  qed
qed

lemma control_house:
  assumes "control (logged p) q action v cfg origin c wl = (r, wl')"
  shows "adds_permitted (\<lambda>a. permitted cfg origin c a \<and> parse_action action = Ok (act_kind a) \<and> act_value a = v)
           (snd wl) (snd wl')"
proof (cases "parse_action action")
  case (Inl e)
  then show ?thesis using assms by (simp add: control_def adds_permitted_def)
next
  case (Inr k)
  obtain t w1 where t: "pv_resolve_target (logged p) q (Some k) wl = (t, w1)" by (rule prod.exhaust)
  have w1: "snd w1 = snd wl" using logged_simps(2) [of p q "Some k" wl] t by simp
  show ?thesis
  proof (cases t)
    case (Inl e)
    then show ?thesis using assms Inr t w1 by (simp add: control_def adds_permitted_def)
  next
    case (Inr tg)
    let ?a = "\<lparr>act_kind = k, act_target = tg, act_value = v\<rparr>"
    let ?pol = "assess_home_action ?a"
    show ?thesis
    proof (cases "act_allowed ?pol \<and> (c \<or> risk ?pol = LowRisk \<or> origin_label origin = None)
        \<or> \<not> act_allowed ?pol \<and> requires_confirmation ?pol \<and> c")
      case True
      then have "control_execute (logged p) ?a ?pol cfg origin c w1 = (r, wl')"
        using assms Inr t \<open>parse_action action = Ok k\<close> by (auto simp: control_def Let_def)
      then have "adds_permitted (\<lambda>b. b = ?a \<and> permitted cfg origin c ?a) (snd w1) (snd wl')"
        by (rule control_execute_house [rotated 3])
          (use True in \<open>auto simp: assess_allowed_iff assess_confirmable_iff refused_script_def dangerous_def\<close>)
      then show ?thesis using w1 \<open>parse_action action = Ok k\<close> by (auto simp: adds_permitted_def)
    next
      case False
      then have "wl' = w1" using assms Inr t \<open>parse_action action = Ok k\<close>
        by (auto simp: control_def Let_def split: if_splits)
      then show ?thesis using w1 by (simp add: adds_permitted_def)
    qed
  qed
qed

lemma prior_restore_house: "snd (snd (prior_restore (logged p) e a wl)) = snd wl"
  by (auto simp: prior_restore_def split: sum.splits prod.splits dest!: logged_D)

lemma finish_house [simp]:
  "house (snd (finish_executed env clk origin e a v i b out cf d)) = house d"
  "house (snd (finish_confirmation env clk origin e a v why d)) = house d"
  "house (log_event env ev d) = house d"
  by (simp_all add: finish_executed_def finish_confirmation_def log_event_def Let_def split: prod.splits option.splits)

lemma capture_restore_house:
  "capture_restore (logged p) original e a wl = (b, wl') \<Longrightarrow> snd wl' = snd wl"
  using prior_restore_house [of p e a wl] by (auto simp: capture_restore_def split: if_splits)

lemma finish_control_house [simp]: "house (snd (finish_control env clk origin e a v i b out d)) = house d"
  by (simp add: finish_control_def split: sum.splits control_outcome.splits)

lemma exec_inner_house:
  assumes "he_provider env = Some (logged p)"
    and "exec_home_control_inner env clk args ctx original d = (r, d')"
  shows "adds_permitted (\<lambda>a. actuation_origin_allowed (he_safety env) (request_origin ctx)
           \<and> permitted (he_safety env) (request_origin ctx) (confirmed ctx) a
           \<and> (\<exists>e verb. parse_home_control_args args = Ok (e, verb, act_value a) \<and> parse_action verb = Ok (act_kind a)))
         (snd (house d)) (snd (house d'))"
proof (cases "parse_home_control_args args")
  case (Inl e)
  then show ?thesis using assms by (simp add: exec_home_control_inner_def adds_permitted_def)
next
  case (Inr eav)
  obtain e a v where eav: "eav = (e, a, v)" by (cases eav)
  let ?cfg = "he_safety env" and ?o = "request_origin ctx" and ?e = "resolve_device_alias (he_aliases env) e"
  obtain rate atts where rate: "charge_rate env clk ctx (act_attempts d) = (rate, atts)" by (rule prod.exhaust)
  obtain b w1 where b: "capture_restore (logged p) original ?e a (house d) = (b, w1)" by (rule prod.exhaust)
  obtain out w2 where out: "control (logged p) ?e a v ?cfg ?o (confirmed ctx) w1 = (out, w2)"
    by (rule prod.exhaust)
  have d': "house d' = house (snd (exec_home_control_inner env clk args ctx original d))"
    using assms(2) by simp
  show ?thesis
  proof (cases "actuation_origin_allowed ?cfg ?o \<and> is_ok rate")
    case False
    then have "house d' = house d" unfolding d' exec_home_control_inner_def assms(1) Inr eav
      by (cases rate) (auto simp: Let_def rate)
    then show ?thesis by (simp add: adds_permitted_def)
  next
    case True
    then have "house d' = w2" unfolding d' exec_home_control_inner_def assms(1) Inr eav
      by (cases rate) (auto simp: Let_def rate b out)
    then show ?thesis
      using control_house [OF out] capture_restore_house [OF b] True Inr eav
      by (auto simp: adds_permitted_def)
  qed
qed

lemma exec_undo_house:
  assumes "he_provider env = Some (logged p)"
  shows "adds_permitted (\<lambda>a. actuation_origin_allowed (he_safety env) (request_origin ctx)
           \<and> permitted (he_safety env) (request_origin ctx) (confirmed ctx) a)
         (snd (house d)) (snd (house (snd (exec_home_undo env clk ctx d))))"
proof -
  have "adds_permitted (\<lambda>a. actuation_origin_allowed (he_safety env) (request_origin ctx)
           \<and> permitted (he_safety env) (request_origin ctx) (confirmed ctx) a)
         (snd (house d)) (snd (house (snd (exec_home_control_inner env clk args ctx i d))))" for args i
  proof -
    obtain r d' where e: "exec_home_control_inner env clk args ctx i d = (r, d')" by (rule prod.exhaust)
    show ?thesis using exec_inner_house [OF assms e] e by (auto simp: adds_permitted_def)
  qed
  then show ?thesis
    by (auto simp: exec_home_undo_def split: option.splits prod.splits sum.splits)
      (simp add: adds_permitted_def, simp add: adds_permitted_def, (metis snd_conv)+)
qed

lemma run_gate_home_body:
  "execute_with_context body genv clk1 clk2 call ctx gs = (res, g, d) \<Longrightarrow>
     d = snd gs \<or> d = snd (body call ctx (snd gs))"
  by (auto simp: execute_with_context_def Let_def split: prod.splits option.splits)

section \<open>Confirmed requests: lemmas\<close>

lemma json_get_pending:
  "json_get (pending_args p) ''entity'' = Some (JStr (pc_entity p))"
  "json_get (pending_args p) ''action'' = Some (JStr (pc_action p))"
  "json_get (pending_args p) ''value'' = Some (case pc_value p of Some v \<Rightarrow> json_of_f64 v | None \<Rightarrow> JNull)"
  by (simp_all add: pending_args_def)

lemma parse_pending_args:
  assumes "trim (pc_entity p) = pc_entity p" and "pc_entity p \<noteq> ''''"
    and "pc_action p \<in> set HOME_CONTROL_ACTIONS"
    and "\<And>v. pc_value p = Some v \<Longrightarrow> \<exists>q. v = Fin q"
    and "action_requires_value (pc_action p) \<longrightarrow> pc_value p \<noteq> None"
  shows "parse_home_control_args (pending_args p) = Ok (pc_entity p, pc_action p, pc_value p)"
proof -
  have "parse_value (pending_args p) = Ok (pc_value p)"
    using assms(4) unfolding parse_value_def json_get_pending
    by (cases "pc_value p") (force simp: json_of_f64_def)+
  then show ?thesis
    using assms canon_verb_fixed [OF assms(3)]
    by (auto simp: parse_home_control_args_def non_blank_str_def json_get_pending)
qed

lemma finish_control_ledger:
  "ledger (snd (finish_control env clk origin e a v None b out d)) = ledger d
   \<or> (\<exists>m c. ledger (snd (finish_control env clk origin e a v None b out d))
          = snd (ledger_record (hc_record clk) e a v origin m c b (ledger d)))"
  by (auto simp: finish_control_def finish_executed_def finish_confirmation_def log_event_def Let_def
      split: sum.splits control_outcome.splits prod.splits option.splits) (metis snd_conv)

lemma record_internal_item:
  assumes "record_internal n e a v origin m c i b s = (item, s')"
  shows "last (actions s') = item \<and> item = \<lparr>ra_id = led_next_id s + 1, undo_of = i, ra_entity = e, ra_action = a,
    ra_value = v, inverse_verb = inverse_action a, restore = b, ra_origin = origin, ra_summary = m,
    ra_confidence = c, executed_ms = n\<rparr>"
  using assms by (auto simp: record_internal_def Let_def evict_eq last_n_def ACTION_HISTORY_LIMIT_def)

text \<open>A fresh record never counts as an undo.\<close>

definition no_undo_added :: "ledger_state \<Rightarrow> ledger_state \<Rightarrow> bool" where
  "no_undo_added s s' \<longleftrightarrow> undone s' \<subseteq> undone s
     \<and> (\<forall>a \<in> set (actions s'). a \<in> set (actions s) \<or> undo_of a = None)"

lemma ledger_record_no_undo: "no_undo_added s (snd (ledger_record n e a v origin m c b s))"
  by (auto simp: no_undo_added_def ledger_record_def record_internal_def Let_def evict_eq last_n_def
      dest: in_set_dropD split: if_splits)

lemma finish_control_no_undo:
  "no_undo_added (ledger d) (ledger (snd (finish_control env clk origin e a v None b out d)))"
  using finish_control_ledger [of env clk origin e a v b out d]
    ledger_record_no_undo [of "ledger d" "hc_record clk" e a v origin _ _ b]
  by (elim disjE exE) (simp_all add: no_undo_added_def)

lemma exec_home_control_no_undo:
  "no_undo_added (ledger d) (ledger (snd (exec_home_control env clk args ctx d)))"
proof -
  have same: "no_undo_added s s" for s by (simp add: no_undo_added_def)
  have log: "ledger (log_event env ev d) = ledger d" for ev d by (simp add: log_event_def)
  show ?thesis
  proof (cases "he_provider env")
    case (Some p)
    show ?thesis
    proof (cases "parse_home_control_args args")
      case (Inr eav)
      obtain e a v where eav: "eav = (e, a, v)" by (cases eav)
      let ?e = "resolve_device_alias (he_aliases env) e"
      obtain rate atts where rate: "charge_rate env clk ctx (act_attempts d) = (rate, atts)" by (rule prod.exhaust)
      obtain b w1 where b: "capture_restore p None ?e a (house d) = (b, w1)" by (rule prod.exhaust)
      obtain out w2 where out: "control p ?e a v (he_safety env) (request_origin ctx) (confirmed ctx) w1 = (out, w2)"
        by (rule prod.exhaust)
      show ?thesis
        using finish_control_no_undo [of "d\<lparr>act_attempts := atts, house := w2\<rparr>" env clk]
        unfolding exec_home_control_def exec_home_control_inner_def Some Inr eav
        by (cases rate) (auto simp: Let_def rate b out log same)
    qed (simp add: exec_home_control_def exec_home_control_inner_def Some same)
  qed (simp add: exec_home_control_def exec_home_control_inner_def same)
qed

lemma confirm_pending_house:
  fixes env :: "('w \<times> home_action list) home_env"
    and other :: "tool_call \<Rightarrow> 'm tool_execution_context \<Rightarrow> ('w \<times> home_action list) home_disp \<Rightarrow>
      (string + string) \<times> ('w \<times> home_action list) home_disp"
  assumes "confirm_pending_home_action other genv clk1 clk2 (env\<lparr>he_provider := Some (logged p)\<rparr>) clk now tok (g, d)
      = (r, g', d')"
  shows "case fst (confirm now tok (confs d)) of
      None \<Rightarrow> r = Err ''unknown or expired confirmation token'' \<and> house d' = house d \<and> ledger d' = ledger d
    | Some req \<Rightarrow>
        adds_permitted (\<lambda>a. actuation_origin_allowed (he_safety env) (requested_by req)
            \<and> permitted (he_safety env) (requested_by req) True a
            \<and> (\<exists>e verb. parse_home_control_args (pending_args req) = Ok (e, verb, act_value a)
                  \<and> parse_action verb = Ok (act_kind a)))
          (snd (house d)) (snd (house d'))"
proof (cases "confirm now tok (confs d)")
  case (Pair c cs)
  let ?env = "env\<lparr>he_provider := Some (logged p)\<rparr>"
  show ?thesis
  proof (cases c)
    case None
    then show ?thesis using Pair assms by (auto simp: confirm_pending_home_action_def)
  next
    case (Some req)
    let ?call = "\<lparr>call_name = ''home_control'', arguments = pending_args req\<rparr>"
    let ?ctx = "\<lparr>ctx_memory = None, request_origin = requested_by req, confirmed = True\<rparr> :: 'm tool_execution_context"
    let ?d = "d\<lparr>confs := cs\<rparr>"
    obtain res g2 d2 where ex: "execute_with_context (home_body other ?env clk) genv clk1 clk2 ?call ?ctx (g, ?d)
        = (res, g2, d2)" by (rule prod_cases3)
    have "d' = d2" using assms Pair Some ex by (simp add: confirm_pending_home_action_def)
    moreover have "d2 = ?d \<or> d2 = snd (exec_home_control_inner ?env clk (pending_args req) ?ctx None ?d)"
      using run_gate_home_body [OF ex] by (simp add: home_body_def exec_home_control_def)
    moreover obtain r2 d3 where "exec_home_control_inner ?env clk (pending_args req) ?ctx None ?d = (r2, d3)"
      by (rule prod.exhaust)
    note exec_inner_house [OF _ this, of p] this
    ultimately show ?thesis using Pair Some by (auto simp: adds_permitted_def)
  qed
qed

lemma confirm_pending_no_undo:
  fixes other :: "tool_call \<Rightarrow> 'm tool_execution_context \<Rightarrow> 'w home_disp \<Rightarrow> (string + string) \<times> 'w home_disp"
  assumes "confirm_pending_home_action other genv clk1 clk2 env clk now tok (g, d) = (r, g', d')"
  shows "no_undo_added (ledger d) (ledger d')"
proof (cases "confirm now tok (confs d)")
  case (Pair c cs)
  show ?thesis
  proof (cases c)
    case None
    then show ?thesis using Pair assms by (auto simp: confirm_pending_home_action_def no_undo_added_def)
  next
    case (Some req)
    let ?call = "\<lparr>call_name = ''home_control'', arguments = pending_args req\<rparr>"
    let ?ctx = "\<lparr>ctx_memory = None, request_origin = requested_by req, confirmed = True\<rparr> :: 'm tool_execution_context"
    obtain res g2 d2 where ex: "execute_with_context (home_body other env clk) genv clk1 clk2 ?call ?ctx
        (g, d\<lparr>confs := cs\<rparr>) = (res, g2, d2)" by (rule prod_cases3)
    have "d' = d2" using assms Pair Some ex by (simp add: confirm_pending_home_action_def)
    then have "d' = d\<lparr>confs := cs\<rparr> \<or> d' = snd (exec_home_control env clk (pending_args req) ?ctx (d\<lparr>confs := cs\<rparr>))"
      using run_gate_home_body [OF ex] by (simp add: home_body_def)
    then show ?thesis
      using exec_home_control_no_undo [of "d\<lparr>confs := cs\<rparr>" env clk "pending_args req" ?ctx]
      by (auto simp: no_undo_added_def)
  qed
qed

section \<open>Properties\<close>



text \<open>The confirmed call is the stored call. The arguments rebuilt from a pending request parse
  back to its entity, verb and value.\<close>

theorem pending_request_replayed:
  assumes "trim (pc_entity p) = pc_entity p" and "pc_entity p \<noteq> ''''"
    and "pc_action p \<in> set HOME_CONTROL_ACTIONS"
    and "\<And>v. pc_value p = Some v \<Longrightarrow> \<exists>q. v = Fin q"
    and "action_requires_value (pc_action p) \<longrightarrow> pc_value p \<noteq> None"
  shows "parse_home_control_args (pending_args p) = Ok (pc_entity p, pc_action p, pc_value p)"
  using assms by (rule parse_pending_args)

theorem pending_request_replayed_witness:
  "parse_home_control_args (pending_args \<lparr>token = ''act-00'', pc_entity = ''thermostat'',
      pc_action = ''set_temperature'', pc_value = Some (Fin 21), pc_reason = '''', requested_by = Voice,
      created_ms = 0, expires_ms = 600000\<rparr>) = Ok (''thermostat'', ''set_temperature'', Some (Fin 21))"
proof -
  let ?p = "\<lparr>token = ''act-00'', pc_entity = ''thermostat'',
      pc_action = ''set_temperature'', pc_value = Some (Fin 21), pc_reason = '''', requested_by = Voice,
      created_ms = 0, expires_ms = 600000\<rparr>"
  have t: "trim ''thermostat'' = ''thermostat''" by code_simp
  show ?thesis using pending_request_replayed [of ?p] t by (simp add: HOME_CONTROL_ACTIONS_def)
qed

text \<open>An undo that needed a confirmation is not remembered as an undo. Whatever is confirmed,
  the confirmation path marks no action as undone and records no undo entry; so after such an undo
  the original action is still offered for undo (or the undo itself is, in the other direction).\<close>

theorem confirmed_undo_not_recorded:
  "no_undo_added (ledger d)
     (ledger (snd (snd (confirm_pending_home_action other genv clk1 clk2 env clk now tok (g, d)))))"
  using confirm_pending_no_undo by (metis prod.collapse)

text \<open>Every executed action is on record. With the audit log enabled and writable, an executed
  request appends one ledger item and one audit line, and the line decodes to that item up to its
  summary and time; this is what lets the ledger be rebuilt after a restart.\<close>

theorem executed_action_audited:
  assumes "log_path (audit d) = Some path" and "he_audit_io env = (\<lambda>ev. Ok ())"
    and "finish_executed env clk origin entity action v original b output cf d = (r, d')"
  shows "\<exists>ev item. r = Ok output \<and> log_lines (audit d') = log_lines (audit d) @ [ev]
    \<and> last (actions (ledger d')) = item \<and> undo_of item = original \<and> ra_id item = led_next_id (ledger d) + 1
    \<and> map_option core (audit_event_to_recorded_action ev) = Some (core item)"
proof -
  let ?b = "if original = None then b else None"
  obtain item led where rec: "record_internal (hc_record clk) entity action v origin output cf original ?b (ledger d)
      = (item, led)" by (rule prod.exhaust)
  have fin: "d' = log_event env ((home_event (hc_audit clk) Executed origin entity action v ''home action executed'')
      \<lparr>au_confidence := cf, action_id := Some (ra_id item), au_undo_of := undo_of item, au_restore := restore item\<rparr>)
      (d\<lparr>ledger := led\<rparr>)" "r = Ok output"
    using assms(3) rec
    by (cases original; simp add: finish_executed_def record_undo_def ledger_record_def Let_def)+
  show ?thesis
    using record_internal_item [OF rec] assms(1,2) fin
    by (simp add: log_event_def append_or_log_def append_event_def home_event_def
        audit_event_to_recorded_action_def core_def)
qed

theorem executed_action_audited_witness:
  "\<exists>ev item. log_lines (audit (snd (finish_executed
        \<lparr>he_provider = None :: unit provider option, he_aliases = None, he_safety = default_actuation_safety,
         he_audit_io = (\<lambda>ev. Ok ())\<rparr>
        \<lparr>hc_rate = 0, hc_issue = (0, 0), hc_random = [], hc_record = 5, hc_audit = 6\<rparr>
        Voice ''light.lamp'' ''turn_on'' None None None ''done'' None
        \<lparr>confs = new_confirmations, ledger = new_ledger, act_attempts = Map.empty,
         audit = \<lparr>log_path = Some ''audit.jsonl'', log_lines = []\<rparr>, house = ()\<rparr>))) = [ev]
     \<and> ra_id item = 1 \<and> map_option core (audit_event_to_recorded_action ev) = Some (core item)"
proof -
  let ?env = "\<lparr>he_provider = None :: unit provider option, he_aliases = None,
     he_safety = default_actuation_safety, he_audit_io = (\<lambda>ev. Ok ())\<rparr>"
  let ?clk = "\<lparr>hc_rate = 0, hc_issue = (0, 0), hc_random = [], hc_record = 5, hc_audit = 6\<rparr>"
  let ?d = "\<lparr>confs = new_confirmations, ledger = new_ledger, act_attempts = Map.empty,
     audit = \<lparr>log_path = Some ''audit.jsonl'', log_lines = []\<rparr>, house = ()\<rparr>"
  obtain r d' where f: "finish_executed ?env ?clk Voice ''light.lamp'' ''turn_on'' None None None ''done'' None ?d
      = (r, d')" by (rule prod.exhaust)
  show ?thesis
    unfolding f using executed_action_audited [OF _ _ f, of "''audit.jsonl''"]
    by (auto simp: new_ledger_def)
qed

end
