(* ===== verification/HaProvider.thy ===== *)
theory HaProvider
  imports HaGraph HomeControl
begin

text \<open>
  The Home Assistant provider (\<open>ha/provider.rs\<close>) over its REST client (\<open>ha/client.rs\<close>): the cached
  graph, the resolution of a target with one refresh, the state of a target and its summary, and
  the service call that carries an action out.

  One HTTP exchange, the decoding of JSON bodies, the clock and the shortest decimal form of a
  float are fields of the client record; the em dash, which lies outside the repertoire of texts,
  is one too.
\<close>

section \<open>The client\<close>

record 'h ha_client =
  cl_host :: string
  cl_port :: nat
  cl_exchange :: "string \<Rightarrow> string \<Rightarrow> string option \<Rightarrow> 'h \<Rightarrow> (string + nat \<times> string) \<times> 'h"
  cl_to_json :: "json \<Rightarrow> string"
  cl_decode_states :: "string \<Rightarrow> string + entity list"
  cl_decode_areas :: "string \<Rightarrow> string + area_template_entry list"
  cl_now :: "'h \<Rightarrow> nat \<times> 'h"
  cl_show_f64 :: "flt \<Rightarrow> string"
  cl_em_dash :: string

definition newline_to_space :: "string \<Rightarrow> string" where
  "newline_to_space s = map (\<lambda>c. if c = CHR 10 then CHR '' '' else c) s"

text \<open>An answer outside 200..300 is an error that quotes the body.\<close>

definition http_request ::
  "'h ha_client \<Rightarrow> string \<Rightarrow> string \<Rightarrow> string option \<Rightarrow> 'h \<Rightarrow> (string + string) \<times> 'h" where
  "http_request cl method path body h =
     (case cl_exchange cl method path body h of
        (Inl e, h) \<Rightarrow> (Err e, h)
      | (Inr (st, resp), h) \<Rightarrow>
          if 200 \<le> st \<and> st < 300 then (Ok resp, h)
          else let b = newline_to_space (trim resp) in
            (Err (''Home Assistant HTTP '' @ show_nat st @ '' for '' @ method @ '' '' @ path
                  @ (if b = [] then [] else '': '' @ b)), h))"

definition test_connection :: "'h ha_client \<Rightarrow> 'h \<Rightarrow> (string + unit) \<times> 'h" where
  "test_connection cl h = (case http_request cl ''GET'' ''/api/'' None h of
     (Inl e, h) \<Rightarrow> (Err e, h) | (Inr _, h) \<Rightarrow> (Ok (), h))"

definition get_states :: "'h ha_client \<Rightarrow> 'h \<Rightarrow> (string + entity list) \<times> 'h" where
  "get_states cl h = (case http_request cl ''GET'' ''/api/states'' None h of
     (Inl e, h) \<Rightarrow> (Err e, h) | (Inr body, h) \<Rightarrow> (cl_decode_states cl body, h))"

definition services_path :: "string \<Rightarrow> string \<Rightarrow> string" where
  "services_path domain service = ''/api/services/'' @ domain @ ''/'' @ service"

definition call_service ::
  "'h ha_client \<Rightarrow> string \<Rightarrow> string \<Rightarrow> json \<Rightarrow> 'h \<Rightarrow> (string + entity list) \<times> 'h" where
  "call_service cl domain service data h =
     (case http_request cl ''POST'' (services_path domain service) (Some (cl_to_json cl data)) h of
        (Inl e, h) \<Rightarrow> (Err e, h)
      | (Inr body, h) \<Rightarrow>
          if trim body = [] then (Ok [], h)
          else (case cl_decode_states cl body of Inl _ \<Rightarrow> (Ok [], h) | Inr es \<Rightarrow> (Ok es, h)))"

definition render_template_areas :: "string \<Rightarrow> 'h ha_client \<Rightarrow> 'h \<Rightarrow> (string + area_template_entry list) \<times> 'h" where
  "render_template_areas template cl h =
     (case http_request cl ''POST'' ''/api/template'' (Some (cl_to_json cl (JObj [(''template'', JStr template)]))) h of
        (Inl e, h) \<Rightarrow> (Err e, h)
      | (Inr body, h) \<Rightarrow> (case cl_decode_areas cl (trim body) of
            Inl _ \<Rightarrow> (Err (''failed to decode Home Assistant template output: '' @ body), h)
          | Inr areas \<Rightarrow> (Ok areas, h)))"

definition AREA_TEMPLATE :: string where
  "AREA_TEMPLATE = [CHR 10] @ ''{% set ns = namespace(items=[]) %}'' @ [CHR 10]
     @ ''{% for area_id in areas() %}'' @ [CHR 10]
     @ ''  {% set ns.items = ns.items + [{'' @ [CHR 0x22] @ ''id'' @ [CHR 0x22] @ '': area_id, '' @ [CHR 0x22] @ ''name''
     @ [CHR 0x22] @ '': area_name(area_id), '' @ [CHR 0x22] @ ''entities'' @ [CHR 0x22] @ '': area_entities(area_id)}] %}''
     @ [CHR 10] @ ''{% endfor %}'' @ [CHR 10] @ ''{{ ns.items | to_json }}'' @ [CHR 10]"

section \<open>The cached graph\<close>

record 'h ha_world =
  graph_cache :: "(home_graph \<times> nat) option"
  ha_side :: 'h

definition GRAPH_CACHE_TTL_MS :: nat where
  "GRAPH_CACHE_TTL_MS = 300000"

definition with_side :: "('h \<Rightarrow> 'r \<times> 'h) \<Rightarrow> 'h ha_world \<Rightarrow> 'r \<times> 'h ha_world" where
  "with_side f w = (case f (ha_side w) of (r, h) \<Rightarrow> (r, w\<lparr>ha_side := h\<rparr>))"

text \<open>Areas that cannot be loaded count as none.\<close>

definition sync_structure :: "'h ha_client \<Rightarrow> 'h ha_world \<Rightarrow> (string + home_graph) \<times> 'h ha_world" where
  "sync_structure cl w =
     (case with_side (get_states cl) w of
        (Inl e, w) \<Rightarrow> (Err e, w)
      | (Inr states, w) \<Rightarrow>
          let (areas, w) = with_side (render_template_areas AREA_TEMPLATE cl) w;
              areas = (case areas of Inl _ \<Rightarrow> [] | Inr a \<Rightarrow> a);
              graph = build_graph states areas;
              (now, w) = with_side (cl_now cl) w
          in (Ok graph, w\<lparr>graph_cache := Some (graph, now)\<rparr>))"

definition provider_graph :: "'h ha_client \<Rightarrow> 'h ha_world \<Rightarrow> (string + home_graph \<times> bool) \<times> 'h ha_world" where
  "provider_graph cl w =
     (let (now, w') = with_side (cl_now cl) w;
          sync = (\<lambda>w. case sync_structure cl w of (Inl e, w) \<Rightarrow> (Err e, w) | (Inr g, w) \<Rightarrow> (Ok (g, False), w))
      in case graph_cache w of
           None \<Rightarrow> sync w
         | Some (g, synced_at) \<Rightarrow> if now - synced_at < GRAPH_CACHE_TTL_MS then (Ok (g, True), w') else sync w')"

definition provider_health :: "'h ha_client \<Rightarrow> 'h ha_world \<Rightarrow> integration_health \<times> 'h ha_world" where
  "provider_health cl w =
     (let cached = (graph_cache w \<noteq> None); (r, w) = with_side (test_connection cl) w in
      (case r of
         Inr _ \<Rightarrow> \<lparr>connected = True, cached_graph = cached,
             health_message = ''connected to Home Assistant at '' @ cl_host cl @ '':'' @ show_nat (cl_port cl)\<rparr>
       | Inl e \<Rightarrow> \<lparr>connected = False, cached_graph = cached,
             health_message = ''Home Assistant unavailable: '' @ e\<rparr>, w))"

text \<open>A miss on a cached graph refreshes it once; the messages about an unresolved query speak of the
  graph that was read first.\<close>

definition unresolved_message :: "'h ha_client \<Rightarrow> home_graph \<Rightarrow> string \<Rightarrow> string" where
  "unresolved_message cl g query =
     (case ambiguous_named_entity_candidates g query of
        Some candidates \<Rightarrow> quoted query @ '' is ambiguous between '' @ format_disambiguation_candidates candidates
           @ '' '' @ cl_em_dash cl @ '' please say which one you mean''
      | None \<Rightarrow>
          if query_rejects_whole_home_fidelity g query
          then ''I couldn'' @ [CHR 0x27] @ ''t find '' @ quoted query @ '' in this home''
          else ''no Home Assistant target matched '' @ quoted query)"

definition resolve_target ::
  "'h ha_client \<Rightarrow> string \<Rightarrow> home_action_kind option \<Rightarrow> 'h ha_world \<Rightarrow> (string + home_target) \<times> 'h ha_world" where
  "resolve_target cl query hint w =
     (let query = trim query in
      if query = [] then (Err ''missing Home Assistant target'', w)
      else case provider_graph cl w of
        (Inl e, w) \<Rightarrow> (Err e, w)
      | (Inr (graph, from_cache), w) \<Rightarrow>
          (case resolve_target_in_graph graph query hint of
             Some t \<Rightarrow> (Ok t, w)
           | None \<Rightarrow>
               if from_cache
               then (case sync_structure cl w of
                       (Inr refreshed, w) \<Rightarrow>
                         (case resolve_target_in_graph refreshed query hint of
                            Some t \<Rightarrow> (Ok t, w)
                          | None \<Rightarrow> (Err (unresolved_message cl graph query), w))
                     | (Inl e, w) \<Rightarrow> (Err (unresolved_message cl graph query), w))
               else (Err (unresolved_message cl graph query), w)))"

section \<open>The state of a target\<close>

definition is_active_state :: "string \<Rightarrow> bool" where
  "is_active_state s \<longleftrightarrow>
     s \<in> {''on'', ''open'', ''unlocked'', ''playing'', ''heat'', ''cool'', ''auto'', ''heat_cool'', ''dry'', ''fan_only''}"

text \<open>\<open>f64::round\<close> on a value that is not negative: halves go up.\<close>

definition round_half_up :: "rat \<Rightarrow> nat" where
  "round_half_up q = nat \<lfloor>q + 1 / 2\<rfloor>"

definition shown_percent :: "nat \<Rightarrow> nat" where
  "shown_percent v = round_half_up (round_bits 53 (round_bits 53 (f64_of_nat v * 100) / 255))"

definition summarize_state :: "'h ha_client \<Rightarrow> string \<Rightarrow> string option \<Rightarrow> entity list \<Rightarrow> string" where
  "summarize_state cl nm domain es =
     (case es of
        [] \<Rightarrow> ''I couldn'' @ [CHR 0x27] @ ''t read the state for '' @ nm @ ''.''
      | [e] \<Rightarrow>
          (let d = (case domain of Some d \<Rightarrow> d | None \<Rightarrow> '''') in
           if d = ''light''
           then nm @ '' is '' @ ent_state e
             @ (case Option.bind (json_get (attributes e) ''brightness'') json_as_u64 of
                  Some v \<Rightarrow> '', brightness '' @ show_nat (shown_percent v) @ ''%'' | None \<Rightarrow> '''')
           else if d = ''climate''
           then nm @ '' is '' @ ent_state e
             @ (case Option.bind (json_get (attributes e) ''current_temperature'') json_as_f64 of
                  Some v \<Rightarrow> '', currently '' @ cl_show_f64 cl v @ '' degrees'' | None \<Rightarrow> '''')
             @ (case Option.bind (json_get (attributes e) ''temperature'') json_as_f64 of
                  Some v \<Rightarrow> '', target '' @ cl_show_f64 cl v @ '' degrees'' | None \<Rightarrow> '''')
           else nm @ '' is '' @ ent_state e)
      | _ \<Rightarrow>
          (let on_like = length (filter (\<lambda>e. is_active_state (ent_state e)) es);
               unavail = length (filter (\<lambda>e. ent_state e = ''unavailable'') es)
           in nm @ '': '' @ show_nat on_like @ '' of '' @ show_nat (length es) @ '' are active''
              @ (if unavail > 0 then '', '' @ show_nat unavail @ '' unavailable'' else '''')))"

definition get_live_entities :: "'h ha_client \<Rightarrow> string list \<Rightarrow> 'h ha_world \<Rightarrow> (string + entity list) \<times> 'h ha_world" where
  "get_live_entities cl ids w =
     (case with_side (get_states cl) w of
        (Inl e, w) \<Rightarrow> (Err e, w)
      | (Inr states, w) \<Rightarrow> (Ok (filter (\<lambda>e. entity_id e \<in> set ids) states), w))"

definition provider_get_state :: "'h ha_client \<Rightarrow> home_target \<Rightarrow> 'h ha_world \<Rightarrow> (string + home_state) \<times> 'h ha_world" where
  "provider_get_state cl t w =
     (case get_live_entities cl (entity_ids t) w of
        (Inl e, w) \<Rightarrow> (Err e, w)
      | (Inr es, w) \<Rightarrow>
          if es = [] then (Err (''no Home Assistant state available for '' @ display_name t), w)
          else (Ok \<lparr>target_name = display_name t, hs_domain = tgt_domain t, hs_area = tgt_area t, entities = es,
                   available = list_all (\<lambda>e. ent_state e \<noteq> ''unavailable'') es,
                   hs_summary = summarize_state cl (display_name t) (tgt_domain t) es\<rparr>, w))"

section \<open>Carrying out an action\<close>

definition ensure_domain :: "string \<Rightarrow> string list \<Rightarrow> string + unit" where
  "ensure_domain domain allowed_domains =
     (if domain \<in> set allowed_domains then Ok ()
      else Err (''action is not supported for Home Assistant domain '' @ quoted domain))"

text \<open>Percent up to 100, a raw level above; the cast to \<open>u8\<close> saturates and sends NaN to 0.\<close>

fun normalize_brightness :: "flt \<Rightarrow> nat" where
  "normalize_brightness NaN = 0"
| "normalize_brightness NegInf = 0"
| "normalize_brightness PosInf = 255"
| "normalize_brightness (Fin v) =
     (if v \<le> 100
      then round_half_up (round_bits 53 (round_bits 53 (max 0 (min v 100) / 100) * 255))
      else round_half_up (max 0 (min v 255)))"

definition ids_json :: "home_target \<Rightarrow> json" where
  "ids_json t = JArr (map JStr (entity_ids t))"

definition on_entities :: "home_target \<Rightarrow> json" where
  "on_entities t = JObj [(''entity_id'', ids_json t)]"

text \<open>The service an action stands for: its domain, its name and the data.\<close>

definition service_request :: "home_action \<Rightarrow> string + string \<times> string \<times> json" where
  "service_request a =
     (let t = act_target a in
      case tgt_domain t of
        None \<Rightarrow> Err ''unresolved Home Assistant domain''
      | Some domain \<Rightarrow>
          (case act_kind a of
             TurnOn \<Rightarrow> Ok (domain, ''turn_on'', on_entities t)
           | TurnOff \<Rightarrow> Ok (domain, ''turn_off'', on_entities t)
           | Toggle \<Rightarrow> Ok (domain, ''toggle'', on_entities t)
           | SetBrightness \<Rightarrow>
               (case ensure_domain domain [''light''] of
                  Inl e \<Rightarrow> Err e
                | Inr _ \<Rightarrow> (case act_value a of
                      None \<Rightarrow> Err (''set_brightness requires a numeric '' @ quoted ''value'')
                    | Some v \<Rightarrow> Ok (''light'', ''turn_on'',
                        JObj [(''brightness'', JNum (PosInt (normalize_brightness v))), (''entity_id'', ids_json t)])))
           | SetTemperature \<Rightarrow>
               (case ensure_domain domain [''climate''] of
                  Inl e \<Rightarrow> Err e
                | Inr _ \<Rightarrow> (case act_value a of
                      None \<Rightarrow> Err (''set_temperature requires a numeric '' @ quoted ''value'')
                    | Some v \<Rightarrow> Ok (''climate'', ''set_temperature'',
                        JObj [(''entity_id'', ids_json t), (''temperature'', json_of_f64 v)])))
           | OpenIt \<Rightarrow> (case ensure_domain domain [''cover''] of
                  Inl e \<Rightarrow> Err e | Inr _ \<Rightarrow> Ok (''cover'', ''open_cover'', on_entities t))
           | CloseIt \<Rightarrow> (case ensure_domain domain [''cover''] of
                  Inl e \<Rightarrow> Err e | Inr _ \<Rightarrow> Ok (''cover'', ''close_cover'', on_entities t))
           | LockIt \<Rightarrow> (case ensure_domain domain [''lock''] of
                  Inl e \<Rightarrow> Err e | Inr _ \<Rightarrow> Ok (''lock'', ''lock'', on_entities t))
           | UnlockIt \<Rightarrow> (case ensure_domain domain [''lock''] of
                  Inl e \<Rightarrow> Err e | Inr _ \<Rightarrow> Ok (''lock'', ''unlock'', on_entities t))
           | Activate \<Rightarrow>
               (case tgt_kind t of
                  TkScene \<Rightarrow> Ok (''scene'', ''turn_on'', on_entities t)
                | TkScript \<Rightarrow>
                    if \<not> voice_safe t
                    then Err (''script '' @ quoted (display_name t) @ '' is not marked voice-safe for GeniePod'')
                    else Ok (''script'', ''turn_on'', on_entities t)
                | _ \<Rightarrow> Err ''activate is only supported for scenes or voice-safe scripts'')))"

definition action_verb :: "home_action_kind \<Rightarrow> string" where
  "action_verb k = (case k of
     TurnOn \<Rightarrow> ''turned on'' | TurnOff \<Rightarrow> ''turned off'' | Toggle \<Rightarrow> ''toggled'' | SetBrightness \<Rightarrow> ''adjusted''
   | SetTemperature \<Rightarrow> ''updated'' | OpenIt \<Rightarrow> ''opened'' | CloseIt \<Rightarrow> ''closed'' | LockIt \<Rightarrow> ''locked''
   | UnlockIt \<Rightarrow> ''unlocked'' | Activate \<Rightarrow> ''activated'')"

definition build_action_summary :: "home_action \<Rightarrow> home_state option \<Rightarrow> string" where
  "build_action_summary a snapshot =
     (case snapshot of
        Some st \<Rightarrow> hs_summary st
      | None \<Rightarrow> action_verb (act_kind a) @ '' '' @ display_name (act_target a))"

definition provider_execute :: "'h ha_client \<Rightarrow> home_action \<Rightarrow> 'h ha_world \<Rightarrow> (string + action_result) \<times> 'h ha_world" where
  "provider_execute cl a w =
     (case service_request a of
        Inl e \<Rightarrow> (Err e, w)
      | Inr (domain, service, data) \<Rightarrow>
          (case with_side (call_service cl domain service data) w of
             (Inl e, w) \<Rightarrow> (Err e, w)
           | (Inr _, w) \<Rightarrow>
               let t = act_target a;
                   (snapshot, w) = (if tgt_kind t \<in> {TkScene, TkScript} then (None, w)
                     else case provider_get_state cl t w of
                       (Inl e, w) \<Rightarrow> (None, w) | (Inr st, w) \<Rightarrow> (Some st, w))
               in (Ok \<lparr>success = True, spoken_summary = build_action_summary a snapshot,
                       affected_targets = [display_name t], state_snapshot = snapshot,
                       res_confidence = Some (tgt_confidence t)\<rparr>, w)))"

definition in_room :: "string option \<Rightarrow> string option \<Rightarrow> bool" where
  "in_room room area =
     (case (map_option normalize_phrase room, area) of
        (Some r, Some a) \<Rightarrow> normalize_phrase a = r
      | (Some _, None) \<Rightarrow> False
      | (None, _) \<Rightarrow> True)"

definition list_scenes :: "'h ha_client \<Rightarrow> string option \<Rightarrow> 'h ha_world \<Rightarrow> (string + scene_ref list) \<times> 'h ha_world" where
  "list_scenes cl room w = (case provider_graph cl w of
     (Inl e, w) \<Rightarrow> (Err e, w) | (Inr (g, _), w) \<Rightarrow> (Ok (filter (\<lambda>s. in_room room (sr_area s)) (hg_scenes g)), w))"

definition list_devices :: "'h ha_client \<Rightarrow> string option \<Rightarrow> 'h ha_world \<Rightarrow> (string + device_ref list) \<times> 'h ha_world" where
  "list_devices cl room w = (case provider_graph cl w of
     (Inl e, w) \<Rightarrow> (Err e, w) | (Inr (g, _), w) \<Rightarrow> (Ok (filter (\<lambda>d. in_room room (dr_area d)) (hg_devices g)), w))"

text \<open>The provider that the home tools are run with.\<close>

definition ha_provider :: "'h ha_client \<Rightarrow> 'h ha_world provider" where
  "ha_provider cl =
     \<lparr>pv_health = provider_health cl, pv_resolve_target = resolve_target cl,
      pv_get_state = provider_get_state cl, pv_execute = provider_execute cl\<rparr>"

section \<open>What is posted to Home Assistant\<close>

text \<open>\<open>recording\<close> keeps the list of the exchanges beside the state of the client: method, path, body.\<close>

type_synonym exchange = "string \<times> string \<times> string option"

definition recording :: "'h ha_client \<Rightarrow> ('h \<times> exchange list) ha_client" where
  "recording cl =
     \<lparr>cl_host = cl_host cl, cl_port = cl_port cl,
      cl_exchange = (\<lambda>m p b hl. case cl_exchange cl m p b (fst hl) of (r, h) \<Rightarrow> (r, h, snd hl @ [(m, p, b)])),
      cl_to_json = cl_to_json cl, cl_decode_states = cl_decode_states cl, cl_decode_areas = cl_decode_areas cl,
      cl_now = (\<lambda>hl. case cl_now cl (fst hl) of (t, h) \<Rightarrow> (t, h, snd hl)),
      cl_show_f64 = cl_show_f64 cl, cl_em_dash = cl_em_dash cl\<rparr>"

text \<open>The exchanges that ask for a service.\<close>

definition service_posts :: "('h \<times> exchange list) ha_world \<Rightarrow> exchange list" where
  "service_posts w = filter (\<lambda>(m, p, b). starts_with p ''/api/services/'') (snd (ha_side w))"

definition service_post :: "'h ha_client \<Rightarrow> home_action \<Rightarrow> exchange list" where
  "service_post cl a = (case service_request a of
     Inl e \<Rightarrow> []
   | Inr (domain, service, data) \<Rightarrow> [(''POST'', services_path domain service, Some (cl_to_json cl data))])"

text \<open>The operations that only read: no service is asked for and the cache stays as it is.\<close>

definition quiet :: "('h \<times> exchange list) ha_world \<Rightarrow> ('h \<times> exchange list) ha_world \<Rightarrow> bool" where
  "quiet w w' \<longleftrightarrow> service_posts w' = service_posts w"

lemma quiet_refl [simp]: "quiet w w" by (simp add: quiet_def)
lemma quiet_trans: "quiet w w' \<Longrightarrow> quiet w' w'' \<Longrightarrow> quiet w w''" by (simp add: quiet_def)

lemma recording_simps [simp]:
  "cl_decode_states (recording cl) = cl_decode_states cl" "cl_decode_areas (recording cl) = cl_decode_areas cl"
  "cl_to_json (recording cl) = cl_to_json cl" "cl_em_dash (recording cl) = cl_em_dash cl"
  by (simp_all add: recording_def)

lemma recorded_request:
  "http_request (recording cl) m p b hl = (r, hl') \<Longrightarrow> snd hl' = snd hl @ [(m, p, b)]"
  by (auto simp: http_request_def recording_def Let_def split: prod.splits sum.splits if_splits)

lemma recorded_now: "cl_now (recording cl) hl = (r, hl') \<Longrightarrow> snd hl' = snd hl"
  by (auto simp: recording_def split: prod.splits)

lemma with_side_keeps:
  assumes "with_side f w = (r, w')" and "\<And>r hl'. f (ha_side w) = (r, hl') \<Longrightarrow> \<exists>e. snd hl' = snd (ha_side w) @ e
      \<and> list_all (\<lambda>(m, p, b). \<not> starts_with p ''/api/services/'') e"
  shows "quiet w w' \<and> graph_cache w' = graph_cache w"
proof -
  obtain hl' where f: "f (ha_side w) = (r, hl')" "w' = w\<lparr>ha_side := hl'\<rparr>"
    using assms(1) by (auto simp: with_side_def split: prod.splits)
  obtain e where e: "snd hl' = snd (ha_side w) @ e" "list_all (\<lambda>(m, p, b). \<not> starts_with p ''/api/services/'') e"
    using assms(2) [OF f(1)] by blast
  have "filter (\<lambda>(m, p, b). starts_with p ''/api/services/'') e = []"
    using e(2) by (induction e) auto
  then show ?thesis using f(2) e(1) by (simp add: quiet_def service_posts_def)
qed

lemma get_states_quiet:
  "with_side (get_states (recording cl)) w = (r, w') \<Longrightarrow> quiet w w' \<and> graph_cache w' = graph_cache w"
  by (erule with_side_keeps) (auto simp: get_states_def split: prod.splits sum.splits dest!: recorded_request)

lemma areas_quiet:
  "with_side (render_template_areas t (recording cl)) w = (r, w') \<Longrightarrow> quiet w w' \<and> graph_cache w' = graph_cache w"
  by (erule with_side_keeps)
    (auto simp: render_template_areas_def split: prod.splits sum.splits dest!: recorded_request)

lemma test_connection_quiet:
  "with_side (test_connection (recording cl)) w = (r, w') \<Longrightarrow> quiet w w' \<and> graph_cache w' = graph_cache w"
  by (erule with_side_keeps) (auto simp: test_connection_def split: prod.splits sum.splits dest!: recorded_request)

lemma now_quiet:
  "with_side (cl_now (recording cl)) w = (r, w') \<Longrightarrow> quiet w w' \<and> graph_cache w' = graph_cache w"
  by (erule with_side_keeps) (auto dest!: recorded_now)

text \<open>\<open>cache_ok\<close>: the cached graph, if any, was built from reported states.\<close>

definition built_graph :: "home_graph \<Rightarrow> bool" where
  "built_graph g \<longleftrightarrow> (\<exists>states areas. g = build_graph states areas)"

definition cache_ok :: "'h ha_world \<Rightarrow> bool" where
  "cache_ok w \<longleftrightarrow> (case graph_cache w of None \<Rightarrow> True | Some (g, _) \<Rightarrow> built_graph g)"

lemma sync_structure_keeps [rust_invs]:
  assumes "sync_structure (recording cl) w = (r, w')" and "cache_ok w"
  shows "quiet w w' \<and> cache_ok w' \<and> (\<forall>g. r = Inr g \<longrightarrow> built_graph g)"
proof -
  obtain st w1 where st: "with_side (get_states (recording cl)) w = (st, w1)" by force
  show ?thesis
  proof (cases st)
    case (Inl e)
    then show ?thesis using assms st get_states_quiet [OF st] by (auto simp: sync_structure_def cache_ok_def)
  next
    case (Inr states)
    obtain ar w2 where ar: "with_side (render_template_areas AREA_TEMPLATE (recording cl)) w1 = (ar, w2)" by force
    obtain t w3 where t: "with_side (cl_now (recording cl)) w2 = (t, w3)" by force
    define g where "g = build_graph states (case ar of Inl _ \<Rightarrow> [] | Inr a \<Rightarrow> a)"
    have res: "r = Inr g" "w' = w3\<lparr>graph_cache := Some (g, t)\<rparr>"
      using assms(1) st Inr ar t by (simp_all add: sync_structure_def g_def Let_def)
    have "quiet w w3"
      using get_states_quiet [OF st] areas_quiet [OF ar] now_quiet [OF t] quiet_trans by blast
    then show ?thesis using res by (auto simp: quiet_def service_posts_def cache_ok_def built_graph_def g_def)
  qed
qed

lemma provider_graph_keeps:
  assumes "provider_graph (recording cl) w = (r, w')" and "cache_ok w"
  shows "quiet w w' \<and> cache_ok w' \<and> (\<forall>g b. r = Inr (g, b) \<longrightarrow> built_graph g)"
proof -
  obtain t w1 where t: "with_side (cl_now (recording cl)) w = (t, w1)" by force
  have w1: "quiet w w1" "cache_ok w1" using now_quiet [OF t] assms(2) by (auto simp: cache_ok_def)
  have sync: "quiet v w' \<and> cache_ok w' \<and> (\<forall>g b. r = Inr (g, b) \<longrightarrow> built_graph g)"
    if "(case sync_structure (recording cl) v of (Inl e, w) \<Rightarrow> (Err e, w) | (Inr g, w) \<Rightarrow> (Ok (g, False), w)) = (r, w')"
      and "cache_ok v" for v
    using that sync_structure_keeps [of cl v] by (auto split: prod.splits sum.splits)
  show ?thesis
  proof (cases "graph_cache w")
    case None
    then show ?thesis using assms sync [of w] t by (simp add: provider_graph_def)
  next
    case (Some gs)
    obtain g s where gs: "gs = (g, s)" by force
    show ?thesis
    proof (cases "t - s < GRAPH_CACHE_TTL_MS")
      case True
      then show ?thesis using assms Some gs t w1 by (auto simp: provider_graph_def cache_ok_def)
    next
      case False
      then show ?thesis using assms Some gs t w1 sync [of w1] quiet_trans [OF w1(1)]
        by (simp add: provider_graph_def)
    qed
  qed
qed

definition house_target :: "home_target \<Rightarrow> bool" where
  "house_target t \<longleftrightarrow> (\<exists>states. target_of_house states t)"

lemma graph_target: "built_graph g \<Longrightarrow> resolve_target_in_graph g q hint = Some t \<Longrightarrow> house_target t"
  using resolved_target_ok by (auto simp: built_graph_def house_target_def target_opt_ok_def split: option.splits)
    (metis option.simps(5))

lemma resolve_target_keeps:
  assumes "resolve_target (recording cl) q hint w = (r, w')" and "cache_ok w"
  shows "quiet w w' \<and> cache_ok w' \<and> (\<forall>t. r = Inr t \<longrightarrow> house_target t)"
proof (cases "trim q = []")
  case True
  then show ?thesis using assms by (auto simp: resolve_target_def)
next
  case ne: False
  obtain gr w1 where gr: "provider_graph (recording cl) w = (gr, w1)" by force
  note k1 = provider_graph_keeps [OF gr assms(2)]
  show ?thesis
  proof (cases gr)
    case (Inl e)
    then show ?thesis using assms gr k1 ne by (auto simp: resolve_target_def Let_def)
  next
    case (Inr gb)
    obtain g b where gb: "gb = (g, b)" by force
    have g: "built_graph g" using k1 Inr gb by blast
    obtain r2 w2 where s: "sync_structure (recording cl) w1 = (r2, w2)" by force
    have k2: "quiet w w2 \<and> cache_ok w2 \<and> (\<forall>g. r2 = Inr g \<longrightarrow> built_graph g)"
      using sync_structure_keeps [OF s] k1 quiet_trans by blast
    have "r = Inr t \<Longrightarrow> house_target t" for t
      using assms(1) gr Inr gb ne s k2 g graph_target [of _ "trim q" hint t]
      by (auto simp: resolve_target_def Let_def split: option.splits if_splits sum.splits)
    moreover have "w' = w1 \<or> w' = w2"
      using assms(1) gr Inr gb ne s by (auto simp: resolve_target_def Let_def split: option.splits if_splits sum.splits)
    ultimately show ?thesis using k1 k2 by blast
  qed
qed

lemma health_keeps:
  "provider_health (recording cl) w = (r, w') \<Longrightarrow> quiet w w' \<and> graph_cache w' = graph_cache w"
  using test_connection_quiet [of cl w] by (auto simp: provider_health_def Let_def split: prod.splits)

lemma get_state_keeps:
  "provider_get_state (recording cl) t w = (r, w') \<Longrightarrow> quiet w w' \<and> graph_cache w' = graph_cache w"
  using get_states_quiet [of cl w]
  by (auto simp: provider_get_state_def get_live_entities_def split: prod.splits sum.splits if_splits)

lemma call_service_posts:
  "with_side (call_service (recording cl) d s data) w = (r, w') \<Longrightarrow>
     service_posts w' = service_posts w @ [(''POST'', services_path d s, Some (cl_to_json cl data))]"
  by (auto simp: with_side_def call_service_def service_posts_def services_path_def
      split: prod.splits sum.splits if_splits dest!: recorded_request)

lemma execute_posts:
  assumes "provider_execute (recording cl) a w = (r, w')"
  shows "service_posts w' = service_posts w @ service_post cl a"
proof (cases "service_request a")
  case (Inl e)
  then show ?thesis using assms by (simp add: provider_execute_def service_post_def)
next
  case (Inr dsd)
  obtain d s data where dsd: "dsd = (d, s, data)" by (cases dsd)
  obtain r1 w1 where c: "with_side (call_service (recording cl) d s data) w = (r1, w1)" by force
  have "quiet w1 w'"
    using assms Inr dsd c get_state_keeps [of cl "act_target a" w1]
    by (auto simp: provider_execute_def Let_def split: prod.splits sum.splits if_splits)
  then show ?thesis using call_service_posts [OF c] Inr dsd by (simp add: quiet_def service_post_def)
qed

section \<open>Home control over Home Assistant\<close>

lemma read_state_keeps:
  "read_current_state (ha_provider (recording cl)) t w = (r, w') \<Longrightarrow> quiet w w'"
  using get_state_keeps [of cl t w]
  by (auto simp: read_current_state_def ha_provider_def split: if_splits prod.splits sum.splits)

lemma control_execute_posts:
  assumes "control_execute (ha_provider (recording cl)) a pol cfg origin c w = (r, w')"
  shows "service_posts w' = service_posts w \<or> service_posts w' = service_posts w @ service_post cl a"
proof -
  obtain h w1 where h: "provider_health (recording cl) w = (h, w1)" by force
  obtain st w2 where st: "read_current_state (ha_provider (recording cl)) (act_target a) w1 = (st, w2)" by force
  have q: "quiet w w2" using health_keeps [OF h] read_state_keeps [OF st] quiet_trans by blast
  obtain r3 w3 where e: "provider_execute (recording cl) a w2 = (r3, w3)" by force
  have "w' = w2 \<or> w' = w3"
    using assms h st e by (auto simp: control_execute_def ha_provider_def Let_def split: sum.splits if_splits)
  then show ?thesis using q execute_posts [OF e] by (auto simp: quiet_def)
qed

lemma control_posts:
  assumes "control (ha_provider (recording cl)) q action v cfg origin c w = (r, w')" and "cache_ok w"
  shows "service_posts w' = service_posts w
     \<or> (\<exists>a. house_target (act_target a) \<and> parse_action action = Ok (act_kind a) \<and> (dangerous a \<longrightarrow> c)
           \<and> service_posts w' = service_posts w @ service_post cl a)"
proof (cases "parse_action action")
  case (Inl e)
  then show ?thesis using assms by (simp add: control_def)
next
  case (Inr k)
  obtain tr w1 where tr: "resolve_target (recording cl) q (Some k) w = (tr, w1)" by force
  note keep = resolve_target_keeps [OF tr assms(2)]
  show ?thesis
  proof (cases tr)
    case (Inl e)
    then show ?thesis using assms(1) Inr tr keep \<open>parse_action action = Ok k\<close>
      by (simp add: control_def ha_provider_def quiet_def)
  next
    case t: (Inr t)
    let ?a = "\<lparr>act_kind = k, act_target = t, act_value = v\<rparr>"
    let ?pol = "assess_home_action ?a"
    have res: "(r, w') = (Ok (ConfirmationRequired (act_reason ?pol) (display_name t)), w1)
        \<or> (\<exists>e. (r, w') = (Err e, w1)) \<or> (\<exists>x y. (r, w') = (Ok (ConfirmationRequired x y), w1))
        \<or> ((dangerous ?a \<longrightarrow> c) \<and> control_execute (ha_provider (recording cl)) ?a ?pol cfg origin c w1 = (r, w'))"
      using assms(1) Inr tr t by (auto simp: control_def ha_provider_def Let_def assess_allowed_iff split: if_splits)
    then show ?thesis
    proof (elim disjE exE conjE)
      assume d: "dangerous ?a \<longrightarrow> c" and ex: "control_execute (ha_provider (recording cl)) ?a ?pol cfg origin c w1 = (r, w')"
      have "house_target (act_target ?a)" "parse_action action = Ok (act_kind ?a)" using keep t Inr by simp_all
      moreover have "service_posts w1 = service_posts w" using keep by (simp add: quiet_def)
      ultimately show ?thesis using control_execute_posts [OF ex] d by metis
    qed (use keep in \<open>simp_all add: quiet_def\<close>)
  qed
qed

text \<open>\<open>harmless_post\<close>: a request for one service of one domain, naming entities of that domain only,
  which is not the domain of locks, alarms or cameras.\<close>

definition harmless_post :: "'h ha_client \<Rightarrow> exchange \<Rightarrow> bool" where
  "harmless_post cl x \<longleftrightarrow>
     (\<exists>domain service data ids. x = (''POST'', services_path domain service, Some (cl_to_json cl data))
        \<and> json_get data ''entity_id'' = Some (JArr (map JStr ids)) \<and> ids \<noteq> []
        \<and> list_all (\<lambda>i. entity_domain i = domain) ids
        \<and> domain \<notin> {''lock'', ''alarm_control_panel'', ''camera''} \<and> service \<noteq> ''unlock'' \<and> service \<noteq> ''open_cover'')"

lemma service_request_shape:
  assumes "service_request a = Ok (d, s, data)"
  shows "json_get data ''entity_id'' = Some (ids_json (act_target a))"
    and "tgt_domain (act_target a) = Some d \<or> act_kind a = Activate"
    and "act_kind a = Activate \<Longrightarrow> d = ''scene'' \<and> tgt_kind (act_target a) = TkScene
           \<or> d = ''script'' \<and> tgt_kind (act_target a) = TkScript \<and> voice_safe (act_target a)"
    and "s = ''unlock'' \<longleftrightarrow> act_kind a = UnlockIt" and "s = ''open_cover'' \<longleftrightarrow> act_kind a = OpenIt"
  using assms
  by (auto simp: service_request_def Let_def on_entities_def ensure_domain_def
      split: option.splits home_action_kind.splits home_target_kind.splits if_splits sum.splits)

lemma house_target_domain:
  assumes "house_target t"
  shows "\<exists>d. entity_ids t \<noteq> [] \<and> tgt_domain t = Some d \<and> (\<forall>i \<in> set (entity_ids t). entity_domain i = d)
     \<and> (tgt_kind t = TkScene \<longleftrightarrow> d = ''scene'') \<and> (tgt_kind t = TkScript \<longleftrightarrow> d = ''script'')"
proof -
  obtain states where "target_of_house states t" using assms by (auto simp: house_target_def)
  then obtain d where "entity_ids t \<noteq> []" "tgt_domain t = Some d"
    "\<forall>i \<in> set (entity_ids t). entity_domain i = d \<and> i \<in> entity_id ` set states"
    "tgt_kind t = TkScene \<longleftrightarrow> d = ''scene''" "tgt_kind t = TkScript \<longleftrightarrow> d = ''script''"
    unfolding target_of_house_def by metis
  then show ?thesis by (intro exI [of _ d]) simp
qed

lemma service_post_harmless:
  assumes "house_target (act_target a)" and "\<not> dangerous a"
  shows "list_all (harmless_post cl) (service_post cl a)"
proof (cases "service_request a")
  case (Inr dsd)
  obtain d s data where dsd: "dsd = (d, s, data)" by (cases dsd)
  note sh = service_request_shape [OF Inr [unfolded dsd]]
  obtain d' where h: "entity_ids (act_target a) \<noteq> []" "tgt_domain (act_target a) = Some d'"
    "\<forall>i \<in> set (entity_ids (act_target a)). entity_domain i = d'"
    "tgt_kind (act_target a) = TkScene \<longleftrightarrow> d' = ''scene''" "tgt_kind (act_target a) = TkScript \<longleftrightarrow> d' = ''script''"
    using house_target_domain [OF assms(1)] by blast
  have d: "d = d'" using sh(2,3) h by auto
  have "d \<notin> {''lock'', ''alarm_control_panel'', ''camera''}" "act_kind a \<noteq> UnlockIt" "act_kind a \<noteq> OpenIt \<or> d \<noteq> ''cover''"
    using assms(2) h(2) d by (auto simp: dangerous_def target_domain_def)
  moreover have "d = ''cover''" if "act_kind a = OpenIt"
    using Inr dsd that h(2) d by (auto simp: service_request_def Let_def ensure_domain_def split: if_splits)
  ultimately have safe: "d \<notin> {''lock'', ''alarm_control_panel'', ''camera''} \<and> s \<noteq> ''unlock'' \<and> s \<noteq> ''open_cover''"
    using sh(4,5) by blast
  have "list_all (\<lambda>i. entity_domain i = d) (entity_ids (act_target a))"
    using h(3) d by (simp add: list_all_iff)
  then have "harmless_post cl (''POST'', services_path d s, Some (cl_to_json cl data))"
    unfolding harmless_post_def using sh(1) [unfolded ids_json_def] h(1) safe by blast
  then show ?thesis using Inr dsd by (simp add: service_post_def)
qed (simp add: service_post_def)

lemma service_post_length: "length (service_post cl a) \<le> 1"
  by (simp add: service_post_def split: sum.split prod.split)


section \<open>Brightness\<close>

lemma round53_near:
  assumes "0 \<le> q" and "q \<le> c"
  shows "\<bar>round_bits 53 q - q\<bar> \<le> c / 1000000000000000"
proof -
  have "pow2 (- int 53) \<le> 1 / 1000000000000000" by (simp add: pow2_def)
  then have "\<bar>q\<bar> * pow2 (- int 53) \<le> c * (1 / 1000000000000000)"
    using assms by (intro mult_mono) (simp_all add: less_imp_le)
  then show ?thesis using round_bits_error [of 53 q] by simp
qed

lemma round_half_up_near: "0 \<le> q \<Longrightarrow> \<bar>of_nat (round_half_up q) - q\<bar> \<le> 1 / 2"
proof -
  assume "0 \<le> q"
  then have "0 \<le> \<lfloor>q + 1 / 2\<rfloor>" by simp
  then have "(of_nat (round_half_up q) :: rat) = of_int \<lfloor>q + 1 / 2\<rfloor>" by (simp add: round_half_up_def)
  then show ?thesis using floor_correct [of "q + 1 / 2"] by linarith
qed

lemma round_half_up_eq: "\<bar>q - of_nat n\<bar> < 1 / 2 \<Longrightarrow> round_half_up q = n"
proof -
  assume q: "\<bar>q - of_nat n\<bar> < 1 / 2"
  have "of_int (int n) \<le> q + 1 / 2" "q + 1 / 2 < of_int (int n) + 1"
    unfolding of_int_of_nat_eq using q by linarith+
  then have "\<lfloor>q + 1 / 2\<rfloor> = int n" by (rule floor_unique)
  then show ?thesis by (simp add: round_half_up_def)
qed

lemma normalize_brightness_near:
  assumes "p \<le> 100"
  shows "\<bar>of_nat (normalize_brightness (Fin (of_nat p))) - of_nat p * (255 / 100)\<bar> \<le> (501 / 1000 :: rat)"
proof -
  define q :: rat where "q = of_nat p"
  have q: "0 \<le> q" "q \<le> 100" using assms by (simp_all add: q_def)
  define a where "a = round_bits 53 (q / 100)"
  have "\<bar>a - q / 100\<bar> \<le> 1 / 1000000000000000" unfolding a_def using q by (intro round53_near) simp_all
  moreover have "0 \<le> a" unfolding a_def using q by (intro round_bits_nonneg) simp
  ultimately have a: "0 \<le> a * 255" "a * 255 \<le> 256" "\<bar>a * 255 - q * (255 / 100)\<bar> \<le> 1 / 1000000000000"
    using q by linarith+
  define b where "b = round_bits 53 (a * 255)"
  have b: "\<bar>b - a * 255\<bar> \<le> 256 / 1000000000000000" "0 \<le> b"
    unfolding b_def by (rule round53_near [OF a(1,2)], rule round_bits_nonneg [OF a(1)])
  have "normalize_brightness (Fin q) = round_half_up b" using q by (simp add: a_def b_def max_def min_def)
  then have "\<bar>of_nat (normalize_brightness (Fin q)) - b\<bar> \<le> 1 / 2" using round_half_up_near [OF b(2)] by simp
  then show ?thesis using a(3) b(1) unfolding q_def [symmetric] by linarith
qed

text \<open>Setting a light to a whole number of percent and reading it back gives that number: the
  level computed for \<open>p\<close> percent is at most 255, and the percentage shown for that level is \<open>p\<close>,
  through all roundings of the binary floats.\<close>

theorem brightness_roundtrip:
  "shown_percent (normalize_brightness (Fin (of_nat (min p 100)))) = min p 100
     \<and> normalize_brightness (Fin (of_nat p)) \<le> 255"
proof
  define m where "m = min p 100"
  define v where "v = normalize_brightness (Fin (of_nat m))"
  have v: "\<bar>of_nat v - of_nat m * (255 / 100)\<bar> \<le> (501 / 1000 :: rat)"
    unfolding v_def by (rule normalize_brightness_near) (simp add: m_def)
  have m: "(of_nat m :: rat) \<le> 100" "(0 :: rat) \<le> of_nat m" by (simp_all add: m_def)
  have v0: "(0 :: rat) \<le> of_nat v" "(of_nat v :: rat) \<le> 256" using v m by (simp, linarith)
  define c where "c = f64_of_nat v"
  have c: "\<bar>c - of_nat v\<bar> \<le> 256 / 1000000000000000" "0 \<le> c"
    unfolding c_def f64_of_nat_def by (rule round53_near [OF v0], rule round_bits_nonneg [OF v0(1)])
  define d where "d = round_bits 53 (c * 100)"
  have c100: "0 \<le> c * 100" "c * 100 \<le> 25700" using c v0 by linarith+
  have "\<bar>d - c * 100\<bar> \<le> 25700 / 1000000000000000" "0 \<le> d"
    unfolding d_def by (rule round53_near [OF c100], rule round_bits_nonneg [OF c100(1)])
  then have d: "0 \<le> d" "d \<le> 25700" "\<bar>d - of_nat v * 100\<bar> \<le> 1 / 1000000000" using c v0 by linarith+
  define e where "e = round_bits 53 (d / 255)"
  have "\<bar>e - d / 255\<bar> \<le> 200 / 1000000000000000" unfolding e_def using d by (intro round53_near) simp_all
  then have "\<bar>e - of_nat m\<bar> < 1 / 2" using d v by linarith
  then show "shown_percent (normalize_brightness (Fin (of_nat (min p 100)))) = min p 100"
    unfolding m_def [symmetric] v_def [symmetric] shown_percent_def c_def [symmetric] d_def [symmetric]
      e_def [symmetric] by (rule round_half_up_eq)
next
  show "normalize_brightness (Fin (of_nat p)) \<le> 255"
  proof (cases "p \<le> 100")
    case True
    have "(of_nat p :: rat) \<le> 100" using True by simp
    then have "(of_nat (normalize_brightness (Fin (of_nat p))) :: rat) < of_nat 256"
      using normalize_brightness_near [OF True] unfolding of_nat_numeral by linarith
    then show ?thesis by (simp only: of_nat_less_iff)
  next
    case False
    then have "round_half_up (max 0 (min (of_nat p) 255)) = min p 255"
      by (intro round_half_up_eq) (simp add: max_def min_def)
    then show ?thesis using False by simp
  qed
qed

definition sample_client :: "unit ha_client" where
  "sample_client =
     \<lparr>cl_host = ''127.0.0.1'', cl_port = 8123, cl_exchange = (\<lambda>m p b h. (Ok (200, []), h)), cl_to_json = (\<lambda>j. []),
      cl_decode_states = (\<lambda>s. Ok [\<lparr>entity_id = ''light.lamp'', ent_state = ''on'', attributes = JNull\<rparr>]),
      cl_decode_areas = (\<lambda>s. Ok []), cl_now = (\<lambda>h. (0, h)), cl_show_f64 = (\<lambda>f. []), cl_em_dash = []\<rparr>"

definition sample_world :: "(unit \<times> exchange list) ha_world" where
  "sample_world = \<lparr>graph_cache = None, ha_side = ((), [])\<rparr>"


end
