(* ===== verification/Governor.thy ===== *)
theory Governor
  imports Prelude
begin

text \<open>
  The memory governor: operating modes (\<open>genie-common/mode.rs\<close>), service control
  (\<open>genie-governor/service_ctl.rs\<close>), and the mode machine with its control commands
  (\<open>governor.rs\<close>, \<open>control.rs\<close>).

  The host is an argument: the outcome of running a command, the file operations on the media
  marker and the override file, and the insertion of a history row, each passing the state of the
  host along. The wall clock, the local hour and the memory reading of a step are arguments.
\<close>

section \<open>Modes\<close>

datatype gov_mode = Day | NightA | NightB | MediaMode | Pressure

fun required_services :: "gov_mode \<Rightarrow> string list" where
  "required_services Day = [''genie-wakeword'', ''genie-core'', ''llm'', ''genie-mqtt'', ''homeassistant'']"
| "required_services NightA = [''genie-wakeword'', ''genie-core'', ''llm'', ''genie-mqtt'', ''homeassistant'']"
| "required_services NightB = [''genie-wakeword'', ''genie-core'', ''llm'', ''genie-mqtt'']"
| "required_services MediaMode = [''genie-wakeword'', ''genie-core'', ''genie-mqtt'']"
| "required_services Pressure = [''genie-wakeword'', ''genie-core'', ''llm'', ''genie-mqtt'']"

fun stopped_services :: "gov_mode \<Rightarrow> string list" where
  "stopped_services Day = []"
| "stopped_services NightA = []"
| "stopped_services NightB = [''homeassistant'', ''nextcloud'', ''jellyfin'']"
| "stopped_services MediaMode = [''llm'', ''nextcloud'', ''jellyfin'']"
| "stopped_services Pressure = [''nextcloud'', ''jellyfin'']"

fun llm_model :: "gov_mode \<Rightarrow> string option" where
  "llm_model Day = Some ''nemotron-4b-q4_k_m.gguf''"
| "llm_model NightA = Some ''nemotron-4b-q4_k_m.gguf''"
| "llm_model Pressure = Some ''nemotron-4b-q4_k_m.gguf''"
| "llm_model NightB = Some ''nemotron-9b-q4.gguf''"
| "llm_model MediaMode = None"

fun mode_display :: "gov_mode \<Rightarrow> string" where
  "mode_display Day = ''day''"
| "mode_display NightA = ''night_a''"
| "mode_display NightB = ''night_b''"
| "mode_display MediaMode = ''media''"
| "mode_display Pressure = ''pressure''"

section \<open>Configuration\<close>

record pressure_config =
  stop_optins_mb :: nat
  reduce_context_mb :: nat
  swap_stt_mb :: nat
  zram_mb :: nat

record governor_config =
  poll_interval_ms :: nat
  night_start_hour :: nat
  day_start_hour :: nat
  night_model_swap :: bool
  pressure :: pressure_config

text \<open>The configured systemd units; an optional service that is absent is not managed.\<close>

record services_config =
  core_unit :: string
  llm_unit :: string
  api_unit :: string
  homeassistant_unit :: "string option"
  nextcloud_unit :: "string option"
  jellyfin_unit :: "string option"

record config =
  gov :: governor_config
  services :: services_config

definition manages_service_alias :: "config \<Rightarrow> string \<Rightarrow> bool" where
  "manages_service_alias cfg alias =
     (if alias \<in> {''core'', ''genie-core'', ''llm'', ''genie-llm'', ''api'', ''genie-api''} then True
      else if alias = ''homeassistant'' then homeassistant_unit (services cfg) \<noteq> None
      else if alias = ''nextcloud'' then nextcloud_unit (services cfg) \<noteq> None
      else if alias = ''jellyfin'' then jellyfin_unit (services cfg) \<noteq> None
      else True)"

definition service_unit_for_alias :: "config \<Rightarrow> string \<Rightarrow> string option" where
  "service_unit_for_alias cfg alias =
     (if alias \<in> {''core'', ''genie-core''} then Some (core_unit (services cfg))
      else if alias \<in> {''llm'', ''genie-llm''} then Some (llm_unit (services cfg))
      else if alias \<in> {''api'', ''genie-api''} then Some (api_unit (services cfg))
      else if alias = ''homeassistant'' then homeassistant_unit (services cfg)
      else if alias = ''nextcloud'' then nextcloud_unit (services cfg)
      else if alias = ''jellyfin'' then jellyfin_unit (services cfg)
      else if manages_service_alias cfg alias then Some alias
      else None)"

definition llm_service_unit :: "config \<Rightarrow> string" where
  "llm_service_unit cfg =
     (case service_unit_for_alias cfg ''llm'' of Some u \<Rightarrow> u | None \<Rightarrow> ''genie-ai-runtime.service'')"

section \<open>The host and service control\<close>

text \<open>A finished command reports success and its standard error; it may also fail to start or
  exceed the ten-second limit.\<close>

datatype cmd_result = CmdDone bool string | CmdSpawnError string | CmdTimeout

datatype io_error = NotFound | OtherIo string

record 'w host =
  host_run :: "string list \<Rightarrow> 'w \<Rightarrow> cmd_result \<times> 'w"
  host_create_dir :: "string \<Rightarrow> 'w \<Rightarrow> (io_error + unit) \<times> 'w"
  host_write :: "string \<Rightarrow> string \<Rightarrow> 'w \<Rightarrow> (io_error + unit) \<times> 'w"
  host_remove :: "string \<Rightarrow> 'w \<Rightarrow> (io_error + unit) \<times> 'w"
  host_insert_transition :: "nat \<Rightarrow> string \<Rightarrow> string \<Rightarrow> string \<Rightarrow> 'w \<Rightarrow> (string + unit) \<times> 'w"

fun io_error_text :: "io_error \<Rightarrow> string" where
  "io_error_text NotFound = ''No such file or directory (os error 2)''"
| "io_error_text (OtherIo e) = e"

definition MEDIA_MARKER :: string where "MEDIA_MARKER = ''/run/geniepod/media_mode''"

definition timed_out :: "string \<Rightarrow> string" where
  "timed_out what = what @ '' timed out after 10s''"

definition start_unit :: "'w host \<Rightarrow> string \<Rightarrow> 'w \<Rightarrow> (string + unit) \<times> 'w" where
  "start_unit h unit w =
     (case host_run h [''systemctl'', ''start'', unit] w of
        (CmdDone ok stderr, w) \<Rightarrow>
          (if ok then Ok () else Err (''systemctl start '' @ unit @ '' failed: '' @ stderr), w)
      | (CmdSpawnError e, w) \<Rightarrow> (Err e, w)
      | (CmdTimeout, w) \<Rightarrow> (Err (timed_out (''systemctl start '' @ unit)), w))"

definition stop_unit :: "'w host \<Rightarrow> string \<Rightarrow> 'w \<Rightarrow> (string + unit) \<times> 'w" where
  "stop_unit h unit w =
     (case host_run h [''systemctl'', ''stop'', unit] w of
        (CmdDone ok stderr, w) \<Rightarrow>
          (if ok \<or> str_contains stderr ''not loaded'' then Ok ()
           else Err (''systemctl stop '' @ unit @ '' failed: '' @ stderr), w)
      | (CmdSpawnError e, w) \<Rightarrow> (Err e, w)
      | (CmdTimeout, w) \<Rightarrow> (Err (timed_out (''systemctl stop '' @ unit)), w))"

definition is_active :: "'w host \<Rightarrow> string \<Rightarrow> 'w \<Rightarrow> bool \<times> 'w" where
  "is_active h unit w =
     (case host_run h [''systemctl'', ''is-active'', ''--quiet'', unit] w of
        (CmdDone ok stderr, w) \<Rightarrow> (ok, w)
      | (_, w) \<Rightarrow> (False, w))"

definition docker_stop :: "'w host \<Rightarrow> string \<Rightarrow> 'w \<Rightarrow> (string + unit) \<times> 'w" where
  "docker_stop h container w =
     (case host_run h [''docker'', ''stop'', ''-t'', ''10'', container] w of
        (CmdDone ok stderr, w) \<Rightarrow> (Ok (), w)
      | (CmdSpawnError e, w) \<Rightarrow> (Err e, w)
      | (CmdTimeout, w) \<Rightarrow> (Ok (), w))"

definition docker_start :: "'w host \<Rightarrow> string \<Rightarrow> 'w \<Rightarrow> (string + unit) \<times> 'w" where
  "docker_start h container w =
     (case host_run h [''docker'', ''start'', container] w of
        (CmdDone ok stderr, w) \<Rightarrow>
          (if ok then Ok () else Err (''docker start '' @ container @ '' failed: '' @ stderr), w)
      | (CmdSpawnError e, w) \<Rightarrow> (Err e, w)
      | (CmdTimeout, w) \<Rightarrow> (Err (timed_out (''docker start '' @ container)), w))"

definition normalize_systemd_unit :: "string \<Rightarrow> string" where
  "normalize_systemd_unit unit = (if CHR ''.'' \<in> set unit then unit else unit @ ''.service'')"

definition llm_override_dir_for_unit :: "string \<Rightarrow> string" where
  "llm_override_dir_for_unit unit = ''/etc/systemd/system/'' @ normalize_systemd_unit unit @ ''.d''"

definition checked_systemctl :: "'w host \<Rightarrow> string list \<Rightarrow> string \<Rightarrow> 'w \<Rightarrow> (string + unit) \<times> 'w" where
  "checked_systemctl h args what w =
     (case host_run h (''systemctl'' # args) w of
        (CmdDone ok stderr, w) \<Rightarrow> (if ok then Ok () else Err (what @ '' failed: '' @ stderr), w)
      | (CmdSpawnError e, w) \<Rightarrow> (Err e, w)
      | (CmdTimeout, w) \<Rightarrow> (Err (timed_out what), w))"

definition swap_llm_model :: "'w host \<Rightarrow> string \<Rightarrow> string \<Rightarrow> 'w \<Rightarrow> (string + unit) \<times> 'w" where
  "swap_llm_model h unit0 model_path w =
     (let unit = normalize_systemd_unit unit0; dir = llm_override_dir_for_unit unit in
      case host_create_dir h dir w of
        (Inl e, w) \<Rightarrow> (Err (io_error_text e), w)
      | (Inr u, w) \<Rightarrow>
      (case host_write h (dir @ ''/model-override.conf'')
              (''[Service]'' @ [CHR 10] @ ''Environment='' @ [CHR 34] @ ''GENIEPOD_LLM_MODEL='' @ model_path
               @ [CHR 34, CHR 10]) w of
        (Inl e, w) \<Rightarrow> (Err (io_error_text e), w)
      | (Inr u, w) \<Rightarrow>
      (case checked_systemctl h [''daemon-reload''] ''systemctl daemon-reload'' w of
        (Inl e, w) \<Rightarrow> (Err e, w)
      | (Inr u, w) \<Rightarrow> checked_systemctl h [''restart'', unit] (''systemctl restart '' @ unit) w)))"

definition zram_script :: string where
  "zram_script =
     (let nl = [CHR 10]; pad = replicate 12 (CHR '' '') in
      nl @ pad @ ''if [ ! -e /dev/zram0 ]; then'' @ nl @ pad @ ''    modprobe zram num_devices=1'' @ nl
      @ pad @ ''fi'' @ nl @ pad @ ''echo lz4 > /sys/block/zram0/comp_algorithm'' @ nl
      @ pad @ ''echo 2G > /sys/block/zram0/disksize'' @ nl @ pad @ ''mkswap /dev/zram0 2>/dev/null'' @ nl
      @ pad @ ''swapon -p 5 /dev/zram0 2>/dev/null'' @ nl @ replicate 8 (CHR '' ''))"

definition enable_zram :: "'w host \<Rightarrow> 'w \<Rightarrow> (string + unit) \<times> 'w" where
  "enable_zram h w =
     (case host_run h [''sh'', ''-c'', zram_script] w of
        (CmdSpawnError e, w) \<Rightarrow> (Err e, w)
      | (_, w) \<Rightarrow> (Ok (), w))"

section \<open>The governor\<close>

record governor =
  current_mode :: gov_mode
  zram_enabled :: bool
  prune_counter :: nat
  last_mem_avail_mb :: "nat option"

definition new_governor :: governor where
  "new_governor = \<lparr>current_mode = Day, zram_enabled = False, prune_counter = 0, last_mem_avail_mb = None\<rparr>"

record stopped_service =
  ss_alias :: string
  ss_unit :: string

text \<open>Hours are \<open>u8\<close> values; the comparison of the two configured hours decides whether the night
  wraps around midnight.\<close>

definition time_based_mode :: "config \<Rightarrow> nat \<Rightarrow> gov_mode" where
  "time_based_mode cfg hour =
     (let night_start = night_start_hour (gov cfg); day_start = day_start_hour (gov cfg);
          is_night = (if day_start < night_start then night_start \<le> hour \<or> hour < day_start
                      else night_start \<le> hour \<and> hour < day_start)
      in if is_night then (if night_model_swap (gov cfg) then NightB else NightA) else Day)"

definition determine_mode :: "config \<Rightarrow> governor \<Rightarrow> nat \<Rightarrow> nat option \<Rightarrow> bool \<Rightarrow> gov_mode" where
  "determine_mode cfg g hour mem media_active =
     (case mem of
        Some mb \<Rightarrow> if mb < stop_optins_mb (pressure (gov cfg)) then Pressure
                   else if media_active then MediaMode else time_based_mode cfg hour
      | None \<Rightarrow> current_mode g)"

definition determine_mode_after_media :: "config \<Rightarrow> governor \<Rightarrow> nat \<Rightarrow> nat option \<Rightarrow> gov_mode" where
  "determine_mode_after_media cfg g hour mem =
     (case mem of
        Some mb \<Rightarrow> if mb < stop_optins_mb (pressure (gov cfg)) then Pressure else time_based_mode cfg hour
      | None \<Rightarrow> if current_mode g = Pressure then Pressure else time_based_mode cfg hour)"

definition transition_changes_llm_weights :: "gov_mode \<Rightarrow> gov_mode \<Rightarrow> bool" where
  "transition_changes_llm_weights from target =
     (case (llm_model from, llm_model target) of
        (Some a, Some b) \<Rightarrow> a \<noteq> b
      | (Some a, None) \<Rightarrow> True
      | (None, Some b) \<Rightarrow> True
      | (None, None) \<Rightarrow> False)"

definition llm_model_for_transition :: "gov_mode \<Rightarrow> gov_mode \<Rightarrow> string option" where
  "llm_model_for_transition from target =
     (if target = MediaMode then None
      else if transition_changes_llm_weights from target then llm_model target else None)"

datatype media_marker_rollback = RestoreMarker | RemoveMarker | MarkerUnchanged

definition media_marker_rollback_action :: "gov_mode \<Rightarrow> gov_mode \<Rightarrow> media_marker_rollback" where
  "media_marker_rollback_action from target =
     (if from = MediaMode \<and> target \<noteq> MediaMode then RestoreMarker
      else if from \<noteq> MediaMode \<and> target = MediaMode then RemoveMarker
      else MarkerUnchanged)"

datatype llm_rollback = RestoreModel string | StopService | LlmUnchanged

definition llm_rollback_action :: "gov_mode \<Rightarrow> gov_mode \<Rightarrow> llm_rollback" where
  "llm_rollback_action from target =
     (if \<not> transition_changes_llm_weights from target then LlmUnchanged
      else case llm_model from of Some m \<Rightarrow> RestoreModel m | None \<Rightarrow> StopService)"

definition service_aliases_to_restore :: "gov_mode \<Rightarrow> stopped_service list \<Rightarrow> string list" where
  "service_aliases_to_restore from stopped =
     filter (\<lambda>a. a \<in> set (required_services from)) (map ss_alias stopped)"

fun stop_loop ::
  "'w host \<Rightarrow> config \<Rightarrow> string list \<Rightarrow> stopped_service list \<Rightarrow> 'w \<Rightarrow> (string + stopped_service list) \<times> 'w" where
  "stop_loop h cfg [] stopped w = (Ok stopped, w)"
| "stop_loop h cfg (a # as) stopped w =
     (case service_unit_for_alias cfg a of
        None \<Rightarrow> stop_loop h cfg as stopped w
      | Some unit \<Rightarrow>
          (case is_active h unit w of
             (False, w) \<Rightarrow> stop_loop h cfg as stopped w
           | (True, w) \<Rightarrow>
               (case stop_unit h unit w of
                  (Inl e, w) \<Rightarrow> (Err e, w)
                | (Inr u, w) \<Rightarrow> stop_loop h cfg as (stopped @ [\<lparr>ss_alias = a, ss_unit = unit\<rparr>]) w)))"

definition apply_llm_swaps ::
  "'w host \<Rightarrow> config \<Rightarrow> gov_mode \<Rightarrow> gov_mode \<Rightarrow> stopped_service list \<Rightarrow> 'w \<Rightarrow>
     (string + unit) \<times> stopped_service list \<times> 'w" where
  "apply_llm_swaps h cfg from target stopped w =
     (let unit = llm_service_unit cfg in
      if target = MediaMode
      then (case is_active h unit w of
              (False, w) \<Rightarrow> (Ok (), stopped, w)
            | (True, w) \<Rightarrow>
                (case stop_unit h unit w of
                   (Inl e, w) \<Rightarrow> (Err e, stopped, w)
                 | (Inr u, w) \<Rightarrow> (Ok (), stopped @ [\<lparr>ss_alias = ''llm'', ss_unit = unit\<rparr>], w)))
      else case llm_model_for_transition from target of
             Some model \<Rightarrow>
               (case swap_llm_model h unit (''/opt/geniepod/models/'' @ model) w of
                  (r, w) \<Rightarrow> (r, stopped, w))
           | None \<Rightarrow> (Ok (), stopped, w))"

text \<open>The start loop gives back what it started also when it fails.\<close>

fun start_loop ::
  "'w host \<Rightarrow> config \<Rightarrow> string list \<Rightarrow> string list \<Rightarrow> 'w \<Rightarrow> (string + unit) \<times> string list \<times> 'w" where
  "start_loop h cfg [] started w = (Ok (), started, w)"
| "start_loop h cfg (a # as) started w =
     (case service_unit_for_alias cfg a of
        None \<Rightarrow> start_loop h cfg as started w
      | Some unit \<Rightarrow>
          (case is_active h unit w of
             (True, w) \<Rightarrow> start_loop h cfg as started w
           | (False, w) \<Rightarrow>
               (case start_unit h unit w of
                  (Inl e, w) \<Rightarrow> (Err e, started, w)
                | (Inr u, w) \<Rightarrow> start_loop h cfg as (started @ [unit]) w)))"

definition rollback_restore :: "'w host \<Rightarrow> config \<Rightarrow> string \<Rightarrow> 'w \<Rightarrow> 'w" where
  "rollback_restore h cfg a w =
     (case service_unit_for_alias cfg a of None \<Rightarrow> w | Some unit \<Rightarrow> snd (start_unit h unit w))"

definition rollback_marker :: "'w host \<Rightarrow> gov_mode \<Rightarrow> gov_mode \<Rightarrow> 'w \<Rightarrow> 'w" where
  "rollback_marker h from target w =
     (case media_marker_rollback_action from target of
        RestoreMarker \<Rightarrow>
          (case host_create_dir h ''/run/geniepod'' w of
             (Inl e, w) \<Rightarrow> w
           | (Inr u, w) \<Rightarrow> snd (host_write h MEDIA_MARKER ''1'' w))
      | RemoveMarker \<Rightarrow> snd (host_remove h MEDIA_MARKER w)
      | MarkerUnchanged \<Rightarrow> w)"

definition rollback_llm :: "'w host \<Rightarrow> config \<Rightarrow> gov_mode \<Rightarrow> gov_mode \<Rightarrow> 'w \<Rightarrow> 'w" where
  "rollback_llm h cfg from target w =
     (let unit = llm_service_unit cfg in
      case llm_rollback_action from target of
        RestoreModel model \<Rightarrow> snd (swap_llm_model h unit (''/opt/geniepod/models/'' @ model) w)
      | StopService \<Rightarrow>
          (case is_active h unit w of
             (False, w) \<Rightarrow> w
           | (True, w) \<Rightarrow> snd (stop_unit h unit w))
      | LlmUnchanged \<Rightarrow> w)"

definition rollback_transition ::
  "'w host \<Rightarrow> config \<Rightarrow> gov_mode \<Rightarrow> gov_mode \<Rightarrow> stopped_service list \<Rightarrow> string list \<Rightarrow> 'w \<Rightarrow> 'w" where
  "rollback_transition h cfg from target stopped started w =
     rollback_llm h cfg from target
       (rollback_marker h from target
         (fold (rollback_restore h cfg) (service_aliases_to_restore from stopped)
           (fold (\<lambda>unit w. snd (stop_unit h unit w)) (rev started) w)))"

definition transition ::
  "'w host \<Rightarrow> config \<Rightarrow> nat \<Rightarrow> gov_mode \<Rightarrow> governor \<Rightarrow> 'w \<Rightarrow> (string + unit) \<times> governor \<times> 'w" where
  "transition h cfg ts target g w =
     (let from = current_mode g in
      if target = from then (Ok (), g, w)
      else case stop_loop h cfg (stopped_services target) [] w of
        (Inl e, w) \<Rightarrow> (Err e, g, w)
      | (Inr stopped, w) \<Rightarrow>
      (case apply_llm_swaps h cfg from target stopped w of
        (Inl e, stopped, w) \<Rightarrow> (Err e, g, rollback_transition h cfg from target stopped [] w)
      | (Inr u, stopped, w) \<Rightarrow>
      (let w = (if from = MediaMode then snd (host_remove h MEDIA_MARKER w) else w) in
       case start_loop h cfg (required_services target) [] w of
        (Inl e, started, w) \<Rightarrow> (Err e, g, rollback_transition h cfg from target stopped started w)
      | (Inr u, started, w) \<Rightarrow>
      (case host_insert_transition h ts (mode_display from) (mode_display target)
              (mode_display from @ '' -> '' @ mode_display target) w of
        (Inl e, w) \<Rightarrow> (Err e, g, w)
      | (Inr u, w) \<Rightarrow> (Ok (), g\<lparr>current_mode := target\<rparr>, w)))))"

definition read_mem_avail_mb :: "string + nat \<Rightarrow> governor \<Rightarrow> nat option \<times> governor" where
  "read_mem_avail_mb reading g =
     (case reading of
        Inr mb \<Rightarrow> (Some mb, g\<lparr>last_mem_avail_mb := Some mb\<rparr>)
      | Inl e \<Rightarrow> (last_mem_avail_mb g, g))"

definition optin_stop :: "'w host \<Rightarrow> config \<Rightarrow> string \<Rightarrow> 'w \<Rightarrow> 'w" where
  "optin_stop h cfg alias w =
     (if manages_service_alias cfg alias then snd (docker_stop h alias w) else w)"

definition handle_pressure ::
  "'w host \<Rightarrow> config \<Rightarrow> nat \<Rightarrow> governor \<Rightarrow> 'w \<Rightarrow> (string + unit) \<times> governor \<times> 'w" where
  "handle_pressure h cfg mb g w =
     (let p = pressure (gov cfg);
          (r, g, w) = (if mb < zram_mb p \<and> \<not> zram_enabled g
                       then case enable_zram h w of
                              (Inl e, w) \<Rightarrow> (Err e, g, w)
                            | (Inr u, w) \<Rightarrow> (Ok (), g\<lparr>zram_enabled := True\<rparr>, w)
                       else (Ok (), g, w))
      in case r of
           Inl e \<Rightarrow> (Err e, g, w)
         | Inr u \<Rightarrow>
             (Ok (), g, if mb < stop_optins_mb p
                        then optin_stop h cfg ''jellyfin'' (optin_stop h cfg ''nextcloud'' w) else w))"

text \<open>One tick. Recording the sensor snapshot and pruning the database are side effects on the
  store whose result the code ignores; the counter of the hourly pruning is kept.\<close>

definition tick ::
  "'w host \<Rightarrow> config \<Rightarrow> nat \<Rightarrow> nat \<Rightarrow> string + nat \<Rightarrow> bool \<Rightarrow> governor \<Rightarrow> 'w \<Rightarrow>
     (string + unit) \<times> governor \<times> 'w" where
  "tick h cfg ts hour reading media_active g w =
     (let (mem, g) = read_mem_avail_mb reading g;
          target = determine_mode cfg g hour mem media_active;
          (r, g, w) = (if target \<noteq> current_mode g then transition h cfg ts target g w else (Ok (), g, w))
      in case r of
           Inl e \<Rightarrow> (Err e, g, w)
         | Inr u \<Rightarrow>
      (let (r, g, w) = (case mem of Some mb \<Rightarrow> handle_pressure h cfg mb g w | None \<Rightarrow> (Ok (), g, w))
       in case r of
           Inl e \<Rightarrow> (Err e, g, w)
         | Inr u \<Rightarrow>
             (Ok (), g\<lparr>prune_counter := (if 720 \<le> prune_counter g + 1 then 0 else prune_counter g + 1)\<rparr>, w)))"

datatype command = SetMode gov_mode | MediaStart | MediaStop | Status

datatype reply = ReplyOk gov_mode | ReplyError string | ReplyStatus gov_mode "nat option" nat

definition reply_of :: "gov_mode \<Rightarrow> (string + unit) \<times> governor \<times> 'w \<Rightarrow> reply \<times> governor \<times> 'w" where
  "reply_of m rgw =
     (case rgw of (Inr u, g, w) \<Rightarrow> (ReplyOk m, g, w) | (Inl e, g, w) \<Rightarrow> (ReplyError e, g, w))"

definition handle_command ::
  "'w host \<Rightarrow> config \<Rightarrow> nat \<Rightarrow> nat \<Rightarrow> string + nat \<Rightarrow> nat \<Rightarrow> command \<Rightarrow> governor \<Rightarrow> 'w \<Rightarrow>
     reply \<times> governor \<times> 'w" where
  "handle_command h cfg ts hour reading uptime cmd g w =
     (case cmd of
        SetMode m \<Rightarrow> reply_of m (transition h cfg ts m g w)
      | MediaStart \<Rightarrow>
          (case host_create_dir h ''/run/geniepod'' w of
             (Inl e, w) \<Rightarrow> (ReplyError (io_error_text e), g, w)
           | (Inr u, w) \<Rightarrow>
               (case host_write h MEDIA_MARKER ''1'' w of
                  (Inl e, w) \<Rightarrow> (ReplyError (io_error_text e), g, w)
                | (Inr u, w) \<Rightarrow> reply_of MediaMode (transition h cfg ts MediaMode g w)))
      | MediaStop \<Rightarrow>
          (let (mem, g) = read_mem_avail_mb reading g in
           case host_remove h MEDIA_MARKER w of
             (Inl (OtherIo e), w) \<Rightarrow> (ReplyError e, g, w)
           | (_, w) \<Rightarrow>
               let target = determine_mode_after_media cfg g hour mem
               in reply_of target (transition h cfg ts target g w))
      | Status \<Rightarrow>
          (let (mem, g) = read_mem_avail_mb reading g in (ReplyStatus (current_mode g) mem uptime, g, w)))"

section \<open>Mode changes: lemmas\<close>

lemma rollback_keeps_governor:
  "transition h cfg ts target g w = (r, g', w') \<Longrightarrow>
     (r = Ok () \<and> g' = g\<lparr>current_mode := target\<rparr>) \<or> ((\<exists>e. r = Err e) \<and> g' = g)"
  by (auto simp: transition_def Let_def split: if_splits sum.splits prod.splits)

lemma handle_pressure_keeps:
  "handle_pressure h cfg mb g w = (r, g', w') \<Longrightarrow> g' = g \<or> g' = g\<lparr>zram_enabled := True\<rparr>"
proof (cases "mb < zram_mb (pressure (gov cfg)) \<and> \<not> zram_enabled g")
  case True
  obtain r1 w1 where "enable_zram h w = (r1, w1)" by (rule prod.exhaust)
  moreover assume "handle_pressure h cfg mb g w = (r, g', w')"
  ultimately show ?thesis using True by (cases r1) (simp_all add: handle_pressure_def Let_def)
qed (simp add: handle_pressure_def Let_def)

lemma time_based_mode_cases: "time_based_mode cfg hour \<in> {Day, NightA, NightB}"
  "time_based_mode cfg hour = NightB \<Longrightarrow> night_model_swap (gov cfg)"
  by (auto simp: time_based_mode_def Let_def split: if_splits)

section \<open>Services: lemmas\<close>

text \<open>What the governor relies on of \<open>systemctl\<close>: a successful start, restart or stop has its effect
  on that unit and on no other managed unit, \<open>is-active\<close> answers truthfully, and reloading, file
  operations and history rows change no unit. \<open>active\<close> is the set of active units of a host state.\<close>

definition systemd_like :: "'w host \<Rightarrow> ('w \<Rightarrow> string set) \<Rightarrow> bool" where
  "systemd_like h active \<longleftrightarrow>
     (\<forall>u w e w'. host_run h [''systemctl'', ''start'', u] w = (CmdDone True e, w') \<longrightarrow>
        active w' = insert u (active w)) \<and>
     (\<forall>u w e w'. host_run h [''systemctl'', ''restart'', u] w = (CmdDone True e, w') \<longrightarrow>
        active w' = insert u (active w)) \<and>
     (\<forall>u w ok e w'. host_run h [''systemctl'', ''stop'', u] w = (CmdDone ok e, w') \<and>
        (ok \<or> str_contains e ''not loaded'') \<longrightarrow> active w' = active w - {u}) \<and>
     (\<forall>u w. \<exists>e w'. host_run h [''systemctl'', ''is-active'', ''--quiet'', u] w = (CmdDone (u \<in> active w) e, w')
        \<and> active w' = active w) \<and>
     (\<forall>w r w'. host_run h [''systemctl'', ''daemon-reload''] w = (r, w') \<longrightarrow> active w' = active w) \<and>
     (\<forall>d w r w'. host_create_dir h d w = (r, w') \<longrightarrow> active w' = active w) \<and>
     (\<forall>f c w r w'. host_write h f c w = (r, w') \<longrightarrow> active w' = active w) \<and>
     (\<forall>f w r w'. host_remove h f w = (r, w') \<longrightarrow> active w' = active w) \<and>
     (\<forall>ts a b c w r w'. host_insert_transition h ts a b c w = (r, w') \<longrightarrow> active w' = active w)"

definition units_of :: "config \<Rightarrow> string list \<Rightarrow> string set" where
  "units_of cfg as = {u. \<exists>a \<in> set as. service_unit_for_alias cfg a = Some u}"

lemma units_of_simps [simp]:
  "units_of cfg [] = {}"
  "units_of cfg (a # as) = set_option (service_unit_for_alias cfg a) \<union> units_of cfg as"
  by (auto simp: units_of_def)

lemma systemd_like_is_active:
  "systemd_like h active \<Longrightarrow>
     \<exists>e w'. host_run h [''systemctl'', ''is-active'', ''--quiet'', u] w = (CmdDone (u \<in> active w) e, w')
       \<and> active w' = active w"
  unfolding systemd_like_def by (elim conjE) simp

lemma systemd_like_remove: "systemd_like h active \<Longrightarrow> active (snd (host_remove h f w)) = active w"
  unfolding systemd_like_def by (cases "host_remove h f w") simp

lemma is_active_effect:
  assumes "systemd_like h active"
  shows "\<exists>w'. is_active h u w = (u \<in> active w, w') \<and> active w' = active w"
proof -
  obtain e w' where "host_run h [''systemctl'', ''is-active'', ''--quiet'', u] w = (CmdDone (u \<in> active w) e, w')"
    "active w' = active w"
    using systemd_like_is_active [OF assms] by blast
  then show ?thesis by (simp add: is_active_def)
qed

lemma start_unit_effect:
  "systemd_like h active \<Longrightarrow> start_unit h u w = (Inr x, w') \<Longrightarrow> active w' = insert u (active w)"
  unfolding systemd_like_def start_unit_def by (auto split: prod.splits cmd_result.splits if_splits)

lemma stop_unit_effect:
  "systemd_like h active \<Longrightarrow> stop_unit h u w = (Inr x, w') \<Longrightarrow> active w' = active w - {u}"
  unfolding systemd_like_def stop_unit_def by (auto split: prod.splits cmd_result.splits if_splits)

lemma swap_effect:
  assumes "systemd_like h active" and "swap_llm_model h u m w = (Inr x, w')"
  shows "active w' = insert (normalize_systemd_unit u) (active w)"
proof -
  have sys: "checked_systemctl h [''daemon-reload''] k v = (r, v') \<Longrightarrow> active v' = active v"
    "checked_systemctl h [''restart'', n] k v = (Inr y, v') \<Longrightarrow> active v' = insert n (active v)"
    for k v r v' n y
    using assms(1) unfolding systemd_like_def checked_systemctl_def
    by (auto split: prod.splits cmd_result.splits if_splits)
  have fs: "host_create_dir h d v = (r, v') \<Longrightarrow> active v' = active v"
    "host_write h f c v = (r, v') \<Longrightarrow> active v' = active v" for d f c v r v'
    using assms(1) unfolding systemd_like_def by (elim conjE, simp)+
  show ?thesis
    using assms(2) unfolding swap_llm_model_def Let_def
    by (auto split: prod.splits sum.splits dest!: sys fs)
qed

lemma stop_loop_effect:
  assumes "systemd_like h active"
  shows "stop_loop h cfg as st w = (Inr st', w') \<Longrightarrow> active w' = active w - units_of cfg as"
proof (induction as arbitrary: st w)
  case (Cons a as)
  show ?case
  proof (cases "service_unit_for_alias cfg a")
    case None
    then show ?thesis using Cons by simp
  next
    case (Some u)
    obtain w1 where i: "is_active h u w = (u \<in> active w, w1)" "active w1 = active w"
      using is_active_effect [OF assms] by blast
    show ?thesis
    proof (cases "u \<in> active w")
      case False
      then show ?thesis using Cons.prems Cons.IH [of st w1] Some i by (auto simp: split: bool.splits)
    next
      case True
      obtain r w2 where s: "stop_unit h u w1 = (r, w2)" by (rule prod.exhaust)
      then obtain x where "r = Inr x" using Cons.prems Some i True by (cases r) auto
      then show ?thesis
        using Cons.prems Cons.IH [of "st @ [\<lparr>ss_alias = a, ss_unit = u\<rparr>]" w2] Some i True s
          stop_unit_effect [OF assms, of u w1 x w2] by auto
    qed
  qed
qed simp

lemma start_loop_effect:
  assumes "systemd_like h active"
  shows "start_loop h cfg as st w = (Inr x, st', w') \<Longrightarrow> active w' = active w \<union> units_of cfg as"
proof (induction as arbitrary: st w)
  case (Cons a as)
  show ?case
  proof (cases "service_unit_for_alias cfg a")
    case None
    then show ?thesis using Cons by simp
  next
    case (Some u)
    obtain w1 where i: "is_active h u w = (u \<in> active w, w1)" "active w1 = active w"
      using is_active_effect [OF assms] by blast
    show ?thesis
    proof (cases "u \<in> active w")
      case True
      then show ?thesis using Cons.prems Cons.IH [of st w1] Some i by auto
    next
      case False
      obtain r w2 where s: "start_unit h u w1 = (r, w2)" by (rule prod.exhaust)
      then obtain y where "r = Inr y" using Cons.prems Some i False by (cases r) auto
      then show ?thesis
        using Cons.prems Cons.IH [of "st @ [u]" w2] Some i False s
          start_unit_effect [OF assms, of u w1 y w2] by auto
    qed
  qed
qed simp

lemma llm_swaps_effect:
  assumes "systemd_like h active" and "apply_llm_swaps h cfg from target st w = (Inr x, st', w')"
  shows "if target = MediaMode then active w' = active w - {llm_service_unit cfg}
         else active w' \<subseteq> insert (normalize_systemd_unit (llm_service_unit cfg)) (active w) \<and> active w \<subseteq> active w'"
proof -
  obtain w1 where i: "is_active h (llm_service_unit cfg) w = (llm_service_unit cfg \<in> active w, w1)"
    "active w1 = active w" using is_active_effect [OF assms(1)] by blast
  show ?thesis
    using assms(2) i stop_unit_effect [OF assms(1), of "llm_service_unit cfg" w1]
      swap_effect [OF assms(1), of "llm_service_unit cfg" _ w]
    by (auto simp: apply_llm_swaps_def Let_def split: if_splits bool.splits prod.splits sum.splits option.splits)
qed

text \<open>The units that a mode stops are apart from those it needs.\<close>

definition units_apart :: "config \<Rightarrow> gov_mode \<Rightarrow> bool" where
  "units_apart cfg m \<longleftrightarrow> units_of cfg (stopped_services m) \<inter> units_of cfg (required_services m) = {}
     \<and> (m \<noteq> MediaMode \<longrightarrow> normalize_systemd_unit (llm_service_unit cfg) \<notin> units_of cfg (stopped_services m))"

lemma transition_effect:
  assumes "systemd_like h active" and "units_apart cfg target" and "target \<noteq> current_mode g"
    and "transition h cfg ts target g w = (Inr x, g', w')"
  shows "units_of cfg (required_services target) \<subseteq> active w'
    \<and> units_of cfg (stopped_services target) \<inter> active w' = {}"
proof -
  let ?from = "current_mode g" and ?S = "units_of cfg (stopped_services target)"
    and ?R = "units_of cfg (required_services target)"
  obtain r1 w1 where s1: "stop_loop h cfg (stopped_services target) [] w = (r1, w1)" by (rule prod.exhaust)
  then obtain stopped where r1: "r1 = Inr stopped"
    using assms(3,4) by (cases r1) (auto simp: transition_def Let_def)
  have a1: "active w1 = active w - ?S" using stop_loop_effect [OF assms(1)] s1 r1 by blast
  obtain r2 st2 w2 where s2: "apply_llm_swaps h cfg ?from target stopped w1 = (r2, st2, w2)"
    by (rule prod_cases3)
  then obtain y where r2: "r2 = Inr y"
    using assms(3,4) s1 r1 by (cases r2) (auto simp: transition_def Let_def)
  note a2 = llm_swaps_effect [OF assms(1) s2 [unfolded r2]]
  let ?w3 = "if ?from = MediaMode then snd (host_remove h MEDIA_MARKER w2) else w2"
  have a3: "active ?w3 = active w2"
    using systemd_like_remove [OF assms(1)] by simp
  obtain r4 st4 w4 where s4: "start_loop h cfg (required_services target) [] ?w3 = (r4, st4, w4)"
    by (rule prod_cases3)
  then obtain z where r4: "r4 = Inr z"
    using assms(3,4) s1 r1 s2 r2 by (cases r4) (auto simp: transition_def Let_def)
  have a4: "active w4 = active ?w3 \<union> ?R" using start_loop_effect [OF assms(1)] s4 r4 by blast
  have a5: "active w' = active w4"
    using assms(1,3,4) s1 r1 s2 r2 s4 r4
    by (auto simp: transition_def Let_def systemd_like_def split: sum.splits prod.splits)
  have "active w2 \<inter> ?S = {}"
    using a1 a2 assms(2) by (auto simp: units_apart_def split: if_splits)
  then show ?thesis using a3 a4 a5 assms(2) by (auto simp: units_apart_def)
qed

section \<open>A host for the examples\<close>

text \<open>A host that carries out every command, except those in a given list, which fail. Its state is
  the list of active units.\<close>

definition demo_host :: "string list list \<Rightarrow> string list host" where
  "demo_host failing =
     \<lparr>host_run = (\<lambda>args w.
        if args \<in> set failing then (CmdDone False ''denied'', w)
        else case args of
          [c, op, u] \<Rightarrow>
            if op = ''start'' \<or> op = ''restart'' then (CmdDone True '''', u # w)
            else if op = ''stop'' then (CmdDone True '''', filter (\<lambda>v. v \<noteq> u) w)
            else (CmdDone True '''', w)
        | [c, op, q, u] \<Rightarrow> (CmdDone (u \<in> set w) '''', w)
        | _ \<Rightarrow> (CmdDone True '''', w)),
      host_create_dir = (\<lambda>d w. (Ok (), w)), host_write = (\<lambda>f c w. (Ok (), w)),
      host_remove = (\<lambda>f w. (Ok (), w)), host_insert_transition = (\<lambda>ts a b c w. (Ok (), w))\<rparr>"

lemma demo_host_systemd_like: "systemd_like (demo_host []) set"
  by (auto simp: systemd_like_def demo_host_def)

definition demo_config :: config where
  "demo_config =
     \<lparr>gov = \<lparr>poll_interval_ms = 5000, night_start_hour = 23, day_start_hour = 6, night_model_swap = False,
        pressure = \<lparr>stop_optins_mb = 500, reduce_context_mb = 300, swap_stt_mb = 200, zram_mb = 100\<rparr>\<rparr>,
      services = \<lparr>core_unit = ''genie-core.service'', llm_unit = ''genie-llm.service'',
        api_unit = ''genie-api.service'', homeassistant_unit = None,
        nextcloud_unit = Some ''nextcloud.service'', jellyfin_unit = None\<rparr>\<rparr>"

lemma demo_units_apart: "units_apart demo_config MediaMode"
  by (simp add: units_apart_def demo_config_def service_unit_for_alias_def manages_service_alias_def)

section \<open>Properties\<close>

text \<open>A mode change is all or nothing for the governor. A transition that reports success leaves
  the governor in the target mode and changes nothing else of it; one that reports an error leaves
  the governor as it was. A command never leaves the mode anywhere but where its reply says.\<close>

theorem transition_commits_or_keeps:
  "(case transition h cfg ts target g w of
      (Inr u, g', w') \<Rightarrow> g' = g\<lparr>current_mode := target\<rparr>
    | (Inl e, g', w') \<Rightarrow> g' = g)
   \<and> (case handle_command h cfg ts hour reading uptime cmd g w of
        (ReplyOk m, g', w') \<Rightarrow> current_mode g' = m
      | (ReplyError e, g', w') \<Rightarrow> current_mode g' = current_mode g
      | (ReplyStatus m mem up, g', w') \<Rightarrow> current_mode g' = m \<and> m = current_mode g)"
proof -
  have reply: "case reply_of m (transition h cfg ts m g1 w1) of
      (ReplyOk m, g', w') \<Rightarrow> current_mode g' = m
    | (ReplyError e, g', w') \<Rightarrow> current_mode g' = current_mode g1
    | (ReplyStatus m mem up, g', w') \<Rightarrow> False" for m g1 w1
    using rollback_keeps_governor [of h cfg ts m g1 w1]
    by (cases "transition h cfg ts m g1 w1" rule: prod_cases3)
      (auto simp: reply_of_def split: sum.splits)
  have mem: "current_mode (snd (read_mem_avail_mb reading g)) = current_mode g"
    by (simp add: read_mem_avail_mb_def split: sum.splits)
  have "case handle_command h cfg ts hour reading uptime cmd g w of
        (ReplyOk m, g', w') \<Rightarrow> current_mode g' = m
      | (ReplyError e, g', w') \<Rightarrow> current_mode g' = current_mode g
      | (ReplyStatus m mem up, g', w') \<Rightarrow> current_mode g' = m \<and> m = current_mode g"
  proof (cases cmd)
    case MediaStop
    obtain m g1 where r: "read_mem_avail_mb reading g = (m, g1)" by (rule prod.exhaust)
    let ?t = "determine_mode_after_media cfg g1 hour m"
    show ?thesis
      using MediaStop r mem reply [where m = ?t and ?g1.0 = g1 and ?w1.0 = "snd (host_remove h MEDIA_MARKER w)"]
      by (cases "host_remove h MEDIA_MARKER w")
        (auto simp: handle_command_def Let_def split: sum.splits io_error.splits prod.splits reply.splits)
  next
    case (SetMode m)
    then show ?thesis using reply [where m = m and ?g1.0 = g and ?w1.0 = w]
      by (auto simp: handle_command_def split: prod.splits reply.splits)
  next
    case MediaStart
    then show ?thesis using reply [where m = MediaMode and ?g1.0 = g]
      by (fastforce simp: handle_command_def split: prod.splits sum.splits reply.splits)
  next
    case Status
    then show ?thesis using mem by (auto simp: handle_command_def split: prod.splits)
  qed
  moreover have "case transition h cfg ts target g w of
      (Inr u, g', w') \<Rightarrow> g' = g\<lparr>current_mode := target\<rparr> | (Inl e, g', w') \<Rightarrow> g' = g"
    using rollback_keeps_governor [of h cfg ts target g w]
    by (cases "transition h cfg ts target g w" rule: prod_cases3) (auto split: sum.splits)
  ultimately show ?thesis by blast
qed

text \<open>A tick follows the selection. A tick that succeeds leaves the governor in the mode selected
  for the memory level it read (the last known level when the reading failed), the hour and the
  media marker; a tick that fails leaves it in the old mode or, when only the pressure response
  failed, in the selected one. The last known level is the last successful reading, compressed swap
  is never marked as disabled again, and the pruning counter stays below one hour of ticks.\<close>

theorem tick_follows_selection:
  "let mem = (case reading of Inr mb \<Rightarrow> Some mb | Inl e \<Rightarrow> last_mem_avail_mb g);
       target = determine_mode cfg g hour mem media
   in case tick h cfg ts hour reading media g w of
        (r, g', w') \<Rightarrow>
          (if r = Ok () then current_mode g' = target \<and> prune_counter g' < 720
           else current_mode g' \<in> {current_mode g, target} \<and> prune_counter g' = prune_counter g)
          \<and> last_mem_avail_mb g' = mem \<and> (zram_enabled g \<le> zram_enabled g')"
proof -
  obtain mem g1 where m: "read_mem_avail_mb reading g = (mem, g1)" by (rule prod.exhaust)
  have mem: "mem = (case reading of Inr mb \<Rightarrow> Some mb | Inl e \<Rightarrow> last_mem_avail_mb g)"
    and g1: "g1 = g\<lparr>last_mem_avail_mb := mem\<rparr>"
    using m by (auto simp: read_mem_avail_mb_def split: sum.splits)
  let ?t = "determine_mode cfg g hour mem media"
  have t: "determine_mode cfg g1 hour mem media = ?t"
    by (simp add: g1 determine_mode_def split: option.splits)
  obtain r2 g2 w2 where s2: "(if ?t \<noteq> current_mode g1 then transition h cfg ts ?t g1 w else (Ok (), g1, w)) = (r2, g2, w2)"
    by (rule prod_cases3)
  then have g2: "(r2 = Ok () \<and> g2 = g1\<lparr>current_mode := ?t\<rparr>) \<or> ((\<exists>e. r2 = Err e) \<and> g2 = g1)"
    using rollback_keeps_governor [of h cfg ts ?t g1 w r2 g2 w2] by (auto split: if_splits)
  obtain r3 g3 w3 where
    s3: "(case mem of Some mb \<Rightarrow> handle_pressure h cfg mb g2 w2 | None \<Rightarrow> (Ok (), g2, w2)) = (r3, g3, w3)"
    by (rule prod_cases3)
  then have g3: "g3 = g2 \<or> g3 = g2\<lparr>zram_enabled := True\<rparr>"
    using handle_pressure_keeps [of h cfg "the mem" g2 w2 r3 g3 w3] by (cases mem) auto
  have tick: "tick h cfg ts hour reading media g w =
      (case r2 of Inl e \<Rightarrow> (Err e, g2, w2)
       | Inr u \<Rightarrow> (case r3 of Inl e \<Rightarrow> (Err e, g3, w3)
          | Inr u \<Rightarrow> (Ok (), g3\<lparr>prune_counter := (if 720 \<le> prune_counter g3 + 1 then 0 else prune_counter g3 + 1)\<rparr>, w3)))"
    unfolding tick_def m prod.case Let_def t s2 s3 ..
  show ?thesis
    using g2 g3 unfolding tick mem [symmetric] Let_def
    by (cases r2; cases r3) (auto simp: g1)
qed

text \<open>Mode selection. Low memory always means the pressure mode; an unknown level holds the
  current mode; otherwise an active marker means media, and the hour decides. The night model swap
  is only chosen when configured, and stopping media never selects media again.\<close>

theorem mode_selection:
  "(determine_mode cfg g hour (Some mb) media = Pressure \<longleftrightarrow> mb < stop_optins_mb (pressure (gov cfg)))
   \<and> (determine_mode cfg g hour (Some mb) media = MediaMode \<longleftrightarrow>
        \<not> mb < stop_optins_mb (pressure (gov cfg)) \<and> media)
   \<and> determine_mode cfg g hour None media = current_mode g
   \<and> (determine_mode cfg g hour (Some mb) media = NightB \<longrightarrow> night_model_swap (gov cfg))
   \<and> determine_mode_after_media cfg g hour mem \<noteq> MediaMode
   \<and> (current_mode g = Pressure \<longrightarrow> determine_mode_after_media cfg g hour None = Pressure)"
  using time_based_mode_cases [of cfg hour]
  by (auto simp: determine_mode_def determine_mode_after_media_def split: option.splits)

theorem mode_selection_witness:
  "determine_mode_after_media demo_config (new_governor\<lparr>current_mode := Pressure\<rparr>) 12 None = Pressure
   \<and> determine_mode demo_config new_governor 12 (Some 499) True = Pressure"
  using mode_selection [of demo_config "new_governor\<lparr>current_mode := Pressure\<rparr>" 12 499 True None]
    mode_selection [of demo_config new_governor 12 499 True None]
  by (simp add: demo_config_def)



text \<open>A failed stop is not rolled back. When stopping the second service of the target mode
  fails, the transition reports the error and stays in day mode, but the language model service
  that was stopped first, which day mode requires, is left down.\<close>

theorem failed_stop_not_rolled_back:
  "transition (demo_host [[''systemctl'', ''stop'', ''nextcloud.service'']]) demo_config 0 MediaMode new_governor
     [''genie-llm.service'', ''nextcloud.service'']
   = (Err ''systemctl stop nextcloud.service failed: denied'', new_governor, [''nextcloud.service''])
   \<and> ''genie-llm.service'' \<in> units_of demo_config (required_services (current_mode new_governor))"
proof
  show "transition (demo_host [[''systemctl'', ''stop'', ''nextcloud.service'']]) demo_config 0 MediaMode
      new_governor [''genie-llm.service'', ''nextcloud.service'']
    = (Err ''systemctl stop nextcloud.service failed: denied'', new_governor, [''nextcloud.service''])"
    by (simp add: transition_def new_governor_def demo_config_def service_unit_for_alias_def is_active_def
        stop_unit_def demo_host_def)
  show "''genie-llm.service'' \<in> units_of demo_config (required_services (current_mode new_governor))"
    by (simp add: demo_config_def new_governor_def service_unit_for_alias_def)
qed

end
