(* ===== verification/Jsonl.thy ===== *)
theory Jsonl
  imports Interfaces
begin

text \<open>
  Reading the last lines of an append-only log (\<open>genie-common/jsonl.rs\<close>): the file is read
  backwards in chunks of 4096 bytes until enough lines have been collected, lines over a size limit
  are skipped. The bytes of the file (or the error of opening or reading it) are an argument; the
  lossy decoding of a line's bytes is an argument too.
\<close>

definition TAIL_CHUNK_BYTES :: nat where "TAIL_CHUNK_BYTES = 4096"

definition DEFAULT_MAX_JSONL_LINE_BYTES :: nat where "DEFAULT_MAX_JSONL_LINE_BYTES = 256 * 1024"

definition newline :: char where "newline = CHR 10"

text \<open>The inner loop: the bytes of a chunk from the last to the first. \<open>cur\<close> is the line under
  construction in the order its bytes were pushed.\<close>

fun scan_chunk ::
  "nat \<Rightarrow> nat \<Rightarrow> char list \<Rightarrow> char list \<times> char list list \<Rightarrow> char list \<times> char list list" where
  "scan_chunk limit max_line [] st = st"
| "scan_chunk limit max_line (b # bs) (cur, collected) =
     (if b = newline then
        if cur \<noteq> [] then
          let st = (if length (rev cur) \<le> max_line then ([], collected @ [rev cur]) else ([], collected))
          in if limit \<le> length (snd st) then st else scan_chunk limit max_line bs st
        else scan_chunk limit max_line bs (cur, collected)
      else scan_chunk limit max_line bs (cur @ [b], collected))"

function tail_loop ::
  "nat \<Rightarrow> nat \<Rightarrow> char list \<Rightarrow> nat \<Rightarrow> char list \<times> char list list \<Rightarrow> char list \<times> char list list" where
  "tail_loop limit max_line content pos st =
     (if 0 < pos \<and> length (snd st) < limit then
        let read_size = min TAIL_CHUNK_BYTES pos;
            pos' = pos - read_size;
            chunk = take read_size (drop pos' content);
            st' = scan_chunk limit max_line (rev chunk) st
        in if limit \<le> length (snd st') then st' else tail_loop limit max_line content pos' st'
      else st)"
  by auto
termination
  by (relation "measure (\<lambda>(limit, max_line, content, pos, st). pos)") (auto simp: TAIL_CHUNK_BYTES_def)

declare tail_loop.simps [simp del]

definition tail_bytes :: "char list \<Rightarrow> nat \<Rightarrow> nat \<Rightarrow> char list list" where
  "tail_bytes content limit max_line =
     (let (cur, collected) = tail_loop limit max_line content (length content) ([], []);
          collected = (if length collected < limit \<and> cur \<noteq> [] \<and> length (rev cur) \<le> max_line
                       then collected @ [rev cur] else collected)
      in rev collected)"

definition tail_lines ::
  "(char list \<Rightarrow> string) \<Rightarrow> bool \<Rightarrow> string + char list \<Rightarrow> nat \<Rightarrow> nat \<Rightarrow> string + string list" where
  "tail_lines lossy path_exists file limit max_line =
     (if limit = 0 then Ok []
      else if \<not> path_exists then Ok []
      else case file of
             Inl e \<Rightarrow> Err e
           | Inr content \<Rightarrow> if length content = 0 then Ok []
                            else Ok (map lossy (tail_bytes content limit max_line)))"

section \<open>Lemmas\<close>

text \<open>The reference: the lines of the file, the empty and oversized ones left out.\<close>

definition kept :: "nat \<Rightarrow> char list \<Rightarrow> bool" where
  "kept max_line l \<longleftrightarrow> l \<noteq> [] \<and> length l \<le> max_line"

definition last_lines :: "char list \<Rightarrow> nat \<Rightarrow> nat \<Rightarrow> char list list" where
  "last_lines content limit max_line =
     (let ls = filter (kept max_line) (split_char newline content) in drop (length ls - limit) ls)"

text \<open>The state after reading a suffix \<open>s\<close> of the file backwards, starting from nothing.\<close>

definition reads :: "nat \<Rightarrow> nat \<Rightarrow> char list \<Rightarrow> char list \<times> char list list \<Rightarrow> bool" where
  "reads limit max_line s st \<longleftrightarrow>
     snd st = take limit (rev (filter (kept max_line) (tl (split_char newline s))))
     \<and> (length (snd st) < limit \<longrightarrow> rev (fst st) = hd (split_char newline s))"

lemma split_char_ne [simp]: "split_char d s \<noteq> []"
  by (induction s) (auto split: list.splits)

lemma split_char_Cons_hd:
  "c \<noteq> d \<Longrightarrow> split_char d (c # s) = (c # hd (split_char d s)) # tl (split_char d s)"
  by (cases "split_char d s") simp_all

lemma filter_lines:
  "filter P (split_char d s)
     = (if P (hd (split_char d s)) then [hd (split_char d s)] else []) @ filter P (tl (split_char d s))"
  by (cases "split_char d s") simp_all

lemma reads_start: "0 < limit \<Longrightarrow> reads limit max_line [] ([], [])"
  by (simp add: reads_def)

lemma reads_other:
  assumes "reads limit max_line s (cur, col)" and "b \<noteq> newline" and "length col < limit"
  shows "reads limit max_line (b # s) (cur @ [b], col)"
  using assms by (simp add: reads_def split_char_Cons_hd del: split_char.simps(2))

lemma reads_newline:
  assumes r: "reads limit max_line s (cur, col)" and "length col < limit"
  shows "reads limit max_line (newline # s) ([], if kept max_line (rev cur) then col @ [rev cur] else col)"
proof -
  let ?X = "rev (filter (kept max_line) (tl (split_char newline s)))"
  have col: "col = take limit ?X" and cur: "rev cur = hd (split_char newline s)"
    using assms by (simp_all add: reads_def)
  then have "col = ?X" using assms(2) by simp
  then show ?thesis using assms(2) cur
    by (cases "kept max_line (rev cur)") (auto simp: reads_def filter_lines)
qed

text \<open>Once enough lines are collected, reading further back would not change them.\<close>

lemma reads_full:
  assumes "reads limit max_line s st" and "limit \<le> length (snd st)"
  shows "reads limit max_line (p @ s) st"
proof -
  have "\<exists>ys. filter (kept max_line) (tl (split_char newline (p @ s)))
      = ys @ filter (kept max_line) (tl (split_char newline s))"
  proof (induction p)
    case (Cons c p)
    show ?case
    proof (cases "c = newline")
      case True
      then have "filter (kept max_line) (tl (split_char newline ((c # p) @ s)))
          = filter (kept max_line) (split_char newline (p @ s))"
        by simp
      then show ?thesis using Cons filter_lines [of "kept max_line" newline "p @ s"]
        by (metis append.assoc)
    next
      case False
      then show ?thesis using Cons by (simp add: split_char_Cons_hd del: split_char.simps(2))
    qed
  qed simp
  then obtain ys where "filter (kept max_line) (tl (split_char newline (p @ s)))
      = ys @ filter (kept max_line) (tl (split_char newline s))" by blast
  moreover have "limit \<le> length (filter (kept max_line) (tl (split_char newline s)))"
    using assms by (simp add: reads_def)
  ultimately show ?thesis using assms by (simp add: reads_def)
qed

lemma scan_chunk_reads:
  "reads limit max_line s st \<Longrightarrow> length (snd st) < limit \<Longrightarrow>
     reads limit max_line (rev bs @ s) (scan_chunk limit max_line bs st)"
proof (induction bs arbitrary: s st)
  case (Cons b bs)
  obtain cur col where st: "st = (cur, col)" by force
  show ?case
  proof (cases "b = newline")
    case False
    then show ?thesis
      using Cons.IH [OF reads_other [of limit max_line s cur col b]] Cons.prems st by simp
  next
    case True
    let ?col = "if kept max_line (rev cur) then col @ [rev cur] else col"
    have r: "reads limit max_line (newline # s) ([], ?col)"
      using reads_newline Cons.prems st by simp
    show ?thesis
    proof (cases "cur = []")
      case True
      then have "?col = col" by (simp add: kept_def)
      then show ?thesis using Cons.IH [of "newline # s" "([], col)"] r True \<open>b = newline\<close> Cons.prems st by simp
    next
      case False
      then have c: "(if length (rev cur) \<le> max_line then ([], col @ [rev cur]) else ([], col)) = ([], ?col)"
        by (simp add: kept_def)
      show ?thesis
      proof (cases "limit \<le> length ?col")
        case True
        then show ?thesis
          using reads_full [OF r, of "rev bs"] False \<open>b = newline\<close> st
          by (simp add: Let_def c [simplified])
      next
        case full: False
        then show ?thesis
          using Cons.IH [OF r] False \<open>b = newline\<close> st
          by (simp add: Let_def c [simplified])
      qed
    qed
  qed
qed simp

lemma tail_loop_reads:
  assumes "0 < limit"
  shows "reads limit max_line (drop pos content) st \<Longrightarrow> pos \<le> length content \<Longrightarrow>
     reads limit max_line content (tail_loop limit max_line content pos st)"
proof (induction limit max_line content pos st rule: tail_loop.induct)
  case (1 limit max_line content pos st)
  show ?case
  proof (cases "0 < pos \<and> length (snd st) < limit")
    case False
    then show ?thesis
      using 1(2) reads_full [of limit max_line "drop pos content" st "take pos content"]
      by (auto simp: tail_loop.simps)
  next
    case True
    let ?n = "min TAIL_CHUNK_BYTES pos" and ?p = "pos - min TAIL_CHUNK_BYTES pos"
    let ?chunk = "take ?n (drop ?p content)"
    let ?st = "scan_chunk limit max_line (rev ?chunk) st"
    have "drop ?n (drop ?p content) = drop pos content" by simp
    then have split: "?chunk @ drop pos content = drop ?p content" by (metis append_take_drop_id)
    have r: "reads limit max_line (drop ?p content) ?st"
      using scan_chunk_reads [OF 1(2), of "rev ?chunk"] True split by simp
    show ?thesis
    proof (cases "limit \<le> length (snd ?st)")
      case True
      then show ?thesis
        using reads_full [OF r True, of "take ?p content"] \<open>0 < pos \<and> length (snd st) < limit\<close>
        by (simp add: tail_loop.simps [of limit max_line content pos] Let_def)
    next
      case False
      then show ?thesis
        using 1(1) [OF True refl refl refl refl] r 1(3) True
        by (simp add: tail_loop.simps [of limit max_line content pos] Let_def)
    qed
  qed
qed

lemma tail_bytes_eq:
  assumes "0 < limit"
  shows "tail_bytes content limit max_line = last_lines content limit max_line"
proof -
  obtain cur col where t: "tail_loop limit max_line content (length content) ([], []) = (cur, col)" by force
  let ?h = "hd (split_char newline content)" and ?t = "tl (split_char newline content)"
  have "reads limit max_line content (cur, col)"
    using tail_loop_reads [OF assms, of max_line "length content" content "([], [])"] reads_start [OF assms] t
    by simp
  then have col: "col = take limit (rev (filter (kept max_line) ?t))"
    and cur: "length col < limit \<longrightarrow> rev cur = ?h" by (simp_all add: reads_def)
  let ?F = "filter (kept max_line) (split_char newline content)"
  have "(if length col < limit \<and> cur \<noteq> [] \<and> length (rev cur) \<le> max_line then col @ [rev cur] else col)
      = take limit (rev ?F)"
  proof (cases "length col < limit")
    case False
    then have "limit \<le> length (filter (kept max_line) ?t)" using col by simp
    then show ?thesis using False col by (simp add: filter_lines)
  next
    case True
    then have "rev cur = ?h" "col = rev (filter (kept max_line) ?t)" using col cur by simp_all
    then show ?thesis using True by (auto simp: kept_def filter_lines)
  qed
  then show ?thesis
    by (simp add: tail_bytes_def t last_lines_def Let_def rev_take)
qed

section \<open>Properties\<close>

text \<open>C39: reading backwards in chunks is the same as reading the whole file. For every file and
  every chunk boundary, the result is the last lines of the file in order, with the empty lines and
  the lines over the size limit left out, and at most as many as asked for.\<close>

theorem tail_lines_correct:
  "tail_lines lossy path_exists (Inr content) limit max_line =
     Ok (if path_exists then map lossy (last_lines content limit max_line) else [])"
  using tail_bytes_eq [of limit content max_line]
  by (cases "limit = 0"; cases content) (auto simp: tail_lines_def last_lines_def Let_def kept_def)

end
