(* ===== verification/Session.thy ===== *)
theory Session
  imports Interfaces "HOL-Library.List_Lexorder" "HOL-Library.Char_ord"
begin

text \<open>
  The session registry (\<open>genie-core/session.rs\<close>): session keys with their conversation ids, expiry
  of idle sessions and a cap enforced by evicting the least recently active session. The
  \<open>BTreeMap\<close> is an association list with strictly increasing keys, since the choice of the evicted
  session among equally old ones follows the order of iteration. Times are \<open>i64\<close> values.
\<close>

section \<open>Ordered maps\<close>

fun bt_insert :: "'k::linorder \<Rightarrow> 'v \<Rightarrow> ('k \<times> 'v) list \<Rightarrow> ('k \<times> 'v) list" where
  "bt_insert k v [] = [(k, v)]"
| "bt_insert k v ((k', v') # m) =
     (if k < k' then (k, v) # (k', v') # m
      else if k = k' then (k, v) # m
      else (k', v') # bt_insert k v m)"

definition bt_remove :: "'k \<Rightarrow> ('k \<times> 'v) list \<Rightarrow> ('k \<times> 'v) list" where
  "bt_remove k m = filter (\<lambda>kv. fst kv \<noteq> k) m"

definition bt_wf :: "('k::linorder \<times> 'v) list \<Rightarrow> bool" where
  "bt_wf m \<longleftrightarrow> sorted_wrt (<) (map fst m)"

definition i64_sat_sub :: "int \<Rightarrow> int \<Rightarrow> int" where
  "i64_sat_sub a b = max (- (2 ^ 63)) (min (2 ^ 63 - 1) (a - b))"

section \<open>The registry\<close>

definition DEFAULT_MAX_ACTIVE_SESSIONS :: nat where "DEFAULT_MAX_ACTIVE_SESSIONS = 32"

definition DEFAULT_SESSION_IDLE_TTL_MS :: int where "DEFAULT_SESSION_IDLE_TTL_MS = 30 * 60 * 1000"

record session_entry =
  se_conversation_id :: string
  last_active_ms :: int

record session_registry =
  sessions :: "(string \<times> session_entry) list"
  max_sessions :: nat
  idle_ttl_ms :: int

definition new_registry :: "nat \<Rightarrow> int \<Rightarrow> session_registry" where
  "new_registry maximum ttl = \<lparr>sessions = [], max_sessions = max maximum 1, idle_ttl_ms = max ttl 1\<rparr>"

definition registry_with_defaults :: session_registry where
  "registry_with_defaults = new_registry DEFAULT_MAX_ACTIVE_SESSIONS DEFAULT_SESSION_IDLE_TTL_MS"

definition registry_len :: "session_registry \<Rightarrow> nat" where
  "registry_len r = length (sessions r)"

definition registry_is_empty :: "session_registry \<Rightarrow> bool" where
  "registry_is_empty r \<longleftrightarrow> sessions r = []"

definition conversation_id :: "session_registry \<Rightarrow> string \<Rightarrow> string option" where
  "conversation_id r key = map_option se_conversation_id (map_of (sessions r) key)"

definition touch :: "string \<Rightarrow> int \<Rightarrow> session_registry \<Rightarrow> session_registry" where
  "touch key now r =
     r\<lparr>sessions := map (\<lambda>(k, e). (k, if k = key then e\<lparr>last_active_ms := now\<rparr> else e)) (sessions r)\<rparr>"

definition evict_idle :: "int \<Rightarrow> session_registry \<Rightarrow> nat \<times> session_registry" where
  "evict_idle now r =
     (let cutoff = i64_sat_sub now (idle_ttl_ms r);
          stale = map fst (filter (\<lambda>(k, e). last_active_ms e < cutoff) (sessions r))
      in (length stale, r\<lparr>sessions := fold bt_remove stale (sessions r)\<rparr>))"

text \<open>\<open>min_by_key\<close>: the first entry with the smallest time.\<close>

fun oldest_session :: "(string \<times> session_entry) list \<Rightarrow> (string \<times> session_entry) option" where
  "oldest_session [] = None"
| "oldest_session (x # xs) =
     (case oldest_session xs of
        None \<Rightarrow> Some x
      | Some y \<Rightarrow> if last_active_ms (snd x) \<le> last_active_ms (snd y) then Some x else Some y)"

lemma oldest_session_in: "oldest_session xs = Some y \<Longrightarrow> y \<in> set xs"
  by (induction xs) (auto split: option.splits if_splits)

function enforce_cap :: "session_registry \<Rightarrow> session_registry" where
  "enforce_cap r =
     (if max_sessions r \<le> length (sessions r)
      then case oldest_session (sessions r) of
             None \<Rightarrow> r
           | Some (k, e) \<Rightarrow> enforce_cap (r\<lparr>sessions := bt_remove k (sessions r)\<rparr>)
      else r)"
  by auto
termination
proof (relation "measure (length \<circ> sessions)")
  fix r x k e
  assume "oldest_session (sessions r) = Some x" "(k, e) = x"
  then have "(k, e) \<in> set (sessions r)" using oldest_session_in by blast
  then show "(r\<lparr>sessions := bt_remove k (sessions r)\<rparr>, r) \<in> measure (length \<circ> sessions)"
    by (auto simp: bt_remove_def intro!: length_filter_less)
qed simp

declare enforce_cap.simps [simp del]

definition track :: "string \<Rightarrow> int \<Rightarrow> session_registry \<Rightarrow> session_registry" where
  "track cid now r =
     (let r = snd (evict_idle now r) in
      if map_of (sessions r) cid \<noteq> None then touch cid now r
      else let r = enforce_cap r
           in r\<lparr>sessions := bt_insert cid \<lparr>se_conversation_id = cid, last_active_ms = now\<rparr> (sessions r)\<rparr>)"

definition resolve_session :: "string \<Rightarrow> int \<Rightarrow> session_registry \<Rightarrow> string \<times> session_registry" where
  "resolve_session key now r =
     (let r = track key now r
      in (case conversation_id r key of Some c \<Rightarrow> c | None \<Rightarrow> key, r))"


section \<open>Lemmas\<close>

lemma bt_insert_keys: "set (map fst (bt_insert k v m)) = insert k (set (map fst m))"
proof (induction m)
  case (Cons a m)
  then show ?case by (cases a) (simp add: insert_commute)
qed simp

lemma bt_insert_wf: "bt_wf m \<Longrightarrow> bt_wf (bt_insert k v m)"
proof (induction m)
  case (Cons a m)
  then show ?case
    using bt_insert_keys [of k v m] by (cases a) (fastforce simp: bt_wf_def simp del: set_map)
qed (simp add: bt_wf_def)

lemma bt_insert_lookup: "map_of (bt_insert k v m) = (map_of m)(k \<mapsto> v)"
  by (induction m) auto

lemma bt_insert_length: "map_of m k = None \<Longrightarrow> length (bt_insert k v m) = Suc (length m)"
  by (induction m) (auto split: if_splits)

lemma bt_wf_distinct: "bt_wf m \<Longrightarrow> distinct (map fst m)"
  by (simp add: bt_wf_def strict_sorted_iff)

lemma bt_wf_filter: "bt_wf m \<Longrightarrow> bt_wf (filter P m)"
  by (auto simp: bt_wf_def sorted_wrt_map intro: sorted_wrt_filter)

lemma bt_remove_lookup: "map_of (bt_remove k m) = (map_of m)(k := None)"
  by (induction m) (auto simp: bt_remove_def fun_eq_iff)

lemma fold_bt_remove: "fold bt_remove ks m = filter (\<lambda>kv. fst kv \<notin> set ks) m"
  by (induction ks arbitrary: m) (auto simp: bt_remove_def intro: filter_cong)

lemma bt_remove_length: "bt_wf m \<Longrightarrow> x \<in> set m \<Longrightarrow> length (bt_remove (fst x) m) = length m - 1"
proof (induction m)
  case (Cons a m)
  have "\<forall>y \<in> set m. fst y \<noteq> fst a" using Cons.prems(1) by (auto simp: bt_wf_def)
  then have "bt_remove (fst a) m = m" by (simp add: bt_remove_def)
  moreover have "length (bt_remove (fst x) m) = length m - 1" "m \<noteq> []" if "x \<in> set m"
    using Cons that by (auto simp: bt_wf_def)
  ultimately show ?case using Cons.prems \<open>\<forall>y \<in> set m. fst y \<noteq> fst a\<close>
    by (cases m) (auto simp: bt_remove_def)
qed simp

lemma oldest_session_None: "oldest_session xs = None \<longleftrightarrow> xs = []"
  by (cases xs) (auto split: option.splits if_splits)

lemma oldest_session_min:
  "oldest_session xs = Some y \<Longrightarrow> x \<in> set xs \<Longrightarrow> last_active_ms (snd y) \<le> last_active_ms (snd x)"
proof (induction xs arbitrary: y)
  case (Cons a xs)
  then show ?case
    by (cases "oldest_session xs") (auto simp: oldest_session_None split: if_splits)
qed simp

text \<open>The sessions that are not idle at a time.\<close>

definition live_sessions :: "int \<Rightarrow> session_registry \<Rightarrow> (string \<times> session_entry) list" where
  "live_sessions now r =
     filter (\<lambda>(k, e). i64_sat_sub now (idle_ttl_ms r) \<le> last_active_ms e) (sessions r)"

definition reg_wf :: "session_registry \<Rightarrow> bool" where
  "reg_wf r \<longleftrightarrow> bt_wf (sessions r) \<and> 0 < max_sessions r
     \<and> length (sessions r) \<le> max_sessions r
     \<and> (\<forall>(k, e) \<in> set (sessions r). se_conversation_id e = k)"

lemma evict_idle_eq:
  assumes "bt_wf (sessions r)"
  shows "snd (evict_idle now r) = r\<lparr>sessions := live_sessions now r\<rparr>"
proof -
  have "filter (\<lambda>kv. fst kv \<notin> set (map fst (filter (\<lambda>(k, e). last_active_ms e < c) m))) m
      = filter (\<lambda>(k, e). c \<le> last_active_ms e) m" if "distinct (map fst m)" for c and m :: "(string \<times> session_entry) list"
  proof (rule filter_cong [OF refl])
    fix x assume x: "x \<in> set m"
    have "fst x \<in> fst ` set (filter (\<lambda>(k, e). last_active_ms e < c) m) \<longleftrightarrow> x \<in> set (filter (\<lambda>(k, e). last_active_ms e < c) m)"
      using \<open>distinct (map fst m)\<close> x by (intro inj_on_image_mem_iff) (auto simp: distinct_map)
    then show "(fst x \<notin> set (map fst (filter (\<lambda>(k, e). last_active_ms e < c) m))) = (case x of (k, e) \<Rightarrow> c \<le> last_active_ms e)"
      using x by (simp add: case_prod_beta not_less)
  qed
  then show ?thesis
    using bt_wf_distinct [OF assms] by (simp add: evict_idle_def Let_def fold_bt_remove live_sessions_def del: set_map)
qed

lemma enforce_cap_room: "length (sessions r) < max_sessions r \<Longrightarrow> enforce_cap r = r"
  by (simp add: enforce_cap.simps)

lemma enforce_cap_full:
  assumes "bt_wf (sessions r)" and "0 < max_sessions r" and "length (sessions r) = max_sessions r"
  obtains old where "old \<in> set (sessions r)" and "oldest_session (sessions r) = Some old"
    and "enforce_cap r = r\<lparr>sessions := bt_remove (fst old) (sessions r)\<rparr>"
proof -
  obtain old where o: "oldest_session (sessions r) = Some old"
    using assms(2,3) oldest_session_None [of "sessions r"] by (cases "oldest_session (sessions r)") auto
  then have "old \<in> set (sessions r)" by (rule oldest_session_in)
  moreover have "enforce_cap r = enforce_cap (r\<lparr>sessions := bt_remove (fst old) (sessions r)\<rparr>)"
    using o assms(3) by (subst enforce_cap.simps) (simp split: prod.splits)
  moreover have "\<dots> = r\<lparr>sessions := bt_remove (fst old) (sessions r)\<rparr>"
    using bt_remove_length [OF assms(1) calculation(1)] assms(2,3) by (intro enforce_cap_room) simp
  ultimately show ?thesis using that o by metis
qed


abbreviation fresh_entry :: "string \<Rightarrow> int \<Rightarrow> session_entry" where
  "fresh_entry cid now \<equiv> \<lparr>se_conversation_id = cid, last_active_ms = now\<rparr>"

lemma live_sessions_sub: "set (live_sessions now r) \<subseteq> set (sessions r)"
  and live_sessions_length: "length (live_sessions now r) \<le> length (sessions r)"
  and live_sessions_wf: "bt_wf (sessions r) \<Longrightarrow> bt_wf (live_sessions now r)"
  by (auto simp: live_sessions_def bt_wf_filter)

lemma track_cases:
  fixes cid :: string and now :: int
  assumes "reg_wf r"
  defines "L \<equiv> live_sessions now r"
  obtains (known) "map_of L cid \<noteq> None" "track cid now r = touch cid now (r\<lparr>sessions := L\<rparr>)"
    | (room) "map_of L cid = None" "length L < max_sessions r"
        "track cid now r = r\<lparr>sessions := bt_insert cid (fresh_entry cid now) L\<rparr>"
    | (full) old where "map_of L cid = None" "length L = max_sessions r"
        "oldest_session L = Some old" "old \<in> set L"
        "track cid now r = r\<lparr>sessions := bt_insert cid (fresh_entry cid now) (bt_remove (fst old) L)\<rparr>"
proof -
  have wf: "bt_wf L" and pos: "0 < max_sessions r" and le: "length L \<le> max_sessions r"
    using assms live_sessions_wf live_sessions_length [of now r] by (auto simp: reg_wf_def)
  have t: "track cid now r = (if map_of L cid \<noteq> None then touch cid now (r\<lparr>sessions := L\<rparr>)
      else let r' = enforce_cap (r\<lparr>sessions := L\<rparr>)
           in r'\<lparr>sessions := bt_insert cid (fresh_entry cid now) (sessions r')\<rparr>)"
    using assms by (simp add: track_def evict_idle_eq reg_wf_def Let_def)
  consider "map_of L cid \<noteq> None" | "map_of L cid = None" "length L < max_sessions r"
    | "map_of L cid = None" "length L = max_sessions r" using le by linarith
  then show ?thesis
  proof cases
    case 1
    then show ?thesis using known t by simp
  next
    case 2
    then show ?thesis using room t enforce_cap_room [of "r\<lparr>sessions := L\<rparr>"] by (simp add: Let_def)
  next
    case 3
    obtain old where "old \<in> set L" "oldest_session L = Some old"
      "enforce_cap (r\<lparr>sessions := L\<rparr>) = r\<lparr>sessions := bt_remove (fst old) L\<rparr>"
      using enforce_cap_full [of "r\<lparr>sessions := L\<rparr>"] wf pos 3 by auto
    then show ?thesis using full [of old] 3 t by (simp add: Let_def)
  qed
qed

lemma bt_remove_sub: "set (bt_remove k m) \<subseteq> set m"
  by (auto simp: bt_remove_def)

lemma bt_remove_wf: "bt_wf m \<Longrightarrow> bt_wf (bt_remove k m)"
  by (simp add: bt_remove_def bt_wf_filter)

lemma bt_insert_sub: "set (bt_insert k v m) \<subseteq> insert (k, v) (set m)"
proof (induction m)
  case (Cons a m)
  then show ?case by (cases a) auto
qed simp

lemma touch_keys: "map fst (sessions (touch key now r)) = map fst (sessions r)"
  by (simp add: touch_def case_prod_beta comp_def)

lemma touch_lookup:
  "map_of (sessions (touch key now r)) =
     (\<lambda>k. map_option (\<lambda>e. if k = key then e\<lparr>last_active_ms := now\<rparr> else e) (map_of (sessions r) k))"
proof -
  have "map_of (map (\<lambda>(k, e). (k, if k = key then e\<lparr>last_active_ms := now\<rparr> else e)) m) k
      = map_option (\<lambda>e. if k = key then e\<lparr>last_active_ms := now\<rparr> else e) (map_of m k)" for m k
    by (induction m) auto
  from this [of "sessions r"] show ?thesis by (intro ext) (simp add: touch_def)
qed

lemma touch_wf: "reg_wf r \<Longrightarrow> reg_wf (touch key now r)"
  unfolding reg_wf_def bt_wf_def touch_keys
  by (auto simp: touch_def)

lemma live_wf: "reg_wf r \<Longrightarrow> reg_wf (r\<lparr>sessions := live_sessions now r\<rparr>)"
  using live_sessions_sub [of now r] live_sessions_length [of now r] live_sessions_wf
  unfolding reg_wf_def by (auto simp: live_sessions_wf)

lemma reg_wf_sessions:
  "reg_wf (r\<lparr>sessions := m\<rparr>) \<longleftrightarrow> bt_wf m \<and> 0 < max_sessions r \<and> length m \<le> max_sessions r
     \<and> (\<forall>(k, e) \<in> set m. se_conversation_id e = k)"
  by (simp add: reg_wf_def)

lemma ball_subset: "Ball B P \<Longrightarrow> A \<subseteq> B \<Longrightarrow> Ball A P"
  by blast

lemma insert_fresh_wf:
  assumes "reg_wf (r\<lparr>sessions := m\<rparr>)" and "map_of m cid = None" and "length m < max_sessions r"
  shows "reg_wf (r\<lparr>sessions := bt_insert cid (fresh_entry cid now) m\<rparr>)"
proof -
  have "\<forall>(k, e) \<in> insert (cid, fresh_entry cid now) (set m). se_conversation_id e = k"
    using assms(1) by (simp add: reg_wf_sessions)
  then have "\<forall>(k, e) \<in> set (bt_insert cid (fresh_entry cid now) m). se_conversation_id e = k"
    by (rule ball_subset [OF _ bt_insert_sub])
  then show ?thesis
    using assms by (simp add: reg_wf_sessions bt_insert_wf bt_insert_length)
qed

lemma remove_wf:
  assumes "reg_wf (r\<lparr>sessions := m\<rparr>)"
  shows "reg_wf (r\<lparr>sessions := bt_remove k m\<rparr>)"
proof -
  have "length (bt_remove k m) \<le> length m" by (simp add: bt_remove_def)
  then show ?thesis
    using assms bt_remove_sub [of k m] by (auto simp: reg_wf_sessions bt_remove_wf)
qed

lemma track_wf:
  assumes "reg_wf r"
  shows "reg_wf (track cid now r)"
proof -
  let ?L = "live_sessions now r"
  note live = live_wf [OF assms, of now]
  show ?thesis
  proof (cases rule: track_cases [OF assms, where cid = cid and now = now])
    case 1
    then show ?thesis using touch_wf [OF live] by simp
  next
    case 2
    then show ?thesis using insert_fresh_wf [OF live] by simp
  next
    case (3 old)
    have "length (bt_remove (fst old) ?L) < max_sessions r"
      using 3 live bt_remove_length [of ?L old] by (simp add: reg_wf_sessions)
    moreover have "map_of (bt_remove (fst old) ?L) cid = None"
      using 3 by (simp add: bt_remove_lookup)
    ultimately show ?thesis
      using 3 insert_fresh_wf [OF remove_wf [OF live]] by simp
  qed
qed


text \<open>The operations of the registry as steps.\<close>

datatype session_op = ResolveOp string int | TrackOp string int | TouchOp string int | EvictOp int

fun session_step :: "session_op \<Rightarrow> session_registry \<Rightarrow> session_registry" where
  "session_step (ResolveOp key now) r = snd (resolve_session key now r)"
| "session_step (TrackOp key now) r = track key now r"
| "session_step (TouchOp key now) r = touch key now r"
| "session_step (EvictOp now) r = snd (evict_idle now r)"

lemma enforce_cap_keeps: "max_sessions (enforce_cap r) = max_sessions r"
proof (induction r rule: enforce_cap.induct)
  case (1 r)
  then show ?case by (subst enforce_cap.simps) (auto split: option.splits)
qed

lemma session_step_cap: "max_sessions (session_step x r) = max_sessions r"
  by (cases x) (simp_all add: resolve_session_def track_def touch_def evict_idle_def enforce_cap_keeps Let_def)

lemma session_step_wf: "reg_wf r \<Longrightarrow> reg_wf (session_step x r)"
proof (cases x)
  case (EvictOp now)
  assume "reg_wf r"
  then show ?thesis using EvictOp live_wf evict_idle_eq [of r now] by (simp add: reg_wf_def)
qed (simp_all add: resolve_session_def track_wf touch_wf Let_def)

interpretation registry: bounded_table registry_len max_sessions session_step reg_wf
proof unfold_locales
  fix x :: session_op and r
  assume "reg_wf r"
  then show "registry_len (session_step x r) \<le> max_sessions r"
    using session_step_wf [of r x] session_step_cap [of x r] by (simp add: reg_wf_def registry_len_def)
qed (simp_all add: session_step_wf session_step_cap)

lemma new_registry_wf: "reg_wf (new_registry maximum ttl)"
  by (simp add: reg_wf_def bt_wf_def new_registry_def)

lemma map_of_touched:
  "map_of (sessions (touch cid now r)) = (case map_of (sessions r) cid of
     None \<Rightarrow> map_of (sessions r)
   | Some e \<Rightarrow> (map_of (sessions r))(cid \<mapsto> e\<lparr>last_active_ms := now\<rparr>))"
proof (rule ext)
  fix k show "map_of (sessions (touch cid now r)) k = (case map_of (sessions r) cid of
     None \<Rightarrow> map_of (sessions r)
   | Some e \<Rightarrow> (map_of (sessions r))(cid \<mapsto> e\<lparr>last_active_ms := now\<rparr>)) k"
    by (cases "k = cid") (auto simp: touch_lookup option.map_ident split: option.splits)
qed

lemma map_of_own_key: "reg_wf r \<Longrightarrow> map_of (sessions r) k = Some e \<Longrightarrow> se_conversation_id e = k"
  by (auto simp: reg_wf_def dest: map_of_SomeD)

section \<open>Properties\<close>

text \<open>The registry is bounded and isolates its keys. After any sequence of operations on a new
  registry it tracks at most the configured number of sessions, each key once, and no key ever leads
  to the conversation of another key.\<close>

theorem session_registry_bounded:
  "let r = fold session_step ops (new_registry maximum ttl) in
     registry_len r \<le> max maximum 1 \<and> distinct (map fst (sessions r))
     \<and> conversation_id r key \<in> {None, Some key}"
proof -
  let ?r = "fold session_step ops (new_registry maximum ttl)"
  have wf: "reg_wf ?r" by (rule registry.wf_run [OF new_registry_wf])
  have "registry_len ?r \<le> max_sessions (new_registry maximum ttl)"
    by (rule registry.bound_run [OF new_registry_wf]) (simp add: registry_len_def new_registry_def)
  moreover have "conversation_id ?r key \<in> {None, Some key}"
    using map_of_own_key [OF wf] by (cases "map_of (sessions ?r) key") (auto simp: conversation_id_def)
  ultimately show ?thesis
    using wf by (simp add: reg_wf_def bt_wf_distinct new_registry_def)
qed

text \<open>The eviction policy. Resolving a key answers with that key's own conversation and leaves it
  tracked with the current time. Of the other sessions it drops the idle ones and, only when the key
  is new and the registry is full of live sessions, one more: the one that was active longest ago.\<close>

theorem resolve_session_lru:
  assumes "reg_wf r"
  shows "let live = live_sessions now r; (answer, r') = resolve_session key now r in
     answer = key \<and> reg_wf r'
     \<and> map_of (sessions r') key = Some \<lparr>se_conversation_id = key, last_active_ms = now\<rparr>
     \<and> (if map_of live key \<noteq> None \<or> length live < max_sessions r
        then \<forall>k. k \<noteq> key \<longrightarrow> map_of (sessions r') k = map_of live k
        else \<exists>old \<in> set live. (\<forall>s \<in> set live. last_active_ms (snd old) \<le> last_active_ms (snd s))
               \<and> (\<forall>k. k \<noteq> key \<longrightarrow> map_of (sessions r') k = ((map_of live)(fst old := None)) k))"
proof -
  let ?L = "live_sessions now r" and ?r' = "track key now r"
  have own: "se_conversation_id e = key" if "map_of ?L key = Some e" for e
    using map_of_own_key [OF live_wf [OF assms]] that by simp
  have key: "map_of (sessions ?r') key = Some (fresh_entry key now)"
  proof (cases rule: track_cases [OF assms, where cid = key and now = now])
    case 1
    then show ?thesis using own by (auto simp: map_of_touched)
  qed (simp_all add: bt_insert_lookup)
  have others: "if map_of ?L key \<noteq> None \<or> length ?L < max_sessions r
        then \<forall>k. k \<noteq> key \<longrightarrow> map_of (sessions ?r') k = map_of ?L k
        else \<exists>old \<in> set ?L. (\<forall>s \<in> set ?L. last_active_ms (snd old) \<le> last_active_ms (snd s))
               \<and> (\<forall>k. k \<noteq> key \<longrightarrow> map_of (sessions ?r') k = ((map_of ?L)(fst old := None)) k)"
  proof (cases rule: track_cases [OF assms, where cid = key and now = now])
    case 1
    then show ?thesis by (auto simp: map_of_touched split: option.splits)
  next
    case 2
    then show ?thesis by (simp add: bt_insert_lookup)
  next
    case (3 old)
    then show ?thesis using oldest_session_min [OF 3(3)]
      by (auto simp: bt_insert_lookup bt_remove_lookup intro!: bexI [of _ old])
  qed
  show ?thesis
    using key others track_wf [OF assms, of key now]
    by (simp add: resolve_session_def conversation_id_def Let_def)
qed


definition demo_registry :: session_registry where
  "demo_registry = fold session_step [ResolveOp ''a'' 10, ResolveOp ''b'' 20] (new_registry 2 100)"

lemma demo_registry_wf: "reg_wf demo_registry"
  unfolding demo_registry_def by (rule registry.wf_run [OF new_registry_wf])

theorem resolve_session_lru_witness:
  "fst (resolve_session ''c'' 30 demo_registry) = ''c''
   \<and> map_of (sessions (snd (resolve_session ''c'' 30 demo_registry))) ''b''
       = Some \<lparr>se_conversation_id = ''b'', last_active_ms = 20\<rparr>
   \<and> map_of (sessions (snd (resolve_session ''c'' 30 demo_registry))) ''a'' = None"
proof -
  have "fst (resolve_session ''c'' 30 demo_registry) = ''c''"
    using resolve_session_lru [OF demo_registry_wf, where key = "''c''" and now = 30] by (simp add: case_prod_beta Let_def)
  moreover have "map_of (sessions (snd (resolve_session ''c'' 30 demo_registry))) ''b''
       = Some \<lparr>se_conversation_id = ''b'', last_active_ms = 20\<rparr>" by code_simp
  moreover have "map_of (sessions (snd (resolve_session ''c'' 30 demo_registry))) ''a'' = None" by code_simp
  ultimately show ?thesis by blast
qed

end
