(* ===== verification/Calc.thy ===== *)
theory Calc
  imports Values
begin

text \<open>
  The calculator (\<open>genie-core/tools/calc.rs\<close>) and its tool (\<open>tools/dispatch/calculate.rs\<close>): a
  tokenizer, a recursive descent parser that evaluates as it parses, and the formatting of the
  result. The position of the parser is the list of the tokens still to be read. Arithmetic is
  that of \<open>f64\<close>, rounded to nearest with ties to even, gradual underflow and overflow to infinity.
\<close>

section \<open>Double arithmetic\<close>

definition f64_round :: "rat \<Rightarrow> flt" where
  "f64_round q =
     (let r = (if \<bar>q\<bar> < pow2 (- 1022) then of_int (round_half_even (q / pow2 (- 1074))) * pow2 (- 1074)
               else round_bits 53 q)
      in if pow2 1024 \<le> r then PosInf else if r \<le> - pow2 1024 then NegInf else Fin r)"

fun flt_neg :: "flt \<Rightarrow> flt" where
  "flt_neg NaN = NaN"
| "flt_neg PosInf = NegInf"
| "flt_neg NegInf = PosInf"
| "flt_neg (Fin q) = Fin (- q)"

fun flt_add :: "flt \<Rightarrow> flt \<Rightarrow> flt" where
  "flt_add (Fin a) (Fin b) = f64_round (a + b)"
| "flt_add (Fin a) y = y"
| "flt_add x (Fin b) = x"
| "flt_add PosInf PosInf = PosInf"
| "flt_add NegInf NegInf = NegInf"
| "flt_add x y = NaN"

definition flt_sub :: "flt \<Rightarrow> flt \<Rightarrow> flt" where
  "flt_sub x y = flt_add x (flt_neg y)"

fun flt_sign :: "flt \<Rightarrow> int" where
  "flt_sign NaN = 0"
| "flt_sign PosInf = 1"
| "flt_sign NegInf = - 1"
| "flt_sign (Fin q) = (if 0 < q then 1 else if q < 0 then - 1 else 0)"

definition flt_inf :: "int \<Rightarrow> flt" where
  "flt_inf s = (if 0 < s then PosInf else if s < 0 then NegInf else NaN)"

fun flt_mul :: "flt \<Rightarrow> flt \<Rightarrow> flt" where
  "flt_mul (Fin a) (Fin b) = f64_round (a * b)"
| "flt_mul x y = (if x = NaN \<or> y = NaN then NaN else flt_inf (flt_sign x * flt_sign y))"

text \<open>Division by a divisor that is not zero, the only case the program uses.\<close>

fun flt_div :: "flt \<Rightarrow> flt \<Rightarrow> flt" where
  "flt_div (Fin a) (Fin b) = f64_round (a / b)"
| "flt_div NaN y = NaN"
| "flt_div x NaN = NaN"
| "flt_div (Fin a) y = Fin 0"
| "flt_div x (Fin b) = flt_inf (flt_sign x * flt_sign (Fin b))"
| "flt_div x y = NaN"

text \<open>Parsing a run of digits and dots: at least one digit and at most one dot.\<close>

definition parse_f64 :: "string \<Rightarrow> flt option" where
  "parse_f64 s =
     (let i = takeWhile is_ascii_digit s; r = dropWhile is_ascii_digit s in
      case r of
        [] \<Rightarrow> if i = [] then None else Some (f64_round (of_nat (digits_value i)))
      | c # f \<Rightarrow>
          if c = CHR ''.'' \<and> list_all is_ascii_digit f \<and> (i \<noteq> [] \<or> f \<noteq> [])
          then Some (f64_round (of_nat (digits_value (i @ f)) / 10 ^ length f))
          else None)"

section \<open>Tokens\<close>

datatype calc_token = Number flt | Plus | Minus | Star | Slash | LParen | RParen

datatype calc_error = UnexpectedToken calc_token | InvalidNumber string | UnexpectedChar char
  | DivisionByZero | UnexpectedEnd | TooDeep | MissingParen

definition MAX_PAREN_DEPTH :: nat where "MAX_PAREN_DEPTH = 64"

definition number_char :: "char \<Rightarrow> bool" where
  "number_char c \<longleftrightarrow> is_ascii_digit c \<or> c = CHR ''.''"

function tokenize :: "string \<Rightarrow> calc_error + calc_token list" where
  "tokenize [] = Ok []"
| "tokenize (ch # s) =
     (if ch = CHR '' '' \<or> ch = CHR 9 then tokenize s
      else if number_char ch then
        (let num_str = takeWhile number_char (ch # s) in
         case parse_f64 num_str of
           None \<Rightarrow> Err (InvalidNumber num_str)
         | Some num \<Rightarrow>
             (case tokenize (dropWhile number_char (ch # s)) of
                Inl e \<Rightarrow> Err e
              | Inr ts \<Rightarrow> Ok (Number num # ts)))
      else
        (case map_of [(CHR ''+'', Plus), (CHR ''-'', Minus), (CHR ''*'', Star), (CHR ''/'', Slash),
                      (CHR ''('', LParen), (CHR '')'', RParen)] ch of
           None \<Rightarrow> Err (UnexpectedChar ch)
         | Some t \<Rightarrow> (case tokenize s of Inl e \<Rightarrow> Err e | Inr ts \<Rightarrow> Ok (t # ts))))"
  by pat_completeness auto
termination
  by (relation "measure length") (auto intro: le_imp_less_Suc [OF length_dropWhile_le])

declare tokenize.simps(2) [simp del]

section \<open>The parser\<close>

text \<open>\<open>parse_unary\<close> first consumes the run of signs: the parity of the minus signs and the rest.\<close>

fun sign_run :: "bool \<Rightarrow> calc_token list \<Rightarrow> bool \<times> calc_token list" where
  "sign_run neg (Minus # ts) = sign_run (\<not> neg) ts"
| "sign_run neg (Plus # ts) = sign_run neg ts"
| "sign_run neg ts = (neg, ts)"

lemma sign_run_length: "length (snd (sign_run neg ts)) \<le> length ts"
  by (induction neg ts rule: sign_run.induct) auto


function (domintros)
  parse_expr :: "calc_token list \<Rightarrow> nat \<Rightarrow> calc_error + flt \<times> calc_token list"
  and expr_loop :: "flt \<Rightarrow> calc_token list \<Rightarrow> nat \<Rightarrow> calc_error + flt \<times> calc_token list"
  and parse_term :: "calc_token list \<Rightarrow> nat \<Rightarrow> calc_error + flt \<times> calc_token list"
  and term_loop :: "flt \<Rightarrow> calc_token list \<Rightarrow> nat \<Rightarrow> calc_error + flt \<times> calc_token list"
  and parse_unary :: "calc_token list \<Rightarrow> nat \<Rightarrow> calc_error + flt \<times> calc_token list"
  and parse_factor :: "calc_token list \<Rightarrow> nat \<Rightarrow> calc_error + flt \<times> calc_token list"
where
  "parse_expr ts depth =
     (case parse_term ts depth of Inl e \<Rightarrow> Err e | Inr (v, ts) \<Rightarrow> expr_loop v ts depth)"
| "expr_loop acc ts depth =
     (case ts of
        Plus # ts \<Rightarrow>
          (case parse_term ts depth of Inl e \<Rightarrow> Err e | Inr (v, ts) \<Rightarrow> expr_loop (flt_add acc v) ts depth)
      | Minus # ts \<Rightarrow>
          (case parse_term ts depth of Inl e \<Rightarrow> Err e | Inr (v, ts) \<Rightarrow> expr_loop (flt_sub acc v) ts depth)
      | _ \<Rightarrow> Ok (acc, ts))"
| "parse_term ts depth =
     (case parse_unary ts depth of Inl e \<Rightarrow> Err e | Inr (v, ts) \<Rightarrow> term_loop v ts depth)"
| "term_loop acc ts depth =
     (case ts of
        Star # ts \<Rightarrow>
          (case parse_unary ts depth of Inl e \<Rightarrow> Err e | Inr (v, ts) \<Rightarrow> term_loop (flt_mul acc v) ts depth)
      | Slash # ts \<Rightarrow>
          (case parse_unary ts depth of
             Inl e \<Rightarrow> Err e
           | Inr (v, ts) \<Rightarrow> if v = Fin 0 then Err DivisionByZero else term_loop (flt_div acc v) ts depth)
      | _ \<Rightarrow> Ok (acc, ts))"
| "parse_unary ts depth =
     (let (negate, ts) = sign_run False ts in
      case parse_factor ts depth of
        Inl e \<Rightarrow> Err e
      | Inr (v, ts) \<Rightarrow> Ok (if negate then flt_neg v else v, ts))"
| "parse_factor ts depth =
     (case ts of
        [] \<Rightarrow> Err UnexpectedEnd
      | Number n # ts \<Rightarrow> Ok (n, ts)
      | LParen # ts \<Rightarrow>
          if MAX_PAREN_DEPTH \<le> depth then Err TooDeep
          else (case parse_expr ts (depth + 1) of
                  Inl e \<Rightarrow> Err e
                | Inr (v, RParen # ts) \<Rightarrow> Ok (v, ts)
                | Inr (v, ts) \<Rightarrow> Err MissingParen)
      | t # ts \<Rightarrow> Err (UnexpectedToken t))"
  by pat_completeness auto


text \<open>Every function of the parser that succeeds leaves a suffix that is no longer than its input,
  and one that reads a number leaves a shorter one; so the recursion ends.\<close>

lemmas parser_pinduct = parse_expr_expr_loop_parse_term_term_loop_parse_unary_parse_factor.pinduct
lemmas parser_psimps = parse_expr.psimps expr_loop.psimps parse_term.psimps term_loop.psimps
  parse_unary.psimps parse_factor.psimps

abbreviation "parser_dom \<equiv> parse_expr_expr_loop_parse_term_term_loop_parse_unary_parse_factor_dom"

lemma parser_length_dom:
  "parser_dom (Inl (Inl (ts, d))) \<Longrightarrow> \<forall>v r. parse_expr ts d = Inr (v, r) \<longrightarrow> length r < length ts"
  "parser_dom (Inl (Inr (Inl (acc, ts, d)))) \<Longrightarrow> \<forall>v r. expr_loop acc ts d = Inr (v, r) \<longrightarrow> length r \<le> length ts"
  "parser_dom (Inl (Inr (Inr (ts, d)))) \<Longrightarrow> \<forall>v r. parse_term ts d = Inr (v, r) \<longrightarrow> length r < length ts"
  "parser_dom (Inr (Inl (acc, ts, d))) \<Longrightarrow> \<forall>v r. term_loop acc ts d = Inr (v, r) \<longrightarrow> length r \<le> length ts"
  "parser_dom (Inr (Inr (Inl (ts, d)))) \<Longrightarrow> \<forall>v r. parse_unary ts d = Inr (v, r) \<longrightarrow> length r < length ts"
  "parser_dom (Inr (Inr (Inr (ts, d)))) \<Longrightarrow> \<forall>v r. parse_factor ts d = Inr (v, r) \<longrightarrow> length r < length ts"
proof (induction ts d and acc ts d and ts d and acc ts d and ts d and ts d rule: parser_pinduct)
  case (1 ts d)
  then show ?case by (fastforce simp: parse_expr.psimps split: sum.splits prod.splits)
next
  case (2 acc ts d)
  then show ?case
    by (fastforce simp: expr_loop.psimps split: sum.splits prod.splits list.splits calc_token.splits)
next
  case (3 ts d)
  then show ?case by (fastforce simp: parse_term.psimps split: sum.splits prod.splits)
next
  case (4 acc ts d)
  then show ?case
    by (fastforce simp: term_loop.psimps split: sum.splits prod.splits list.splits calc_token.splits if_splits)
next
  case (5 ts d)
  then show ?case using sign_run_length [of False ts]
    by (fastforce simp: parse_unary.psimps split: sum.splits prod.splits)
next
  case (6 ts d)
  then show ?case
    by (fastforce simp: parse_factor.psimps split: sum.splits prod.splits list.splits calc_token.splits if_splits)
qed

lemma sign_run_less: "(n, ys) = sign_run neg ts \<Longrightarrow> length ys \<noteq> length ts \<Longrightarrow> length ys < length ts"
  using sign_run_length [of neg ts] by (cases "sign_run neg ts") auto

definition parser_measure ::
  "(calc_token list \<times> nat + flt \<times> calc_token list \<times> nat + calc_token list \<times> nat)
     + flt \<times> calc_token list \<times> nat + calc_token list \<times> nat + calc_token list \<times> nat \<Rightarrow> nat \<times> nat" where
  "parser_measure x =
     (case x of
        Inl (Inl (ts, d)) \<Rightarrow> (length ts, 3)
      | Inl (Inr (Inl (acc, ts, d))) \<Rightarrow> (length ts, 3)
      | Inl (Inr (Inr (ts, d))) \<Rightarrow> (length ts, 2)
      | Inr (Inl (acc, ts, d)) \<Rightarrow> (length ts, 3)
      | Inr (Inr (Inl (ts, d))) \<Rightarrow> (length ts, 1)
      | Inr (Inr (Inr (ts, d))) \<Rightarrow> (length ts, 0))"

termination parse_expr
proof (relation "inv_image (less_than <*lex*> less_than) parser_measure", goal_cases)
  case 1 show ?case by (simp add: wf_lex_prod)
qed (auto simp: parser_measure_def less_Suc_eq_le
    dest!: parser_length_dom [rule_format] intro: less_imp_le sign_run_less)

declare parse_expr.simps [simp del] expr_loop.simps [simp del] parse_term.simps [simp del]
  term_loop.simps [simp del] parse_unary.simps [simp del] parse_factor.simps [simp del]


definition evaluate_expr :: "string \<Rightarrow> calc_error + flt" where
  "evaluate_expr expr =
     (case tokenize expr of
        Inl e \<Rightarrow> Err e
      | Inr tokens \<Rightarrow>
          (case parse_expr tokens 0 of
             Inl e \<Rightarrow> Err e
           | Inr (v, []) \<Rightarrow> Ok v
           | Inr (v, t # ts) \<Rightarrow> Err (UnexpectedToken t)))"

section \<open>The tool\<close>

fun fmt6 :: "flt \<Rightarrow> string" where
  "fmt6 NaN = ''NaN''"
| "fmt6 PosInf = ''inf''"
| "fmt6 NegInf = ''-inf''"
| "fmt6 (Fin q) =
     (let n = nat \<bar>round_half_even (q * 1000000)\<bar>;
          f = show_nat (n mod 1000000)
      in (if q < 0 then ''-'' else '''') @ show_nat (n div 1000000) @ ''.''
         @ replicate (6 - length f) (CHR ''0'') @ f)"

definition trim_end_char :: "char \<Rightarrow> string \<Rightarrow> string" where
  "trim_end_char c s = rev (dropWhile (\<lambda>x. x = c) (rev s))"

text \<open>\<open>result as i64\<close> is only reached for an integer below \<open>1e15\<close> in absolute value; the test
  \<open>result == result.floor()\<close> is true of the infinities, which the bound excludes.\<close>

definition format_calc_result :: "flt \<Rightarrow> string" where
  "format_calc_result result =
     (case result of
        Fin q \<Rightarrow> if q = of_int \<lfloor>q\<rfloor> \<and> \<bar>q\<bar> < 10 ^ 15 then show_int \<lfloor>q\<rfloor>
                 else trim_end_char (CHR ''.'') (trim_end_char (CHR ''0'') (fmt6 result))
      | _ \<Rightarrow> trim_end_char (CHR ''.'') (trim_end_char (CHR ''0'') (fmt6 result)))"

datatype calculate_error = MissingExpression | CalculationError calc_error

definition parse_calculate_expression :: "json \<Rightarrow> calculate_error + string" where
  "parse_calculate_expression args =
     (case json_get args ''expression'' of
        None \<Rightarrow> Err MissingExpression
      | Some v \<Rightarrow>
          (case json_as_str v of
             None \<Rightarrow> Err MissingExpression
           | Some s \<Rightarrow> if trim s = [] then Err MissingExpression else Ok (trim s)))"

definition exec_calculate :: "json \<Rightarrow> calculate_error + string" where
  "exec_calculate args =
     (case parse_calculate_expression args of
        Inl e \<Rightarrow> Err e
      | Inr expr \<Rightarrow>
          (case evaluate_expr expr of
             Inl e \<Rightarrow> Err (CalculationError e)
           | Inr result \<Rightarrow> Ok (expr @ '' = '' @ format_calc_result result)))"

section \<open>The grammar\<close>

text \<open>The reference: expression trees of the grammar with left-associative operators, the tokens of a
  tree, and its value, computed from the tree alone, with the first error from left to right.\<close>

datatype calc_exp = EOne calc_trm | EAdd calc_exp calc_trm | ESub calc_exp calc_trm
  and calc_trm = TOne calc_una | TMul calc_trm calc_una | TDiv calc_trm calc_una
  and calc_una = UFac calc_fac | UNeg calc_una | UPos calc_una
  and calc_fac = FNum flt | FPar calc_exp

fun exp_toks :: "calc_exp \<Rightarrow> calc_token list"
  and trm_toks :: "calc_trm \<Rightarrow> calc_token list"
  and una_toks :: "calc_una \<Rightarrow> calc_token list"
  and fac_toks :: "calc_fac \<Rightarrow> calc_token list" where
  "exp_toks (EOne t) = trm_toks t"
| "exp_toks (EAdd e t) = exp_toks e @ Plus # trm_toks t"
| "exp_toks (ESub e t) = exp_toks e @ Minus # trm_toks t"
| "trm_toks (TOne u) = una_toks u"
| "trm_toks (TMul t u) = trm_toks t @ Star # una_toks u"
| "trm_toks (TDiv t u) = trm_toks t @ Slash # una_toks u"
| "una_toks (UFac f) = fac_toks f"
| "una_toks (UNeg u) = Minus # una_toks u"
| "una_toks (UPos u) = Plus # una_toks u"
| "fac_toks (FNum n) = [Number n]"
| "fac_toks (FPar e) = LParen # exp_toks e @ [RParen]"

definition both :: "'e + 'a \<Rightarrow> 'e + 'b \<Rightarrow> ('a \<Rightarrow> 'b \<Rightarrow> 'e + 'c) \<Rightarrow> 'e + 'c" where
  "both x y f = (case x of Inl e \<Rightarrow> Err e | Inr a \<Rightarrow> (case y of Inl e \<Rightarrow> Err e | Inr b \<Rightarrow> f a b))"

fun exp_eval :: "calc_exp \<Rightarrow> nat \<Rightarrow> calc_error + flt"
  and trm_eval :: "calc_trm \<Rightarrow> nat \<Rightarrow> calc_error + flt"
  and una_eval :: "calc_una \<Rightarrow> nat \<Rightarrow> calc_error + flt"
  and fac_eval :: "calc_fac \<Rightarrow> nat \<Rightarrow> calc_error + flt" where
  "exp_eval (EOne t) d = trm_eval t d"
| "exp_eval (EAdd e t) d = both (exp_eval e d) (trm_eval t d) (\<lambda>a b. Ok (flt_add a b))"
| "exp_eval (ESub e t) d = both (exp_eval e d) (trm_eval t d) (\<lambda>a b. Ok (flt_sub a b))"
| "trm_eval (TOne u) d = una_eval u d"
| "trm_eval (TMul t u) d = both (trm_eval t d) (una_eval u d) (\<lambda>a b. Ok (flt_mul a b))"
| "trm_eval (TDiv t u) d = both (trm_eval t d) (una_eval u d)
     (\<lambda>a b. if b = Fin 0 then Err DivisionByZero else Ok (flt_div a b))"
| "una_eval (UFac f) d = fac_eval f d"
| "una_eval (UNeg u) d = map_sum id flt_neg (una_eval u d)"
| "una_eval (UPos u) d = una_eval u d"
| "fac_eval (FNum n) d = Ok n"
| "fac_eval (FPar e) d = (if MAX_PAREN_DEPTH \<le> d then Err TooDeep else exp_eval e (d + 1))"

section \<open>Lemmas\<close>

lemma flt_neg_neg [simp]: "flt_neg (flt_neg v) = v"
  by (cases v) auto

lemma sign_run_flip:
  "sign_run (\<not> neg) ts = (\<not> fst (sign_run neg ts), snd (sign_run neg ts))"
  by (induction neg ts rule: sign_run.induct) auto

lemma parse_unary_minus: "parse_unary (Minus # ts) d = map_sum id (map_prod flt_neg id) (parse_unary ts d)"
  using sign_run_flip [of False ts]
  by (auto simp: parse_unary.simps Let_def split: prod.splits sum.splits)

lemma parse_unary_plus: "parse_unary (Plus # ts) d = parse_unary ts d"
  by (simp add: parse_unary.simps)

lemma parse_unary_factor: "parse_unary (fac_toks f @ r) d = parse_factor (fac_toks f @ r) d"
  by (cases f) (auto simp: parse_unary.simps split: sum.splits)

definition ends_term :: "calc_token list \<Rightarrow> bool" where
  "ends_term r \<longleftrightarrow> (case r of t # ts \<Rightarrow> t \<noteq> Star \<and> t \<noteq> Slash | [] \<Rightarrow> True)"

lemma term_loop_end: "ends_term r \<Longrightarrow> term_loop v r d = Ok (v, r)"
  by (auto simp: ends_term_def term_loop.simps split: list.splits calc_token.splits)

text \<open>The parser reads back the tokens of a tree and computes its value.\<close>

lemma parse_toks:
  "ends_term r \<Longrightarrow> parse_expr (exp_toks e @ r) d = (case exp_eval e d of Inl x \<Rightarrow> Err x | Inr v \<Rightarrow> expr_loop v r d)"
  "parse_term (trm_toks t @ r) d = (case trm_eval t d of Inl x \<Rightarrow> Err x | Inr v \<Rightarrow> term_loop v r d)"
  "parse_unary (una_toks u @ r) d = (case una_eval u d of Inl x \<Rightarrow> Err x | Inr v \<Rightarrow> Ok (v, r))"
  "parse_factor (fac_toks f @ r) d = (case fac_eval f d of Inl x \<Rightarrow> Err x | Inr v \<Rightarrow> Ok (v, r))"
proof (induction e and t and u and f arbitrary: r d and r d and r d and r d)
  case (EOne t)
  then show ?case by (auto simp: parse_expr.simps term_loop_end split: sum.splits)
next
  case (EAdd e t)
  then show ?case
    by (auto simp: both_def ends_term_def expr_loop.simps [of _ "Plus # _"] term_loop_end split: sum.splits)
next
  case (ESub e t)
  then show ?case
    by (auto simp: both_def ends_term_def expr_loop.simps [of _ "Minus # _"] term_loop_end split: sum.splits)
next
  case (TOne u)
  then show ?case by (auto simp: parse_term.simps split: sum.splits)
next
  case (TMul t u)
  then show ?case by (auto simp: both_def term_loop.simps [of _ "Star # _"] split: sum.splits)
next
  case (TDiv t u)
  then show ?case by (auto simp: both_def term_loop.simps [of _ "Slash # _"] split: sum.splits)
next
  case (UFac f)
  then show ?case by (simp add: parse_unary_factor)
next
  case (UNeg u)
  then show ?case by (auto simp: parse_unary_minus split: sum.splits)
next
  case (UPos u)
  then show ?case by (simp add: parse_unary_plus)
next
  case (FNum n)
  then show ?case by (simp add: parse_factor.simps)
next
  case (FPar e)
  then show ?case
    by (auto simp: parse_factor.simps [of "LParen # _"] expr_loop.simps [of _ "RParen # _"] ends_term_def
        split: sum.splits)
qed


lemma sign_run_fac [simp]: "sign_run neg (fac_toks f @ r) = (neg, fac_toks f @ r)"
  by (cases f) simp_all

lemma sign_run_tree:
  "snd (sign_run neg ts) = fac_toks f @ r \<Longrightarrow> fac_eval f d = Ok v \<Longrightarrow>
     \<exists>u. ts = una_toks u @ r \<and> una_eval u d = Ok (if fst (sign_run neg ts) = neg then v else flt_neg v)"
proof (induction neg ts rule: sign_run.induct)
  case (1 neg ts)
  then obtain u where u: "ts = una_toks u @ r"
    "una_eval u d = Ok (if fst (sign_run (\<not> neg) ts) = (\<not> neg) then v else flt_neg v)" by auto
  then have "Minus # ts = una_toks (UNeg u) @ r \<and>
      una_eval (UNeg u) d = Ok (if fst (sign_run neg (Minus # ts)) = neg then v else flt_neg v)" by auto
  then show ?case by blast
next
  case (2 neg ts)
  then obtain u where u: "ts = una_toks u @ r"
    "una_eval u d = Ok (if fst (sign_run neg ts) = neg then v else flt_neg v)" by auto
  then have "Plus # ts = una_toks (UPos u) @ r \<and>
      una_eval (UPos u) d = Ok (if fst (sign_run neg (Plus # ts)) = neg then v else flt_neg v)" by auto
  then show ?case by blast
qed (rule exI [of _ "UFac f"]; simp)+

text \<open>How each function of the parser can succeed.\<close>

lemma expr_loop_cases:
  assumes "expr_loop acc ts d = Ok (v, r)"
  obtains (plus) ts1 b ts2 where "ts = Plus # ts1" "parse_term ts1 d = Ok (b, ts2)"
      "expr_loop (flt_add acc b) ts2 d = Ok (v, r)"
    | (minus) ts1 b ts2 where "ts = Minus # ts1" "parse_term ts1 d = Ok (b, ts2)"
      "expr_loop (flt_sub acc b) ts2 d = Ok (v, r)"
    | (stop) "ts = r" "v = acc"
  using assms by (auto simp: expr_loop.simps [of acc ts] split: list.splits calc_token.splits sum.splits)

lemma term_loop_cases:
  assumes "term_loop acc ts d = Ok (v, r)"
  obtains (star) ts1 b ts2 where "ts = Star # ts1" "parse_unary ts1 d = Ok (b, ts2)"
      "term_loop (flt_mul acc b) ts2 d = Ok (v, r)"
    | (slash) ts1 b ts2 where "ts = Slash # ts1" "parse_unary ts1 d = Ok (b, ts2)" "b \<noteq> Fin 0"
      "term_loop (flt_div acc b) ts2 d = Ok (v, r)"
    | (stop) "ts = r" "v = acc"
  using assms
  by (auto simp: term_loop.simps [of acc ts] split: list.splits calc_token.splits sum.splits if_splits)

lemma parse_factor_cases:
  assumes "parse_factor ts d = Ok (v, r)"
  obtains (number) "ts = Number v # r"
    | (parens) ts1 where "ts = LParen # ts1" "\<not> MAX_PAREN_DEPTH \<le> d" "parse_expr ts1 (d + 1) = Ok (v, RParen # r)"
  using assms by (auto simp: parse_factor.simps [of ts] split: list.splits calc_token.splits sum.splits if_splits)

text \<open>Tokens that a tree accounts for, with its value.\<close>

definition reads_exp :: "calc_token list \<Rightarrow> nat \<Rightarrow> flt \<Rightarrow> bool" where
  "reads_exp ts d v \<longleftrightarrow> (\<exists>e. ts = exp_toks e \<and> exp_eval e d = Ok v)"

definition reads_trm :: "calc_token list \<Rightarrow> nat \<Rightarrow> flt \<Rightarrow> bool" where
  "reads_trm ts d v \<longleftrightarrow> (\<exists>t. ts = trm_toks t \<and> trm_eval t d = Ok v)"

definition reads_una :: "calc_token list \<Rightarrow> nat \<Rightarrow> flt \<Rightarrow> bool" where
  "reads_una ts d v \<longleftrightarrow> (\<exists>u. ts = una_toks u \<and> una_eval u d = Ok v)"

definition reads_fac :: "calc_token list \<Rightarrow> nat \<Rightarrow> flt \<Rightarrow> bool" where
  "reads_fac ts d v \<longleftrightarrow> (\<exists>f. ts = fac_toks f \<and> fac_eval f d = Ok v)"

lemma reads_intros:
  "reads_trm ts d v \<Longrightarrow> reads_exp ts d v"
  "reads_exp ts d a \<Longrightarrow> reads_trm us d b \<Longrightarrow> reads_exp (ts @ Plus # us) d (flt_add a b)"
  "reads_exp ts d a \<Longrightarrow> reads_trm us d b \<Longrightarrow> reads_exp (ts @ Minus # us) d (flt_sub a b)"
  "reads_una ts d v \<Longrightarrow> reads_trm ts d v"
  "reads_trm ts d a \<Longrightarrow> reads_una us d b \<Longrightarrow> reads_trm (ts @ Star # us) d (flt_mul a b)"
  "reads_trm ts d a \<Longrightarrow> reads_una us d b \<Longrightarrow> b \<noteq> Fin 0 \<Longrightarrow> reads_trm (ts @ Slash # us) d (flt_div a b)"
  "reads_fac [Number v] d v"
  "reads_exp ts (d + 1) v \<Longrightarrow> \<not> MAX_PAREN_DEPTH \<le> d \<Longrightarrow> reads_fac (LParen # ts @ [RParen]) d v"
  unfolding reads_exp_def reads_trm_def reads_una_def reads_fac_def
proof goal_cases
  case 1 then show ?case by (metis exp_toks.simps(1) exp_eval.simps(1))
next
  case 2
  then obtain x y where "ts = exp_toks x" "exp_eval x d = Ok a" "us = trm_toks y" "trm_eval y d = Ok b" by blast
  then show ?case using 2 by (intro exI [of _ "EAdd x y"]) (simp add: both_def)
next
  case 3
  then obtain x y where "ts = exp_toks x" "exp_eval x d = Ok a" "us = trm_toks y" "trm_eval y d = Ok b" by blast
  then show ?case using 3 by (intro exI [of _ "ESub x y"]) (simp add: both_def)
next
  case 4 then show ?case by (metis trm_toks.simps(1) trm_eval.simps(1))
next
  case 5
  then obtain x y where "ts = trm_toks x" "trm_eval x d = Ok a" "us = una_toks y" "una_eval y d = Ok b" by blast
  then show ?case using 5 by (intro exI [of _ "TMul x y"]) (simp add: both_def)
next
  case 6
  then obtain x y where "ts = trm_toks x" "trm_eval x d = Ok a" "us = una_toks y" "una_eval y d = Ok b" by blast
  then show ?case using 6 by (intro exI [of _ "TDiv x y"]) (simp add: both_def)
next
  case 7 show ?case by (intro exI [of _ "FNum v"]) simp
next
  case 8
  then obtain e where "ts = exp_toks e" "exp_eval e (d + 1) = Ok v" by blast
  then show ?case using 8 by (intro exI [of _ "FPar e"]) simp
qed

lemma reads_signs:
  assumes "reads_fac p d w" and "snd (sign_run False ts) = p @ r"
  shows "\<exists>q. ts = q @ r \<and> reads_una q d (if fst (sign_run False ts) then flt_neg w else w)"
proof -
  obtain f where "p = fac_toks f" "fac_eval f d = Ok w" using assms(1) by (auto simp: reads_fac_def)
  then obtain u where "ts = una_toks u @ r" "una_eval u d = Ok (if fst (sign_run False ts) = False then w else flt_neg w)"
    using sign_run_tree [of False ts f r d w] assms(2) by blast
  then show ?thesis by (auto simp: reads_una_def)
qed

text \<open>Whatever the parser accepts is the tokens of a tree, of which it computes the value.\<close>

lemma parser_sound:
  "\<forall>v r. parse_expr ts d = Ok (v, r) \<longrightarrow> (\<exists>p. ts = p @ r \<and> reads_exp p d v)"
  "\<forall>v r p. reads_exp p d acc \<and> expr_loop acc ts d = Ok (v, r) \<longrightarrow> (\<exists>q. p @ ts = q @ r \<and> reads_exp q d v)"
  "\<forall>v r. parse_term ts d = Ok (v, r) \<longrightarrow> (\<exists>p. ts = p @ r \<and> reads_trm p d v)"
  "\<forall>v r p. reads_trm p d acc \<and> term_loop acc ts d = Ok (v, r) \<longrightarrow> (\<exists>q. p @ ts = q @ r \<and> reads_trm q d v)"
  "\<forall>v r. parse_unary ts d = Ok (v, r) \<longrightarrow> (\<exists>p. ts = p @ r \<and> reads_una p d v)"
  "\<forall>v r. parse_factor ts d = Ok (v, r) \<longrightarrow> (\<exists>p. ts = p @ r \<and> reads_fac p d v)"
proof (induction ts d and acc ts d and ts d and acc ts d and ts d and ts d
    rule: parse_expr_expr_loop_parse_term_term_loop_parse_unary_parse_factor.induct)
  case (1 ts d)
  then show ?case by (fastforce simp: parse_expr.simps dest: reads_intros(1) split: sum.splits)
next
  case (2 acc ts d)
  show ?case
  proof (intro allI impI, elim conjE)
    fix v r p assume p: "reads_exp p d acc" and l: "expr_loop acc ts d = Ok (v, r)"
    from l show "\<exists>q. p @ ts = q @ r \<and> reads_exp q d v"
    proof (cases rule: expr_loop_cases)
      case (plus ts1 b ts2)
      then show ?thesis using 2(1) 2(2) [OF plus(1) refl plus(2) refl] reads_intros(2) [OF p] by fastforce
    next
      case (minus ts1 b ts2)
      then show ?thesis using 2(3) 2(4) [OF minus(1) refl minus(2) refl] reads_intros(3) [OF p] by fastforce
    qed (use p in blast)
  qed
next
  case (3 ts d)
  then show ?case by (fastforce simp: parse_term.simps dest: reads_intros(4) split: sum.splits)
next
  case (4 acc ts d)
  show ?case
  proof (intro allI impI, elim conjE)
    fix v r p assume p: "reads_trm p d acc" and l: "term_loop acc ts d = Ok (v, r)"
    from l show "\<exists>q. p @ ts = q @ r \<and> reads_trm q d v"
    proof (cases rule: term_loop_cases)
      case (star ts1 b ts2)
      then show ?thesis using 4(1) 4(2) [OF star(1) refl star(2) refl] reads_intros(5) [OF p] by fastforce
    next
      case (slash ts1 b ts2)
      then show ?thesis
        using 4(3) 4(4) [OF slash(1) refl slash(2) refl slash(3)] reads_intros(6) [OF p] by fastforce
    qed (use p in blast)
  qed
next
  case (5 ts d)
  show ?case
  proof (intro allI impI)
    fix v r assume u: "parse_unary ts d = Ok (v, r)"
    obtain n ts' where s: "sign_run False ts = (n, ts')" by (rule prod.exhaust)
    then obtain w where w: "parse_factor ts' d = Ok (w, r)" "v = (if n then flt_neg w else w)"
      using u by (auto simp: parse_unary.simps split: sum.splits)
    then obtain p where "ts' = p @ r" "reads_fac p d w" using 5 s by metis
    then show "\<exists>p. ts = p @ r \<and> reads_una p d v"
      using reads_signs [of p d w ts r] s w(2) by simp
  qed
next
  case (6 ts d)
  show ?case
  proof (intro allI impI)
    fix v r assume "parse_factor ts d = Ok (v, r)"
    then show "\<exists>p. ts = p @ r \<and> reads_fac p d v"
    proof (cases rule: parse_factor_cases)
      case number
      then show ?thesis by (intro exI [of _ "[Number v]"]) (simp add: reads_intros(7))
    next
      case (parens ts1)
      then obtain p where "ts1 = p @ RParen # r" "reads_exp p (d + 1) v" using 6 by blast
      then show ?thesis
        using parens reads_intros(8) [of p d v] by (intro exI [of _ "LParen # p @ [RParen]"]) simp
    qed
  qed
qed


lemma expr_loop_Nil [simp]: "expr_loop v [] d = Ok (v, [])"
  by (simp add: expr_loop.simps)

lemma parse_open:
  "parse_expr (LParen # ts) d = Err TooDeep" if "MAX_PAREN_DEPTH \<le> d"
  using that by (simp add: parse_expr.simps parse_term.simps parse_unary.simps parse_factor.simps)

lemma parse_deep:
  "MAX_PAREN_DEPTH < d + n \<Longrightarrow> d \<le> MAX_PAREN_DEPTH \<Longrightarrow> parse_expr (replicate n LParen @ ts) d = Err TooDeep"
proof (induction n arbitrary: d)
  case (Suc n)
  show ?case
  proof (cases "d = MAX_PAREN_DEPTH")
    case True
    then show ?thesis by (simp add: parse_open)
  next
    case False
    then have "parse_expr (replicate n LParen @ ts) (d + 1) = Err TooDeep"
      using Suc by simp
    then show ?thesis
      using False Suc.prems
      by (simp add: parse_expr.simps [of "LParen # _"] parse_term.simps parse_unary.simps parse_factor.simps)
  qed
qed simp

section \<open>Properties\<close>

text \<open>C36: the calculator implements its grammar. A text evaluates to a number exactly when its tokens
  are those of an expression tree with that value: usual precedence, left-associative operators,
  signs that bind tighter than products, parentheses nested at most 64 deep. On the tokens of a tree
  it answers, whether value or error (a zero divisor, too deep), what the tree evaluates to.\<close>

theorem calculator_implements_grammar:
  "(evaluate_expr s = Ok v \<longleftrightarrow> (\<exists>e. tokenize s = Ok (exp_toks e) \<and> exp_eval e 0 = Ok v))
   \<and> (tokenize s = Ok (exp_toks tree) \<longrightarrow> evaluate_expr s = exp_eval tree 0)"
proof -
  have tree: "evaluate_expr s = exp_eval e 0" if "tokenize s = Ok (exp_toks e)" for e
    using that parse_toks(1) [of "[]" e 0] by (simp add: evaluate_expr_def ends_term_def split: sum.splits)
  have "\<exists>e. tokenize s = Ok (exp_toks e) \<and> exp_eval e 0 = Ok v" if "evaluate_expr s = Ok v"
  proof -
    obtain ts where t: "tokenize s = Ok ts" "parse_expr ts 0 = Ok (v, [])"
      using \<open>evaluate_expr s = Ok v\<close> by (auto simp: evaluate_expr_def split: sum.splits list.splits)
    then obtain p where "ts = p" "reads_exp p 0 v" using parser_sound(1) by fastforce
    then show ?thesis using t(1) by (auto simp: reads_exp_def)
  qed
  then show ?thesis using tree by auto
qed

lemma demo_tokens: "tokenize ''-(2)'' = Ok (exp_toks (EOne (TOne (UNeg (UFac (FPar (EOne (TOne (UFac (FNum (f64_round 2)))))))))))"
  by (simp add: tokenize.simps number_char_def is_ascii_digit_def parse_f64_def digits_value_def)

theorem calculator_implements_grammar_witness:
  "evaluate_expr ''-(2)'' = Ok (flt_neg (f64_round 2))"
  using calculator_implements_grammar [THEN conjunct2, THEN mp, OF demo_tokens]
  by (simp add: MAX_PAREN_DEPTH_def)

text \<open>Nesting is bounded. More than 64 opening parentheses in a row are refused whatever follows
  them: as too deep, or with the tokenizer's error when what follows is not made of tokens.\<close>

theorem calculator_refuses_deep_nesting:
  "evaluate_expr (replicate (65 + n) (CHR ''('') @ s) = (case tokenize s of Inl e \<Rightarrow> Err e | Inr ts \<Rightarrow> Err TooDeep)"
proof -
  have "tokenize (replicate k (CHR ''('') @ s) = map_sum id (\<lambda>ts. replicate k LParen @ ts) (tokenize s)" for k
  proof (induction k)
    case 0 show ?case by (cases "tokenize s") simp_all
  next
    case (Suc k)
    then show ?case by (cases "tokenize s") (simp_all add: tokenize.simps(2) number_char_def is_ascii_digit_def)
  qed
  then show ?thesis
    using parse_deep [of 0 "65 + n"]
    by (cases "tokenize s") (simp_all add: evaluate_expr_def MAX_PAREN_DEPTH_def is_ok_def del: replicate.simps)
qed

end
