(* ===== verification/ToolParser.thy ===== *)
theory ToolParser
  imports ToolGate
begin

text \<open>
  Tool calls in model output (\<open>genie-core/tools/parser.rs\<close>): finding a JSON text in a response (the
  whole response, a fenced block, or embedded in prose), repairing trailing commas, the shapes of a
  tool call, and the call into the tool gate. The JSON reader of \<open>serde_json\<close> is the argument
  \<open>from_str\<close>. The scans compare bytes with ASCII characters only, so they are written over
  characters.
\<close>

section \<open>Searching text\<close>

abbreviation "QUOTE \<equiv> CHR 34"
abbreviation "BACKSLASH \<equiv> CHR 0x5C"
abbreviation "COMMA \<equiv> CHR '',''"

definition fence :: string where "fence = replicate 3 (CHR 0x60)"

definition quoted_key :: "string \<Rightarrow> string" where
  "quoted_key k = [QUOTE] @ k @ [QUOTE]"

section \<open>Extracting JSON\<close>

definition is_json_container :: "string \<Rightarrow> bool" where
  "is_json_container s \<longleftrightarrow>
     (starts_with s ''{'' \<and> ends_with s ''}'') \<or> (starts_with s ''['' \<and> ends_with s '']'')"

definition FENCE_PATTERNS :: "string list" where
  "FENCE_PATTERNS = [fence @ ''json'' @ [CHR 10], fence @ ''json'' @ [CHR 13, CHR 10],
     fence @ [CHR 10], fence @ [CHR 13, CHR 10]]"

fun extract_with_patterns :: "(string \<Rightarrow> json option) \<Rightarrow> string \<Rightarrow> string list \<Rightarrow> string option" where
  "extract_with_patterns from_str s [] = None"
| "extract_with_patterns from_str s (p # ps) =
     (case find_str s p of
        None \<Rightarrow> extract_with_patterns from_str s ps
      | Some start \<Rightarrow>
          let content = drop (start + length p) s in
          case find_str content fence of
            None \<Rightarrow> extract_with_patterns from_str s ps
          | Some stop \<Rightarrow>
              let json_str = trim (take stop content) in
              if is_json_container json_str \<and> from_str json_str \<noteq> None then Some json_str
              else extract_with_patterns from_str s ps)"

definition extract_from_code_block :: "(string \<Rightarrow> json option) \<Rightarrow> string \<Rightarrow> string option" where
  "extract_from_code_block from_str s = extract_with_patterns from_str s FENCE_PATTERNS"

fun strip_commas :: "bool \<Rightarrow> bool \<Rightarrow> string \<Rightarrow> string" where
  "strip_commas in_string escape [] = []"
| "strip_commas in_string escape (c # s) =
     (if escape then c # strip_commas in_string False s
      else if c = BACKSLASH \<and> in_string then c # strip_commas in_string True s
      else if c = QUOTE then c # strip_commas (\<not> in_string) False s
      else if c = COMMA \<and> \<not> in_string then
        (case dropWhile is_whitespace s of
           n # r \<Rightarrow> if n = CHR ''}'' \<or> n = CHR '']'' then strip_commas in_string False s
                    else c # strip_commas in_string False s
         | [] \<Rightarrow> c # strip_commas in_string False s)
      else c # strip_commas in_string False s)"

definition strip_trailing_commas :: "string \<Rightarrow> string" where
  "strip_trailing_commas s = strip_commas False False s"

text \<open>The scan of \<open>extract_balanced_json_candidate\<close>: the text up to the delimiter that closes the
  first one, delimiters in string literals not counted.\<close>

fun scan_balanced :: "char \<Rightarrow> char \<Rightarrow> int \<Rightarrow> bool \<Rightarrow> bool \<Rightarrow> string \<Rightarrow> string \<Rightarrow> string option" where
  "scan_balanced opening closing depth in_string escape seen [] = None"
| "scan_balanced opening closing depth in_string escape seen (c # s) =
     (if escape then scan_balanced opening closing depth in_string False (seen @ [c]) s
      else if c = BACKSLASH \<and> in_string then scan_balanced opening closing depth in_string True (seen @ [c]) s
      else if c = QUOTE then scan_balanced opening closing depth (\<not> in_string) False (seen @ [c]) s
      else if c = opening \<and> \<not> in_string
      then scan_balanced opening closing (depth + 1) in_string False (seen @ [c]) s
      else if c = closing \<and> \<not> in_string
      then (if depth - 1 = 0 then Some (seen @ [c])
            else scan_balanced opening closing (depth - 1) in_string False (seen @ [c]) s)
      else scan_balanced opening closing depth in_string False (seen @ [c]) s)"

definition extract_balanced_json_candidate ::
  "(string \<Rightarrow> json option) \<Rightarrow> char \<Rightarrow> char \<Rightarrow> string \<Rightarrow> string option" where
  "extract_balanced_json_candidate from_str opening closing s =
     (case scan_balanced opening closing 0 False False [] s of
        None \<Rightarrow> None
      | Some candidate \<Rightarrow>
          if from_str candidate \<noteq> None then Some candidate
          else let repaired = strip_trailing_commas candidate in
               if repaired \<noteq> candidate \<and> from_str repaired \<noteq> None then Some repaired else None)"

definition closing_of :: "char \<Rightarrow> char option" where
  "closing_of c = (if c = CHR ''{'' then Some (CHR ''}'') else if c = CHR ''['' then Some (CHR '']'') else None)"

fun extract_embedded_json :: "(string \<Rightarrow> json option) \<Rightarrow> string \<Rightarrow> string option" where
  "extract_embedded_json from_str [] = None"
| "extract_embedded_json from_str (c # s) =
     (case closing_of c of
        None \<Rightarrow> extract_embedded_json from_str s
      | Some cl \<Rightarrow>
          (case extract_balanced_json_candidate from_str c cl (c # s) of
             Some candidate \<Rightarrow> Some candidate
           | None \<Rightarrow> extract_embedded_json from_str s))"

definition extract_json :: "(string \<Rightarrow> json option) \<Rightarrow> string \<Rightarrow> string option" where
  "extract_json from_str s =
     (let trimmed = trim s in
      if is_json_container trimmed \<and> from_str trimmed \<noteq> None then Some trimmed
      else case extract_from_code_block from_str trimmed of
             Some j \<Rightarrow> Some j
           | None \<Rightarrow> extract_embedded_json from_str trimmed)"


section \<open>The shapes of a tool call\<close>

text \<open>The derived reader of \<open>ToolCall\<close>: an object with a string under \<open>name\<close> or its alias \<open>tool\<close>, not
  both, and \<open>arguments\<close> defaulting to null; or the same fields in order in an array.\<close>

fun tool_call_from_value :: "json \<Rightarrow> tool_call option" where
  "tool_call_from_value (JObj kvs) =
     (case (map_of kvs ''name'', map_of kvs ''tool'') of
        (Some (JStr n), None) \<Rightarrow>
          Some \<lparr>call_name = n, arguments = (case map_of kvs ''arguments'' of Some a \<Rightarrow> a | None \<Rightarrow> JNull)\<rparr>
      | (None, Some (JStr n)) \<Rightarrow>
          Some \<lparr>call_name = n, arguments = (case map_of kvs ''arguments'' of Some a \<Rightarrow> a | None \<Rightarrow> JNull)\<rparr>
      | _ \<Rightarrow> None)"
| "tool_call_from_value (JArr [JStr n]) = Some \<lparr>call_name = n, arguments = JNull\<rparr>"
| "tool_call_from_value (JArr [JStr n, a]) = Some \<lparr>call_name = n, arguments = a\<rparr>"
| "tool_call_from_value _ = None"

definition scalar_primary_arg :: "string \<Rightarrow> string option" where
  "scalar_primary_arg tool_name =
     map_of [(''get_weather'', ''location''), (''web_search'', ''query''), (''calculate'', ''expression''),
       (''play_media'', ''query''), (''memory_recall'', ''query''), (''memory_store'', ''content''),
       (''memory_forget'', ''query''), (''home_status'', ''entity''), (''set_timer'', ''seconds'')] tool_name"

fun is_scalar :: "json \<Rightarrow> bool" where
  "is_scalar (JStr s) = True"
| "is_scalar (JNum n) = True"
| "is_scalar (JBool b) = True"
| "is_scalar _ = False"

fun is_object :: "json \<Rightarrow> bool" where
  "is_object (JObj kvs) = True"
| "is_object _ = False"

definition normalize_single_key_arguments :: "string \<Rightarrow> json \<Rightarrow> json" where
  "normalize_single_key_arguments tool_name nested =
     (if is_object nested then nested
      else if is_scalar nested
      then (case scalar_primary_arg tool_name of
              Some primary \<Rightarrow> JObj [(primary, nested)]
            | None \<Rightarrow> JObj [])
      else JObj [])"

definition normalize_eval_arguments :: "(string \<Rightarrow> json option) \<Rightarrow> json \<Rightarrow> json" where
  "normalize_eval_arguments from_str a =
     (case a of
        JStr s \<Rightarrow> (case from_str s of Some v \<Rightarrow> v | None \<Rightarrow> JStr s)
      | JNull \<Rightarrow> JObj []
      | _ \<Rightarrow> a)"

text \<open>What the runtime knows of the tools: whether a home provider and web search are configured, and
  the loaded skills.\<close>

record known_tools =
  has_home :: bool
  has_web :: bool
  loaded_skills :: "string list option"

definition normalize_single_key_tool_call :: "known_tools \<Rightarrow> json \<Rightarrow> tool_call option" where
  "normalize_single_key_tool_call kt v =
     (case v of
        JObj [(tool_name, nested)] \<Rightarrow>
          if is_known_tool (has_home kt) (has_web kt) (loaded_skills kt) tool_name
          then Some \<lparr>call_name = tool_name, arguments = normalize_single_key_arguments tool_name nested\<rparr>
          else None
      | _ \<Rightarrow> None)"

definition normalize_single_key_tool_call_for_eval :: "json \<Rightarrow> tool_call option" where
  "normalize_single_key_tool_call_for_eval v =
     (case v of
        JObj [(tool_name, nested)] \<Rightarrow>
          if tool_name \<in> {''answer'', ''response'', ''message'', ''content'', ''text''} then None
          else Some \<lparr>call_name = tool_name, arguments = normalize_single_key_arguments tool_name nested\<rparr>
      | _ \<Rightarrow> None)"

definition parse_single_tool_call_for_eval :: "(string \<Rightarrow> json option) \<Rightarrow> json \<Rightarrow> tool_call option" where
  "parse_single_tool_call_for_eval from_str v =
     (case tool_call_from_value v of
        Some c \<Rightarrow> (if trim (call_name c) \<noteq> []
                   then Some (c\<lparr>arguments := normalize_eval_arguments from_str (arguments c)\<rparr>) else None)
      | None \<Rightarrow> normalize_single_key_tool_call_for_eval v)"

definition parse_openai_function_call_for_eval :: "(string \<Rightarrow> json option) \<Rightarrow> json \<Rightarrow> tool_call option" where
  "parse_openai_function_call_for_eval from_str v =
     (case Option.bind (json_get v ''name'') json_as_str of
        None \<Rightarrow> None
      | Some n \<Rightarrow>
          if trim n = [] then None
          else Some \<lparr>call_name = trim n,
            arguments = (case json_get v ''arguments'' of
                           Some a \<Rightarrow> normalize_eval_arguments from_str a
                         | None \<Rightarrow> JObj [])\<rparr>)"

definition parse_openai_tool_call_for_eval :: "(string \<Rightarrow> json option) \<Rightarrow> json \<Rightarrow> tool_call option" where
  "parse_openai_tool_call_for_eval from_str v =
     (case json_get v ''function'' of
        Some f \<Rightarrow> parse_openai_function_call_for_eval from_str f
      | None \<Rightarrow> parse_openai_function_call_for_eval from_str v)"

definition option_list :: "'a option \<Rightarrow> 'a list" where
  "option_list x = (case x of Some a \<Rightarrow> [a] | None \<Rightarrow> [])"

definition parse_tool_call_value_for_eval :: "(string \<Rightarrow> json option) \<Rightarrow> json \<Rightarrow> tool_call list" where
  "parse_tool_call_value_for_eval from_str v =
     (case v of
        JArr items \<Rightarrow> List.map_filter (parse_single_tool_call_for_eval from_str) items
      | JObj kvs \<Rightarrow>
          (case map_of kvs ''tool_calls'' of
             Some (JArr calls) \<Rightarrow> List.map_filter (parse_openai_tool_call_for_eval from_str) calls
           | _ \<Rightarrow>
               (case map_of kvs ''function_call'' of
                  Some f \<Rightarrow> option_list (parse_openai_function_call_for_eval from_str f)
                | None \<Rightarrow> option_list (parse_single_tool_call_for_eval from_str v)))
      | _ \<Rightarrow> [])"

definition parse_tool_call_value :: "(string \<Rightarrow> json option) \<Rightarrow> known_tools \<Rightarrow> json \<Rightarrow> tool_call option" where
  "parse_tool_call_value from_str kt v =
     (case tool_call_from_value v of
        Some c \<Rightarrow>
          if call_name c \<noteq> [] then Some c
          else (case normalize_single_key_tool_call kt v of
                  Some c' \<Rightarrow> Some c'
                | None \<Rightarrow> (case parse_tool_call_value_for_eval from_str v of c' # _ \<Rightarrow> Some c' | [] \<Rightarrow> None))
      | None \<Rightarrow>
          (case normalize_single_key_tool_call kt v of
             Some c' \<Rightarrow> Some c'
           | None \<Rightarrow> (case parse_tool_call_value_for_eval from_str v of c' # _ \<Rightarrow> Some c' | [] \<Rightarrow> None)))"

definition parse_tool_calls_for_eval :: "(string \<Rightarrow> json option) \<Rightarrow> string \<Rightarrow> tool_call list" where
  "parse_tool_calls_for_eval from_str response =
     (case extract_json from_str response of
        None \<Rightarrow> []
      | Some j \<Rightarrow> (case from_str j of None \<Rightarrow> [] | Some v \<Rightarrow> parse_tool_call_value_for_eval from_str v))"

section \<open>From a response to the gate\<close>

definition call_in_response :: "(string \<Rightarrow> json option) \<Rightarrow> known_tools \<Rightarrow> string \<Rightarrow> tool_call option" where
  "call_in_response from_str kt response =
     (case extract_json from_str response of
        None \<Rightarrow> None
      | Some j \<Rightarrow>
          (case from_str j of
             None \<Rightarrow> None
           | Some v \<Rightarrow>
               (case parse_tool_call_value from_str kt v of
                  None \<Rightarrow> None
                | Some c \<Rightarrow> if call_name c = [] then None else Some c)))"

definition try_tool_call_with_context ::
  "(string \<Rightarrow> json option) \<Rightarrow> known_tools \<Rightarrow>
     (tool_call \<Rightarrow> 'm tool_execution_context \<Rightarrow> 'd \<Rightarrow> (string + string) \<times> 'd) \<Rightarrow>
     gate_env \<Rightarrow> gate_clock \<Rightarrow> gate_clock \<Rightarrow> string \<Rightarrow> 'm tool_execution_context \<Rightarrow>
     gate_state \<times> 'd \<Rightarrow> tool_result option \<times> gate_state \<times> 'd" where
  "try_tool_call_with_context from_str kt body env clk clk_end response ctx gs =
     (case call_in_response from_str kt response of
        None \<Rightarrow> (None, gs)
      | Some call \<Rightarrow>
          (case execute_with_context body env clk clk_end call ctx gs of (res, gs) \<Rightarrow> (Some res, gs)))"

definition looks_toolish :: "string \<Rightarrow> bool" where
  "looks_toolish trimmed \<longleftrightarrow>
     (starts_with trimmed ''{'' \<or> starts_with trimmed ''['' \<or> starts_with trimmed fence)
     \<and> (str_contains trimmed (quoted_key ''tool'') \<or> str_contains trimmed (quoted_key ''arguments'')
        \<or> str_contains trimmed (quoted_key ''name'') \<or> str_contains trimmed (quoted_key ''tool_calls'')
        \<or> str_contains trimmed (quoted_key ''function_call''))"

definition is_unparsed_tool_call :: "(string \<Rightarrow> json option) \<Rightarrow> string \<Rightarrow> bool" where
  "is_unparsed_tool_call from_str response \<longleftrightarrow>
     (let trimmed = trim response in
      case extract_json from_str response of
        None \<Rightarrow> looks_toolish trimmed
      | Some j \<Rightarrow>
          if from_str j = None then looks_toolish trimmed
          else (str_contains trimmed (quoted_key ''tool_calls'')
                \<or> str_contains trimmed (quoted_key ''function_call'') \<or> starts_with trimmed ''['')
               \<and> parse_tool_calls_for_eval from_str response = [])"


section \<open>Extraction: lemmas\<close>

lemma trim_split: "\<exists>a b. s = a @ trim s @ b"
proof -
  have "s = takeWhile is_whitespace s @ trim_start s" by (simp add: trim_start_def)
  moreover have "rev (trim_start s) = takeWhile is_whitespace (rev (trim_start s)) @ rev (trim s)"
    by (simp add: trim_def trim_start_def)
  then have "trim_start s = trim s @ rev (takeWhile is_whitespace (rev (trim_start s)))"
    by (metis rev_append rev_rev_ident)
  ultimately have "s = takeWhile is_whitespace s @ trim s @ rev (takeWhile is_whitespace (rev (trim_start s)))"
    by simp
  then show ?thesis by blast
qed

definition part_of :: "string \<Rightarrow> string \<Rightarrow> bool" where
  "part_of p s \<longleftrightarrow> (\<exists>a b. s = a @ p @ b)"

lemma part_of_refl [simp]: "part_of s s"
  unfolding part_of_def by (intro exI [of _ "[]"]) simp

lemma part_of_trans: "part_of p q \<Longrightarrow> part_of q s \<Longrightarrow> part_of p s"
proof -
  assume "part_of p q" "part_of q s"
  then obtain a b c d where "q = a @ p @ b" "s = c @ q @ d" by (auto simp: part_of_def)
  then have "s = (c @ a) @ p @ (b @ d)" by simp
  then show "part_of p s" unfolding part_of_def by blast
qed

lemma part_of_trim: "part_of (trim s) s"
  unfolding part_of_def by (rule trim_split)

lemma part_of_take: "part_of (take n s) s"
  unfolding part_of_def by (rule exI [of _ "[]"], rule exI [of _ "drop n s"]) simp

lemma part_of_drop: "part_of (drop n s) s"
  unfolding part_of_def by (rule exI [of _ "take n s"], rule exI [of _ "[]"]) simp

lemma part_of_Cons: "part_of s (c # s)"
  unfolding part_of_def by (rule exI [of _ "[c]"], rule exI [of _ "[]"]) simp

lemma scan_balanced_prefix:
  "scan_balanced opn cls d q e seen s = Some j \<Longrightarrow> \<exists>r. seen @ s = j @ r"
proof (induction opn cls d q e seen s rule: scan_balanced.induct)
  case (2 opn cls d q e seen c s)
  then show ?case by (auto split: if_splits)
qed simp

lemma scan_balanced_part: "scan_balanced opn cls d q e [] s = Some j \<Longrightarrow> part_of j s"
  using scan_balanced_prefix [of opn cls d q e "[]" s j] by (auto simp: part_of_def intro: exI [of _ "[]"])

definition sound_json :: "(string \<Rightarrow> json option) \<Rightarrow> string \<Rightarrow> string \<Rightarrow> bool" where
  "sound_json from_str s j \<longleftrightarrow>
     from_str j \<noteq> None \<and> (\<exists>c. part_of c s \<and> (j = c \<or> j = strip_trailing_commas c))"

lemma sound_json_part: "sound_json fs p j \<Longrightarrow> part_of p s \<Longrightarrow> sound_json fs s j"
  unfolding sound_json_def using part_of_trans by blast

lemma patterns_trim:
  "extract_with_patterns fs s ps = Some j \<Longrightarrow> fs j \<noteq> None \<and> (\<exists>m n. j = trim (take n (drop m s)))"
proof (induction fs s ps rule: extract_with_patterns.induct)
  case (2 fs s p ps)
  then show ?case by (auto simp: Let_def split: option.splits if_splits)
qed simp

lemma patterns_sound: "extract_with_patterns fs s ps = Some j \<Longrightarrow> sound_json fs s j"
  using patterns_trim [of fs s ps j]
    part_of_trans [OF part_of_trim part_of_trans [OF part_of_take part_of_drop]]
  unfolding sound_json_def by blast

lemma candidate_sound: "extract_balanced_json_candidate fs opn cls s = Some j \<Longrightarrow> sound_json fs s j"
  using scan_balanced_part [of opn cls 0 False False s]
  by (auto simp: extract_balanced_json_candidate_def sound_json_def Let_def split: option.splits if_splits)

lemma embedded_sound: "extract_embedded_json fs s = Some j \<Longrightarrow> sound_json fs s j"
proof (induction fs s rule: extract_embedded_json.induct)
  case (2 fs c s)
  then show ?case
    using candidate_sound [of fs c _ "c # s" j] sound_json_part [of fs s j "c # s"] part_of_Cons
    by (auto split: option.splits)
qed simp

lemma sound_json_whole: "fs j \<noteq> None \<Longrightarrow> sound_json fs j j"
  unfolding sound_json_def using part_of_refl by blast

lemma extract_json_sound_aux: "extract_json fs s = Some j \<Longrightarrow> sound_json fs (trim s) j"
  using patterns_sound [of fs "trim s" FENCE_PATTERNS j] embedded_sound [of fs "trim s" j]
    sound_json_whole [of fs "trim s"]
  unfolding extract_json_def extract_from_code_block_def Let_def
  by (simp split: if_splits option.splits)


text \<open>The characters of a text, each with whether it stands in a string literal.\<close>

fun literal_marks :: "bool \<Rightarrow> bool \<Rightarrow> string \<Rightarrow> (char \<times> bool) list" where
  "literal_marks in_string escape [] = []"
| "literal_marks in_string escape (c # s) =
     (c, in_string) #
       (if escape then literal_marks in_string False s
        else if c = BACKSLASH \<and> in_string then literal_marks in_string True s
        else if c = QUOTE then literal_marks (\<not> in_string) False s
        else literal_marks in_string False s)"

text \<open>All but the commas outside literals.\<close>

definition significant :: "char \<times> bool \<Rightarrow> bool" where
  "significant cl = (snd cl \<or> fst cl \<noteq> COMMA)"

lemma significant_pair [simp]: "significant (c, lit) \<longleftrightarrow> lit \<or> c \<noteq> COMMA"
  by (simp add: significant_def)

lemma strip_commas_marks:
  "(e \<longrightarrow> q) \<Longrightarrow> filter significant (literal_marks q e (strip_commas q e s))
     = filter significant (literal_marks q e s)"
proof (induction s arbitrary: q e)
  case (Cons c s)
  have IH: "filter significant (literal_marks q e (strip_commas q e s))
     = filter significant (literal_marks q e s)" if "e \<longrightarrow> q" for q e
    using Cons.IH that .
  show ?case using Cons.prems
    by (cases e; cases q; cases "c = COMMA") (auto simp: IH split: list.split)
qed simp

text \<open>A reference printer of JSON in compact form, with the numbers printed by \<open>num\<close>.\<close>

definition escape_json :: "string \<Rightarrow> string" where
  "escape_json s = concat (map (\<lambda>c. if c = QUOTE \<or> c = BACKSLASH then [BACKSLASH, c] else [c]) s)"

definition json_string :: "string \<Rightarrow> string" where
  "json_string s = [QUOTE] @ escape_json s @ [QUOTE]"

fun json_text :: "(jnum \<Rightarrow> string) \<Rightarrow> json \<Rightarrow> string" where
  "json_text num JNull = ''null''"
| "json_text num (JBool b) = (if b then ''true'' else ''false'')"
| "json_text num (JNum n) = num n"
| "json_text num (JStr s) = json_string s"
| "json_text num (JArr vs) = ''['' @ join_str '','' (map (json_text num) vs) @ '']''"
| "json_text num (JObj kvs) =
     ''{'' @ join_str '','' (map (\<lambda>(k, v). json_string k @ '':'' @ json_text num v) kvs) @ ''}''"

definition plain_text :: "string \<Rightarrow> bool" where
  "plain_text s \<longleftrightarrow> set s \<inter> {QUOTE, BACKSLASH, CHR ''{'', CHR ''}'', CHR ''['', CHR '']''} = {}"

definition delimiters :: "(char \<times> char) set" where
  "delimiters = {(CHR ''{'', CHR ''}''), (CHR ''['', CHR '']'')}"

text \<open>A text that the scan passes over, back to the same depth.\<close>

definition passes :: "string \<Rightarrow> bool" where
  "passes x \<longleftrightarrow> (\<forall>(opn, cls) \<in> delimiters. \<forall>d seen r. 1 \<le> d \<longrightarrow>
     scan_balanced opn cls d False False seen (x @ r) = scan_balanced opn cls d False False (seen @ x) r)"

lemma passes_Nil [intro]: "passes []"
  by (simp add: passes_def)

lemma passes_append [intro]: "passes x \<Longrightarrow> passes y \<Longrightarrow> passes (x @ y)"
  by (fastforce simp: passes_def)

lemma passes_plain_char: "plain_text [c] \<Longrightarrow> passes [c]"
  by (auto simp: passes_def plain_text_def delimiters_def)

lemma passes_plain: "plain_text x \<Longrightarrow> passes x"
proof (induction x)
  case (Cons c x)
  then have "passes [c]" "passes x" by (auto simp: plain_text_def intro: passes_plain_char)
  then show ?case using passes_append by fastforce
qed auto

lemma scan_literal:
  "(opn, cls) \<in> delimiters \<Longrightarrow>
     scan_balanced opn cls d True False seen (escape_json s @ r)
       = scan_balanced opn cls d True False (seen @ escape_json s) r"
  by (induction s arbitrary: seen) (auto simp: escape_json_def delimiters_def)

lemma passes_string: "passes (json_string s)"
proof -
  have "scan_balanced opn cls d False False seen (json_string s @ r)
      = scan_balanced opn cls d False False (seen @ json_string s) r"
    if "(opn, cls) \<in> delimiters" for opn cls d seen r
    using that scan_literal [OF that, of d "seen @ [QUOTE]" s "QUOTE # r"]
    by (auto simp: json_string_def delimiters_def)
  then show ?thesis by (auto simp: passes_def)
qed

lemma passes_delimited:
  assumes "passes x" and "(a, b) \<in> delimiters"
  shows "passes ([a] @ x @ [b])"
proof -
  have "scan_balanced opn cls d False False seen (([a] @ x @ [b]) @ r)
      = scan_balanced opn cls d False False (seen @ [a] @ x @ [b]) r"
    if o: "(opn, cls) \<in> delimiters" and d: "1 \<le> d" for opn cls d seen r
  proof (cases "a = opn")
    case True
    then have "scan_balanced opn cls (d + 1) False False (seen @ [a]) (x @ b # r)
        = scan_balanced opn cls (d + 1) False False (seen @ [a] @ x) (b # r)"
      using assms(1) o d by (fastforce simp: passes_def)
    then show ?thesis using True o assms(2) d by (fastforce simp: delimiters_def)
  next
    case False
    then have "scan_balanced opn cls d False False (seen @ [a]) (x @ b # r)
        = scan_balanced opn cls d False False (seen @ [a] @ x) (b # r)"
      using assms(1) o d by (fastforce simp: passes_def)
    then show ?thesis using False o assms(2) d by (fastforce simp: delimiters_def)
  qed
  then show ?thesis unfolding passes_def by blast
qed

lemma passes_join: "\<forall>x \<in> set xs. passes x \<Longrightarrow> passes sep \<Longrightarrow> passes (join_str sep xs)"
  by (induction sep xs rule: join_str.induct) auto

lemma passes_comma: "passes '',''" and passes_colon: "passes '':''"
  by (rule passes_plain; simp add: plain_text_def)+

lemma passes_json_text:
  assumes num: "\<And>n. plain_text (num n)"
  shows "passes (json_text num v)"
proof (induction v)
  case (JArr vs)
  then have "passes (join_str '','' (map (json_text num) vs))"
    by (intro passes_join passes_comma) simp
  from passes_delimited [OF this, of "CHR ''[''" "CHR '']''"] show ?case by (simp add: delimiters_def)
next
  case (JObj kvs)
  have "passes (json_string k @ '':'' @ json_text num v)" if "(k, v) \<in> set kvs" for k v
    using JObj that by (intro passes_append passes_string passes_colon) auto
  then have "passes (join_str '','' (map (\<lambda>(k, v). json_string k @ '':'' @ json_text num v) kvs))"
    by (intro passes_join passes_comma) auto
  from passes_delimited [OF this, of "CHR ''{''" "CHR ''}''"] show ?case by (simp add: delimiters_def)
next
  case (JNum n)
  then show ?case using passes_plain [OF num] by simp
next
  case (JBool b)
  then show ?case by (auto simp: plain_text_def intro!: passes_plain)
next
  case JNull
  then show ?case by (auto simp: plain_text_def intro!: passes_plain)
qed (simp add: passes_string)


lemma scan_object:
  assumes num: "\<And>n. plain_text (num n)"
  shows "scan_balanced (CHR ''{'') (CHR ''}'') 0 False False [] (json_text num (JObj kvs) @ r)
    = Some (json_text num (JObj kvs))"
proof -
  let ?x = "join_str '','' (map (\<lambda>(k, v). json_string k @ '':'' @ json_text num v) kvs)"
  have "passes (json_string k @ '':'' @ json_text num v)" for k v
    by (intro passes_append passes_string passes_colon passes_json_text num)
  then have "passes ?x" by (intro passes_join passes_comma) auto
  then have "scan_balanced (CHR ''{'') (CHR ''}'') 1 False False ''{'' (?x @ ''}'' @ r)
      = scan_balanced (CHR ''{'') (CHR ''}'') 1 False False (''{'' @ ?x) (''}'' @ r)"
    unfolding passes_def delimiters_def by blast
  then show ?thesis by simp
qed

lemma embedded_after_prose:
  "list_all (\<lambda>c. closing_of c = None) prose \<Longrightarrow>
     extract_embedded_json fs (prose @ s) = extract_embedded_json fs s"
  by (induction prose) auto

lemma no_pattern: "\<not> str_contains s fence \<Longrightarrow> extract_from_code_block fs s = None"
proof -
  assume n: "\<not> str_contains s fence"
  have "find_str s p = None" if "p \<in> set FENCE_PATTERNS" for p
  proof -
    have "str_contains p fence"
      using that by (auto simp: FENCE_PATTERNS_def fence_def)
    then show ?thesis using n str_contains_trans [of s p fence] by (auto simp: find_str_None)
  qed
  then have "extract_with_patterns fs s ps = None" if "set ps \<subseteq> set FENCE_PATTERNS" for ps
    using that by (induction ps) auto
  then show ?thesis by (simp add: extract_from_code_block_def)
qed

section \<open>Properties\<close>

text \<open>What is extracted from a response is JSON and comes from the response. It is accepted by the
  JSON reader, and it is a contiguous part of the response or such a part with trailing commas
  removed, a repair that keeps every string literal and every character but commas outside them.\<close>

theorem extract_json_sound:
  "case extract_json from_str s of
     None \<Rightarrow> True
   | Some j \<Rightarrow> from_str j \<noteq> None \<and> (\<exists>a c b. trim s = a @ c @ b \<and> (j = c \<or> j = strip_trailing_commas c)
       \<and> filter significant (literal_marks False False j)
           = filter significant (literal_marks False False c))"
proof (cases "extract_json from_str s")
  case (Some j)
  then obtain a b c where "trim s = a @ c @ b" "j = c \<or> j = strip_trailing_commas c" "from_str j \<noteq> None"
    using extract_json_sound_aux [OF Some] by (auto simp: sound_json_def part_of_def)
  moreover from this have "filter significant (literal_marks False False j)
           = filter significant (literal_marks False False c)"
    using strip_commas_marks [of False False c] by (auto simp: strip_trailing_commas_def)
  ultimately show ?thesis using Some by auto
qed simp


definition demo_from_str :: "string \<Rightarrow> json option" where
  "demo_from_str s =
     (if s = json_text (\<lambda>n. []) (JObj [(''tool'', JStr ''get_time'')])
      then Some (JObj [(''tool'', JStr ''get_time'')]) else None)"



lemma single_key_shape:
  "normalize_single_key_tool_call kt v = Some c \<Longrightarrow> \<exists>w. v = JObj [(call_name c, w)]"
  unfolding normalize_single_key_tool_call_def
  by (split json.split_asm; simp; split list.split_asm; auto split: list.splits if_splits)

lemma eval_call_named:
  assumes "parse_tool_call_value_for_eval fs v = c # cs" and "call_name c \<noteq> []"
  shows "\<exists>c'. parse_tool_call_value fs kt v = Some c' \<and> call_name c' \<noteq> []"
proof -
  have known: "call_name c' \<noteq> []" if "normalize_single_key_tool_call kt v = Some c'"
    "tool_call_from_value v = None \<or> (\<exists>d. tool_call_from_value v = Some d \<and> call_name d = [])" for c'
  proof -
    note single_key_shape [OF that(1)]
    then obtain k w where v: "v = JObj [(k, w)]" "call_name c' = k" by blast
    show ?thesis
    proof
      assume "call_name c' = []"
      then have "k = []" using v by simp
      then show False
        using assms v by (auto simp: parse_tool_call_value_for_eval_def parse_single_tool_call_for_eval_def
            normalize_single_key_tool_call_for_eval_def option_list_def)
    qed
  qed
  show ?thesis
  proof (cases "\<exists>d. tool_call_from_value v = Some d \<and> call_name d \<noteq> []")
    case True
    then show ?thesis by (auto simp: parse_tool_call_value_def)
  next
    case False
    then have d: "tool_call_from_value v = None \<or> (\<exists>d. tool_call_from_value v = Some d \<and> call_name d = [])"
      by (cases "tool_call_from_value v") auto
    show ?thesis
    proof (cases "normalize_single_key_tool_call kt v")
      case None
      then show ?thesis using d assms by (auto simp: parse_tool_call_value_def)
    next
      case (Some c')
      then show ?thesis using d known [OF Some d] by (auto simp: parse_tool_call_value_def)
    qed
  qed
qed

text \<open>The runtime understands every call that the evaluator counts. If the calls parsed from a
  response for evaluation start with a named call, the runtime dispatches a named call for the same
  response, whatever tools are configured.\<close>

theorem runtime_accepts_evaluated_calls:
  assumes "parse_tool_calls_for_eval from_str response = c # cs" and "call_name c \<noteq> []"
  shows "\<exists>c'. call_in_response from_str kt response = Some c' \<and> call_name c' \<noteq> []"
proof -
  obtain j v where "extract_json from_str response = Some j" "from_str j = Some v"
    "parse_tool_call_value_for_eval from_str v = c # cs"
    using assms(1) by (auto simp: parse_tool_calls_for_eval_def split: option.splits)
  then show ?thesis
    using eval_call_named [of from_str v c cs kt] assms(2) by (auto simp: call_in_response_def)
qed

theorem runtime_accepts_evaluated_calls_witness:
  "call_in_response demo_from_str \<lparr>has_home = False, has_web = False, loaded_skills = None\<rparr>
     (json_text (\<lambda>n. []) (JObj [(''tool'', JStr ''get_time'')])) \<noteq> None"
proof -
  have "parse_tool_calls_for_eval demo_from_str (json_text (\<lambda>n. []) (JObj [(''tool'', JStr ''get_time'')]))
      = [\<lparr>call_name = ''get_time'', arguments = JObj []\<rparr>]" by code_simp
  from runtime_accepts_evaluated_calls [OF this] show ?thesis by fastforce
qed

text \<open>A JSON reader that knows four values, for the examples.\<close>

definition demo_values :: "json list" where
  "demo_values =
     [JObj [(''tool'', JNum (PosInt 5)), (''x'', JNull)],
      JObj [(''name'', JStr ''get_time''), (''tool_calls'', JArr [])],
      JObj [(''tool'', JStr ''calculate''),
            (''arguments'', JStr (json_text (\<lambda>n. ''5'') (JObj [(''expression'', JStr ''1+1'')])))],
      JObj [(''expression'', JStr ''1+1'')]]"

definition shapes_from_str :: "string \<Rightarrow> json option" where
  "shapes_from_str s = find (\<lambda>v. json_text (\<lambda>n. ''5'') v = s) demo_values"

lemma demo_shapes:
  "let r = json_text (\<lambda>n. ''5'') (JObj [(''tool'', JNum (PosInt 5)), (''x'', JNull)]) in
     looks_toolish r \<and> extract_json shapes_from_str r = Some r \<and> \<not> is_unparsed_tool_call shapes_from_str r
     \<and> shapes_from_str r = Some (JObj [(''tool'', JNum (PosInt 5)), (''x'', JNull)])
     \<and> parse_tool_call_value_for_eval shapes_from_str (JObj [(''tool'', JNum (PosInt 5)), (''x'', JNull)]) = []"
  "let r = json_text (\<lambda>n. ''5'') (JObj [(''name'', JStr ''get_time''), (''tool_calls'', JArr [])]) in
     extract_json shapes_from_str r = Some r \<and> is_unparsed_tool_call shapes_from_str r
     \<and> shapes_from_str r = Some (JObj [(''name'', JStr ''get_time''), (''tool_calls'', JArr [])])"
  by code_simp+

text \<open>Arguments given as a JSON text in a string: the evaluator decodes them, the runtime passes the
  string on.\<close>

lemma string_arguments_divergence:
  "let args = json_text (\<lambda>n. ''5'') (JObj [(''expression'', JStr ''1+1'')]);
       r = json_text (\<lambda>n. ''5'') (JObj [(''tool'', JStr ''calculate''), (''arguments'', JStr args)])
   in parse_tool_calls_for_eval shapes_from_str r
        = [\<lparr>call_name = ''calculate'', arguments = JObj [(''expression'', JStr ''1+1'')]\<rparr>]
      \<and> call_in_response shapes_from_str \<lparr>has_home = False, has_web = False, loaded_skills = None\<rparr> r
        = Some \<lparr>call_name = ''calculate'', arguments = JStr args\<rparr>"
  by code_simp

text \<open>Where the flag for unparsed tool calls and the parser disagree. A response that looks like a
  tool call, is valid JSON but no call in any known shape is dispatched by nobody and not flagged, so
  it is shown to the user; and a response whose call is dispatched can be flagged as unparsed.\<close>

theorem unparsed_flag_gaps:
  "(let r = json_text (\<lambda>n. ''5'') (JObj [(''tool'', JNum (PosInt 5)), (''x'', JNull)]) in
      looks_toolish r \<and> call_in_response shapes_from_str kt r = None \<and> \<not> is_unparsed_tool_call shapes_from_str r)
   \<and> (let r = json_text (\<lambda>n. ''5'') (JObj [(''name'', JStr ''get_time''), (''tool_calls'', JArr [])]) in
      call_in_response shapes_from_str kt r = Some \<lparr>call_name = ''get_time'', arguments = JNull\<rparr>
      \<and> is_unparsed_tool_call shapes_from_str r)"
  using demo_shapes by (simp add: call_in_response_def Let_def parse_tool_call_value_def
      normalize_single_key_tool_call_def)

end
