(* ===== verification/Timer.thy ===== *)
theory Timer
  imports ToolGate "HOL-Library.Multiset"
begin

text \<open>
  Countdown timers (\<open>genie-core/tools/timer.rs\<close>) and the tool that sets them
  (\<open>tools/dispatch/set_timer.rs\<close>). The clock reading of each operation is an argument.
\<close>

section \<open>The timer table\<close>

definition MAX_ACTIVE_TIMERS :: nat where "MAX_ACTIVE_TIMERS = 64"

definition MAX_TIMER_SECONDS :: nat where "MAX_TIMER_SECONDS = 7 * 24 * 3600"

record timer =
  timer_label :: string
  end_ms :: nat

datatype timer_error = DurationZero | DurationTooLong | EndOverflow | TooManyTimers

definition set_timer :: "nat \<Rightarrow> nat \<Rightarrow> string \<Rightarrow> timer list \<Rightarrow> (timer_error + unit) \<times> timer list" where
  "set_timer now seconds label timers =
     (if seconds = 0 then (Err DurationZero, timers)
      else if MAX_TIMER_SECONDS < seconds then (Err DurationTooLong, timers)
      else case Option.bind (u64_checked_mul seconds 1000) (u64_checked_add now) of
             None \<Rightarrow> (Err EndOverflow, timers)
           | Some e \<Rightarrow>
               if MAX_ACTIVE_TIMERS \<le> length timers then (Err TooManyTimers, timers)
               else (Ok (), timers @ [\<lparr>timer_label = label, end_ms = e\<rparr>]))"

definition check_fired :: "nat \<Rightarrow> timer list \<Rightarrow> string list \<times> timer list" where
  "check_fired now timers =
     (map timer_label (filter (\<lambda>t. end_ms t \<le> now) timers), filter (\<lambda>t. \<not> end_ms t \<le> now) timers)"

definition timer_count :: "timer list \<Rightarrow> nat" where
  "timer_count timers = length timers"

section \<open>The tool\<close>

datatype set_timer_error = SecondsZero | SecondsNotInteger | LabelNotString | TimerRefused timer_error

definition parse_positive_integer_seconds :: "json \<Rightarrow> set_timer_error + nat" where
  "parse_positive_integer_seconds v =
     (case json_as_u64 v of
        Some s \<Rightarrow> if s = 0 then Err SecondsZero else Ok s
      | None \<Rightarrow>
          (case json_as_f64 v of
             Some (Fin q) \<Rightarrow>
               if q \<noteq> of_int \<lfloor>q\<rfloor> \<or> q < 1 then Err SecondsNotInteger
               else let s = min (nat \<lfloor>q\<rfloor>) u64_max
                    in if f64_of_nat s \<noteq> q then Err SecondsNotInteger else Ok s
           | _ \<Rightarrow> Err SecondsNotInteger))"

definition parse_set_timer_label :: "json \<Rightarrow> set_timer_error + string" where
  "parse_set_timer_label args =
     (case json_get args ''label'' of
        None \<Rightarrow> Ok ''timer''
      | Some JNull \<Rightarrow> Ok ''timer''
      | Some (JStr s) \<Rightarrow> Ok (if trim s = [] then ''timer'' else trim s)
      | Some _ \<Rightarrow> Err LabelNotString)"

definition parse_set_timer_args :: "json \<Rightarrow> set_timer_error + nat \<times> string" where
  "parse_set_timer_args args =
     (case json_get args ''seconds'' of
        None \<Rightarrow> Err SecondsNotInteger
      | Some v \<Rightarrow>
          (case parse_positive_integer_seconds v of
             Inl e \<Rightarrow> Err e
           | Inr seconds \<Rightarrow>
               (case parse_set_timer_label args of
                  Inl e \<Rightarrow> Err e
                | Inr label \<Rightarrow> Ok (seconds, label))))"


definition format_timer_duration :: "nat \<Rightarrow> string" where
  "format_timer_duration total_seconds =
     (let hours = total_seconds div 3600;
          minutes = total_seconds mod 3600 div 60;
          seconds = total_seconds mod 60;
          parts = (if 0 < hours then [count_noun hours ''hour'' ''hours''] else [])
                  @ (if 0 < minutes then [count_noun minutes ''minute'' ''minutes''] else [])
                  @ (if 0 < seconds then [count_noun seconds ''second'' ''seconds''] else [])
      in if parts = [] then count_noun total_seconds ''second'' ''seconds'' else join_str '' '' parts)"

definition exec_set_timer :: "nat \<Rightarrow> json \<Rightarrow> timer list \<Rightarrow> (set_timer_error + string) \<times> timer list" where
  "exec_set_timer now args timers =
     (case parse_set_timer_args args of
        Inl e \<Rightarrow> (Err e, timers)
      | Inr (seconds, label) \<Rightarrow>
          (case set_timer now seconds label timers of
             (Inl e, timers) \<Rightarrow> (Err (TimerRefused e), timers)
           | (Inr u, timers) \<Rightarrow>
               (Ok (''Timer set for '' @ format_timer_duration seconds @ '': '' @ label), timers)))"

section \<open>Lemmas\<close>

datatype timer_op = SetOp nat nat string | CheckOp nat

fun table_step :: "timer_op \<Rightarrow> timer list \<Rightarrow> timer list" where
  "table_step (SetOp now s l) ts = snd (set_timer now s l ts)"
| "table_step (CheckOp now) ts = snd (check_fired now ts)"

lemma set_timer_cases:
  "(set_timer now s l ts = (Ok (), ts @ [\<lparr>timer_label = l, end_ms = now + 1000 * s\<rparr>])
      \<and> 0 < s \<and> s \<le> MAX_TIMER_SECONDS \<and> now + 1000 * s \<le> u64_max \<and> length ts < MAX_ACTIVE_TIMERS)
   \<or> ((\<exists>e. set_timer now s l ts = (Err e, ts))
      \<and> \<not> (0 < s \<and> s \<le> MAX_TIMER_SECONDS \<and> now + 1000 * s \<le> u64_max \<and> length ts < MAX_ACTIVE_TIMERS))"
  by (auto simp: set_timer_def u64_checked_mul_def u64_checked_add_def MAX_TIMER_SECONDS_def u64_max_def
      MAX_ACTIVE_TIMERS_def mult.commute)

interpretation timers: bounded_table timer_count "\<lambda>_. MAX_ACTIVE_TIMERS" table_step "\<lambda>_. True"
proof unfold_locales
  fix x :: timer_op and ts :: "timer list"
  assume "timer_count ts \<le> MAX_ACTIVE_TIMERS"
  then show "timer_count (table_step x ts) \<le> MAX_ACTIVE_TIMERS"
  proof (cases x)
    case (SetOp now s l)
    then show ?thesis using set_timer_cases [of now s l ts] \<open>timer_count ts \<le> MAX_ACTIVE_TIMERS\<close>
      by (auto simp: timer_count_def)
  next
    case (CheckOp now)
    then show ?thesis using \<open>timer_count ts \<le> MAX_ACTIVE_TIMERS\<close>
        le_trans [OF length_filter_le [of "\<lambda>t. \<not> end_ms t \<le> now" ts]]
      by (simp add: timer_count_def check_fired_def)
  qed
qed simp_all

text \<open>A run that also keeps what was accepted and what was reported as fired.\<close>

fun timer_step :: "timer_op \<Rightarrow> timer list \<times> string list \<times> timer list \<Rightarrow> timer list \<times> string list \<times> timer list" where
  "timer_step (SetOp now s l) (acc, fired, ts) =
     (case set_timer now s l ts of
        (Inr u, ts') \<Rightarrow> (acc @ [last ts'], fired, ts')
      | (Inl e, ts') \<Rightarrow> (acc, fired, ts'))"
| "timer_step (CheckOp now) (acc, fired, ts) =
     (case check_fired now ts of (labels, ts') \<Rightarrow> (acc, fired @ labels, ts'))"

definition accounted :: "timer list \<times> string list \<times> timer list \<Rightarrow> bool" where
  "accounted s = (case s of (acc, fired, ts) \<Rightarrow> mset (map timer_label acc) = mset fired + mset (map timer_label ts))"

lemma accounted_step: "accounted s \<Longrightarrow> accounted (timer_step x s)"
proof (cases x)
  case (SetOp now sec l)
  assume a: "accounted s"
  obtain acc fired ts where s: "s = (acc, fired, ts)" by (rule prod_cases3)
  show ?thesis using a s SetOp set_timer_cases [of now sec l ts] by (auto simp: accounted_def)
next
  case (CheckOp now)
  assume a: "accounted s"
  obtain acc fired ts where s: "s = (acc, fired, ts)" by (rule prod_cases3)
  have "mset (map timer_label ts) = mset (map timer_label (filter (\<lambda>t. end_ms t \<le> now) ts))
      + mset (map timer_label (filter (\<lambda>t. \<not> end_ms t \<le> now) ts))"
    by (induction ts) auto
  then show ?thesis using a s CheckOp by (simp add: accounted_def check_fired_def)
qed

lemma accounted_run: "accounted s \<Longrightarrow> accounted (fold timer_step xs s)"
  by (induction xs arbitrary: s) (simp_all add: accounted_step)

lemma timer_step_table: "snd (snd (timer_step x s)) = table_step x (snd (snd s))"
  by (cases x; cases s rule: prod_cases3) (auto split: sum.splits prod.splits)

lemma timer_run_table: "snd (snd (fold timer_step xs s)) = fold table_step xs (snd (snd s))"
  by (induction xs arbitrary: s) (simp_all add: timer_step_table)

section \<open>Properties\<close>



text \<open>The tool sets the timer it reports or changes nothing. A successful call adds one timer, after
  the others, that ends the given whole number of seconds (one second to seven days) after the clock
  reading, with a label that is not blank; a failed call leaves the timers as they were.\<close>

theorem set_timer_tool_effect:
  "case exec_set_timer now args ts of
     (Inr out, ts') \<Rightarrow> (\<exists>s l. parse_set_timer_args args = Ok (s, l) \<and> s \<in> {1..604800} \<and> trim l \<noteq> []
        \<and> ts' = ts @ [\<lparr>timer_label = l, end_ms = now + 1000 * s\<rparr>])
   | (Inl e, ts') \<Rightarrow> ts' = ts"
proof (cases "parse_set_timer_args args")
  case (Inr sl)
  obtain s l where sl: "sl = (s, l)" by (rule prod.exhaust)
  have "trim ''timer'' = ''timer''" by code_simp
  then have "trim l \<noteq> []"
    using Inr sl by (auto simp: parse_set_timer_args_def parse_set_timer_label_def
        split: option.splits sum.splits json.splits if_splits)
  then show ?thesis
    using Inr sl set_timer_cases [of now s l ts]
    by (auto simp: exec_set_timer_def MAX_TIMER_SECONDS_def)
qed (simp add: exec_set_timer_def)

text \<open>Where nothing checks the timers, a full table refuses every further timer.\<close>

lemma full_table_refuses:
  "length ts = MAX_ACTIVE_TIMERS \<Longrightarrow> fold table_step (map (\<lambda>(now, s, l). SetOp now s l) sets) ts = ts"
proof (induction sets)
  case (Cons a sets)
  obtain now s l where "a = (now, s, l)" by (rule prod_cases3)
  then show ?case using Cons set_timer_cases [of now s l ts] by auto
qed simp

end
