(* ===== verification/Routes.thy ===== *)
theory Routes
  imports OriginAuth
begin

text \<open>
  Where requests to a language model may go: the loopback checks of a URL (two copies, in
  \<open>genie-common/config.rs\<close> and \<open>genie-core/security/sandbox.rs\<close>), the host and port that the
  HTTP clients take from the same URL (\<open>llm/openai_compat.rs\<close>, \<open>llm/privacy_proxy.rs\<close>), the gate
  of the optional API provider (\<open>OptionalAiProviderConfig\<close> of \<open>config.rs\<close>, \<open>llm/provider.rs\<close>,
  \<open>llm/local_provider.rs\<close>) and the escalation gate (\<open>llm/escalation.rs\<close>).
\<close>

section \<open>Parsing addresses\<close>

text \<open>\<open>str::parse::<IpAddr>\<close> of the standard library: a reader takes a value off the front of the
  text or fails; a failing reader leaves the text as it was.\<close>

type_synonym 'a reader = "string \<Rightarrow> ('a \<times> string) option"

definition to_digit :: "nat \<Rightarrow> char \<Rightarrow> nat option" where
  "to_digit radix c =
     (let d = (if is_ascii_digit c then Some (code c - 48)
               else if 97 \<le> code c \<and> code c \<le> 122 then Some (code c - 87)
               else if 65 \<le> code c \<and> code c \<le> 90 then Some (code c - 55) else None)
      in case d of Some n \<Rightarrow> if n < radix then Some n else None | None \<Rightarrow> None)"

definition read_number :: "nat \<Rightarrow> nat \<Rightarrow> bool \<Rightarrow> nat \<Rightarrow> nat reader" where
  "read_number radix max_digits allow_zero_prefix max_value s =
     (let ds = takeWhile (\<lambda>c. to_digit radix c \<noteq> None) s;
          v = foldl (\<lambda>n c. n * radix + the (to_digit radix c)) 0 ds
      in if length ds > max_digits \<or> ds = [] then None
         else if \<not> allow_zero_prefix \<and> hd ds = CHR ''0'' \<and> length ds > 1 then None
         else if v > max_value then None
         else Some (v, drop (length ds) s))"

definition read_separator :: "char \<Rightarrow> nat \<Rightarrow> 'a reader \<Rightarrow> 'a reader" where
  "read_separator sep i inner s =
     (if i > 0 then (case s of [] \<Rightarrow> None | c # t \<Rightarrow> if c = sep then inner t else None)
      else inner s)"

fun read_octets :: "nat \<Rightarrow> nat \<Rightarrow> nat list reader" where
  "read_octets 0 i s = Some ([], s)"
| "read_octets (Suc n) i s =
     (case read_separator (CHR ''.'') i (read_number 10 3 False 255) s of
        None \<Rightarrow> None
      | Some (x, s1) \<Rightarrow>
          (case read_octets n (Suc i) s1 of None \<Rightarrow> None | Some (xs, s2) \<Rightarrow> Some (x # xs, s2)))"

definition read_ipv4_addr :: "nat list reader" where
  "read_ipv4_addr s = read_octets 4 0 s"

text \<open>\<open>read_groups\<close>: up to \<open>n\<close> more groups of an IPv6 address; whether it ended with an embedded
  IPv4 address, for which two groups must be left.\<close>

fun read_groups :: "nat \<Rightarrow> nat \<Rightarrow> string \<Rightarrow> nat list \<times> bool \<times> string" where
  "read_groups 0 i s = ([], False, s)"
| "read_groups (Suc n) i s =
     (case (if n > 0 then read_separator (CHR '':'') i read_ipv4_addr s else None) of
        Some (os, s1) \<Rightarrow> ([256 * os ! 0 + os ! 1, 256 * os ! 2 + os ! 3], True, s1)
      | None \<Rightarrow>
          (case read_separator (CHR '':'') i (read_number 16 4 True 65535) s of
             None \<Rightarrow> ([], False, s)
           | Some (g, s1) \<Rightarrow>
               (case read_groups n (Suc i) s1 of (gs, v4, s2) \<Rightarrow> (g # gs, v4, s2))))"

definition read_ipv6_addr :: "nat list reader" where
  "read_ipv6_addr s =
     (case read_groups 8 0 s of
        (head, head_ipv4, s1) \<Rightarrow>
          if length head = 8 then Some (head, s1)
          else if head_ipv4 then None
          else (case strip_prefix s1 ''::'' of
                  None \<Rightarrow> None
                | Some s2 \<Rightarrow>
                    (case read_groups (8 - (length head + 1)) 0 s2 of
                       (tail, _, s3) \<Rightarrow>
                         Some (head @ replicate (8 - length head - length tail) 0 @ tail, s3))))"

definition octets_of_groups :: "nat list \<Rightarrow> 8 word list" where
  "octets_of_groups gs = concat (map (\<lambda>g. [word_of_nat (g div 256), word_of_nat (g mod 256)]) gs)"

definition parse_ip_addr :: "string \<Rightarrow> ip_addr option" where
  "parse_ip_addr s =
     (case read_ipv4_addr s of
        Some (os, r) \<Rightarrow>
          if r = [] then Some (V4 (word_of_nat (os ! 0), word_of_nat (os ! 1), word_of_nat (os ! 2), word_of_nat (os ! 3)))
          else None
      | None \<Rightarrow>
          (case read_ipv6_addr s of
             Some (gs, r) \<Rightarrow> if r = [] then Some (V6 (octets_of_groups gs)) else None
           | None \<Rightarrow> None))"

text \<open>\<open>IpAddr::is_loopback\<close>: unlike the peer check of the origin resolver, an IPv4-mapped IPv6
  address is not a loopback address.\<close>

fun std_is_loopback :: "ip_addr \<Rightarrow> bool" where
  "std_is_loopback (V4 v4) = v4_is_loopback v4"
| "std_is_loopback (V6 os) = (os = replicate 15 0 @ [1])"

section \<open>The host of a URL, as the checks see it\<close>

definition before_char :: "char \<Rightarrow> string \<Rightarrow> string" where
  "before_char c s = takeWhile (\<lambda>x. x \<noteq> c) s"

definition after_last :: "char \<Rightarrow> string \<Rightarrow> string" where
  "after_last c s = rev (takeWhile (\<lambda>x. x \<noteq> c) (rev s))"

definition strip_scheme :: "string \<Rightarrow> string" where
  "strip_scheme url =
     (case strip_prefix url ''http://'' of
        Some r \<Rightarrow> r
      | None \<Rightarrow> (case strip_prefix url ''https://'' of Some r \<Rightarrow> r | None \<Rightarrow> url))"

definition bracketed_host :: "string \<Rightarrow> string" where
  "bracketed_host authority =
     (case strip_prefix authority ''['' of
        Some rest \<Rightarrow>
          (case find_index (\<lambda>c. c = CHR '']'') rest of
             Some idx \<Rightarrow> take (idx + 2) authority
           | None \<Rightarrow> authority)
      | None \<Rightarrow> before_char (CHR '':'') authority)"

definition is_loopback_host :: "string \<Rightarrow> bool" where
  "is_loopback_host host =
     (let host = trim host
      in if host = [] then False
         else if eq_ignore_ascii_case host ''localhost'' then True
         else
           let ip_str = (case strip_prefix host ''['' of
                           Some inner \<Rightarrow> (case strip_suffix inner '']'' of Some i \<Rightarrow> i | None \<Rightarrow> host)
                         | None \<Rightarrow> host)
           in (case parse_ip_addr ip_str of Some ip \<Rightarrow> std_is_loopback ip | None \<Rightarrow> False))"

definition is_remote_url :: "string \<Rightarrow> bool" where
  "is_remote_url url =
     (let url = trim url
      in if url = [] then False
         else
           let stripped = strip_scheme url;
               authority = before_char (CHR ''/'') stripped;
               authority = after_last (CHR ''@'') authority
           in \<not> is_loopback_host (bracketed_host authority))"

definition is_local_url :: "string \<Rightarrow> bool" where
  "is_local_url url = (\<not> is_remote_url url)"

definition extract_host :: "string \<Rightarrow> string" where
  "extract_host url =
     (let url = trim url;
          stripped = strip_scheme url;
          authority = before_char (CHR ''/'') stripped;
          host_port = after_last (CHR ''@'') authority
      in to_ascii_lowercase (bracketed_host host_port))"

definition sandbox_is_loopback_host :: "string \<Rightarrow> bool" where
  "sandbox_is_loopback_host host =
     (let host = trim host
      in if host = [] then False
         else if eq_ignore_ascii_case host ''localhost'' then True
         else
           let ip_str = (case strip_prefix host ''['' of
                           Some inner \<Rightarrow> (case strip_suffix inner '']'' of Some i \<Rightarrow> i | None \<Rightarrow> host)
                         | None \<Rightarrow> host)
           in (case parse_ip_addr ip_str of Some ip \<Rightarrow> std_is_loopback ip | None \<Rightarrow> False))"

definition validate_inference_route :: "string \<Rightarrow> unit res" where
  "validate_inference_route url =
     (let host = extract_host url
      in if sandbox_is_loopback_host host then Ok ()
         else Err (''inference route rejected: '' @ url @ '' is not localhost. ''
                   @ ''GeniePod only allows LLM calls to local endpoints.''))"

definition remote_url :: "string \<Rightarrow> bool" where
  "remote_url url =
     (let url = trim url in if url = [] then False else \<not> is_ok (validate_inference_route url))"

section \<open>The host a client connects to\<close>

text \<open>\<open>str::parse::<u16>\<close>.\<close>

definition parse_u16 :: "string \<Rightarrow> nat option" where
  "parse_u16 s = (case parse_u64 s of Some n \<Rightarrow> if n < 65536 then Some n else None | None \<Rightarrow> None)"

text \<open>\<open>str::split_once(c)\<close>.\<close>

definition split_once :: "char \<Rightarrow> string \<Rightarrow> (string \<times> string) option" where
  "split_once c s =
     (case dropWhile (\<lambda>x. x \<noteq> c) s of [] \<Rightarrow> None | _ # t \<Rightarrow> Some (before_char c s, t))"

record endpoint =
  ep_host :: string
  ep_port :: nat

definition openai_client_from_url :: "string \<Rightarrow> endpoint" where
  "openai_client_from_url url =
     (let stripped = (case strip_prefix url ''http://'' of Some r \<Rightarrow> r | None \<Rightarrow> url);
          (host_port, _) = (case split_once (CHR ''/'') stripped of Some p \<Rightarrow> p | None \<Rightarrow> (stripped, ''''));
          (host, port_str) = (case split_once (CHR '':'') host_port of Some p \<Rightarrow> p | None \<Rightarrow> (host_port, ''8080''));
          port = (case parse_u16 port_str of Some n \<Rightarrow> n | None \<Rightarrow> 8080)
      in \<lparr>ep_host = host, ep_port = port\<rparr>)"

record privacy_proxy_backend =
  pp_client :: endpoint
  pp_seed_to :: endpoint
  pp_vocab_path :: string

definition privacy_proxy_from_url :: "string \<Rightarrow> string \<Rightarrow> privacy_proxy_backend" where
  "privacy_proxy_from_url base_url path =
     (let stripped = (case strip_prefix base_url ''http://'' of Some r \<Rightarrow> r | None \<Rightarrow> base_url);
          (host_port, _) = (case split_once (CHR ''/'') stripped of Some p \<Rightarrow> p | None \<Rightarrow> (stripped, ''''));
          (host, port_str) = (case split_once (CHR '':'') host_port of Some p \<Rightarrow> p | None \<Rightarrow> (host_port, ''8180''));
          port = (case parse_u16 port_str of Some n \<Rightarrow> n | None \<Rightarrow> 8180)
      in \<lparr>pp_client = openai_client_from_url base_url,
          pp_seed_to = \<lparr>ep_host = host, ep_port = port\<rparr>, pp_vocab_path = path\<rparr>)"

section \<open>The escalation gate\<close>

datatype escalation_trigger = TrigLocalDecline | TrigContextOverflow | TrigEither

record privacy_proxy_config =
  proxy_enabled :: bool
  proxy_base_url :: string
  proxy_trigger :: escalation_trigger
  proxy_vocab_path :: string

definition default_privacy_proxy :: privacy_proxy_config where
  "default_privacy_proxy =
     \<lparr>proxy_enabled = False, proxy_base_url = ''http://127.0.0.1:8180/v1'', proxy_trigger = TrigEither,
      proxy_vocab_path = ''/vocab/seed''\<rparr>"

definition endpoint_is_valid :: "privacy_proxy_config \<Rightarrow> bool" where
  "endpoint_is_valid p = (\<not> proxy_enabled p \<or> is_local_url (proxy_base_url p))"

datatype escalation_reason = ReasonContextOverflow | ReasonLocalDecline

fun escalation_reason_as_str :: "escalation_reason \<Rightarrow> string" where
  "escalation_reason_as_str ReasonContextOverflow = ''context_overflow''"
| "escalation_reason_as_str ReasonLocalDecline = ''local_decline''"

definition may_escalate ::
  "privacy_proxy_config option \<Rightarrow> escalation_reason \<Rightarrow> privacy_proxy_config option" where
  "may_escalate proxy reason =
     (case proxy of
        None \<Rightarrow> None
      | Some p \<Rightarrow>
          if \<not> (proxy_enabled p \<and> endpoint_is_valid p) then None
          else
            let permitted = (case reason of
                  ReasonContextOverflow \<Rightarrow> proxy_trigger p \<in> {TrigContextOverflow, TrigEither}
                | ReasonLocalDecline \<Rightarrow> proxy_trigger p \<in> {TrigLocalDecline, TrigEither})
            in if permitted then Some p else None)"

section \<open>The optional API provider\<close>

datatype provider_auth_mode = ApiKeyAuth | OAuthBearer

datatype optional_provider_kind = OpenAiCompatible | OpenAi | Anthropic | Gemini | CustomProvider

record optional_provider_config =
  opt_enabled :: bool
  opt_provider :: optional_provider_kind
  opt_auth_mode :: provider_auth_mode
  opt_base_url :: string
  opt_model :: string
  opt_api_key_env :: string
  opt_oauth_token_env :: string
  opt_context_window :: nat
  opt_allow_remote :: bool

definition limited_context_compatible :: "optional_provider_config \<Rightarrow> nat \<Rightarrow> bool" where
  "limited_context_compatible c agent_window = (\<not> opt_enabled c \<or> opt_context_window c \<le> agent_window)"

definition opt_credential_env :: "optional_provider_config \<Rightarrow> string" where
  "opt_credential_env c =
     (case opt_auth_mode c of ApiKeyAuth \<Rightarrow> opt_api_key_env c | OAuthBearer \<Rightarrow> opt_oauth_token_env c)"

definition transitional_test_candidate :: "optional_provider_config \<Rightarrow> nat \<Rightarrow> bool" where
  "transitional_test_candidate c agent_window \<longleftrightarrow>
     opt_enabled c \<and> limited_context_compatible c agent_window \<and> trim (opt_credential_env c) \<noteq> []
     \<and> (\<not> is_remote_url (opt_base_url c) \<or> opt_allow_remote c)"

definition ensure_enabled_ready :: "(string \<Rightarrow> string option) \<Rightarrow> optional_provider_config \<Rightarrow> nat \<Rightarrow> unit res" where
  "ensure_enabled_ready env c agent_window =
     (if \<not> opt_enabled c then Ok ()
      else
        let reasons =
          (if opt_context_window c > agent_window
           then [''[optional_ai_provider].context_window_tokens exceeds [agent].context_window_tokens''] else [])
          @ (if trim (opt_credential_env c) = []
             then [case opt_auth_mode c of
                     ApiKeyAuth \<Rightarrow> ''[optional_ai_provider].api_key_env must be set when auth_mode = api_key''
                   | OAuthBearer \<Rightarrow> ''[optional_ai_provider].oauth_token_env must be set when auth_mode = oauth_bearer'']
             else [])
          @ (if trim (opt_base_url c) = []
             then [''[optional_ai_provider].base_url must be set when enabled''] else [])
          @ (if trim (opt_model c) = []
             then [''[optional_ai_provider].model must be set when enabled''] else [])
          @ (if is_remote_url (opt_base_url c) \<and> \<not> opt_allow_remote c
             then [''[optional_ai_provider].base_url is remote; set allow_remote_base_url = true to opt in'']
             else [])
        in if reasons \<noteq> [] then Err (''optional_ai_provider misconfigured: '' @ join_str ''; '' reasons)
           else
             (case (case opt_provider c of
                      Anthropic \<Rightarrow> Some ''anthropic'' | Gemini \<Rightarrow> Some ''gemini''
                    | CustomProvider \<Rightarrow> Some ''custom'' | _ \<Rightarrow> None) of
                Some name \<Rightarrow>
                  Err (''[optional_ai_provider].provider = '' @ [CHR 34] @ name @ [CHR 34]
                       @ '' is not wired yet; use open_ai_compatible'')
              | None \<Rightarrow>
                  (case env (opt_credential_env c) of
                     Some v \<Rightarrow>
                       if trim v \<noteq> [] then Ok ()
                       else Err (''optional_ai_provider enabled but environment variable ''
                                 @ opt_credential_env c @ '' is empty'')
                   | None \<Rightarrow> Err (''optional_ai_provider enabled but environment variable ''
                                  @ opt_credential_env c @ '' is not set''))))"

datatype provider_readiness = ProviderDisabled | ProviderReady | ProviderBlocked "string list"

record optional_provider_plan =
  plan_provider :: optional_provider_kind
  plan_auth_mode :: provider_auth_mode
  plan_base_url :: string
  plan_api_key_env :: string
  plan_oauth_token_env :: string
  plan_context_window :: nat
  plan_remote_allowed :: bool

definition plan_from_config :: "optional_provider_config \<Rightarrow> optional_provider_plan option" where
  "plan_from_config c =
     (if \<not> opt_enabled c then None
      else Some \<lparr>plan_provider = opt_provider c, plan_auth_mode = opt_auth_mode c,
                 plan_base_url = opt_base_url c, plan_api_key_env = opt_api_key_env c,
                 plan_oauth_token_env = opt_oauth_token_env c,
                 plan_context_window = opt_context_window c, plan_remote_allowed = opt_allow_remote c\<rparr>)"

definition plan_credential_env :: "optional_provider_plan \<Rightarrow> string" where
  "plan_credential_env p =
     (case plan_auth_mode p of ApiKeyAuth \<Rightarrow> plan_api_key_env p | OAuthBearer \<Rightarrow> plan_oauth_token_env p)"

definition readiness ::
  "(string \<Rightarrow> string option) \<Rightarrow> nat \<Rightarrow> optional_provider_plan \<Rightarrow> provider_readiness" where
  "readiness env agent_window p =
     (let reasons =
        (if plan_context_window p > agent_window then [''context_window_exceeds_agent_budget''] else [])
        @ (if trim (plan_credential_env p) = []
           then [case plan_auth_mode p of ApiKeyAuth \<Rightarrow> ''missing_api_key_env''
                 | OAuthBearer \<Rightarrow> ''missing_oauth_token_env'']
           else (case env (plan_credential_env p) of
                   Some v \<Rightarrow>
                     if trim v \<noteq> [] then []
                     else [case plan_auth_mode p of ApiKeyAuth \<Rightarrow> ''empty_api_key_env_value''
                           | OAuthBearer \<Rightarrow> ''empty_oauth_token_env_value'']
                 | None \<Rightarrow> [case plan_auth_mode p of ApiKeyAuth \<Rightarrow> ''api_key_env_unset''
                            | OAuthBearer \<Rightarrow> ''oauth_token_env_unset'']))
        @ (if trim (plan_base_url p) = [] then [''missing_base_url''] else [])
        @ (if remote_url (plan_base_url p) \<and> \<not> plan_remote_allowed p
           then [''remote_base_url_not_allowed''] else [])
      in if reasons = [] then ProviderReady else ProviderBlocked reasons)"

definition blocked_reason_message :: "string \<Rightarrow> string" where
  "blocked_reason_message reason =
     (if reason = ''context_window_exceeds_agent_budget'' then
        ''[optional_ai_provider].context_window_tokens exceeds [agent].context_window_tokens''
      else if reason = ''missing_api_key_env'' then
        ''[optional_ai_provider].api_key_env must be set when auth_mode = api_key''
      else if reason = ''missing_oauth_token_env'' then
        ''[optional_ai_provider].oauth_token_env must be set when auth_mode = oauth_bearer''
      else if reason = ''api_key_env_unset'' then
        ''optional_ai_provider enabled but api_key_env environment variable is not set''
      else if reason = ''oauth_token_env_unset'' then
        ''optional_ai_provider enabled but oauth_token_env environment variable is not set''
      else if reason = ''empty_api_key_env_value'' then
        ''optional_ai_provider enabled but api_key_env environment variable is empty''
      else if reason = ''empty_oauth_token_env_value'' then
        ''optional_ai_provider enabled but oauth_token_env environment variable is empty''
      else if reason = ''missing_base_url'' then
        ''[optional_ai_provider].base_url must be set when enabled''
      else if reason = ''remote_base_url_not_allowed'' then
        ''[optional_ai_provider].base_url is remote; set allow_remote_base_url = true to opt in''
      else reason)"

definition ensure_ready :: "(string \<Rightarrow> string option) \<Rightarrow> nat \<Rightarrow> optional_provider_plan \<Rightarrow> unit res" where
  "ensure_ready env agent_window p =
     (case readiness env agent_window p of
        ProviderReady \<Rightarrow> Ok ()
      | ProviderDisabled \<Rightarrow> Err ''optional AI provider plan is disabled''
      | ProviderBlocked reasons \<Rightarrow>
          Err (''optional_ai_provider misconfigured: ''
               @ join_str ''; '' (map blocked_reason_message reasons)))"

datatype completion_gate = LocalGate | OptionalApiGate optional_provider_plan

text \<open>An enabled configuration always has a plan, so the \<open>expect\<close> of the code cannot fail.\<close>

definition gate_for_http :: "optional_provider_config \<Rightarrow> completion_gate" where
  "gate_for_http c =
     (if opt_enabled c then
        (case plan_from_config c of Some plan \<Rightarrow> OptionalApiGate plan | None \<Rightarrow> LocalGate)
      else LocalGate)"

definition gate_readiness ::
  "(string \<Rightarrow> string option) \<Rightarrow> nat \<Rightarrow> completion_gate \<Rightarrow> provider_readiness" where
  "gate_readiness env agent_window g =
     (case g of LocalGate \<Rightarrow> ProviderReady | OptionalApiGate plan \<Rightarrow> readiness env agent_window plan)"

text \<open>\<open>GatedProvider::complete\<close>: the inner client is an argument that passes the outside world
  along.\<close>

definition gated_complete ::
  "(string \<Rightarrow> string option) \<Rightarrow> nat \<Rightarrow> completion_gate \<Rightarrow> ('m \<Rightarrow> 'w \<Rightarrow> string res \<times> 'w) \<Rightarrow> 'm \<Rightarrow> 'w \<Rightarrow>
     string res \<times> 'w" where
  "gated_complete env agent_window g inner messages w =
     (case g of
        LocalGate \<Rightarrow> inner messages w
      | OptionalApiGate plan \<Rightarrow>
          (case ensure_ready env agent_window plan of
             Inl e \<Rightarrow> (Err e, w)
           | Inr _ \<Rightarrow> inner messages w))"

section \<open>Letter case does not matter to the checks\<close>

definition case_blind :: "'a reader \<Rightarrow> bool" where
  "case_blind R \<longleftrightarrow> (\<forall>s. R (map ascii_lower s) = map_option (apsnd (map ascii_lower)) (R s))"

lemma case_blindD: "case_blind R \<Longrightarrow> R (map ascii_lower s) = map_option (apsnd (map ascii_lower)) (R s)"
  by (simp add: case_blind_def)

lemma ascii_lower_eq_nonletter:
  assumes "\<not> is_ascii_lowercase d" and "\<not> is_ascii_uppercase d"
  shows "ascii_lower c = d \<longleftrightarrow> c = d"
proof (cases "is_ascii_uppercase c")
  case True
  then have "is_ascii_lowercase (ascii_lower c)"
    by (simp add: ascii_lower_def is_ascii_uppercase_def is_ascii_lowercase_def code_char_of)
  with True assms show ?thesis by auto
next
  case False
  then show ?thesis by (simp add: ascii_lower_def)
qed

lemma separators_not_letters [simp]:
  "ascii_lower c = CHR ''.'' \<longleftrightarrow> c = CHR ''.''" "ascii_lower c = CHR '':'' \<longleftrightarrow> c = CHR '':''"
  "ascii_lower c = CHR ''['' \<longleftrightarrow> c = CHR ''[''" "ascii_lower c = CHR '']'' \<longleftrightarrow> c = CHR '']''"
  "ascii_lower c = CHR ''0'' \<longleftrightarrow> c = CHR ''0''"
  by (rule ascii_lower_eq_nonletter; simp add: is_ascii_lowercase_def is_ascii_uppercase_def)+

lemma to_digit_lower [simp]: "to_digit radix (ascii_lower c) = to_digit radix c"
  by (auto simp: to_digit_def ascii_lower_def Let_def is_ascii_digit_def is_ascii_uppercase_def code_char_of)

lemma case_blind_read_number [simp]: "case_blind (read_number radix m z v)"
  unfolding case_blind_def
proof
  fix s
  let ?ds = "takeWhile (\<lambda>c. to_digit radix c \<noteq> None) s"
  have "takeWhile (\<lambda>c. to_digit radix c \<noteq> None) (map ascii_lower s) = map ascii_lower ?ds"
    by (simp add: takeWhile_map o_def)
  moreover have "foldl (\<lambda>n c. n * radix + the (to_digit radix c)) a (map ascii_lower ds)
      = foldl (\<lambda>n c. n * radix + the (to_digit radix c)) a ds" for a ds
    by (induction ds arbitrary: a) simp_all
  moreover have "hd (map ascii_lower ?ds) = CHR ''0'' \<longleftrightarrow> hd ?ds = CHR ''0''" if "?ds \<noteq> []"
    using that by (cases ?ds) simp_all
  ultimately show "read_number radix m z v (map ascii_lower s)
      = map_option (apsnd (map ascii_lower)) (read_number radix m z v s)"
    by (simp add: read_number_def Let_def drop_map)
qed

lemma case_blind_separator [simp]:
  assumes "case_blind R" and "\<And>c. ascii_lower c = d \<longleftrightarrow> c = d"
  shows "case_blind (read_separator d i R)"
  using assms by (auto simp: case_blind_def read_separator_def split: list.split)

lemma case_blind_octets [simp]: "case_blind (read_octets n i)"
proof (induction n arbitrary: i)
  case (Suc n)
  have sep: "case_blind (read_separator (CHR ''.'') i (read_number 10 3 False 255))" by simp
  show ?case unfolding case_blind_def
    using case_blindD [OF Suc.IH] case_blindD [OF sep]
    by (auto split: option.splits prod.splits)
qed (simp add: case_blind_def)

lemma case_blind_ipv4 [simp]: "case_blind read_ipv4_addr"
  using case_blind_octets [of 4 0] by (simp add: case_blind_def read_ipv4_addr_def)

lemma read_groups_lower:
  "read_groups n i (map ascii_lower s)
     = (case read_groups n i s of (gs, v4, r) \<Rightarrow> (gs, v4, map ascii_lower r))"
proof (induction n arbitrary: i s)
  case (Suc n)
  have v4: "case_blind (read_separator (CHR '':'') i read_ipv4_addr)" by simp
  have hex: "case_blind (read_separator (CHR '':'') i (read_number 16 4 True 65535))" by simp
  show ?case
    using Suc.IH case_blindD [OF v4, of s] case_blindD [OF hex, of s]
    by (auto split: option.splits prod.splits)
qed simp

definition no_letters :: "string \<Rightarrow> bool" where
  "no_letters p = list_all (\<lambda>d. \<not> is_ascii_lowercase d \<and> \<not> is_ascii_uppercase d) p"

lemma starts_with_lower: "no_letters p \<Longrightarrow> starts_with (map ascii_lower s) p = starts_with s p"
  by (induction s p rule: starts_with.induct) (auto simp: no_letters_def ascii_lower_eq_nonletter)

lemma strip_prefix_lower:
  "no_letters p \<Longrightarrow> strip_prefix (map ascii_lower s) p = map_option (map ascii_lower) (strip_prefix s p)"
  by (simp add: strip_prefix_def drop_map starts_with_lower)

lemma strip_suffix_lower:
  assumes "no_letters p"
  shows "strip_suffix (map ascii_lower s) p = map_option (map ascii_lower) (strip_suffix s p)"
proof -
  have "no_letters (rev p)" using assms by (simp add: no_letters_def list_all_iff)
  from starts_with_lower [OF this, of "rev s"] show ?thesis
    by (simp add: strip_suffix_def ends_with_def rev_map take_map)
qed

lemma no_letters_brackets: "no_letters ''[''" "no_letters '']''" "no_letters ''::''"
  by (simp_all add: no_letters_def is_ascii_lowercase_def is_ascii_uppercase_def)

lemma eq_ignore_case_lower:
  "eq_ignore_ascii_case (map ascii_lower s) t = eq_ignore_ascii_case s t"
  by (simp add: eq_ignore_ascii_case_def to_ascii_lowercase_def o_def)

lemma parse_ip_addr_lower: "parse_ip_addr (map ascii_lower s) = parse_ip_addr s"
proof -
  have "read_ipv6_addr (map ascii_lower s) = map_option (apsnd (map ascii_lower)) (read_ipv6_addr s)"
    by (auto simp: read_ipv6_addr_def read_groups_lower strip_prefix_lower no_letters_brackets split: prod.splits option.splits)
  then show ?thesis
    using case_blindD [OF case_blind_ipv4, of s]
    by (auto simp: parse_ip_addr_def split: option.splits prod.splits)
qed

lemma sandbox_loopback_lower:
  "sandbox_is_loopback_host (to_ascii_lowercase h) = is_loopback_host h"
  unfolding sandbox_is_loopback_host_def is_loopback_host_def Let_def to_ascii_lowercase_def
  by (auto simp: trim_ascii_lower eq_ignore_case_lower strip_prefix_lower strip_suffix_lower
      no_letters_brackets parse_ip_addr_lower split: option.splits)

section \<open>IPv4 literals are canonical\<close>

lemma to_digit_10: "to_digit 10 c = (if is_ascii_digit c then Some (code c - 48) else None)"
  by (auto simp: to_digit_def Let_def is_ascii_digit_def)

definition dec_value :: "string \<Rightarrow> nat" where
  "dec_value ds = foldl (\<lambda>n c. n * 10 + the (to_digit 10 c)) 0 ds"

lemma dec_value_snoc [simp]:
  "is_ascii_digit c \<Longrightarrow> dec_value (ds @ [c]) = dec_value ds * 10 + (code c - 48)"
  by (simp add: dec_value_def to_digit_10)

lemma dec_value_Nil [simp]: "dec_value [] = 0"
  by (simp add: dec_value_def)

definition canonical_digits :: "string \<Rightarrow> bool" where
  "canonical_digits ds \<longleftrightarrow> ds \<noteq> [] \<and> list_all is_ascii_digit ds \<and> (length ds = 1 \<or> hd ds \<noteq> CHR ''0'')"

lemma show_nat_small: "n < 10 \<Longrightarrow> show_nat n = [char_of (48 + n)]"
  by (simp add: show_nat.simps [of n])

lemma show_nat_step: "n \<ge> 10 \<Longrightarrow> show_nat n = show_nat (n div 10) @ [char_of (48 + n mod 10)]"
  by (simp add: show_nat.simps [of n])

lemma digit_char: "n < 10 \<Longrightarrow> is_ascii_digit (char_of (48 + n)) \<and> code (char_of (48 + n)) - 48 = n"
  by (simp add: is_ascii_digit_def code_char_of)

lemma show_nat_canonical: "canonical_digits (show_nat n) \<and> dec_value (show_nat n) = n \<and> (0 < n \<longrightarrow> hd (show_nat n) \<noteq> CHR ''0'')"
proof (induction n rule: less_induct)
  case (less n)
  show ?case
  proof (cases "n < 10")
    case True
    have "char_of (48 + n) \<noteq> CHR ''0''" if "0 < n"
    proof
      assume "char_of (48 + n) = CHR ''0''"
      then have "code (char_of (48 + n)) = code (CHR ''0'')" by simp
      then show False using True that by (simp add: code_char_of)
    qed
    then show ?thesis using True digit_char [of n] dec_value_snoc [of "char_of (48 + n)" "[]"]
      by (auto simp: show_nat_small canonical_digits_def)
  next
    case False
    then have "n div 10 < n" "0 < n div 10" by auto
    with less have IH: "canonical_digits (show_nat (n div 10))" "dec_value (show_nat (n div 10)) = n div 10"
      "hd (show_nat (n div 10)) \<noteq> CHR ''0''" by auto
    have d: "is_ascii_digit (char_of (48 + n mod 10))" "code (char_of (48 + n mod 10)) - 48 = n mod 10"
      using digit_char [of "n mod 10"] by auto
    show ?thesis using IH d False by (auto simp: show_nat_step canonical_digits_def)
  qed
qed

lemma char_of_48 [simp]: "char_of (48::nat) = CHR ''0''"
  by code_simp

lemma show_nat_dec_value: "canonical_digits ds \<Longrightarrow> show_nat (dec_value ds) = ds"
proof (induction ds rule: rev_induct)
  case (snoc c cs)
  have c: "is_ascii_digit c" using snoc.prems by (simp add: canonical_digits_def)
  then have c10: "code c - 48 < 10" "char_of (48 + (code c - 48)) = c" by (auto simp: is_ascii_digit_def)
  show ?case
  proof (cases "cs = []")
    case True
    then show ?thesis using c c10 dec_value_snoc [OF c, of "[]"] by (simp add: show_nat_small)
  next
    case False
    then have hd: "hd cs \<noteq> CHR ''0''" and can: "canonical_digits cs"
      using snoc.prems by (auto simp: canonical_digits_def)
    have IH: "show_nat (dec_value cs) = cs" using snoc.IH can by blast
    have "dec_value cs \<noteq> 0"
    proof
      assume "dec_value cs = 0"
      then have "cs = [char_of (48 + (0::nat))]" using IH show_nat_small [of 0] by simp
      then show False using hd by simp
    qed
    then show ?thesis using c c10 IH by (simp add: show_nat_step)
  qed
qed (simp add: canonical_digits_def)

definition no_digit_next :: "string \<Rightarrow> bool" where
  "no_digit_next r = (case r of [] \<Rightarrow> True | c # _ \<Rightarrow> \<not> is_ascii_digit c)"

lemma read_octet_unfold:
  "read_number 10 3 False 255 s =
     (let ds = takeWhile is_ascii_digit s
      in if length ds > 3 \<or> ds = [] then None
         else if hd ds = CHR ''0'' \<and> length ds > 1 then None
         else if dec_value ds > 255 then None
         else Some (dec_value ds, drop (length ds) s))"
proof -
  have P: "(\<lambda>c. to_digit 10 c \<noteq> None) = is_ascii_digit" by (auto simp: to_digit_10 fun_eq_iff)
  show ?thesis unfolding read_number_def P Let_def dec_value_def by simp
qed

lemma read_octet_iff:
  "read_number 10 3 False 255 s = Some (n, r) \<longleftrightarrow> n \<le> 255 \<and> s = show_nat n @ r \<and> no_digit_next r"
proof
  let ?ds = "takeWhile is_ascii_digit s"
  assume R: "read_number 10 3 False 255 s = Some (n, r)"
  then have ds: "?ds \<noteq> []" "n = dec_value ?ds" "n \<le> 255" "r = drop (length ?ds) s"
    "length ?ds \<le> 1 \<or> hd ?ds \<noteq> CHR ''0''"
    by (auto simp: read_octet_unfold Let_def not_less split: if_splits)
  have "length ?ds = 1 \<or> hd ?ds \<noteq> CHR ''0''"
    using ds by (metis le_antisym length_0_conv less_one not_le)
  then have "canonical_digits ?ds" using ds(1)
    by (auto simp: canonical_digits_def list_all_iff dest: set_takeWhileD)
  then have "show_nat n = ?ds" using show_nat_dec_value ds(2) by simp
  moreover have "r = dropWhile is_ascii_digit s" using ds(4) by (simp add: dropWhile_eq_drop)
  moreover have "no_digit_next (dropWhile is_ascii_digit s)"
    by (induction s) (simp_all add: no_digit_next_def)
  ultimately show "n \<le> 255 \<and> s = show_nat n @ r \<and> no_digit_next r" using ds(3) by simp
next
  assume A: "n \<le> 255 \<and> s = show_nat n @ r \<and> no_digit_next r"
  have can: "canonical_digits (show_nat n)" "dec_value (show_nat n) = n" using show_nat_canonical by auto
  have "takeWhile is_ascii_digit (show_nat n @ r) = show_nat n @ takeWhile is_ascii_digit r"
    using can(1) by (simp add: canonical_digits_def list_all_iff takeWhile_append2)
  moreover have "takeWhile is_ascii_digit r = []"
    using A by (cases r) (auto simp: no_digit_next_def)
  ultimately have tw: "takeWhile is_ascii_digit s = show_nat n" using A by simp
  have len: "length (show_nat n) \<le> 3"
  proof -
    have "n div 10 div 10 < 10" using A by linarith
    then show ?thesis
      by (cases "n < 10"; cases "n div 10 < 10")
         (simp_all add: show_nat_small show_nat_step)
  qed
  have hd0: "length (show_nat n) = 1 \<or> hd (show_nat n) \<noteq> CHR ''0''"
    using can(1) by (simp add: canonical_digits_def)
  show "read_number 10 3 False 255 s = Some (n, r)"
    unfolding read_octet_unfold tw Let_def using A len hd0 can
    by (auto simp: canonical_digits_def)
qed

text \<open>A dotted quad.\<close>

definition dotted_quad :: "nat list \<Rightarrow> string" where
  "dotted_quad os = join_str ''.'' (map show_nat os)"

lemma no_digit_dot: "no_digit_next (CHR ''.'' # r)"
  by (simp add: no_digit_next_def is_ascii_digit_def)

lemma read_octets_Suc:
  "read_octets (Suc n) (Suc i) s = Some (os, r) \<longleftrightarrow>
     (\<exists>x xs s0 s1. os = x # xs \<and> s = CHR ''.'' # s0 \<and> read_number 10 3 False 255 s0 = Some (x, s1)
        \<and> read_octets n (Suc (Suc i)) s1 = Some (xs, r))"
  by (auto simp: read_separator_def split: option.splits prod.splits list.splits)

lemma read_octets_sound:
  "read_octets n (Suc i) s = Some (os, r) \<Longrightarrow>
     length os = n \<and> list_all (\<lambda>x. x \<le> 255) os \<and> s = concat (map (\<lambda>x. CHR ''.'' # show_nat x) os) @ r"
proof (induction n arbitrary: i s os)
  case (Suc n)
  from Suc.prems obtain x xs s0 s1 where "os = x # xs" "s = CHR ''.'' # s0"
    "read_number 10 3 False 255 s0 = Some (x, s1)" "read_octets n (Suc (Suc i)) s1 = Some (xs, r)"
    unfolding read_octets_Suc by blast
  then show ?case using Suc.IH [of "Suc i" s1 xs] by (auto simp: read_octet_iff)
qed simp

lemma read_octets_complete:
  "list_all (\<lambda>x. x \<le> 255) os \<Longrightarrow> no_digit_next r \<Longrightarrow>
     read_octets (length os) (Suc i) (concat (map (\<lambda>x. CHR ''.'' # show_nat x) os) @ r) = Some (os, r)"
proof (induction os arbitrary: i)
  case (Cons x xs)
  let ?t = "concat (map (\<lambda>x. CHR ''.'' # show_nat x) xs) @ r"
  have "no_digit_next ?t" using Cons.prems(2) by (cases xs) (simp_all add: no_digit_dot)
  then have "read_number 10 3 False 255 (show_nat x @ ?t) = Some (x, ?t)"
    using Cons.prems(1) by (simp add: read_octet_iff)
  then show ?case using Cons.IH [of "Suc i"] Cons.prems by (simp add: read_separator_def)
qed simp

lemma read_ipv4_iff:
  "read_ipv4_addr s = Some (os, []) \<longleftrightarrow> length os = 4 \<and> list_all (\<lambda>x. x \<le> 255) os \<and> s = dotted_quad os"
proof
  assume R: "read_ipv4_addr s = Some (os, [])"
  then obtain x xs s1 where os: "os = x # xs" "read_number 10 3 False 255 s = Some (x, s1)"
    "read_octets 3 (Suc 0) s1 = Some (xs, [])"
    by (auto simp: read_ipv4_addr_def read_separator_def numeral_eq_Suc split: option.splits prod.splits)
  from os(2) have x: "x \<le> 255" "s = show_nat x @ s1" by (simp_all add: read_octet_iff)
  from read_octets_sound [OF os(3)] os(1) x
  show "length os = 4 \<and> list_all (\<lambda>x. x \<le> 255) os \<and> s = dotted_quad os"
    by (auto simp: dotted_quad_def length_Suc_conv numeral_3_eq_3)
next
  assume A: "length os = 4 \<and> list_all (\<lambda>x. x \<le> 255) os \<and> s = dotted_quad os"
  then obtain a b c d where os: "os = [a, b, c, d]" by (auto simp: length_Suc_conv numeral_eq_Suc)
  let ?t = "concat (map (\<lambda>x. CHR ''.'' # show_nat x) [b, c, d])"
  have s: "s = show_nat a @ ?t" using A os by (simp add: dotted_quad_def)
  have "read_octets (length [b, c, d]) (Suc 0) (?t @ []) = Some ([b, c, d], [])"
    using A os by (intro read_octets_complete) (simp_all add: no_digit_next_def)
  moreover have "read_number 10 3 False 255 s = Some (a, ?t)"
    using A os s by (simp add: read_octet_iff no_digit_dot)
  ultimately show "read_ipv4_addr s = Some (os, [])"
    by (simp add: read_ipv4_addr_def read_separator_def os numeral_eq_Suc)
qed

lemma ipv4_literal_canonical:
  "parse_ip_addr s = Some (V4 (a, b, c, d)) \<longleftrightarrow> s = dotted_quad [unat a, unat b, unat c, unat d]"
proof
  assume "parse_ip_addr s = Some (V4 (a, b, c, d))"
  then obtain os where os: "read_ipv4_addr s = Some (os, [])"
    and v: "a = word_of_nat (os ! 0)" "b = word_of_nat (os ! 1)" "c = word_of_nat (os ! 2)" "d = word_of_nat (os ! 3)"
    by (auto simp: parse_ip_addr_def split: option.splits prod.splits if_splits)
  obtain x y z u where q: "os = [x, y, z, u]" "x \<le> 255" "y \<le> 255" "z \<le> 255" "u \<le> 255" "s = dotted_quad os"
    using os unfolding read_ipv4_iff by (auto simp: length_Suc_conv numeral_eq_Suc)
  have "unat (word_of_nat n :: 8 word) = n" if "n \<le> 255" for n
    using that by (simp add: unat_of_nat)
  then show "s = dotted_quad [unat a, unat b, unat c, unat d]" using q v by simp
next
  assume s: "s = dotted_quad [unat a, unat b, unat c, unat d]"
  have "unat w \<le> 255" for w :: "8 word" using unsigned_less [where 'a = nat, of w] by simp
  then have "read_ipv4_addr s = Some ([unat a, unat b, unat c, unat d], [])"
    using s by (simp add: read_ipv4_iff)
  then show "parse_ip_addr s = Some (V4 (a, b, c, d))"
    by (simp add: parse_ip_addr_def)
qed

section \<open>Properties\<close>

lemma takeWhile_absent: "c \<notin> set s \<Longrightarrow> takeWhile (\<lambda>x. x \<noteq> c) s = s"
  by (induction s) auto

lemma takeWhile_present: "c \<notin> set t \<Longrightarrow> takeWhile (\<lambda>x. x \<noteq> c) (t @ c # r) = t"
  by (induction t) auto

lemma before_char_present: "c \<notin> set t \<Longrightarrow> before_char c (t @ c # r) = t"
  by (simp add: before_char_def takeWhile_present)

lemma before_char_absent: "c \<notin> set t \<Longrightarrow> before_char c t = t"
  by (simp add: before_char_def takeWhile_absent)

lemma split_once_eq:
  "split_once c s = (if c \<in> set s then Some (before_char c s, tl (dropWhile (\<lambda>x. x \<noteq> c) s)) else None)"
proof (cases "c \<in> set s")
  case True
  then obtain t r where s: "s = t @ c # r" "c \<notin> set t" by (meson split_list_first)
  have "dropWhile (\<lambda>x. x \<noteq> c) (t @ c # r) = c # r"
    using s(2) by (induction t) auto
  with s show ?thesis by (simp add: split_once_def)
next
  case False
  then have nil: "dropWhile (\<lambda>x. x \<noteq> c) s = []" by (induction s) auto
  show ?thesis by (simp only: split_once_def nil list.case False if_False)
qed

lemma split_once_fst:
  "fst (case split_once c s of Some p \<Rightarrow> p | None \<Rightarrow> (s, d)) = before_char c s"
  by (simp add: split_once_eq before_char_absent)

lemma client_host:
  "ep_host (openai_client_from_url (''http://'' @ rest)) = before_char (CHR '':'') (before_char (CHR ''/'') rest)"
  "ep_host (pp_seed_to (privacy_proxy_from_url (''http://'' @ rest) path))
     = before_char (CHR '':'') (before_char (CHR ''/'') rest)"
  "pp_client (privacy_proxy_from_url url path) = openai_client_from_url url"
  by (auto simp: openai_client_from_url_def privacy_proxy_from_url_def strip_prefix_def Let_def
      split_once_eq before_char_absent split: if_splits)

lemma after_last_absent: "c \<notin> set s \<Longrightarrow> after_last c s = s"
  by (simp only: after_last_def takeWhile_absent set_rev rev_rev_ident not_False_eq_True)

lemma after_last_present: "c \<notin> set t \<Longrightarrow> after_last c (s @ c # t) = t"
  using takeWhile_present [of c "rev t" "rev s"] by (simp add: after_last_def)

lemma remote_url_eq: "remote_url url = is_remote_url url"
  by (simp add: is_remote_url_def validate_inference_route_def remote_url_def
      extract_host_def sandbox_loopback_lower Let_def is_ok_def)

text \<open>The two copies of the loopback check, the one of the configuration and the one in front
  of the inference clients, agree on every URL that is not blank, letter case included; the blank
  URL counts as local in the first and is refused by the second.\<close>

theorem loopback_checks_agree:
  "is_local_url url = (trim url = [] \<or> is_ok (validate_inference_route url))
   \<and> remote_url url = is_remote_url url"
  using remote_url_eq [of url]
  by (auto simp: is_local_url_def remote_url_def is_remote_url_def Let_def
      validate_inference_route_def extract_host_def sandbox_loopback_lower is_ok_def)

text \<open>A host is a loopback host exactly when it is the name \<open>localhost\<close>, a dotted quad of
  decimal octets without leading zeros that starts with 127, or an IPv6 literal of the address
  \<open>::1\<close>; no other name passes, whatever it starts or ends with.\<close>

theorem loopback_host_iff:
  "is_loopback_host host \<longleftrightarrow>
     (let h = trim host;
          inner = (case strip_prefix h ''['' of
                     Some i \<Rightarrow> (case strip_suffix i '']'' of Some j \<Rightarrow> j | None \<Rightarrow> h) | None \<Rightarrow> h)
      in h \<noteq> [] \<and>
         (eq_ignore_ascii_case h ''localhost''
          \<or> (\<exists>b c d. inner = dotted_quad [127, unat (b :: 8 word), unat (c :: 8 word), unat (d :: 8 word)])
          \<or> parse_ip_addr inner = Some (V6 (replicate 15 0 @ [1]))))"
proof -
  have "(case parse_ip_addr i of Some ip \<Rightarrow> std_is_loopback ip | None \<Rightarrow> False) \<longleftrightarrow>
      (\<exists>b c d. i = dotted_quad [127, unat (b :: 8 word), unat (c :: 8 word), unat (d :: 8 word)])
      \<or> parse_ip_addr i = Some (V6 (replicate 15 0 @ [1]))" (is "?L \<longleftrightarrow> ?R") for i
  proof
    assume ?L
    then show ?R
    proof (cases "the (parse_ip_addr i)")
      case (V4 v)
      obtain a b c d where v: "v = (a, b, c, d)" by (rule prod_cases4)
      have "a = 127" "parse_ip_addr i = Some (V4 (a, b, c, d))"
        using \<open>?L\<close> V4 v by (auto split: option.splits)
      then show ?thesis using ipv4_literal_canonical [of i a b c d] by auto
    next
      case (V6 os)
      then show ?thesis using \<open>?L\<close> by (auto split: option.splits)
    qed
  next
    assume ?R
    then show ?L
    proof
      assume "\<exists>b c d. i = dotted_quad [127, unat (b :: 8 word), unat (c :: 8 word), unat (d :: 8 word)]"
      then obtain b c d :: "8 word" where "i = dotted_quad [unat (127 :: 8 word), unat b, unat c, unat d]"
        by auto
      then show ?L unfolding ipv4_literal_canonical [symmetric] by simp
    qed simp
  qed
  then show ?thesis unfolding is_loopback_host_def Let_def by simp
qed

text \<open>A URL with no userinfo and no bracketed host, as an operator writes it.\<close>

definition plain_http_url :: "string \<Rightarrow> bool" where
  "plain_http_url url \<longleftrightarrow>
     trim url = url \<and> starts_with url ''http://''
     \<and> CHR ''@'' \<notin> set (before_char (CHR ''/'') (drop 7 url))
     \<and> \<not> starts_with (drop 7 url) ''[''"

lemma plain_url_host:
  assumes "plain_http_url url"
  shows "is_local_url url = is_loopback_host (ep_host (openai_client_from_url url))"
    and "ep_host (pp_seed_to (privacy_proxy_from_url url path)) = ep_host (openai_client_from_url url)"
proof -
  obtain rest where url: "url = ''http://'' @ rest"
    using assms by (auto simp: plain_http_url_def starts_with_iff)
  let ?auth = "before_char (CHR ''/'') rest"
  have "\<not> starts_with ?auth ''[''" using assms url
    by (cases rest) (auto simp: plain_http_url_def before_char_def)
  then have "bracketed_host ?auth = before_char (CHR '':'') ?auth"
    by (simp add: bracketed_host_def strip_prefix_def)
  moreover have "after_last (CHR ''@'') ?auth = ?auth"
    using assms url by (intro after_last_absent) (simp add: plain_http_url_def)
  moreover have "trim url = url" "url \<noteq> []" using assms url by (simp_all add: plain_http_url_def)
  ultimately show "is_local_url url = is_loopback_host (ep_host (openai_client_from_url url))"
    unfolding url client_host by (simp add: is_local_url_def is_remote_url_def Let_def strip_scheme_def strip_prefix_def)
  show "ep_host (pp_seed_to (privacy_proxy_from_url url path)) = ep_host (openai_client_from_url url)"
    unfolding url client_host ..
qed

text \<open>C30: an escalation that the gate lets through connects to the device itself, for the chat
  request and for the vocabulary, as long as the base URL is a plain one: no userinfo, no
  bracketed host, no surrounding blanks.\<close>

theorem escalation_stays_on_device:
  assumes "plain_http_url (proxy_base_url p)" and "may_escalate (Some p) reason = Some q"
  shows "q = p \<and> proxy_enabled p
     \<and> is_loopback_host (ep_host (pp_client (privacy_proxy_from_url (proxy_base_url q) (proxy_vocab_path q))))
     \<and> is_loopback_host (ep_host (pp_seed_to (privacy_proxy_from_url (proxy_base_url q) (proxy_vocab_path q))))"
proof -
  have "q = p" "proxy_enabled p" "is_local_url (proxy_base_url p)"
    using assms(2) by (auto simp: may_escalate_def endpoint_is_valid_def split: if_splits)
  then show ?thesis using plain_url_host [OF assms(1)] by (simp add: client_host)
qed

definition sample_proxy :: "string \<Rightarrow> privacy_proxy_config" where
  "sample_proxy url = default_privacy_proxy\<lparr>proxy_enabled := True, proxy_base_url := url\<rparr>"

lemma escalation_stays_on_device_witness:
  "is_loopback_host (ep_host (pp_client (privacy_proxy_from_url ''http://127.0.0.1:8180/v1'' ''/vocab/seed'')))"
proof -
  let ?p = "sample_proxy ''http://127.0.0.1:8180/v1''"
  have "plain_http_url (proxy_base_url ?p)" by code_simp
  moreover have "may_escalate (Some ?p) ReasonLocalDecline = Some ?p" by code_simp
  ultimately show ?thesis
    using escalation_stays_on_device [of ?p ReasonLocalDecline ?p]
    by (simp add: sample_proxy_def default_privacy_proxy_def)
qed

definition userinfo_url :: "string \<Rightarrow> string \<Rightarrow> string" where
  "userinfo_url h x = ''http://'' @ h @ '':'' @ x @ ''@localhost/v1''"

text \<open>With userinfo in the URL the gate and the client read different hosts: a URL of the form
  \<open>http://h:x@localhost/v1\<close> is accepted as local for every \<open>h\<close> and \<open>x\<close>, and both requests of
  the escalation go to \<open>h\<close>.\<close>

theorem userinfo_url_escapes_device:
  assumes "CHR '':'' \<notin> set h" and "CHR ''/'' \<notin> set h" and "CHR ''/'' \<notin> set x"
  shows "may_escalate (Some (sample_proxy (userinfo_url h x))) reason = Some (sample_proxy (userinfo_url h x))
     \<and> ep_host (pp_client (privacy_proxy_from_url (userinfo_url h x) path)) = h
     \<and> ep_host (pp_seed_to (privacy_proxy_from_url (userinfo_url h x) path)) = h"
proof -
  let ?auth = "h @ '':'' @ x @ ''@localhost''"
  let ?url = "''http://'' @ ?auth @ ''/v1''"
  have url: "userinfo_url h x = ?url" by (simp add: userinfo_url_def)
  have "CHR ''/'' \<notin> set ?auth" using assms(2,3) by auto
  then have auth: "before_char (CHR ''/'') (?auth @ ''/v1'') = ?auth"
    using before_char_present [of "CHR ''/''" ?auth "''v1''"] by simp
  have host: "before_char (CHR '':'') ?auth = h"
    using before_char_present [OF assms(1), of "x @ ''@localhost''"] by simp
  have trim: "trim ?url = ?url"
    by (rule trim_id) (simp add: is_whitespace_def)
  have "after_last (CHR ''@'') ((h @ '':'' @ x) @ CHR ''@'' # ''localhost'') = ''localhost''"
    by (rule after_last_present) simp
  then have last: "after_last (CHR ''@'') ?auth = ''localhost''" by simp
  have "is_loopback_host (bracketed_host ''localhost'')" by code_simp
  then have "is_local_url ?url"
    unfolding is_local_url_def is_remote_url_def trim Let_def
    using auth last by (simp add: strip_scheme_def strip_prefix_def)
  then have "may_escalate (Some (sample_proxy ?url)) reason = Some (sample_proxy ?url)"
    by (cases reason) (simp_all add: may_escalate_def endpoint_is_valid_def sample_proxy_def default_privacy_proxy_def)
  then show ?thesis
    unfolding url client_host(3) client_host(1,2) [of "?auth @ ''/v1''"] auth host by simp
qed

lemma userinfo_url_escapes_device_witness:
  "may_escalate (Some (sample_proxy ''http://evil.com:80@localhost/v1'')) ReasonLocalDecline
     = Some (sample_proxy ''http://evil.com:80@localhost/v1'')
   \<and> ep_host (pp_client (privacy_proxy_from_url ''http://evil.com:80@localhost/v1'' ''/vocab/seed'')) = ''evil.com''"
proof -
  have u: "userinfo_url ''evil.com'' ''80'' = ''http://evil.com:80@localhost/v1''"
    by (simp add: userinfo_url_def)
  have "CHR '':'' \<notin> set ''evil.com''" "CHR ''/'' \<notin> set ''evil.com''" "CHR ''/'' \<notin> set ''80''"
    by simp_all
  from userinfo_url_escapes_device [OF this, of ReasonLocalDecline "''/vocab/seed''"]
  show ?thesis unfolding u by blast
qed

text \<open>An IPv6 loopback URL, which both checks accept, is not usable: the client splits the
  authority at its first colon and would connect to a host named by a single bracket.\<close>

lemma read_octets_first_fails:
  "read_number 10 3 False 255 s = None \<Longrightarrow> read_ipv4_addr s = None"
  by (simp add: read_ipv4_addr_def read_separator_def numeral_eq_Suc)

lemma read_octets_second_fails:
  "read_number 10 3 False 255 s = Some (x, []) \<Longrightarrow> read_ipv4_addr s = None"
  using read_octets.simps(2) [of 3 0 s] read_octets.simps(2) [of 2 1 "[]"]
  by (simp add: read_ipv4_addr_def read_separator_def)

lemma loopback_v6_literal: "parse_ip_addr ''::1'' = Some (V6 (replicate 15 0 @ [1]))"
proof -
  have "read_number 10 3 False 255 ''::1'' = None" "read_number 10 3 False 255 ''1'' = Some (1, [])"
    by (simp_all add: read_octet_unfold is_ascii_digit_def dec_value_def to_digit_10)
  then have v4: "read_ipv4_addr ''::1'' = None" "read_ipv4_addr ''1'' = None"
    by (auto intro: read_octets_first_fails read_octets_second_fails)
  have h: "read_number 16 4 True 65535 ''::1'' = None" "read_number 16 4 True 65535 ''1'' = Some (1, [])"
    by (simp_all add: read_number_def to_digit_def is_ascii_digit_def)
  have "read_groups 8 0 ''::1'' = ([], False, ''::1'')" "read_groups 7 0 ''1'' = ([1], False, [])"
    using read_groups.simps(2) [of 7 0 "''::1''"] read_groups.simps(2) [of 6 0 "''1''"]
      read_groups.simps(2) [of 5 1 "[]"]
    by (simp_all add: read_separator_def v4 h)
  then have "read_ipv6_addr ''::1'' = Some (replicate 7 0 @ [1], [])"
    by (simp add: read_ipv6_addr_def strip_prefix_def)
  moreover have "octets_of_groups (replicate 7 0 @ [1]) = replicate 15 0 @ [1]"
    by code_simp
  ultimately show ?thesis by (simp only: parse_ip_addr_def v4 option.case prod.case refl if_True)
qed

lemma ipv6_url_misread:
  "is_local_url ''http://[::1]:9000/v1'' \<and>
   openai_client_from_url ''http://[::1]:9000/v1'' = \<lparr>ep_host = ''['', ep_port = 8080\<rparr>"
proof
  show "is_local_url ''http://[::1]:9000/v1''"
    using loopback_v6_literal
    by (simp add: is_local_url_def is_remote_url_def trim_def trim_start_def is_whitespace_def strip_scheme_def
        strip_prefix_def strip_suffix_def ends_with_def before_char_def after_last_def bracketed_host_def
        is_loopback_host_def eq_ignore_ascii_case_def to_ascii_lowercase_def)
  show "openai_client_from_url ''http://[::1]:9000/v1'' = \<lparr>ep_host = ''['', ep_port = 8080\<rparr>"
    by (simp add: openai_client_from_url_def strip_prefix_def split_once_def before_char_def
        parse_u16_def parse_u64_def is_ascii_digit_def)
qed

lemma readiness_iff:
  "readiness env window p = ProviderReady \<longleftrightarrow>
     plan_context_window p \<le> window \<and> trim (plan_credential_env p) \<noteq> []
     \<and> (case env (plan_credential_env p) of Some v \<Rightarrow> trim v \<noteq> [] | None \<Rightarrow> False)
     \<and> trim (plan_base_url p) \<noteq> [] \<and> (\<not> is_remote_url (plan_base_url p) \<or> plan_remote_allowed p)"
  unfolding readiness_def Let_def remote_url_eq by (auto split: option.splits)

lemma ensure_enabled_ready_imp:
  assumes "is_ok (ensure_enabled_ready env c window)" and "opt_enabled c"
  shows "opt_context_window c \<le> window \<and> trim (opt_credential_env c) \<noteq> []
     \<and> (case env (opt_credential_env c) of Some v \<Rightarrow> trim v \<noteq> [] | None \<Rightarrow> False)
     \<and> trim (opt_base_url c) \<noteq> [] \<and> (\<not> is_remote_url (opt_base_url c) \<or> opt_allow_remote c)"
  using assms unfolding ensure_enabled_ready_def Let_def is_ok_def
  by (simp split: if_splits option.splits)

text \<open>A completion through the optional provider reaches the client only when the provider is
  ready, and otherwise fails without touching the outside world; a configuration that passes the
  check at load time is ready in the same environment; and a ready provider with a remote URL has
  been opted in.\<close>

theorem gated_provider_correct:
  "snd (gated_complete env window (gate_for_http c) inner m w)
     = (if gate_readiness env window (gate_for_http c) = ProviderReady then snd (inner m w) else w)
   \<and> is_ok (fst (gated_complete env window (gate_for_http c) inner m w))
     = (gate_readiness env window (gate_for_http c) = ProviderReady \<and> is_ok (fst (inner m w)))
   \<and> is_ok (ensure_enabled_ready env c window) \<le> (gate_readiness env window (gate_for_http c) = ProviderReady)
   \<and> (gate_readiness env window (gate_for_http c) = ProviderReady \<and> opt_enabled c
        \<and> is_remote_url (opt_base_url c)) \<le> opt_allow_remote c"
proof -
  have plan: "plan_context_window p = opt_context_window c" "plan_credential_env p = opt_credential_env c"
    "plan_base_url p = opt_base_url c" "plan_remote_allowed p = opt_allow_remote c"
    if "plan_from_config c = Some p" for p
    using that by (auto simp: plan_from_config_def plan_credential_env_def opt_credential_env_def
        split: if_splits provider_auth_mode.splits)
  show ?thesis
  proof (cases "opt_enabled c")
    case False
    then show ?thesis by (simp add: gate_for_http_def gated_complete_def gate_readiness_def)
  next
    case True
    then obtain p where p: "plan_from_config c = Some p" by (simp add: plan_from_config_def)
    have "ensure_ready env window p = Ok () \<longleftrightarrow> readiness env window p = ProviderReady"
      "is_ok (ensure_ready env window p) \<longleftrightarrow> readiness env window p = ProviderReady"
      by (auto simp: ensure_ready_def is_ok_def split: provider_readiness.splits)
    moreover have "is_ok (ensure_enabled_ready env c window) \<Longrightarrow> readiness env window p = ProviderReady"
      unfolding readiness_iff plan [OF p] using ensure_enabled_ready_imp [of env c window] True by blast
    moreover have "readiness env window p = ProviderReady \<Longrightarrow> is_remote_url (opt_base_url c) \<Longrightarrow> opt_allow_remote c"
      unfolding readiness_iff plan [OF p] by blast
    ultimately show ?thesis using True p
      by (cases "ensure_ready env window p")
         (auto simp: gate_for_http_def gated_complete_def gate_readiness_def is_ok_def)
  qed
qed

lemma read_separator_imp: "read_separator d i R s = Some (x, r) \<Longrightarrow> \<exists>s'. R s' = Some (x, r)"
  by (auto simp: read_separator_def split: if_splits list.splits)

lemma read_octets_length: "read_octets n i s = Some (os, r) \<Longrightarrow> length os = n"
proof (induction n arbitrary: i s os r)
  case (Suc n)
  then show ?case by (auto split: option.splits prod.splits)
qed simp

lemma read_groups_length: "length (fst (read_groups n i s)) \<le> n"
proof (induction n arbitrary: i s)
  case (Suc n)
  show ?case using Suc.IH by (auto split: option.splits prod.splits if_splits) (metis fst_conv)
qed simp

lemma octets_of_groups_length: "length (octets_of_groups gs) = 2 * length gs"
  by (induction gs) (simp_all add: octets_of_groups_def)

text \<open>The reader of IPv6 literals always yields sixteen octets, whatever mixture of groups, a
  double colon and an embedded IPv4 address the text has.\<close>

theorem parsed_v6_has_16_octets:
  "case parse_ip_addr s of Some (V6 os) \<Rightarrow> length os = 16 | _ \<Rightarrow> True"
proof -
  have "length gs = 8" if R: "read_ipv6_addr s = Some (gs, r)" for gs r
  proof -
    obtain head v4 s1 where h: "read_groups 8 0 s = (head, v4, s1)" by (rule prod_cases3)
    have len: "length head \<le> 8" using read_groups_length [of 8 0 s] h by simp
    show ?thesis
    proof (cases "length head = 8")
      case True
      then show ?thesis using R h by (simp add: read_ipv6_addr_def)
    next
      case False
      then obtain s2 where s2: "strip_prefix s1 ''::'' = Some s2"
        using R h by (auto simp: read_ipv6_addr_def split: if_splits option.splits)
      obtain tail b s3 where t: "read_groups (8 - (length head + 1)) 0 s2 = (tail, b, s3)" by (rule prod_cases3)
      have "length tail \<le> 8 - (length head + 1)" using read_groups_length [of "8 - (length head + 1)" 0 s2] t by simp
      then show ?thesis using R h False s2 t len by (auto simp: read_ipv6_addr_def split: if_splits)
    qed
  qed
  then show ?thesis
    by (auto simp: parse_ip_addr_def octets_of_groups_length split: option.splits prod.splits ip_addr.splits if_splits)
qed

end
