(* ===== verification/Hydration.thy ===== *)
theory Hydration
  imports MemoryPolicy
begin

text \<open>
  The household context of a prompt (\<open>memory/inject.rs\<close>): which memories are injected for a
  query and how they are cut to the token budget. The queries of the memory store are arguments:
  \<open>by_kind\<close> and \<open>search\<close>, each of which may fail. The ellipsis that marks a cut entry (one
  character outside the repertoire of the model) is an argument too.
\<close>

section \<open>The token budget\<close>

definition MEMORY_HYDRATION_BUDGET_TOKENS :: nat where
  "MEMORY_HYDRATION_BUDGET_TOKENS = 700"

definition estimate_hydration_tokens_from_len :: "nat \<Rightarrow> nat" where
  "estimate_hydration_tokens_from_len len = (len + 3) div 4"

definition estimate_hydration_tokens :: "string \<Rightarrow> nat" where
  "estimate_hydration_tokens t = estimate_hydration_tokens_from_len (str_len t)"

definition format_memory_lines :: "string list \<Rightarrow> string" where
  "format_memory_lines entries = join_str [CHR 10] (map (\<lambda>e. ''- '' @ e) entries)"

text \<open>The binary search for the number of characters that fit.\<close>

definition cut_entry :: "string \<Rightarrow> string \<Rightarrow> nat \<Rightarrow> string" where
  "cut_entry ellipsis chars n = (if n \<ge> length chars then take n chars else take n chars @ ellipsis)"

definition fits :: "string \<Rightarrow> nat \<Rightarrow> bool" where
  "fits candidate budget \<longleftrightarrow> estimate_hydration_tokens (''- '' @ candidate) \<le> budget"

function truncate_search :: "string \<Rightarrow> string \<Rightarrow> nat \<Rightarrow> nat \<Rightarrow> nat \<Rightarrow> nat" where
  "truncate_search ellipsis chars budget lo hi =
     (if lo < hi then
        let mid = (lo + hi + 1) div 2
        in if fits (cut_entry ellipsis chars mid) budget
           then truncate_search ellipsis chars budget mid hi
           else truncate_search ellipsis chars budget lo (mid - 1)
      else lo)"
  by pat_completeness auto
termination
  by (relation "measure (\<lambda>(_, _, _, lo, hi). hi - lo)") auto

declare truncate_search.simps [simp del]

definition truncate_entry_to_budget :: "string \<Rightarrow> string \<Rightarrow> nat \<Rightarrow> string" where
  "truncate_entry_to_budget ellipsis entry budget =
     (if fits entry budget then entry
      else
        let lo = truncate_search ellipsis entry budget 0 (length entry)
        in if lo = 0 then []
           else if lo \<ge> length entry then entry
           else take lo entry @ ellipsis)"

text \<open>The loop of \<open>fit_entries_to_budget\<close>: the entries kept so far and the byte length of their
  lines.\<close>

fun fit_loop :: "string list \<Rightarrow> nat \<Rightarrow> string list \<Rightarrow> string list" where
  "fit_loop selected joined_len [] = selected"
| "fit_loop selected joined_len (entry # entries) =
     (let separator = (if selected = [] then 0 else 1);
          trial_len = joined_len + separator + 2 + str_len entry
      in if estimate_hydration_tokens_from_len trial_len \<le> MEMORY_HYDRATION_BUDGET_TOKENS
         then fit_loop (selected @ [entry]) trial_len entries
         else selected)"

definition fit_entries_to_budget :: "string list \<Rightarrow> string list" where
  "fit_entries_to_budget entries = fit_loop [] 0 entries"

definition apply_hydration_budget :: "string \<Rightarrow> string list \<Rightarrow> string" where
  "apply_hydration_budget ellipsis entries =
     (case entries of
        [] \<Rightarrow> ''(no household context yet)''
      | first # _ \<Rightarrow>
          let selected = fit_entries_to_budget entries;
              selected =
                (if selected = [] then
                   let truncated = truncate_entry_to_budget ellipsis first MEMORY_HYDRATION_BUDGET_TOKENS
                   in if truncated \<noteq> [] then [truncated] else []
                 else selected)
          in format_memory_lines selected)"

section \<open>Choosing the entries\<close>

record memory_entry =
  entry_id :: int
  entry_kind :: string
  entry_content :: string
  entry_metadata :: memory_policy_metadata

definition may_inject_entry :: "memory_entry \<Rightarrow> memory_read_context \<Rightarrow> bool" where
  "may_inject_entry e ctx = allowed (assess_memory_read (entry_metadata e) ctx)"

definition entry_text :: "memory_entry \<Rightarrow> string" where
  "entry_text e = ''['' @ entry_kind e @ ''] '' @ entry_content e"

text \<open>One loop over the results of a query; \<open>cap\<close> is the bound checked in the last loop. The set
  of identifiers seen so far grows also by entries that may not be injected.\<close>

fun inject_loop ::
  "nat option \<Rightarrow> memory_read_context \<Rightarrow> memory_entry list \<Rightarrow> int set \<times> string list \<Rightarrow> int set \<times> string list" where
  "inject_loop cap ctx [] acc = acc"
| "inject_loop cap ctx (e # es) (seen, entries) =
     (if (case cap of Some n \<Rightarrow> length entries \<ge> n | None \<Rightarrow> False) then (seen, entries)
      else inject_loop cap ctx es
             (insert (entry_id e) seen,
              if entry_id e \<notin> seen \<and> may_inject_entry e ctx then entries @ [entry_text e] else entries))"

definition inject_results ::
  "nat option \<Rightarrow> memory_read_context \<Rightarrow> memory_entry list res \<Rightarrow> int set \<times> string list \<Rightarrow> int set \<times> string list" where
  "inject_results cap ctx r acc = (case r of Inl _ \<Rightarrow> acc | Inr es \<Rightarrow> inject_loop cap ctx es acc)"

record memory_queries =
  by_kind :: "string \<Rightarrow> nat \<Rightarrow> memory_entry list res"
  search_memory :: "string \<Rightarrow> nat \<Rightarrow> memory_entry list res"

definition context_entries :: "memory_queries \<Rightarrow> string \<Rightarrow> memory_read_context \<Rightarrow> string list" where
  "context_entries mem query ctx =
     (let acc = ({}, []);
          acc = inject_results None ctx (by_kind mem ''identity'' 5) acc;
          acc = inject_results None ctx (by_kind mem ''relationship'' 3) acc;
          acc = (if trim query \<noteq> [] then inject_results None ctx (search_memory mem query 5) acc else acc);
          acc = (if length (snd acc) < 8 then inject_results (Some 8) ctx (by_kind mem ''preference'' 3) acc
                 else acc)
      in snd acc)"

definition build_memory_context_with_read_context ::
  "string \<Rightarrow> memory_queries \<Rightarrow> string \<Rightarrow> memory_read_context \<Rightarrow> string" where
  "build_memory_context_with_read_context ellipsis mem query ctx =
     apply_hydration_budget ellipsis (context_entries mem query ctx)"

definition build_memory_context :: "string \<Rightarrow> memory_queries \<Rightarrow> string \<Rightarrow> string" where
  "build_memory_context ellipsis mem query =
     build_memory_context_with_read_context ellipsis mem query shared_room_voice"

section \<open>The length of the lines\<close>

lemma str_len_dash [simp]: "str_len (CHR ''-'' # CHR '' '' # e) = Suc (Suc (str_len e))"
  by (simp add: str_len_def utf8_def utf8_char_def is_ascii_def)

lemma str_len_newline [simp]: "str_len (CHR 10 # e) = Suc (str_len e)"
  by (simp add: str_len_def utf8_def utf8_char_def is_ascii_def)

lemma join_str_snoc: "join_str sep (ss @ [s]) = (if ss = [] then s else join_str sep ss @ sep @ s)"
  by (induction sep ss rule: join_str.induct) auto

lemma lines_snoc_len:
  "str_len (format_memory_lines (es @ [e]))
     = (if es = [] then 0 else str_len (format_memory_lines es) + 1) + 2 + str_len e"
  by (simp add: format_memory_lines_def join_str_snoc)

section \<open>Fitting entries to the budget\<close>

text \<open>The reference that the linear loop replaces: the lines are rendered again for every entry.\<close>

fun reference_loop :: "string list \<Rightarrow> string list \<Rightarrow> string list" where
  "reference_loop selected [] = selected"
| "reference_loop selected (entry # entries) =
     (if estimate_hydration_tokens (format_memory_lines (selected @ [entry])) \<le> MEMORY_HYDRATION_BUDGET_TOKENS
      then reference_loop (selected @ [entry]) entries
      else selected)"

lemma fit_loop_reference:
  "len = (if sel = [] then 0 else str_len (format_memory_lines sel)) \<Longrightarrow>
     fit_loop sel len es = reference_loop sel es"
proof (induction es arbitrary: sel len)
  case (Cons e es)
  let ?trial = "len + (if sel = [] then 0 else 1) + 2 + str_len e"
  have "str_len (format_memory_lines (sel @ [e])) = ?trial"
    using Cons.prems by (simp add: lines_snoc_len)
  then show ?case using Cons.IH [of ?trial "sel @ [e]"]
    by (simp add: Let_def estimate_hydration_tokens_def)
qed simp

lemma reference_loop_prefix:
  "\<exists>n. n \<le> length es \<and> reference_loop sel es = sel @ take n es
     \<and> (n = length es \<or> estimate_hydration_tokens (format_memory_lines (sel @ take (Suc n) es))
            > MEMORY_HYDRATION_BUDGET_TOKENS)
     \<and> (sel @ take n es = sel \<or> estimate_hydration_tokens (format_memory_lines (sel @ take n es))
            \<le> MEMORY_HYDRATION_BUDGET_TOKENS)"
proof (induction es arbitrary: sel)
  case (Cons e es)
  show ?case
  proof (cases "estimate_hydration_tokens (format_memory_lines (sel @ [e])) \<le> MEMORY_HYDRATION_BUDGET_TOKENS")
    case True
    obtain n where n: "n \<le> length es" "reference_loop (sel @ [e]) es = (sel @ [e]) @ take n es"
      "n = length es \<or> estimate_hydration_tokens (format_memory_lines ((sel @ [e]) @ take (Suc n) es))
            > MEMORY_HYDRATION_BUDGET_TOKENS"
      "(sel @ [e]) @ take n es = sel @ [e] \<or> estimate_hydration_tokens (format_memory_lines ((sel @ [e]) @ take n es))
            \<le> MEMORY_HYDRATION_BUDGET_TOKENS"
      using Cons.IH by blast
    then show ?thesis using True by (intro exI [of _ "Suc n"]) auto
  next
    case False
    then show ?thesis by (intro exI [of _ 0]) simp
  qed
qed simp

lemma lines_Nil: "format_memory_lines [] = []"
  by (simp add: format_memory_lines_def)

lemma fit_entries_eq: "fit_entries_to_budget entries = reference_loop [] entries"
  by (simp add: fit_entries_to_budget_def fit_loop_reference)

lemma fit_entries_spec:
  "\<exists>n. n \<le> length entries \<and> fit_entries_to_budget entries = take n entries
     \<and> estimate_hydration_tokens (format_memory_lines (take n entries)) \<le> 700
     \<and> (n = length entries \<or> estimate_hydration_tokens (format_memory_lines (take (Suc n) entries)) > 700)"
proof -
  have "estimate_hydration_tokens (format_memory_lines []) \<le> 700"
    by (simp add: lines_Nil estimate_hydration_tokens_def estimate_hydration_tokens_from_len_def)
  then show ?thesis
    using reference_loop_prefix [of entries "[]"] unfolding fit_entries_eq MEMORY_HYDRATION_BUDGET_TOKENS_def
    by force
qed

lemma fit_entries_within:
  "estimate_hydration_tokens (format_memory_lines (fit_entries_to_budget entries)) \<le> 700"
  using fit_entries_spec [of entries] by force

text \<open>The linear fit keeps exactly the entries that the quadratic reference keeps, and these are
  the longest prefix of the entries whose lines stay within 700 tokens.\<close>

theorem fit_entries_correct:
  "fit_entries_to_budget entries = reference_loop [] entries
   \<and> (\<exists>n. n \<le> length entries \<and> fit_entries_to_budget entries = take n entries
        \<and> estimate_hydration_tokens (format_memory_lines (take n entries)) \<le> 700
        \<and> (n = length entries \<or> estimate_hydration_tokens (format_memory_lines (take (Suc n) entries)) > 700))"
  using fit_entries_eq fit_entries_spec by blast

section \<open>Cutting one entry\<close>

lemma str_len_take_mono: "m \<le> n \<Longrightarrow> str_len (take m s) \<le> str_len (take n s)"
proof -
  assume "m \<le> n"
  then obtain k where "n = m + k" by (auto simp: le_iff_add)
  then show ?thesis by (simp add: take_add)
qed

lemma fits_take_anti:
  "m \<le> n \<Longrightarrow> fits (take n s @ ellipsis) budget \<Longrightarrow> fits (take m s @ ellipsis) budget"
proof -
  assume "m \<le> n" and fit: "fits (take n s @ ellipsis) budget"
  then have "str_len (take m s) \<le> str_len (take n s)" by (simp add: str_len_take_mono)
  then have "(str_len (take m s) + str_len ellipsis + 2 + 3) div 4 \<le> (str_len (take n s) + str_len ellipsis + 2 + 3) div 4"
    by (intro div_le_mono) simp
  then show "fits (take m s @ ellipsis) budget"
    using fit by (simp add: fits_def estimate_hydration_tokens_def estimate_hydration_tokens_from_len_def)
qed

definition downward :: "(nat \<Rightarrow> bool) \<Rightarrow> nat \<Rightarrow> nat \<Rightarrow> bool" where
  "downward P lo hi \<longleftrightarrow> (\<forall>m n. lo < m \<and> m \<le> n \<and> n \<le> hi \<and> P n \<longrightarrow> P m)"

lemma downwardD: "downward P lo hi \<Longrightarrow> lo < m \<Longrightarrow> m \<le> n \<Longrightarrow> n \<le> hi \<Longrightarrow> P n \<Longrightarrow> P m"
  unfolding downward_def by blast

lemma downward_sub: "downward P lo hi \<Longrightarrow> lo \<le> lo' \<Longrightarrow> hi' \<le> hi \<Longrightarrow> downward P lo' hi'"
  unfolding downward_def by (meson le_less_trans le_trans)

text \<open>The search ends at the last length that fits.\<close>

definition last_hit :: "(nat \<Rightarrow> bool) \<Rightarrow> nat \<Rightarrow> nat \<Rightarrow> nat \<Rightarrow> bool" where
  "last_hit P lo hi r \<longleftrightarrow> lo \<le> r \<and> r \<le> hi \<and> (r = lo \<or> P r) \<and> (\<forall>n. r < n \<and> n \<le> hi \<longrightarrow> \<not> P n)"

lemma truncate_search_spec:
  "downward (\<lambda>n. fits (cut_entry ell s n) b) lo hi \<Longrightarrow> lo \<le> hi \<Longrightarrow>
     last_hit (\<lambda>n. fits (cut_entry ell s n) b) lo hi (truncate_search ell s b lo hi)"
proof (induction ell s b lo hi rule: truncate_search.induct)
  case (1 ell s b lo hi)
  let ?mid = "(lo + hi + 1) div 2" and ?P = "\<lambda>n. fits (cut_entry ell s n) b"
  show ?case
  proof (cases "lo < hi")
    case True
    then have mid: "lo < ?mid" "?mid \<le> hi" by auto
    show ?thesis
    proof (cases "?P ?mid")
      case fit: True
      have eq: "truncate_search ell s b lo hi = truncate_search ell s b ?mid hi"
        using True fit by (subst truncate_search.simps) (simp add: Let_def)
      have "last_hit ?P ?mid hi (truncate_search ell s b ?mid hi)"
        by (rule 1(1) [OF True refl fit downward_sub [OF 1(3)]]) (use mid in simp_all)
      then show ?thesis unfolding eq last_hit_def using fit mid by auto
    next
      case nofit: False
      have eq: "truncate_search ell s b lo hi = truncate_search ell s b lo (?mid - 1)"
        using True nofit by (subst truncate_search.simps) (simp add: Let_def)
      have IH: "last_hit ?P lo (?mid - 1) (truncate_search ell s b lo (?mid - 1))"
        by (rule 1(2) [OF True refl nofit downward_sub [OF 1(3)]]) (use mid in linarith)+
      have "\<not> ?P n" if "?mid \<le> n" "n \<le> hi" for n
        using downwardD [OF 1(3) mid(1) that] nofit by blast
      then have "\<not> ?P n" if "truncate_search ell s b lo (?mid - 1) < n" "n \<le> hi" for n
        using that IH unfolding last_hit_def by (cases "?mid \<le> n") auto
      then show ?thesis unfolding eq last_hit_def using IH mid by (auto simp: last_hit_def)
    qed
  next
    case False
    then have "truncate_search ell s b lo hi = lo" by (simp add: truncate_search.simps)
    then show ?thesis using 1(4) False by (auto simp: last_hit_def)
  qed
qed

lemma last_filter_upt:
  assumes "P r" and "k \<le> r" and "r < n" and "\<And>i. r < i \<Longrightarrow> i < n \<Longrightarrow> \<not> P i"
  shows "filter P [k..<n] \<noteq> [] \<and> last (filter P [k..<n]) = r"
proof -
  have "[k..<n] = [k..<r] @ r # [Suc r..<n]"
    using assms(2,3) upt_add_eq_append [of k r "n - r"] upt_conv_Cons [of r n] by simp
  moreover have "filter P [Suc r..<n] = []" using assms(4) by (auto simp: filter_empty_conv)
  ultimately show ?thesis using assms(1) by simp
qed

lemma truncation_spec:
  "truncate_entry_to_budget ellipsis entry budget =
     (if fits entry budget then entry
      else let ns = filter (\<lambda>n. fits (take n entry @ ellipsis) budget) [1..<length entry]
           in if ns = [] then [] else take (last ns) entry @ ellipsis)"
proof (cases "fits entry budget")
  case True
  then show ?thesis by (simp add: truncate_entry_to_budget_def)
next
  case False
  let ?P = "\<lambda>n. fits (cut_entry ellipsis entry n) budget" and ?Q = "\<lambda>n. fits (take n entry @ ellipsis) budget"
  let ?r = "truncate_search ellipsis entry budget 0 (length entry)"
  have whole: "\<not> ?P (length entry)" using False by (simp add: cut_entry_def)
  have part: "?P n = ?Q n" if "n < length entry" for n using that by (simp add: cut_entry_def)
  have "downward ?P 0 (length entry)"
    unfolding downward_def
  proof (intro allI impI, elim conjE)
    fix m n assume mn: "m \<le> n" "n \<le> length entry" "?P n"
    then have "n < length entry" using whole by (cases "n = length entry") auto
    then show "?P m" using mn fits_take_anti part by (metis le_less_trans)
  qed
  then have hit: "last_hit ?P 0 (length entry) ?r" by (rule truncate_search_spec) simp
  show ?thesis
  proof (cases "?r = 0")
    case True
    then have "filter ?Q [1..<length entry] = []"
      using hit part unfolding last_hit_def filter_empty_conv by (metis One_nat_def Suc_le_lessD atLeastLessThan_iff less_imp_le_nat set_upt)
    then show ?thesis using True False by (simp add: truncate_entry_to_budget_def)
  next
    case r: False
    then have P: "?P ?r" "?r \<le> length entry" using hit by (simp_all add: last_hit_def)
    then have lt: "?r < length entry" using whole by (cases "?r = length entry") auto
    have "\<not> ?Q i" if "?r < i" "i < length entry" for i
      using hit that part [OF that(2)] by (simp add: last_hit_def)
    then have "filter ?Q [1..<length entry] \<noteq> [] \<and> last (filter ?Q [1..<length entry]) = ?r"
      using P(1) part [OF lt] r lt by (intro last_filter_upt) auto
    then show ?thesis using r lt False by (simp add: truncate_entry_to_budget_def Let_def)
  qed
qed

text \<open>The binary search cuts an entry that is too long to the longest beginning that fits the
  budget with its ellipsis, and to nothing when not even one character fits.\<close>

theorem truncation_maximal:
  "truncate_entry_to_budget ellipsis entry budget =
     (if fits entry budget then entry
      else let ns = filter (\<lambda>n. fits (take n entry @ ellipsis) budget) [1..<length entry]
           in if ns = [] then [] else take (last ns) entry @ ellipsis)"
  by (rule truncation_spec)

section \<open>What is injected\<close>

lemma truncate_fits: "truncate_entry_to_budget ell e b = [] \<or> fits (truncate_entry_to_budget ell e b) b"
proof -
  let ?ns = "filter (\<lambda>n. fits (take n e @ ell) b) [1..<length e]"
  have "fits (take (last ?ns) e @ ell) b" if "?ns \<noteq> []"
    using last_in_set [OF that] by simp
  then show ?thesis unfolding truncation_spec Let_def by simp
qed

text \<open>The household context never exceeds the budget of 700 tokens (by the estimate of four
  bytes a token), whatever the store returns and whatever the query is.\<close>

theorem memory_context_within_budget:
  "estimate_hydration_tokens (build_memory_context_with_read_context ellipsis mem query ctx) \<le> 700"
proof -
  have lines1: "format_memory_lines [e] = ''- '' @ e" for e by (simp add: format_memory_lines_def)
  have "estimate_hydration_tokens (apply_hydration_budget ellipsis entries) \<le> 700" for entries
  proof (cases entries)
    case Nil
    have "list_all is_ascii ''(no household context yet)''" by code_simp
    then show ?thesis using Nil str_len_ascii [of "''(no household context yet)''"]
      by (simp add: apply_hydration_budget_def estimate_hydration_tokens_def estimate_hydration_tokens_from_len_def)
  next
    case (Cons first rest)
    let ?t = "truncate_entry_to_budget ellipsis first 700"
    have nil: "estimate_hydration_tokens (format_memory_lines []) \<le> 700"
      by (simp add: lines_Nil estimate_hydration_tokens_def estimate_hydration_tokens_from_len_def)
    have "?t \<noteq> [] \<Longrightarrow> estimate_hydration_tokens (format_memory_lines [?t]) \<le> 700"
      using truncate_fits [of ellipsis first 700] unfolding lines1 fits_def by blast
    moreover have "estimate_hydration_tokens (format_memory_lines (fit_entries_to_budget entries)) \<le> 700"
      using fit_entries_within [of entries] .
    ultimately show ?thesis using nil Cons
      by (simp add: apply_hydration_budget_def MEMORY_HYDRATION_BUDGET_TOKENS_def Let_def)
  qed
  then show ?thesis by (simp add: build_memory_context_with_read_context_def)
qed

definition results_of :: "memory_entry list res \<Rightarrow> memory_entry list" where
  "results_of r = (case r of Inl _ \<Rightarrow> [] | Inr es \<Rightarrow> es)"

definition query_results :: "memory_queries \<Rightarrow> string \<Rightarrow> memory_entry list" where
  "query_results mem query =
     results_of (by_kind mem ''identity'' 5) @ results_of (by_kind mem ''relationship'' 3)
     @ (if trim query = [] then [] else results_of (search_memory mem query 5))
     @ results_of (by_kind mem ''preference'' 3)"

lemma results_of_Ok [simp]: "results_of (Inr es) = es"
  by (simp add: results_of_def)

text \<open>The entries collected so far come from a set of results, each identifier once, each readable.\<close>

definition sourced :: "memory_entry set \<Rightarrow> memory_read_context \<Rightarrow> int set \<times> string list \<Rightarrow> bool" where
  "sourced S ctx acc \<longleftrightarrow>
     (\<exists>chosen. snd acc = map entry_text chosen \<and> distinct (map entry_id chosen)
        \<and> set (map entry_id chosen) \<subseteq> fst acc \<and> set chosen \<subseteq> S
        \<and> list_all (\<lambda>e. may_inject_entry e ctx) chosen)"

lemma sourced_step:
  assumes "sourced S ctx (seen, entries)" and "e \<in> S"
  shows "sourced S ctx (insert (entry_id e) seen,
     if entry_id e \<notin> seen \<and> may_inject_entry e ctx then entries @ [entry_text e] else entries)"
proof -
  obtain chosen where c: "entries = map entry_text chosen" "distinct (map entry_id chosen)"
    "set (map entry_id chosen) \<subseteq> seen" "set chosen \<subseteq> S" "list_all (\<lambda>e. may_inject_entry e ctx) chosen"
    using assms(1) by (auto simp: sourced_def)
  show ?thesis
  proof (cases "entry_id e \<notin> seen \<and> may_inject_entry e ctx")
    case True
    then show ?thesis unfolding sourced_def
      using c assms(2) by (intro exI [of _ "chosen @ [e]"]) auto
  next
    case False
    then show ?thesis unfolding sourced_def
      using c by (intro exI [of _ chosen]) auto
  qed
qed

lemma inject_loop_sourced:
  "sourced S ctx acc \<Longrightarrow> set es \<subseteq> S \<Longrightarrow> sourced S ctx (inject_loop cap ctx es acc)"
proof (induction cap ctx es acc rule: inject_loop.induct)
  case (2 cap ctx e es seen entries)
  then have "sourced S ctx (insert (entry_id e) seen,
     if entry_id e \<notin> seen \<and> may_inject_entry e ctx then entries @ [entry_text e] else entries)"
    by (intro sourced_step) auto
  then show ?case using 2 by (auto simp del: if_image_distrib split: option.splits)
qed simp

lemma inject_results_sourced:
  "sourced S ctx acc \<Longrightarrow> (\<And>es. r = Inr es \<Longrightarrow> set es \<subseteq> S) \<Longrightarrow> sourced S ctx (inject_results cap ctx r acc)"
  by (cases r) (simp_all add: inject_results_def inject_loop_sourced)

lemma context_entries_sourced:
  "\<exists>chosen. context_entries mem query ctx = map entry_text chosen \<and> distinct (map entry_id chosen)
     \<and> set chosen \<subseteq> set (query_results mem query)
     \<and> list_all (\<lambda>e. allowed (assess_memory_read (entry_metadata e) ctx)) chosen"
proof -
  let ?S = "set (query_results mem query)"
  have S1: "by_kind mem ''identity'' 5 = Inr es \<Longrightarrow> set es \<subseteq> ?S" for es
    by (auto simp: query_results_def)
  have S2: "by_kind mem ''relationship'' 3 = Inr es \<Longrightarrow> set es \<subseteq> ?S" for es
    by (auto simp: query_results_def)
  have S3: "trim query \<noteq> [] \<Longrightarrow> search_memory mem query 5 = Inr es \<Longrightarrow> set es \<subseteq> ?S" for es
    by (auto simp: query_results_def)
  have S4: "by_kind mem ''preference'' 3 = Inr es \<Longrightarrow> set es \<subseteq> ?S" for es
    by (auto simp: query_results_def)
  let ?a0 = "({}, []) :: int set \<times> string list"
  let ?a1 = "inject_results None ctx (by_kind mem ''identity'' 5) ?a0"
  let ?a2 = "inject_results None ctx (by_kind mem ''relationship'' 3) ?a1"
  let ?a3 = "if trim query \<noteq> [] then inject_results None ctx (search_memory mem query 5) ?a2 else ?a2"
  let ?a4 = "if length (snd ?a3) < 8 then inject_results (Some 8) ctx (by_kind mem ''preference'' 3) ?a3 else ?a3"
  have "sourced ?S ctx ?a0" by (simp add: sourced_def)
  then have "sourced ?S ctx ?a1" by (rule inject_results_sourced) (rule S1)
  then have a2: "sourced ?S ctx ?a2" by (rule inject_results_sourced) (rule S2)
  have a3: "sourced ?S ctx ?a3"
  proof (cases "trim query \<noteq> []")
    case True
    then show ?thesis using inject_results_sourced [OF a2] S3 by auto
  next
    case False
    then show ?thesis using a2 by simp
  qed
  have "sourced ?S ctx ?a4"
  proof (cases "length (snd ?a3) < 8")
    case True
    then show ?thesis using inject_results_sourced [OF a3] S4 by auto
  next
    case False
    then show ?thesis using a3 by simp
  qed
  moreover have "context_entries mem query ctx = snd ?a4" by (simp only: context_entries_def Let_def)
  ultimately show ?thesis unfolding sourced_def may_inject_entry_def by metis
qed

text \<open>Only memories that the policy lets be read in the given context reach the prompt, each at
  most once, and only results of the four queries; the context is the budgeted rendering of these.\<close>

theorem only_readable_memories_injected:
  "\<exists>chosen. build_memory_context_with_read_context ellipsis mem query ctx
        = apply_hydration_budget ellipsis (map entry_text chosen)
     \<and> distinct (map entry_id chosen) \<and> set chosen \<subseteq> set (query_results mem query)
     \<and> list_all (\<lambda>e. allowed (assess_memory_read (entry_metadata e) ctx)) chosen"
  using context_entries_sourced [of mem query ctx]
  unfolding build_memory_context_with_read_context_def by metis

end
