(* ===== verification/Redact.thy ===== *)
theory Redact
  imports Prelude
begin

text \<open>
  Redaction of secrets in what the model says (\<open>sanitize_output\<close> of \<open>security/sandbox.rs\<close>): for
  each pattern of the table the tokens that begin with its prefix are collected and every
  occurrence of each is replaced by a tag. The lemmas show that a secret that stands on its own
  in the text occurs nowhere in the result.
\<close>

section \<open>Patterns\<close>

record secret_pattern =
  pat_name :: string
  pat_prefix :: string
  pat_min_len :: nat

definition SECRET_PATTERNS :: "secret_pattern list" where
  "SECRET_PATTERNS =
     [\<lparr>pat_name = ''api_key'', pat_prefix = ''sk-'', pat_min_len = 20\<rparr>,
      \<lparr>pat_name = ''api_key'', pat_prefix = ''pk-'', pat_min_len = 20\<rparr>,
      \<lparr>pat_name = ''bearer_token'', pat_prefix = ''eyJ'', pat_min_len = 30\<rparr>,
      \<lparr>pat_name = ''aws_key'', pat_prefix = ''AKIA'', pat_min_len = 16\<rparr>,
      \<lparr>pat_name = ''github_token'', pat_prefix = ''ghp_'', pat_min_len = 20\<rparr>,
      \<lparr>pat_name = ''github_token'', pat_prefix = ''gho_'', pat_min_len = 20\<rparr>,
      \<lparr>pat_name = ''github_token'', pat_prefix = ''ghs_'', pat_min_len = 20\<rparr>,
      \<lparr>pat_name = ''slack_token'', pat_prefix = ''xoxb-'', pat_min_len = 20\<rparr>,
      \<lparr>pat_name = ''slack_token'', pat_prefix = ''xoxp-'', pat_min_len = 20\<rparr>]"

definition is_delimiter :: "char \<Rightarrow> bool" where
  "is_delimiter c \<longleftrightarrow> is_whitespace c \<or> c = CHR 34 \<or> c = CHR 0x27 \<or> c = CHR '','' \<or> c = CHR ''}''"

text \<open>The loop goes on behind the token it has just read. A token is never empty, since the
  prefixes of the table are not empty and hold no delimiter; the guard only makes the function
  total for other prefixes, on which the loop would not end.\<close>

function find_secret_matches :: "secret_pattern \<Rightarrow> string \<Rightarrow> string list" where
  "find_secret_matches pat input =
     (case find_str input (pat_prefix pat) of
        None \<Rightarrow> []
      | Some pos \<Rightarrow>
          let rest = drop pos input;
              token = takeWhile (\<lambda>c. \<not> is_delimiter c) rest
          in if rest = [] \<or> token = [] then []
             else (if str_len token \<ge> pat_min_len pat then [token] else [])
                  @ find_secret_matches pat (drop (length token) rest))"
  by pat_completeness auto
termination
proof (relation "measure (\<lambda>(_, s). length s)")
  fix pat :: secret_pattern and input token rest :: string and pos :: nat
  assume "rest = drop pos input" and "\<not> (rest = [] \<or> token = [])"
  then have "0 < length token" "0 < length rest" "length rest \<le> length input" by auto
  then have "length rest - length token < length input" by linarith
  then show "((pat, drop (length token) rest), pat, input) \<in> measure (\<lambda>(_, s). length s)" by simp
qed simp

declare find_secret_matches.simps [simp del]

definition redaction_tag :: "secret_pattern \<Rightarrow> string" where
  "redaction_tag pat = ''[REDACTED:'' @ pat_name pat @ '']''"

definition redact_pattern :: "string \<Rightarrow> secret_pattern \<Rightarrow> string" where
  "redact_pattern result pat =
     foldl (\<lambda>r m. str_replace r m (redaction_tag pat)) result (find_secret_matches pat result)"

definition sanitize_output :: "string \<Rightarrow> string" where
  "sanitize_output input = foldl redact_pattern input SECRET_PATTERNS"

section \<open>What replacing does\<close>

definition bracket_free :: "string \<Rightarrow> bool" where
  "bracket_free w \<longleftrightarrow> CHR ''['' \<notin> set w \<and> CHR '']'' \<notin> set w"

definition bracketed :: "string \<Rightarrow> bool" where
  "bracketed tag \<longleftrightarrow> (\<exists>x. tag = CHR ''['' # x @ [CHR '']''])"

lemma bracketed_tag: "bracketed (redaction_tag pat)"
  by (auto simp: bracketed_def redaction_tag_def intro!: exI [of _ "''REDACTED:'' @ pat_name pat"])

text \<open>A text cut at a character that the searched text does not contain.\<close>

lemma str_contains_cut:
  assumes "c \<notin> set w" and "str_contains (x @ c # y) w"
  shows "str_contains x w \<or> str_contains y w"
  using assms(2)
proof (induction x)
  case Nil
  then have "starts_with (c # y) w \<or> str_contains y w" by simp
  then show ?case using assms(1) by (cases w) auto
next
  case (Cons d x)
  show ?case
  proof (cases "starts_with (d # x @ c # y) w")
    case True
    then obtain t where t: "d # x @ c # y = w @ t" by (auto simp: starts_with_iff)
    have "length w \<le> length (d # x)"
    proof (rule ccontr)
      assume "\<not> length w \<le> length (d # x)"
      then have "(w @ t) ! length (d # x) \<in> set w" by (simp add: nth_append)
      then show False using t assms(1) by (metis append_Cons nth_append_length)
    qed
    then have "take (length w) (d # x) = w" using t
      by (metis append_Cons append_eq_conv_conj take_append take_all_iff diff_is_0_eq take_0 append_Nil2)
    then have "d # x = w @ drop (length w) (d # x)" by (metis append_take_drop_id)
    then show ?thesis by (metis str_contains_prefix)
  next
    case False
    then show ?thesis using Cons by auto
  qed
qed

lemma replace_starts:
  assumes "bracketed tag" and "bracket_free w" and "starts_with (str_replace s m tag) w"
  shows "starts_with s w"
  using assms
proof (induction s m tag arbitrary: w rule: str_replace.induct)
  case (2 c s m tag)
  show ?case
  proof (cases "m \<noteq> [] \<and> starts_with (c # s) m")
    case True
    then obtain x where "str_replace (c # s) m tag = CHR ''['' # x"
      using 2(3) by (auto simp: bracketed_def)
    then show ?thesis using 2(4,5) by (cases w) (auto simp: bracket_free_def)
  next
    case False
    then show ?thesis using 2 by (cases w) (auto simp: bracket_free_def)
  qed
qed simp

lemma replace_contains:
  assumes "bracketed tag" and "bracket_free w" and "str_contains (str_replace s m tag) w"
  shows "str_contains s w \<or> str_contains tag w"
  using assms
proof (induction s m tag rule: str_replace.induct)
  case (2 c s m tag)
  show ?case
  proof (cases "m \<noteq> [] \<and> starts_with (c # s) m")
    case True
    let ?r = "drop (length m) (c # s)"
    obtain x where tag: "tag = CHR ''['' # x @ [CHR '']'']" using 2(3) by (auto simp: bracketed_def)
    have "str_contains ((CHR ''['' # x) @ CHR '']'' # str_replace ?r m tag) w"
      using 2(5) True tag by simp
    then have "str_contains (CHR ''['' # x) w \<or> str_contains (str_replace ?r m tag) w"
      by (rule str_contains_cut [rotated]) (use 2(4) in \<open>simp add: bracket_free_def\<close>)
    moreover have "str_contains tag w" if "str_contains (CHR ''['' # x) w"
      using str_contains_append [OF that, of "[]" "[CHR '']'']"] tag by simp
    moreover have "str_contains (c # s) w" if "str_contains ?r w"
      using str_contains_append [OF that, of "take (length m) (c # s)" "[]"] append_take_drop_id by simp
    ultimately show ?thesis using 2(1) [OF True 2(3,4)] by blast
  next
    case False
    then have r: "str_replace (c # s) m tag = c # str_replace s m tag" by auto
    from 2(5) have "starts_with (str_replace (c # s) m tag) w \<or> str_contains (str_replace s m tag) w"
      unfolding r by simp
    then show ?thesis
      using replace_starts [OF 2(3,4), of "c # s" m] 2(2) [OF False 2(3,4)] by auto
  qed
qed auto

lemma replace_removes:
  assumes "bracketed tag" and "bracket_free m" and "m \<noteq> []" and "\<not> str_contains tag m"
  shows "\<not> str_contains (str_replace s m tag) m"
  using assms
proof (induction s m tag rule: str_replace.induct)
  case (2 c s m tag)
  show ?case
  proof (cases "starts_with (c # s) m")
    case True
    let ?r = "drop (length m) (c # s)"
    obtain x where tag: "tag = CHR ''['' # x @ [CHR '']'']" using 2(3) by (auto simp: bracketed_def)
    have "\<not> str_contains (CHR ''['' # x) m"
      using 2(6) str_contains_append [of "CHR ''['' # x" m "[]" "[CHR '']'']"] tag by auto
    moreover have "\<not> str_contains (str_replace ?r m tag) m" using 2 True by simp
    moreover have "str_replace (c # s) m tag = (CHR ''['' # x) @ CHR '']'' # str_replace ?r m tag"
      using True 2(5) tag by simp
    ultimately show ?thesis using str_contains_cut 2(4) bracket_free_def by metis
  next
    case False
    then have r: "str_replace (c # s) m tag = c # str_replace s m tag" by simp
    have "\<not> starts_with (str_replace (c # s) m tag) m"
      using replace_starts [OF 2(3,4)] False by blast
    moreover have "\<not> str_contains (str_replace s m tag) m" using 2(2) [OF _ 2(3-6)] False by blast
    ultimately show ?thesis unfolding r by simp
  qed
next
  case (1 m tag)
  then show ?case by simp
qed

section \<open>Secrets that stand on their own\<close>

definition delimiter_free :: "string \<Rightarrow> bool" where
  "delimiter_free w \<longleftrightarrow> list_all (\<lambda>c. \<not> is_delimiter c) w"

text \<open>A word that is preceded and followed by a delimiter or an end of the text.\<close>

definition ends_word :: "string \<Rightarrow> bool" where
  "ends_word a \<longleftrightarrow> a = [] \<or> is_delimiter (last a)"

definition starts_gap :: "string \<Rightarrow> bool" where
  "starts_gap b \<longleftrightarrow> b = [] \<or> is_delimiter (hd b)"

definition stands_alone :: "string \<Rightarrow> string \<Rightarrow> bool" where
  "stands_alone s w \<longleftrightarrow> (\<exists>a b. s = a @ w @ b \<and> ends_word a \<and> starts_gap b)"

lemma replace_absent: "\<not> str_contains s m \<Longrightarrow> str_replace s m tag = s"
  by (induction s m tag rule: str_replace.induct) auto

lemma starts_with_cut:
  "d \<notin> set m \<Longrightarrow> starts_with (a @ d # b) m \<Longrightarrow> starts_with a m \<and> length m \<le> length a"
proof (induction a m rule: starts_with.induct)
  case (2 p ps)
  then show ?case by auto
qed auto

lemma starts_with_more: "starts_with s m \<Longrightarrow> starts_with (s @ x) m"
  by (induction s m rule: starts_with.induct) auto

lemma replace_cut:
  assumes "d \<notin> set m"
  shows "str_replace (a @ d # b) m tag = str_replace a m tag @ d # str_replace b m tag"
  using assms
proof (induction a m tag rule: str_replace.induct)
  case (1 m tag)
  then show ?case by (cases m) auto
next
  case (2 c s m tag)
  show ?case
  proof (cases "m \<noteq> [] \<and> starts_with (c # s) m")
    case True
    then have "starts_with ((c # s) @ d # b) m" using starts_with_more by blast
    then have len: "length m \<le> length (c # s)" using starts_with_cut [OF 2(3), of "c # s" b] by blast
    then have "drop (length m) (c # s @ d # b) = drop (length m) (c # s) @ d # b"
      using drop_append [of "length m" "c # s" "d # b"] by simp
    moreover have "starts_with (c # s @ d # b) m" using starts_with_more True by fastforce
    ultimately show ?thesis using 2(1) [OF True 2(3)] True by simp
  next
    case False
    then have "\<not> (m \<noteq> [] \<and> starts_with (c # s @ d # b) m)"
      using starts_with_cut [OF 2(3), of "c # s" b] by auto
    then have "str_replace (c # s @ d # b) m tag = c # str_replace (s @ d # b) m tag"
      and "str_replace (c # s) m tag = c # str_replace s m tag" using False by auto
    then show ?thesis using 2(2) [OF False 2(3)] by (simp only: append_Cons)
  qed
qed

lemma replace_word_start:
  assumes "ends_word a" and "delimiter_free m"
  shows "\<exists>a'. str_replace (a @ x) m tag = a' @ str_replace x m tag \<and> ends_word a'"
proof (cases "a = []")
  case True
  then show ?thesis by (intro exI [of _ "[]"]) (simp add: ends_word_def)
next
  case False
  then obtain a0 d where a: "a = a0 @ [d]" by (metis rev_exhaust)
  then have d: "is_delimiter d" using assms(1) by (simp add: ends_word_def)
  then have "d \<notin> set m" using assms(2) by (auto simp: delimiter_free_def list_all_iff)
  from replace_cut [OF this, of a0 x tag] show ?thesis
    using a d by (intro exI [of _ "str_replace a0 m tag @ [d]"]) (simp add: ends_word_def)
qed

lemma replace_word_end:
  assumes "starts_gap b" and "delimiter_free m"
  shows "\<exists>b'. str_replace (x @ b) m tag = str_replace x m tag @ b' \<and> starts_gap b'"
proof (cases b)
  case Nil
  then show ?thesis by (intro exI [of _ "[]"]) (simp add: starts_gap_def)
next
  case (Cons d b0)
  then have d: "is_delimiter d" using assms(1) by (simp add: starts_gap_def)
  then have "d \<notin> set m" using assms(2) by (auto simp: delimiter_free_def list_all_iff)
  from replace_cut [OF this, of x b0 tag] show ?thesis
    using Cons d by (intro exI [of _ "d # str_replace b0 m tag"]) (simp add: starts_gap_def)
qed

lemma replace_stands_alone:
  assumes "stands_alone s w" and "delimiter_free m" and "\<not> str_contains w m"
  shows "stands_alone (str_replace s m tag) w"
proof -
  obtain a b where s: "s = a @ w @ b" "ends_word a" "starts_gap b"
    using assms(1) by (auto simp: stands_alone_def)
  obtain a' where a': "str_replace (a @ w @ b) m tag = a' @ str_replace (w @ b) m tag" "ends_word a'"
    using replace_word_start [OF s(2) assms(2)] by blast
  obtain b' where b': "str_replace (w @ b) m tag = str_replace w m tag @ b'" "starts_gap b'"
    using replace_word_end [OF s(3) assms(2)] by blast
  have "str_replace s m tag = a' @ w @ b'"
    using s(1) a'(1) b'(1) replace_absent [OF assms(3)] by simp
  then show ?thesis using a'(2) b'(2) unfolding stands_alone_def by blast
qed

section \<open>The scan finds them\<close>

definition good_prefix :: "secret_pattern \<Rightarrow> bool" where
  "good_prefix pat \<longleftrightarrow> pat_prefix pat \<noteq> [] \<and> delimiter_free (pat_prefix pat)"

lemma takeWhile_delimiter:
  "delimiter_free w \<Longrightarrow> starts_gap b \<Longrightarrow> takeWhile (\<lambda>c. \<not> is_delimiter c) (w @ b) = w"
  by (induction w) (auto simp: delimiter_free_def starts_gap_def takeWhile_eq_Nil_iff)

lemma token_at_prefix:
  assumes "starts_with x p" and "delimiter_free p" and "p \<noteq> []"
  shows "takeWhile (\<lambda>c. \<not> is_delimiter c) x \<noteq> [] \<and> starts_with (takeWhile (\<lambda>c. \<not> is_delimiter c) x) p"
proof -
  obtain t where x: "x = p @ t" using assms(1) by (auto simp: starts_with_iff)
  have "takeWhile (\<lambda>c. \<not> is_delimiter c) (p @ t) = p @ takeWhile (\<lambda>c. \<not> is_delimiter c) t"
    using assms(2) by (simp add: delimiter_free_def list_all_iff takeWhile_append2)
  then show ?thesis using x assms(3) by simp
qed

lemma drop_token: "drop (length (takeWhile P x)) (x @ y) = dropWhile P x @ y"
  by (induction x) auto

lemma dropWhile_ends_word:
  "a \<noteq> [] \<Longrightarrow> is_delimiter (last a) \<Longrightarrow> ends_word (dropWhile (\<lambda>c. \<not> is_delimiter c) a)"
  by (induction a) (auto simp: ends_word_def split: if_splits)

lemma scan_finds_word:
  assumes "good_prefix pat" and "delimiter_free w" and "starts_with w (pat_prefix pat)"
    and "str_len w \<ge> pat_min_len pat" and "stands_alone s w"
  shows "w \<in> set (find_secret_matches pat s)"
  using assms
proof (induction pat s rule: find_secret_matches.induct)
  case (1 pat s)
  let ?tw = "takeWhile (\<lambda>c. \<not> is_delimiter c)"
  obtain a b where s: "s = a @ w @ b" "ends_word a" "starts_gap b"
    using 1(6) by (auto simp: stands_alone_def)
  have "starts_with (drop (length a) s) (pat_prefix pat)"
    using s(1) 1(4) by (simp add: starts_with_more)
  then obtain i where i: "i \<le> length a" "find_str s (pat_prefix pat) = Some i"
    using find_str_le [of "length a" s] s(1) by auto
  then have here: "starts_with (drop i s) (pat_prefix pat)" using find_str_Some by blast
  have token: "?tw (drop i s) \<noteq> []"
    using token_at_prefix [OF here] 1(2) by (simp add: good_prefix_def)
  then have rest: "drop i s \<noteq> []" by auto
  have scan: "find_secret_matches pat s =
      (if str_len (?tw (drop i s)) \<ge> pat_min_len pat then [?tw (drop i s)] else [])
      @ find_secret_matches pat (drop (length (?tw (drop i s))) (drop i s))"
    using i(2) token rest by (subst find_secret_matches.simps) (simp only: option.case Let_def if_False simp_thms)
  show ?case
  proof (cases "i = length a")
    case True
    then have "?tw (drop i s) = w"
      using takeWhile_delimiter [OF 1(3) s(3)] s(1) by simp
    then show ?thesis unfolding scan using 1(5) by simp
  next
    case False
    let ?a = "drop i a"
    have a: "?a \<noteq> []" "is_delimiter (last ?a)" using False i(1) s(2) by (auto simp: ends_word_def)
    have rest_a: "drop i s = ?a @ w @ b" using i(1) s(1) by simp
    have last: "last ?a \<in> set ?a" using a(1) by (rule last_in_set)
    have tw: "?tw (?a @ w @ b) = ?tw ?a" by (rule takeWhile_append1 [OF last]) (simp only: a(2) simp_thms)
    have "drop (length (?tw (drop i s))) (drop i s) = dropWhile (\<lambda>c. \<not> is_delimiter c) ?a @ w @ b"
      by (simp only: rest_a tw drop_token)
    moreover have "ends_word (dropWhile (\<lambda>c. \<not> is_delimiter c) ?a)"
      using a by (intro dropWhile_ends_word)
    ultimately have "stands_alone (drop (length (?tw (drop i s))) (drop i s)) w"
      using s(3) unfolding stands_alone_def by blast
    then have "w \<in> set (find_secret_matches pat (drop (length (?tw (drop i s))) (drop i s)))"
      using 1(1) [OF i(2) refl refl] token rest 1(2-5) by blast
    then show ?thesis unfolding scan by simp
  qed
qed

lemma scan_tokens:
  "good_prefix pat \<Longrightarrow> m \<in> set (find_secret_matches pat s) \<Longrightarrow>
     delimiter_free m \<and> starts_with m (pat_prefix pat)"
proof (induction pat s rule: find_secret_matches.induct)
  case (1 pat s)
  let ?tw = "takeWhile (\<lambda>c. \<not> is_delimiter c)"
  show ?case
  proof (cases "find_str s (pat_prefix pat)")
    case None
    then show ?thesis using 1(3) by (simp add: find_secret_matches.simps)
  next
    case (Some i)
    have "delimiter_free (?tw (drop i s))"
      by (auto simp: delimiter_free_def list_all_iff dest: set_takeWhileD)
    moreover have "starts_with (?tw (drop i s)) (pat_prefix pat)"
      using token_at_prefix [of "drop i s" "pat_prefix pat"] find_str_Some [OF Some] 1(2)
      by (simp add: good_prefix_def)
    ultimately show ?thesis
      using 1(1) [OF Some refl refl _ 1(2)] 1(3) Some
      by (subst (asm) find_secret_matches.simps) (auto simp: Let_def split: if_splits)
  qed
qed

section \<open>Properties\<close>

abbreviation redact_all :: "string \<Rightarrow> string \<Rightarrow> string list \<Rightarrow> string" where
  "redact_all tag s ms \<equiv> foldl (\<lambda>r m. str_replace r m tag) s ms"

lemma redact_keeps_absent:
  assumes "bracketed tag" and "bracket_free w" and "\<not> str_contains tag w" and "\<not> str_contains s w"
  shows "\<not> str_contains (redact_all tag s ms) w"
  using assms(4)
proof (induction ms arbitrary: s)
  case (Cons m ms)
  have "\<not> str_contains (str_replace s m tag) w"
    using replace_contains [OF assms(1,2)] assms(3) Cons.prems by blast
  then show ?case using Cons.IH by simp
qed simp

lemma redact_removes:
  assumes "bracketed tag" and "bracket_free w" and "\<not> str_contains tag w" and "w \<noteq> []" and "w \<in> set ms"
  shows "\<not> str_contains (redact_all tag s ms) w"
  using assms(5)
proof (induction ms arbitrary: s)
  case (Cons m ms)
  show ?case
  proof (cases "w = m")
    case True
    then have "\<not> str_contains (str_replace s m tag) w" using replace_removes assms(1-4) by blast
    then show ?thesis using redact_keeps_absent [OF assms(1-3)] by simp
  qed (use Cons in auto)
qed simp

lemma redact_alone_or_absent:
  assumes "bracketed tag" and "bracket_free w" and "\<not> str_contains tag w"
    and "\<And>m. m \<in> set ms \<Longrightarrow> m \<noteq> [] \<and> delimiter_free m \<and> \<not> str_contains tag m"
    and "stands_alone s w \<or> \<not> str_contains s w"
  shows "stands_alone (redact_all tag s ms) w \<or> \<not> str_contains (redact_all tag s ms) w"
  using assms(4,5)
proof (induction ms arbitrary: s)
  case (Cons m ms)
  have m: "m \<noteq> []" "delimiter_free m" "\<not> str_contains tag m" using Cons.prems(1) by auto
  have "stands_alone (str_replace s m tag) w \<or> \<not> str_contains (str_replace s m tag) w"
  proof (cases "str_contains w m")
    case True
    then have "bracket_free m" using assms(2) by (auto simp: bracket_free_def str_contains_iff)
    then have "\<not> str_contains (str_replace s m tag) m" using replace_removes assms(1) m by blast
    then show ?thesis using str_contains_trans True by blast
  next
    case False
    then show ?thesis
      using Cons.prems(2) replace_stands_alone m(2) replace_contains [OF assms(1,2)] assms(3) by blast
  qed
  then show ?case using Cons by simp
qed simp

lemma table_ok:
  "list_all (\<lambda>p. good_prefix p \<and> list_all (\<lambda>q. \<not> str_contains (redaction_tag q) (pat_prefix p)) SECRET_PATTERNS)
     SECRET_PATTERNS"
  by code_simp

lemma table_okD:
  "p \<in> set SECRET_PATTERNS \<Longrightarrow> good_prefix p"
  "p \<in> set SECRET_PATTERNS \<Longrightarrow> q \<in> set SECRET_PATTERNS \<Longrightarrow> starts_with w (pat_prefix p) \<Longrightarrow>
     \<not> str_contains (redaction_tag q) w"
proof -
  show "p \<in> set SECRET_PATTERNS \<Longrightarrow> good_prefix p" using table_ok by (simp add: list_all_iff)
  assume pq: "p \<in> set SECRET_PATTERNS" "q \<in> set SECRET_PATTERNS" and w: "starts_with w (pat_prefix p)"
  from w have "str_contains w (pat_prefix p)" by (auto simp: starts_with_iff)
  moreover have "\<not> str_contains (redaction_tag q) (pat_prefix p)"
    using table_ok pq by (simp add: list_all_iff)
  ultimately show "\<not> str_contains (redaction_tag q) w" using str_contains_trans by blast
qed

lemma stage_alone_or_absent:
  assumes "p \<in> set SECRET_PATTERNS" and "starts_with w (pat_prefix p)" and "bracket_free w"
    and "list_all (\<lambda>q. q \<in> set SECRET_PATTERNS) qs"
    and "stands_alone s w \<or> \<not> str_contains s w"
  shows "stands_alone (foldl redact_pattern s qs) w \<or> \<not> str_contains (foldl redact_pattern s qs) w"
  using assms(4,5)
proof (induction qs arbitrary: s)
  case (Cons q qs)
  have q: "q \<in> set SECRET_PATTERNS" using Cons.prems(1) by simp
  have "m \<noteq> [] \<and> delimiter_free m \<and> \<not> str_contains (redaction_tag q) m"
    if "m \<in> set (find_secret_matches q s)" for m
    using scan_tokens [OF table_okD(1) [OF q] that] table_okD(1) [OF q] table_okD(2) [OF q q]
    by (cases m; cases "pat_prefix q") (auto simp: good_prefix_def)
  then have "stands_alone (redact_pattern s q) w \<or> \<not> str_contains (redact_pattern s q) w"
    unfolding redact_pattern_def
    using redact_alone_or_absent [OF bracketed_tag assms(3) table_okD(2) [OF assms(1) q assms(2)]]
      Cons.prems(2) by blast
  then show ?case using Cons by simp
qed simp

lemma stage_keeps_absent:
  assumes "p \<in> set SECRET_PATTERNS" and "starts_with w (pat_prefix p)" and "bracket_free w"
    and "list_all (\<lambda>q. q \<in> set SECRET_PATTERNS) qs" and "\<not> str_contains s w"
  shows "\<not> str_contains (foldl redact_pattern s qs) w"
  using assms(4,5)
proof (induction qs arbitrary: s)
  case (Cons q qs)
  then have "\<not> str_contains (redact_pattern s q) w"
    unfolding redact_pattern_def
    using redact_keeps_absent [OF bracketed_tag assms(3) table_okD(2) [OF assms(1) _ assms(2)]] by simp
  then show ?case using Cons by simp
qed simp

text \<open>C29: a secret that stands on its own in the text, between delimiters or at its ends, occurs
  nowhere in the sanitised text, whatever short decoys, other secrets or redactions surround it.
  A secret is a token of the minimal length that begins with a prefix of the table and contains
  no square bracket.\<close>

theorem lone_secrets_redacted:
  assumes "pat \<in> set SECRET_PATTERNS" and "starts_with w (pat_prefix pat)"
    and "pat_min_len pat \<le> str_len w" and "delimiter_free w" and "bracket_free w"
    and "stands_alone input w"
  shows "\<not> str_contains (sanitize_output input) w"
proof -
  obtain us vs where table: "SECRET_PATTERNS = us @ pat # vs"
    using assms(1) by (meson split_list)
  have us: "list_all (\<lambda>q. q \<in> set SECRET_PATTERNS) us" and vs: "list_all (\<lambda>q. q \<in> set SECRET_PATTERNS) vs"
    by (auto simp: table list_all_iff)
  let ?s = "foldl redact_pattern input us"
  have "stands_alone ?s w \<or> \<not> str_contains ?s w"
    using stage_alone_or_absent [OF assms(1,2,5) us, of input] assms(6) by blast
  then have "\<not> str_contains (redact_pattern ?s pat) w"
  proof
    assume "stands_alone ?s w"
    then have "w \<in> set (find_secret_matches pat ?s)"
      by (rule scan_finds_word [OF table_okD(1) [OF assms(1)] assms(4,2,3)])
    moreover have "w \<noteq> []" using assms(2) table_okD(1) [OF assms(1)] by (auto simp: good_prefix_def starts_with_iff)
    ultimately show ?thesis
      using redact_removes [OF bracketed_tag assms(5) table_okD(2) [OF assms(1,1,2)]]
      by (simp add: redact_pattern_def)
  next
    assume "\<not> str_contains ?s w"
    then show ?thesis using stage_keeps_absent [OF assms(1,2,5), of "[pat]" ?s] assms(1) by simp
  qed
  then have "\<not> str_contains (foldl redact_pattern (redact_pattern ?s pat) vs) w"
    using stage_keeps_absent [OF assms(1,2,5) vs] by blast
  then show ?thesis by (simp add: sanitize_output_def table)
qed

lemma lone_secrets_redacted_witness:
  "\<not> str_contains (sanitize_output ''try sk- or sk-AbCdEf0123456789xyz, please'') ''sk-AbCdEf0123456789xyz''"
proof (rule lone_secrets_redacted)
  show "hd SECRET_PATTERNS \<in> set SECRET_PATTERNS" by (simp add: SECRET_PATTERNS_def)
  show "starts_with ''sk-AbCdEf0123456789xyz'' (pat_prefix (hd SECRET_PATTERNS))" by code_simp
  show "pat_min_len (hd SECRET_PATTERNS) \<le> str_len ''sk-AbCdEf0123456789xyz''" by code_simp
  show "delimiter_free ''sk-AbCdEf0123456789xyz''" by code_simp
  show "bracket_free ''sk-AbCdEf0123456789xyz''" by code_simp
  have "ends_word ''try sk- or ''" "starts_gap '', please''" by code_simp+
  moreover have "''try sk- or sk-AbCdEf0123456789xyz, please''
      = ''try sk- or '' @ ''sk-AbCdEf0123456789xyz'' @ '', please''" by simp
  ultimately show "stands_alone ''try sk- or sk-AbCdEf0123456789xyz, please'' ''sk-AbCdEf0123456789xyz''"
    unfolding stands_alone_def by blast
qed

text \<open>When one secret begins another, replacing the shorter one first breaks the longer one, and
  the rest of the longer one stays in the text.\<close>

lemma nested_secret_leaks:
  "sanitize_output ''sk-AAAAAAAAAAAAAAAAA sk-AAAAAAAAAAAAAAAAATAIL''
     = ''[REDACTED:api_key] [REDACTED:api_key]TAIL''"
  by code_simp

text \<open>C40: for the patterns of the table the token scan always advances: the guard of the model never
  stops it, so the loop of the code ends after at most as many rounds as the text has characters,
  with the matches of the unguarded loop.\<close>

theorem secret_scan_terminates:
  assumes "pat \<in> set SECRET_PATTERNS"
  shows "find_secret_matches pat input =
     (case find_str input (pat_prefix pat) of
        None \<Rightarrow> []
      | Some pos \<Rightarrow>
          let token = takeWhile (\<lambda>c. \<not> is_delimiter c) (drop pos input)
          in (if str_len token \<ge> pat_min_len pat then [token] else [])
             @ find_secret_matches pat (drop (length token) (drop pos input)))
     \<and> (case find_str input (pat_prefix pat) of
          None \<Rightarrow> True
        | Some pos \<Rightarrow> length (drop (length (takeWhile (\<lambda>c. \<not> is_delimiter c) (drop pos input))) (drop pos input))
            < length input)"
proof (cases "find_str input (pat_prefix pat)")
  case None
  then show ?thesis by (simp add: find_secret_matches.simps)
next
  case (Some pos)
  let ?token = "takeWhile (\<lambda>c. \<not> is_delimiter c) (drop pos input)"
  have "?token \<noteq> []"
    using token_at_prefix [of "drop pos input" "pat_prefix pat"] find_str_Some [OF Some]
      table_okD(1) [OF assms] by (simp add: good_prefix_def)
  moreover from this have "drop pos input \<noteq> []" by auto
  ultimately have ne: "?token \<noteq> []" "drop pos input \<noteq> []" by auto
  have "0 < length ?token" using ne(1) by (simp only: length_greater_0_conv not_False_eq_True)
  moreover have "0 < length (drop pos input)" using ne(2) by (simp only: length_greater_0_conv not_False_eq_True)
  moreover have "length (drop pos input) \<le> length input" by simp
  ultimately have "0 < length ?token \<and> 0 < length (drop pos input) \<and> length (drop pos input) \<le> length input"
    by blast
  then have "length (drop pos input) - length ?token < length input" by linarith
  then have "length (drop (length ?token) (drop pos input)) < length input" by (simp only: length_drop)
  moreover have "find_secret_matches pat input
      = (if str_len ?token \<ge> pat_min_len pat then [?token] else [])
        @ find_secret_matches pat (drop (length ?token) (drop pos input))"
    using Some ne by (subst find_secret_matches.simps) (simp only: option.case Let_def if_False simp_thms)
  ultimately show ?thesis by (simp only: Some option.case Let_def)
qed

lemma secret_scan_terminates_witness:
  "length (drop (length (takeWhile (\<lambda>c. \<not> is_delimiter c) (drop 2 ''a sk-x''))) (drop 2 ''a sk-x'')) < length ''a sk-x''"
proof -
  have "hd SECRET_PATTERNS \<in> set SECRET_PATTERNS" by (simp add: SECRET_PATTERNS_def)
  note t = secret_scan_terminates [OF this, of "''a sk-x''"]
  have "find_str ''a sk-x'' (pat_prefix (hd SECRET_PATTERNS)) = Some 2" by code_simp
  then show ?thesis using conjunct2 [OF t] by (simp only: option.case)
qed

end
