(* ===== verification/Reasoning.thy ===== *)
theory Reasoning
  imports Redact
begin

text \<open>
  The reasoning switch of Qwen models (\<open>reasoning.rs\<close>, \<open>ModelFamily\<close> of \<open>prompt.rs\<close>): whether a
  turn asks for deep reasoning, and the directive that is written into the last user message.
\<close>

record message =
  msg_role :: string
  msg_content :: string

datatype model_family = Nemotron | Llama | Qwen | Phi | Gemma | SmallModel | GenericModel

definition from_model_name :: "string \<Rightarrow> model_family" where
  "from_model_name name =
     (let lower = to_lowercase name
      in if str_contains lower ''nemotron'' then Nemotron
         else if str_contains lower ''llama'' \<and> \<not> str_contains lower ''tiny'' then Llama
         else if str_contains lower ''qwen'' then Qwen
         else if str_contains lower ''phi'' then Phi
         else if str_contains lower ''gemma'' then Gemma
         else if str_contains lower ''tiny'' \<or> str_contains lower ''small'' \<or> str_contains lower ''1b''
         then SmallModel
         else GenericModel)"

datatype interaction_kind = ChatTurn | VoiceTurn | ReplTurn | OpenAiBridge | ToolSummary

datatype reasoning_mode = NormalMode | DeepMode

record reasoning_decision =
  rd_mode :: reasoning_mode
  rd_explicit :: bool
  rd_applied :: bool

definition supports_reasoning_toggle :: "model_family \<Rightarrow> bool" where
  "supports_reasoning_toggle f = (f = Qwen)"

definition explicit_reasoning_mode :: "string \<Rightarrow> reasoning_mode option" where
  "explicit_reasoning_mode lower =
     (if str_contains lower ''/no_think'' then Some NormalMode
      else if str_contains lower ''/think'' \<or> str_contains lower ''think deeply''
        \<or> str_contains lower ''reason carefully'' \<or> str_contains lower ''step by step''
      then Some DeepMode else None)"

definition is_simple_request :: "string \<Rightarrow> bool" where
  "is_simple_request lower \<longleftrightarrow>
     length (split_whitespace lower) \<le> 10
     \<and> (str_contains lower ''what time'' \<or> str_contains lower ''weather''
        \<or> starts_with lower ''hi'' \<or> starts_with lower ''hello'' \<or> starts_with lower ''hey''
        \<or> str_contains lower ''turn on'' \<or> str_contains lower ''turn off''
        \<or> starts_with lower ''set '' \<or> str_contains lower ''remember''
        \<or> str_contains lower ''my name''
        \<or> str_contains lower (''what'' @ [CHR 0x27] @ ''s up'') \<or> str_contains lower ''whats up'')"

definition complex_markers :: "string list" where
  "complex_markers =
     [''analy'', ''compare'', ''tradeoff'', ''trade-off'', ''architecture'', ''design'', ''plan'',
      ''debug'', ''review'', ''refactor'', ''prove'', ''derive'', ''why does'', ''what is wrong'',
      ''what'' @ [CHR 0x27] @ ''s wrong'', ''optimiz'', ''algorithm'', ''complexity'',
      ''step by step'', ''pros and cons'', ''should we'', ''write code'', ''rust'',
      ''explain in detail'']"

definition looks_like_deep_reasoning_request :: "string \<Rightarrow> bool" where
  "looks_like_deep_reasoning_request lower \<longleftrightarrow>
     str_len lower > 140 \<or> CHR 10 \<in> set lower \<or> str_contains lower ''1.'' \<or> str_contains lower ''2.''
     \<or> str_contains lower [CHR 0x60, CHR 0x60, CHR 0x60]
     \<or> list_ex (str_contains lower) complex_markers"

definition auto_reasoning_mode :: "string \<Rightarrow> interaction_kind \<Rightarrow> reasoning_mode" where
  "auto_reasoning_mode lower interaction =
     (if interaction = ToolSummary then NormalMode
      else if is_simple_request lower then NormalMode
      else if looks_like_deep_reasoning_request lower then DeepMode
      else NormalMode)"

definition strip_reasoning_directives :: "string \<Rightarrow> string" where
  "strip_reasoning_directives user_text = str_replace (str_replace user_text ''/no_think'' []) ''/think'' []"

text \<open>\<open>Iterator::rposition\<close>.\<close>

definition rposition :: "('a \<Rightarrow> bool) \<Rightarrow> 'a list \<Rightarrow> nat option" where
  "rposition P xs = map_option (\<lambda>i. length xs - 1 - i) (find_index P (rev xs))"

definition reasoning_directive :: "reasoning_mode \<Rightarrow> string" where
  "reasoning_directive m = (case m of NormalMode \<Rightarrow> ''/no_think'' | DeepMode \<Rightarrow> ''/think'')"

text \<open>The new text of the last user message.\<close>

definition adjusted_content :: "reasoning_mode \<Rightarrow> string \<Rightarrow> string \<Rightarrow> string" where
  "adjusted_content mode user_text content =
     (let cleaned = strip_reasoning_directives user_text;
          base = (if trim cleaned = [] then trim content else trim cleaned)
      in if base = [] then reasoning_directive mode
         else base @ [CHR 10] @ reasoning_directive mode)"

definition apply_reasoning_mode ::
  "model_family \<Rightarrow> message list \<Rightarrow> string \<Rightarrow> interaction_kind \<Rightarrow> message list \<times> reasoning_decision" where
  "apply_reasoning_mode family messages user_text interaction =
     (if \<not> supports_reasoning_toggle family
      then (messages, \<lparr>rd_mode = NormalMode, rd_explicit = False, rd_applied = False\<rparr>)
      else
        let lower = to_lowercase user_text;
            explicit_mode = explicit_reasoning_mode lower;
            mode = (case explicit_mode of Some m \<Rightarrow> m | None \<Rightarrow> auto_reasoning_mode lower interaction)
        in case rposition (\<lambda>m. msg_role m = ''user'') messages of
             None \<Rightarrow> (messages, \<lparr>rd_mode = mode, rd_explicit = explicit_mode \<noteq> None, rd_applied = False\<rparr>)
           | Some i \<Rightarrow>
               (messages[i := (messages ! i)\<lparr>msg_content :=
                    adjusted_content mode user_text (msg_content (messages ! i))\<rparr>],
                \<lparr>rd_mode = mode, rd_explicit = explicit_mode \<noteq> None, rd_applied = True\<rparr>))"

section \<open>Only the last user message changes\<close>

lemma find_index_Some:
  "find_index P xs = Some i \<Longrightarrow> i < length xs \<and> P (xs ! i) \<and> list_all (\<lambda>x. \<not> P x) (take i xs)"
  by (induction xs arbitrary: i) (auto split: if_splits)

lemma rposition_split:
  assumes "rposition P xs = Some i"
  shows "i < length xs \<and> P (xs ! i) \<and> xs = take i xs @ xs ! i # drop (Suc i) xs
    \<and> list_all (\<lambda>x. \<not> P x) (drop (Suc i) xs)"
proof -
  obtain k where k: "find_index P (rev xs) = Some k" "i = length xs - 1 - k"
    using assms by (auto simp: rposition_def)
  have K: "k < length xs" "P (rev xs ! k)" "list_all (\<lambda>x. \<not> P x) (take k (rev xs))"
    using find_index_Some [OF k(1)] by auto
  have i: "i < length xs" using K(1) k(2) by simp
  moreover have "rev xs ! k = xs ! i" using K(1) k(2) by (simp add: rev_nth)
  moreover have "take k (rev xs) = rev (drop (Suc i) xs)" 
  proof -
    have "Suc i = length xs - k" using K(1) k(2) by simp
    then show ?thesis by (simp only: take_rev)
  qed
  ultimately show ?thesis using K(2,3) id_take_nth_drop [OF i] by (simp add: list_all_rev)
qed

lemma ends_with_append: "ends_with (b @ d) d"
  by (auto simp: ends_with_iff)

lemma adjusted_ends: "ends_with (adjusted_content mode user_text content) (reasoning_directive mode)"
  using ends_with_append [of "[]" "reasoning_directive mode"]
  by (simp only: adjusted_content_def Let_def append_assoc [symmetric] ends_with_append append_Nil
      split: if_split) simp

text \<open>Writing the reasoning directive changes at most one message, the last one of the user,
  and only for a model that understands it: that message then ends with the directive of the
  chosen mode, and a mode the user asked for is the one that is chosen. Every other message, the
  system prompt included, stays as it was.\<close>

theorem reasoning_touches_last_user_only:
  "(let (messages', d) = apply_reasoning_mode family messages user_text interaction
    in if rd_applied d
       then family = Qwen
         \<and> (\<exists>us m vs text'. messages = us @ m # vs \<and> messages' = us @ m\<lparr>msg_content := text'\<rparr> # vs
              \<and> msg_role m = ''user'' \<and> list_all (\<lambda>v. msg_role v \<noteq> ''user'') vs
              \<and> ends_with text' (reasoning_directive (rd_mode d)))
         \<and> (case explicit_reasoning_mode (to_lowercase user_text) of
              Some mode \<Rightarrow> rd_mode d = mode \<and> rd_explicit d | None \<Rightarrow> \<not> rd_explicit d)
       else messages' = messages)"
proof (cases "supports_reasoning_toggle family")
  case False
  then show ?thesis by (simp add: apply_reasoning_mode_def)
next
  case True
  then have q: "family = Qwen" by (simp add: supports_reasoning_toggle_def)
  let ?P = "\<lambda>m. msg_role m = ''user''"
  show ?thesis
  proof (cases "rposition ?P messages")
    case None
    then show ?thesis by (simp add: apply_reasoning_mode_def Let_def)
  next
    case (Some i)
    note split = rposition_split [OF Some]
    have upd: "messages[i := x] = take i messages @ x # drop (Suc i) messages" for x
      using split by (simp add: upd_conv_take_nth_drop)
    have ex: "\<exists>us m vs text'. messages = us @ m # vs
        \<and> messages[i := (messages ! i)\<lparr>msg_content := adjusted_content mode user_text (msg_content (messages ! i))\<rparr>]
          = us @ m\<lparr>msg_content := text'\<rparr> # vs
        \<and> msg_role m = ''user'' \<and> list_all (\<lambda>v. msg_role v \<noteq> ''user'') vs
        \<and> ends_with text' (reasoning_directive mode)" for mode
      by (rule exI [of _ "take i messages"], rule exI [of _ "messages ! i"],
          rule exI [of _ "drop (Suc i) messages"],
          rule exI [of _ "adjusted_content mode user_text (msg_content (messages ! i))"])
         (use split upd adjusted_ends in blast)
    show ?thesis
      using True Some q ex
      by (cases "explicit_reasoning_mode (to_lowercase user_text)") (simp_all add: apply_reasoning_mode_def Let_def)
  qed
qed

end
