(* ===== verification/ChatTurn.thy ===== *)
theory ChatTurn
  imports Routes Hydration Reasoning ToolParser Session
begin

text \<open>
  One turn of the chat API (\<open>process_chat_turn\<close> of \<open>server.rs\<close>, \<open>channel/mod.rs\<close>,
  \<open>llm/escalation.rs\<close> and \<open>llm/privacy_proxy.rs\<close>): the quick route, the prompt with the household
  context, the local completion or the escalation to the privacy proxy, the tool call in the
  response, and what the user is shown.

  The conversation store, the memory store, the model, the HTTP requests to the proxy, the audit
  line of an escalation, the extraction of memories and the quick router are operations of a
  record, each passing the rest of the world along; the tool gate and the parser are those of
  their theories. The stored order of the vocabulary, a hash set in the code, is that of first
  occurrence.
\<close>

section \<open>Incoming turns\<close>

datatype channel_kind = VoiceChannel | HttpChannel | TelegramChannel

fun channel_as_str :: "channel_kind \<Rightarrow> string" where
  "channel_as_str VoiceChannel = ''voice''"
| "channel_as_str HttpChannel = ''http''"
| "channel_as_str TelegramChannel = ''telegram''"

record speaker_info =
  sp_name :: "string option"
  sp_confidence :: identity_confidence

record incoming_turn =
  turn_text :: string
  turn_speaker :: speaker_info
  turn_session_id :: string
  turn_channel :: channel_kind

definition is_resolved :: "speaker_info \<Rightarrow> bool" where
  "is_resolved s \<longleftrightarrow> sp_name s \<noteq> None \<or> sp_confidence s \<noteq> IdUnknown"

definition named_speaker :: "speaker_info \<Rightarrow> string option" where
  "named_speaker s =
     (case sp_name s of Some n \<Rightarrow> if trim n \<noteq> [] then Some (trim n) else None | None \<Rightarrow> None)"

definition session_key_of :: "channel_kind \<Rightarrow> speaker_info \<Rightarrow> string \<Rightarrow> string" where
  "session_key_of ch s fallback =
     (case named_speaker s of
        Some n \<Rightarrow> channel_as_str ch @ '':'' @ to_ascii_lowercase n
      | None \<Rightarrow> fallback)"

definition turn_read_context :: "incoming_turn \<Rightarrow> bool \<Rightarrow> memory_read_context" where
  "turn_read_context turn shared =
     memory_read_context_from_text (turn_text turn) (sp_confidence (turn_speaker turn)) shared"

definition turn_tool_context ::
  "incoming_turn \<Rightarrow> request_origin \<Rightarrow> bool \<Rightarrow> memory_read_context tool_execution_context" where
  "turn_tool_context turn origin shared =
     \<lparr>ctx_memory = (if is_resolved (turn_speaker turn) then Some (turn_read_context turn shared) else None),
      request_origin = origin, confirmed = False\<rparr>"

section \<open>The operations a turn uses\<close>

record batch_message =
  bm_role :: string
  bm_content :: string
  bm_tool :: "string option"
  bm_speaker :: "string option"

record 'd chat_ops =
  op_append :: "string \<Rightarrow> batch_message list \<Rightarrow> 'd \<Rightarrow> unit res \<times> 'd"
  op_recent :: "string \<Rightarrow> nat \<Rightarrow> 'd \<Rightarrow> message list res \<times> 'd"
  op_complete :: "message list \<Rightarrow> nat \<Rightarrow> 'd \<Rightarrow> string res \<times> 'd"
  op_memory :: "'d \<Rightarrow> memory_queries"
  op_recent_memories :: "nat \<Rightarrow> 'd \<Rightarrow> memory_entry list res"
  op_post_vocab :: "endpoint \<Rightarrow> string \<Rightarrow> string list \<Rightarrow> 'd \<Rightarrow> (nat \<times> string) res \<times> 'd"
  op_proxy_chat :: "endpoint \<Rightarrow> message list \<Rightarrow> nat \<Rightarrow> 'd \<Rightarrow> string res \<times> 'd"
  op_log_escalation :: "string \<Rightarrow> string \<Rightarrow> nat \<Rightarrow> nat \<Rightarrow> nat \<Rightarrow> 'd \<Rightarrow> 'd"
  op_extract :: "string \<Rightarrow> 'd \<Rightarrow> 'd"
  op_quick_route :: "string \<Rightarrow> 'd \<Rightarrow> tool_call option"

section \<open>Escalation\<close>

record payload_summary =
  message_count :: nat
  payload_chars :: nat

definition summarize_messages :: "message list \<Rightarrow> payload_summary" where
  "summarize_messages messages =
     \<lparr>message_count = length messages, payload_chars = sum_list (map (\<lambda>m. length (msg_content m)) messages)\<rparr>"

definition vocabulary_terms :: "memory_entry list \<Rightarrow> string list" where
  "vocabulary_terms entries =
     remdups (filter (\<lambda>t. t \<noteq> [])
       (concat (map (\<lambda>e. extract_vocab_terms (entry_content e))
         (filter (\<lambda>e. eligible_for_escalation (entry_kind e) (entry_content e)) entries))))"

definition seed_vocab :: "'d chat_ops \<Rightarrow> privacy_proxy_backend \<Rightarrow> string list \<Rightarrow> 'd \<Rightarrow> unit res \<times> 'd" where
  "seed_vocab ops backend terms d =
     (if terms = [] then (Ok (), d)
      else (case op_post_vocab ops (pp_seed_to backend) (pp_vocab_path backend) terms d of
              (Inl e, d) \<Rightarrow> (Err e, d)
            | (Inr (status, body), d) \<Rightarrow>
                if 200 \<le> status \<and> status < 300 then (Ok (), d)
                else (Err (''PrivacyProxy vocab seed '' @ pp_vocab_path backend @ '' failed: HTTP ''
                           @ show_nat status @ (if trim body = [] then [] else '': '' @ trim body)), d)))"

definition escalate_via_privacy_proxy ::
  "'d chat_ops \<Rightarrow> privacy_proxy_config \<Rightarrow> message list \<Rightarrow> escalation_reason \<Rightarrow> 'd \<Rightarrow> string res \<times> 'd" where
  "escalate_via_privacy_proxy ops proxy messages why d =
     (let backend = privacy_proxy_from_url (proxy_base_url proxy) (proxy_vocab_path proxy);
          summary = summarize_messages messages;
          terms = (case op_recent_memories ops 500 d of
                     Inr entries \<Rightarrow> vocabulary_terms entries | Inl _ \<Rightarrow> []);
          d = op_log_escalation ops (escalation_reason_as_str why) ''privacy_proxy''
                (message_count summary) (payload_chars summary) (length terms) d;
          (_, d) = seed_vocab ops backend terms d
      in op_proxy_chat ops (pp_client backend) messages 512 d)"

definition RESPONSE_RESERVE_TOKENS :: nat where
  "RESPONSE_RESERVE_TOKENS = 512"

definition JETSON_BASELINE_CONTEXT_TOKENS :: nat where
  "JETSON_BASELINE_CONTEXT_TOKENS = 4096"

definition context_overflowed :: "message list \<Rightarrow> bool" where
  "context_overflowed messages \<longleftrightarrow>
     sum_list (map (\<lambda>m. str_len (msg_content m) div 4) messages) + RESPONSE_RESERVE_TOKENS
       > JETSON_BASELINE_CONTEXT_TOKENS"

definition chat_completion ::
  "'d chat_ops \<Rightarrow> privacy_proxy_config option \<Rightarrow> message list \<Rightarrow> 'd \<Rightarrow> string res \<times> 'd" where
  "chat_completion ops proxy messages d =
     (case (if context_overflowed messages then may_escalate proxy ReasonContextOverflow else None) of
        Some p \<Rightarrow>
          (case escalate_via_privacy_proxy ops p messages ReasonContextOverflow d of
             (Inr r, d) \<Rightarrow> (Ok r, d)
           | (Inl _, d) \<Rightarrow> op_complete ops messages 512 d)
      | None \<Rightarrow>
          (case op_complete ops messages 512 d of
             (Inr r, d) \<Rightarrow> (Ok r, d)
           | (Inl local_err, d) \<Rightarrow>
               (case may_escalate proxy ReasonLocalDecline of
                  None \<Rightarrow> (Err local_err, d)
                | Some p \<Rightarrow>
                    (case escalate_via_privacy_proxy ops p messages ReasonLocalDecline d of
                       (Inr r, d) \<Rightarrow> (Ok r, d)
                     | (Inl _, d) \<Rightarrow> (Err local_err, d)))))"

section \<open>The turn\<close>

definition build_memory_context_for_turn :: "string \<Rightarrow> memory_queries \<Rightarrow> incoming_turn \<Rightarrow> bool \<Rightarrow> string" where
  "build_memory_context_for_turn ellipsis mem turn shared =
     (if is_resolved (turn_speaker turn)
      then build_memory_context_with_read_context ellipsis mem (turn_text turn) (turn_read_context turn shared)
      else build_memory_context ellipsis mem (turn_text turn))"

definition turn_messages ::
  "string \<Rightarrow> string \<Rightarrow> message list \<Rightarrow> model_family \<Rightarrow> incoming_turn \<Rightarrow> message list" where
  "turn_messages system_prompt memory_context history family turn =
     (let full_prompt = system_prompt @ [CHR 10, CHR 10] @ ''Relevant household context:'' @ [CHR 10]
            @ memory_context;
          messages = \<lparr>msg_role = ''system'', msg_content = full_prompt\<rparr> # history
      in fst (apply_reasoning_mode family messages (turn_text turn) ChatTurn))"

definition should_summarize_tool_result :: "string \<Rightarrow> bool" where
  "should_summarize_tool_result name \<longleftrightarrow>
     name \<notin> {''system_info'', ''web_search'', ''memory_recall'', ''memory_status'', ''memory_store'',
              ''memory_forget''}"

definition plain_message :: "string \<Rightarrow> string \<Rightarrow> batch_message" where
  "plain_message r c = \<lparr>bm_role = r, bm_content = c, bm_tool = None, bm_speaker = None\<rparr>"

definition store_or_log :: "'d chat_ops \<Rightarrow> string \<Rightarrow> batch_message list \<Rightarrow> 'd \<Rightarrow> 'd" where
  "store_or_log ops conv_id messages d = snd (op_append ops conv_id messages d)"

definition finalize_direct_tool_turn ::
  "'d chat_ops \<Rightarrow> (json \<Rightarrow> string) \<Rightarrow> string \<Rightarrow> tool_call \<Rightarrow> tool_result \<Rightarrow> 'd \<Rightarrow> string \<times> 'd" where
  "finalize_direct_tool_turn ops to_json conv_id call res d =
     (let tool_json = to_json (JObj [(''arguments'', arguments call), (''tool'', JStr (call_name call))]);
          reply = (if res_success res then res_output res
                   else res_tool res @ '' failed: '' @ res_output res);
          sanitized = sanitize_output reply;
          d = store_or_log ops conv_id
                [\<lparr>bm_role = ''assistant'', bm_content = tool_json, bm_tool = Some (res_tool res), bm_speaker = None\<rparr>,
                 plain_message ''system'' (''Tool result: '' @ res_output res),
                 plain_message ''assistant'' sanitized] d
      in (sanitized, d))"

definition finalize_tool_turn ::
  "'d chat_ops \<Rightarrow> string \<Rightarrow> string \<Rightarrow> tool_result \<Rightarrow> model_family \<Rightarrow> 'd \<Rightarrow> string \<times> 'd" where
  "finalize_tool_turn ops conv_id llm_response res family d =
     (let d = store_or_log ops conv_id
            [\<lparr>bm_role = ''assistant'', bm_content = llm_response, bm_tool = Some (res_tool res), bm_speaker = None\<rparr>] d;
          d = store_or_log ops conv_id [plain_message ''system'' (''Tool result: '' @ res_output res)] d;
          (summary, d) =
            (if should_summarize_tool_result (res_tool res) then
               let (r, d) = op_recent ops conv_id 6 d;
                   recent = (case r of Inr ms \<Rightarrow> ms | Inl _ \<Rightarrow> []);
                   ms = \<lparr>msg_role = ''system'', msg_content =
                     ''Summarize the tool result in one natural sentence without changing numbers, measurements, or facts.''\<rparr>
                     # recent;
                   (r, d) = op_complete ops (fst (apply_reasoning_mode family ms [] ToolSummary)) 128 d
               in (case r of Inr t \<Rightarrow> (t, d) | Inl _ \<Rightarrow> (res_output res, d))
             else (res_output res, d));
          sanitized = sanitize_output summary;
          d = store_or_log ops conv_id [plain_message ''assistant'' sanitized] d
      in (sanitized, d))"

record chat_turn_result =
  ctr_response :: string
  ctr_tool :: "string option"
  ctr_conversation_id :: string

text \<open>What does not change during a turn: the JSON reader and printer, the known tools, the tool
  bodies, the gate's environment and clocks, the system prompt, the length of the history, the
  model family, and two texts with characters outside the repertoire.\<close>

record 'd chat_env =
  en_from_str :: "string \<Rightarrow> json option"
  en_to_json :: "json \<Rightarrow> string"
  en_known :: known_tools
  en_body :: "tool_call \<Rightarrow> memory_read_context tool_execution_context \<Rightarrow> 'd \<Rightarrow> (string + string) \<times> 'd"
  en_gate :: gate_env
  en_clk :: gate_clock
  en_clk_end :: gate_clock
  en_system_prompt :: string
  en_max_history :: nat
  en_family :: model_family
  en_ellipsis :: string
  en_fallback :: string

definition turn_prompt :: "'d chat_ops \<Rightarrow> 'd chat_env \<Rightarrow> incoming_turn \<Rightarrow> message list \<Rightarrow> 'd \<Rightarrow> message list" where
  "turn_prompt ops env turn history d =
     turn_messages (en_system_prompt env)
       (build_memory_context_for_turn (en_ellipsis env) (op_memory ops d) turn False)
       history (en_family env) turn"

text \<open>What becomes of the model's response: a tool call, or a reply to show.\<close>

definition finish_chat_turn ::
  "'d chat_ops \<Rightarrow> 'd chat_env \<Rightarrow> string \<Rightarrow> incoming_turn \<Rightarrow> memory_read_context tool_execution_context \<Rightarrow>
     string \<Rightarrow> gate_state \<times> 'd \<Rightarrow> chat_turn_result res \<times> gate_state \<times> 'd" where
  "finish_chat_turn ops env conv_id turn ctx llm_response gs =
     (case try_tool_call_with_context (en_from_str env) (en_known env) (en_body env)
             (en_gate env) (en_clk env) (en_clk_end env) llm_response ctx gs of
        (Some res, g, d) \<Rightarrow>
          (case finalize_tool_turn ops conv_id llm_response res (en_family env) d of
             (reply, d) \<Rightarrow>
               (Ok \<lparr>ctr_response = reply, ctr_tool = Some (res_tool res), ctr_conversation_id = conv_id\<rparr>,
                g, op_extract ops (turn_text turn) d))
      | (None, g, d) \<Rightarrow>
          let reply = (if is_unparsed_tool_call (en_from_str env) llm_response
                       then en_fallback env else sanitize_output llm_response);
              d = store_or_log ops conv_id [plain_message ''assistant'' reply] d
          in (Ok \<lparr>ctr_response = reply, ctr_tool = None, ctr_conversation_id = conv_id\<rparr>,
              g, op_extract ops (turn_text turn) d))"

definition process_chat_turn ::
  "'d chat_ops \<Rightarrow> 'd chat_env \<Rightarrow> string \<Rightarrow> incoming_turn \<Rightarrow> request_origin \<Rightarrow> privacy_proxy_config option \<Rightarrow>
     gate_state \<times> 'd \<Rightarrow> chat_turn_result res \<times> gate_state \<times> 'd" where
  "process_chat_turn ops env conv_id turn origin proxy gs =
     (case op_append ops conv_id
             [\<lparr>bm_role = ''user'', bm_content = turn_text turn, bm_tool = None,
               bm_speaker = named_speaker (turn_speaker turn)\<rparr>] (snd gs) of
        (Inl e, d) \<Rightarrow> (Err e, fst gs, d)
      | (Inr _, d) \<Rightarrow>
          let ctx = turn_tool_context turn origin False in
          (case op_quick_route ops (turn_text turn) d of
             Some call \<Rightarrow>
               (case execute_with_context (en_body env) (en_gate env) (en_clk env) (en_clk_end env) call ctx
                       (fst gs, d) of
                  (res, g, d) \<Rightarrow>
                    (case finalize_direct_tool_turn ops (en_to_json env) conv_id call res d of
                       (reply, d) \<Rightarrow>
                         (Ok \<lparr>ctr_response = reply, ctr_tool = Some (res_tool res), ctr_conversation_id = conv_id\<rparr>,
                          g, op_extract ops (turn_text turn) d)))
           | None \<Rightarrow>
               (case op_recent ops conv_id (en_max_history env) d of
                  (Inl e, d) \<Rightarrow> (Err e, fst gs, d)
                | (Inr history, d') \<Rightarrow>
                    (case chat_completion ops proxy (turn_prompt ops env turn history d) d' of
                       (Inl e, d) \<Rightarrow> (Err e, fst gs, d)
                     | (Inr llm_response, d) \<Rightarrow>
                         finish_chat_turn ops env conv_id turn ctx llm_response (fst gs, d)))))"

text \<open>Which conversation a request of the chat API belongs to.\<close>

definition resolve_chat_conv_id ::
  "string option \<Rightarrow> incoming_turn \<Rightarrow> int \<Rightarrow> session_registry \<Rightarrow> string \<times> session_registry" where
  "resolve_chat_conv_id client_id turn now registry =
     (case client_id of
        Some cid \<Rightarrow>
          if trim cid \<noteq> [] then (cid, track cid now registry)
          else resolve_session (session_key_of (turn_channel turn) (turn_speaker turn) (turn_session_id turn)) now registry
      | None \<Rightarrow>
          resolve_session (session_key_of (turn_channel turn) (turn_speaker turn) (turn_session_id turn)) now registry)"

section \<open>Properties\<close>

lemma finalize_direct_sanitized:
  "finalize_direct_tool_turn ops to_json conv_id call res d = (reply, d') \<Longrightarrow> \<exists>raw. reply = sanitize_output raw"
  by (auto simp: finalize_direct_tool_turn_def Let_def)

lemma finalize_tool_sanitized:
  "finalize_tool_turn ops conv_id llm_response res family d = (reply, d') \<Longrightarrow> \<exists>raw. reply = sanitize_output raw"
  by (auto simp: finalize_tool_turn_def Let_def split: prod.splits)

definition shown_safely :: "'d chat_env \<Rightarrow> string \<Rightarrow> chat_turn_result \<Rightarrow> bool" where
  "shown_safely env conv_id r \<longleftrightarrow> ctr_conversation_id r = conv_id
     \<and> (ctr_response r = en_fallback env \<or> (\<exists>raw. ctr_response r = sanitize_output raw))"

lemma reply_from_sanitizer:
  assumes "process_chat_turn ops env conv_id turn origin proxy gs = (Inr r, gs')"
  shows "shown_safely env conv_id r"
  using assms unfolding process_chat_turn_def finish_chat_turn_def shown_safely_def Let_def
  by (auto split: sum.splits prod.splits option.splits if_splits)
     (metis finalize_direct_sanitized finalize_tool_sanitized)+

text \<open>Whatever the model, the tools or the stores return, the reply of a turn is the output of
  the sanitiser or the fixed fallback; so no secret that stands alone in the text the reply was
  made from is shown.\<close>

theorem chat_reply_sanitized:
  "case fst (process_chat_turn ops env conv_id turn origin proxy gs) of
     Inr r \<Rightarrow> ctr_conversation_id r = conv_id
        \<and> (ctr_response r = en_fallback env \<or> (\<exists>raw. ctr_response r = sanitize_output raw))
   | Inl e \<Rightarrow> True"
  using reply_from_sanitizer [of ops env conv_id turn origin proxy gs] unfolding shown_safely_def
  by (cases "process_chat_turn ops env conv_id turn origin proxy gs") (auto split: sum.split)

text \<open>An answer of the completion step comes from the configured model, or from a proxy that the
  escalation gate let through; and when the step fails, the error is that of the configured
  model: a failing proxy never hides it and never makes a turn fail.\<close>

theorem answers_come_from_permitted_models:
  "case fst (chat_completion ops proxy messages d) of
     Inl e \<Rightarrow> (\<exists>d1. fst (op_complete ops messages 512 d1) = Inl e)
   | Inr r \<Rightarrow> (\<exists>d1. fst (op_complete ops messages 512 d1) = Inr r)
       \<or> (\<exists>p why d1. may_escalate proxy why = Some p
            \<and> fst (op_proxy_chat ops (pp_client (privacy_proxy_from_url (proxy_base_url p) (proxy_vocab_path p)))
                messages 512 d1) = Inr r)"
proof -
  have esc: "fst (escalate_via_privacy_proxy ops p messages why d) = Inr r \<Longrightarrow>
      \<exists>d1. fst (op_proxy_chat ops (pp_client (privacy_proxy_from_url (proxy_base_url p) (proxy_vocab_path p)))
                messages 512 d1) = Inr r" for p why d r
    by (auto simp: escalate_via_privacy_proxy_def Let_def split: prod.splits)
  show ?thesis
    unfolding chat_completion_def
    by (auto split: sum.splits prod.splits option.splits if_splits)
       (metis esc fst_conv)+
qed

text \<open>The same operations, except for those that talk to the proxy.\<close>

definition with_proxy_ops ::
  "'d chat_ops \<Rightarrow> (endpoint \<Rightarrow> string \<Rightarrow> string list \<Rightarrow> 'd \<Rightarrow> (nat \<times> string) res \<times> 'd) \<Rightarrow>
     (endpoint \<Rightarrow> message list \<Rightarrow> nat \<Rightarrow> 'd \<Rightarrow> string res \<times> 'd) \<Rightarrow> 'd chat_ops" where
  "with_proxy_ops ops post chat = ops\<lparr>op_post_vocab := post, op_proxy_chat := chat\<rparr>"

lemma with_proxy_ops_simps [simp]:
  "op_append (with_proxy_ops ops post chat) = op_append ops"
  "op_recent (with_proxy_ops ops post chat) = op_recent ops"
  "op_complete (with_proxy_ops ops post chat) = op_complete ops"
  "op_memory (with_proxy_ops ops post chat) = op_memory ops"
  "op_extract (with_proxy_ops ops post chat) = op_extract ops"
  "op_quick_route (with_proxy_ops ops post chat) = op_quick_route ops"
  by (simp_all add: with_proxy_ops_def)

lemma finalize_with_proxy_ops [simp]:
  "finalize_direct_tool_turn (with_proxy_ops ops post chat) = finalize_direct_tool_turn ops"
  "finalize_tool_turn (with_proxy_ops ops post chat) = finalize_tool_turn ops"
  "turn_prompt (with_proxy_ops ops post chat) = turn_prompt ops"
  "store_or_log (with_proxy_ops ops post chat) = store_or_log ops"
  by (intro ext,
      simp only: finalize_direct_tool_turn_def finalize_tool_turn_def turn_prompt_def store_or_log_def
        with_proxy_ops_simps)+

lemma finish_with_proxy_ops [simp]: "finish_chat_turn (with_proxy_ops ops post chat) = finish_chat_turn ops"
  by (intro ext, simp only: finish_chat_turn_def with_proxy_ops_simps finalize_with_proxy_ops)

text \<open>Unless the proxy is enabled, its URL is local and its trigger matches, nothing of a turn
  reaches it: the turn is the same whatever the operations that talk to the proxy do.\<close>

theorem blocked_turns_stay_local:
  assumes "may_escalate proxy ReasonContextOverflow = None"
    and "may_escalate proxy ReasonLocalDecline = None"
  shows "process_chat_turn (with_proxy_ops ops post chat) env conv_id turn origin proxy gs
     = process_chat_turn ops env conv_id turn origin proxy gs"
proof -
  have cc: "chat_completion (with_proxy_ops ops post chat) proxy = chat_completion ops proxy"
    by (intro ext) (use assms in \<open>simp add: chat_completion_def split: sum.split prod.split\<close>)
  show ?thesis unfolding process_chat_turn_def with_proxy_ops_simps finalize_with_proxy_ops finish_with_proxy_ops cc ..
qed

text \<open>An empty answer of the local model is not a decline: it is taken as the reply, and the
  proxy is not asked.\<close>

theorem empty_answer_not_escalated:
  assumes "op_complete ops messages 512 d = (Inr [], d')" and "\<not> context_overflowed messages"
  shows "chat_completion ops proxy messages d = (Inr [], d')"
  using assms by (simp add: chat_completion_def)

lemma inject_loop_extends: "\<exists>ys. snd (inject_loop cap ctx es acc) = snd acc @ ys"
proof (induction cap ctx es acc rule: inject_loop.induct)
  case (2 cap ctx e es seen entries)
  then show ?case by (auto split: option.splits)
qed simp

lemma inject_results_extends: "\<exists>ys. snd (inject_results cap ctx r acc) = snd acc @ ys"
  by (cases r) (simp_all add: inject_results_def inject_loop_extends)

lemma first_identity_in_context:
  assumes "by_kind mem ''identity'' 5 = Inr (e # es)" and "may_inject_entry e ctx"
  shows "\<exists>ys. context_entries mem query ctx = entry_text e # ys"
proof -
  let ?a1 = "inject_results None ctx (by_kind mem ''identity'' 5) ({}, [])"
  let ?a2 = "inject_results None ctx (by_kind mem ''relationship'' 3) ?a1"
  let ?a3 = "if trim query \<noteq> [] then inject_results None ctx (search_memory mem query 5) ?a2 else ?a2"
  let ?a4 = "if length (snd ?a3) < 8 then inject_results (Some 8) ctx (by_kind mem ''preference'' 3) ?a3 else ?a3"
  have "?a1 = inject_loop None ctx es ({entry_id e}, [entry_text e])"
    using assms by (simp add: inject_results_def)
  then obtain y1 where y1: "snd ?a1 = [entry_text e] @ y1"
    using inject_loop_extends [of None ctx es "({entry_id e}, [entry_text e])"] by auto
  obtain y2 where y2: "snd ?a2 = snd ?a1 @ y2" using inject_results_extends by blast
  obtain y3 where y3: "snd ?a3 = snd ?a2 @ y3"
    using inject_results_extends [of None ctx "search_memory mem query 5" ?a2] by (cases "trim query = []") auto
  obtain y4 where y4: "snd ?a4 = snd ?a3 @ y4"
    using inject_results_extends [of "Some 8" ctx "by_kind mem ''preference'' 3" ?a3]
    by (cases "length (snd ?a3) < 8") auto
  have "context_entries mem query ctx = snd ?a4" by (simp only: context_entries_def Let_def)
  then show ?thesis using y1 y2 y3 y4 by simp
qed

lemma fitting_first_entry_shown:
  assumes "fits t 700"
  shows "str_contains (apply_hydration_budget ellipsis (t # ys)) t"
proof -
  obtain n where n: "fit_entries_to_budget (t # ys) = take n (t # ys)"
    "n = length (t # ys) \<or> estimate_hydration_tokens (format_memory_lines (take (Suc n) (t # ys))) > 700"
    using fit_entries_spec [of "t # ys"] by blast
  have "estimate_hydration_tokens (format_memory_lines [t]) \<le> 700"
    using assms by (simp add: fits_def format_memory_lines_def)
  then obtain k where "n = Suc k" using n(2) by (cases n) auto
  then have sel: "fit_entries_to_budget (t # ys) = t # take k ys" using n(1) by simp
  obtain r where r: "format_memory_lines (t # take k ys) = ''- '' @ t @ r"
    by (cases "take k ys") (auto simp: format_memory_lines_def)
  show ?thesis
    using str_contains_mid [of "''- ''" t r] unfolding apply_hydration_budget_def list.case Let_def sel
    by (simp add: r)
qed

lemma reasoning_keeps_system:
  assumes "msg_role m \<noteq> ''user''"
  shows "hd (fst (apply_reasoning_mode family (m # ms) utter kind)) = m"
proof (cases "rposition (\<lambda>m. msg_role m = ''user'') (m # ms)")
  case None
  then show ?thesis by (simp add: apply_reasoning_mode_def Let_def)
next
  case (Some i)
  then have "i \<noteq> 0" using rposition_split [OF Some] assms by (cases i) auto
  then show ?thesis using Some by (cases i) (simp_all add: apply_reasoning_mode_def Let_def)
qed

text \<open>C31: identity memories, which the memory policy keeps out of every escalation because the
  proxy sees their content before it masks anything, leave with the prompt: the first identity
  memory that may be read aloud and fits the budget is part of the system message of the turn; an
  escalation hands these messages to the proxy as they are; and no name of an identity memory is
  among the terms that the proxy is told to mask.\<close>

theorem identity_memories_leave_unmasked:
  assumes "by_kind (op_memory ops d) ''identity'' 5 = Inr (e # es)" and "entry_kind e = ''identity''"
    and "allowed (assess_memory_read (entry_metadata e) shared_room_voice)"
    and "fits (entry_text e) 700" and "\<not> is_resolved (turn_speaker turn)"
  shows "str_contains (msg_content (hd (turn_prompt ops env turn history d))) (entry_content e)
     \<and> (\<exists>d'. escalate_via_privacy_proxy ops p (turn_prompt ops env turn history d) why d
           = op_proxy_chat ops (pp_client (privacy_proxy_from_url (proxy_base_url p) (proxy_vocab_path p)))
               (turn_prompt ops env turn history d) 512 d')
     \<and> vocabulary_terms (us @ e # vs) = vocabulary_terms (us @ vs)
     \<and> \<not> eligible_for_escalation (entry_kind e) (entry_content e)"
proof (intro conjI)
  let ?ctx = "build_memory_context_for_turn (en_ellipsis env) (op_memory ops d) turn False"
  obtain ys where "context_entries (op_memory ops d) (turn_text turn) shared_room_voice = entry_text e # ys"
    using first_identity_in_context [OF assms(1)] assms(3) by (auto simp: may_inject_entry_def)
  then have "str_contains ?ctx (entry_text e)"
    using fitting_first_entry_shown [OF assms(4)] assms(5)
    by (simp add: build_memory_context_for_turn_def build_memory_context_def
        build_memory_context_with_read_context_def)
  moreover have "str_contains (entry_text e) (entry_content e)"
    using str_contains_mid [of "''['' @ entry_kind e @ ''] ''" "entry_content e" "[]"] by (simp add: entry_text_def)
  ultimately have ctx: "str_contains ?ctx (entry_content e)" using str_contains_trans by blast
  have "hd (turn_prompt ops env turn history d) = \<lparr>msg_role = ''system'', msg_content = en_system_prompt env
      @ [CHR 10, CHR 10] @ ''Relevant household context:'' @ [CHR 10] @ ?ctx\<rparr>"
    unfolding turn_prompt_def turn_messages_def Let_def by (rule reasoning_keeps_system) simp
  then show "str_contains (msg_content (hd (turn_prompt ops env turn history d))) (entry_content e)"
    using str_contains_append [OF ctx, of "en_system_prompt env @ [CHR 10, CHR 10]
      @ ''Relevant household context:'' @ [CHR 10]" "[]"] by simp
  show "\<exists>d'. escalate_via_privacy_proxy ops p (turn_prompt ops env turn history d) why d
      = op_proxy_chat ops (pp_client (privacy_proxy_from_url (proxy_base_url p) (proxy_vocab_path p)))
          (turn_prompt ops env turn history d) 512 d'"
    by (auto simp: escalate_via_privacy_proxy_def Let_def split: prod.split)
  show inel: "\<not> eligible_for_escalation (entry_kind e) (entry_content e)"
    using assms(2) by (simp add: eligible_for_escalation_def)
  then show "vocabulary_terms (us @ e # vs) = vocabulary_terms (us @ vs)"
    by (simp add: vocabulary_terms_def)
qed

definition jared :: memory_entry where
  "jared = \<lparr>entry_id = 1, entry_kind = ''identity'', entry_content = ''Household member name is Jared'',
     entry_metadata = \<lparr>scope = ScopeHousehold, sensitivity = SensNormal, spoken_policy = SpokenAllow\<rparr>\<rparr>"

definition sample_ops :: "unit chat_ops" where
  "sample_ops =
     \<lparr>op_append = (\<lambda>cid ms d. (Ok (), d)), op_recent = (\<lambda>cid n d. (Ok [], d)),
      op_complete = (\<lambda>ms n d. (Err ''model unavailable'', d)),
      op_memory = (\<lambda>d. \<lparr>by_kind = (\<lambda>k n. if k = ''identity'' then Ok [jared] else Ok []),
                       search_memory = (\<lambda>q n. Ok [])\<rparr>),
      op_recent_memories = (\<lambda>n d. Ok [jared]), op_post_vocab = (\<lambda>ep path terms d. (Ok (200, []), d)),
      op_proxy_chat = (\<lambda>ep ms n d. (Ok (msg_content (hd ms)), d)),
      op_log_escalation = (\<lambda>r s a b c d. d), op_extract = (\<lambda>t d. d), op_quick_route = (\<lambda>t d. None)\<rparr>"

definition sample_turn :: incoming_turn where
  "sample_turn = \<lparr>turn_text = ''hello'', turn_speaker = \<lparr>sp_name = None, sp_confidence = IdUnknown\<rparr>,
     turn_session_id = ''web'', turn_channel = HttpChannel\<rparr>"

lemma identity_memories_leave_unmasked_witness:
  "\<forall>env :: unit chat_env.
     str_contains (msg_content (hd (turn_prompt sample_ops env sample_turn [] ()))) ''Household member name is Jared''
     \<and> vocabulary_terms ([] @ jared # []) = vocabulary_terms ([] @ [])"
proof
  fix env :: "unit chat_env"
  have "by_kind (op_memory sample_ops ()) ''identity'' 5 = Inr [jared]" by (simp add: sample_ops_def)
  moreover have "entry_kind jared = ''identity''" by (simp add: jared_def)
  moreover have "allowed (assess_memory_read (entry_metadata jared) shared_room_voice)" by code_simp
  moreover have "fits (entry_text jared) 700" by code_simp
  moreover have "\<not> is_resolved (turn_speaker sample_turn)" by (simp add: is_resolved_def sample_turn_def)
  ultimately have "str_contains (msg_content (hd (turn_prompt sample_ops env sample_turn [] ()))) (entry_content jared)
     \<and> vocabulary_terms ([] @ jared # []) = vocabulary_terms ([] @ [])"
    using identity_memories_leave_unmasked [of sample_ops "()" jared "[]" sample_turn env "[]"] by blast
  then show "str_contains (msg_content (hd (turn_prompt sample_ops env sample_turn [] ()))) ''Household member name is Jared''
     \<and> vocabulary_terms ([] @ jared # []) = vocabulary_terms ([] @ [])" by (simp add: jared_def)
qed

lemma blocked_turns_stay_local_witness:
  "process_chat_turn (with_proxy_ops sample_ops (\<lambda>ep path terms d. (Err ''down'', d)) (\<lambda>ep ms n d. (Ok ''leak'', d)))
       env ''c'' sample_turn Api None gs
     = process_chat_turn sample_ops env ''c'' sample_turn Api None gs"
  by (rule blocked_turns_stay_local) (simp_all add: may_escalate_def)

end
