(* ===== verification/StreamChat.thy ===== *)
theory StreamChat
  imports ChatTurn
begin

text \<open>
  The chat requests of the HTTP server: \<open>channel/http.rs\<close>, and \<open>handle_chat\<close> and
  \<open>handle_chat_stream\<close> of \<open>server.rs\<close>, with the detection of tool calls in a stream.

  A stream is a list of events written to a connection that may break: \<open>wr_left\<close> is how many more
  writes it accepts (\<open>None\<close>: it does not break). The streaming completion is an operation that
  gives the tokens it delivered and its result, and passes the rest of the world along.
\<close>

section \<open>Requests\<close>

definition identity_confidence_from_str :: "string \<Rightarrow> identity_confidence" where
  "identity_confidence_from_str v =
     (let s = to_ascii_lowercase (trim v) in
      if s = ''high'' then IdHigh else if s = ''medium'' then IdMedium
      else if s = ''low'' then IdLow else IdUnknown)"

definition unknown_speaker :: speaker_info where
  "unknown_speaker = \<lparr>sp_name = None, sp_confidence = IdUnknown\<rparr>"

definition nonblank :: "string \<Rightarrow> string option" where
  "nonblank s = (if trim s \<noteq> [] then Some (trim s) else None)"

definition parse_speaker_field :: "json \<Rightarrow> speaker_info" where
  "parse_speaker_field v =
     (case v of
        JStr name \<Rightarrow>
          (case nonblank name of
             Some n \<Rightarrow> \<lparr>sp_name = Some n, sp_confidence = IdHigh\<rparr> | None \<Rightarrow> unknown_speaker)
      | JObj kvs \<Rightarrow>
          \<lparr>sp_name = Option.bind (Option.bind (json_get v ''name'') json_as_str) nonblank,
           sp_confidence = (case Option.bind (json_get v ''confidence'') json_as_str of
                              Some c \<Rightarrow> identity_confidence_from_str c | None \<Rightarrow> IdHigh)\<rparr>
      | _ \<Rightarrow> unknown_speaker)"

definition request_text :: "json \<Rightarrow> string" where
  "request_text parsed =
     (case Option.bind (json_get parsed ''message'') json_as_str of Some t \<Rightarrow> t | None \<Rightarrow> [])"

definition incoming_turn_from_chat_json :: "json \<Rightarrow> string \<Rightarrow> incoming_turn" where
  "incoming_turn_from_chat_json parsed fallback_session =
     (let turn = \<lparr>turn_text = request_text parsed, turn_speaker = unknown_speaker,
                  turn_session_id = fallback_session, turn_channel = HttpChannel\<rparr>
      in case json_get parsed ''speaker'' of
           Some v \<Rightarrow> let speaker = parse_speaker_field v in
             if is_resolved speaker then turn\<lparr>turn_speaker := speaker\<rparr> else turn
         | None \<Rightarrow> turn)"

text \<open>The text of a body that cannot be read is an argument, the message of the JSON reader.\<close>

definition read_chat_body :: "(string \<Rightarrow> json option) \<Rightarrow> (string \<Rightarrow> string) \<Rightarrow> string option \<Rightarrow> string + json" where
  "read_chat_body from_str invalid body =
     (case body of
        None \<Rightarrow> Err ''missing body''
      | Some b \<Rightarrow>
          (case from_str b of
             None \<Rightarrow> Err (invalid b)
           | Some parsed \<Rightarrow>
               if trim (request_text parsed) = [] then Err ''empty message'' else Ok parsed))"

definition client_conv_id :: "json \<Rightarrow> string option" where
  "client_conv_id parsed = Option.bind (json_get parsed ''conversation_id'') json_as_str"

definition provider_gate_blocked_error ::
  "(string \<Rightarrow> string option) \<Rightarrow> nat \<Rightarrow> optional_provider_config \<Rightarrow> string option" where
  "provider_gate_blocked_error getenv agent_window c =
     (if \<not> opt_enabled c then None
      else (case plan_from_config c of
              None \<Rightarrow> None
            | Some plan \<Rightarrow>
                (case readiness getenv agent_window plan of
                   ProviderBlocked reasons \<Rightarrow> Some (join_str '', '' reasons) | _ \<Rightarrow> None)))"

definition misconfigured :: "string \<Rightarrow> string" where
  "misconfigured reasons = ''optional_ai_provider misconfigured: '' @ reasons"

section \<open>The plain chat request\<close>

definition json_error_body :: "string \<Rightarrow> string" where
  "json_error_body m = ''{'' @ quoted_key ''error'' @ '':'' @ quoted_key m @ ''}''"

text \<open>What the requests of the server share: the registry of sessions, the state of the tool gate
  and the rest of the world. \<open>blocked\<close> is the reason of the provider gate, if any.\<close>

type_synonym 'd chat_world = "session_registry \<times> gate_state \<times> 'd"

definition handle_chat ::
  "'d chat_ops \<Rightarrow> 'd chat_env \<Rightarrow> (string \<Rightarrow> string) \<Rightarrow> string option \<Rightarrow> string \<Rightarrow> int \<Rightarrow> request_origin \<Rightarrow>
     privacy_proxy_config option \<Rightarrow> string option \<Rightarrow> 'd chat_world \<Rightarrow> (nat \<times> string) \<times> 'd chat_world" where
  "handle_chat ops env invalid blocked current now origin proxy body wd =
     (case read_chat_body (en_from_str env) invalid body of
        Inl m \<Rightarrow> ((400, json_error_body m), wd)
      | Inr parsed \<Rightarrow>
          let turn = incoming_turn_from_chat_json parsed current;
              (conv_id, registry) = resolve_chat_conv_id (client_conv_id parsed) turn now (fst wd)
          in (case blocked of
                Some reasons \<Rightarrow> ((503, json_error_body (misconfigured reasons)), registry, snd wd)
              | None \<Rightarrow>
                  (case process_chat_turn ops env conv_id turn origin proxy (snd wd) of
                     (Inl e, gs) \<Rightarrow> ((500, json_error_body (''chat: '' @ e)), registry, gs)
                   | (Inr r, gs) \<Rightarrow>
                       ((200, en_to_json env (JObj
                          [(''conversation_id'', JStr (ctr_conversation_id r)), (''response'', JStr (ctr_response r)),
                           (''tool'', case ctr_tool r of Some t \<Rightarrow> JStr t | None \<Rightarrow> JNull)])), registry, gs))))"

section \<open>What a stream looks like\<close>

datatype stream_mode = Undecided | TextMode | ToolMode

definition tool_json_keys :: "string list" where
  "tool_json_keys = [''tool'', ''arguments'', ''get_time'', ''get_weather'', ''web_search'', ''system_info'',
     ''home_control'', ''home_status'', ''home_undo'', ''action_history'', ''set_timer'', ''calculate'',
     ''play_media'', ''memory_recall'', ''memory_status'', ''memory_store'', ''memory_forget'']"

definition looks_like_tool_json :: "string \<Rightarrow> bool" where
  "looks_like_tool_json s \<longleftrightarrow> list_ex (\<lambda>k. str_contains s (quoted_key k)) tool_json_keys"

definition detect_stream_mode :: "string \<Rightarrow> stream_mode" where
  "detect_stream_mode buffer =
     (let trimmed = trim_start buffer in
      if trimmed = [] then Undecided
      else case (case strip_prefix trimmed (fence @ ''json'') of
                   Some i \<Rightarrow> Some i | None \<Rightarrow> strip_prefix trimmed fence) of
        Some inner \<Rightarrow>
          let inner = trim_start inner in
          if inner = [] then Undecided
          else if starts_with inner ''{'' \<and> looks_like_tool_json inner then ToolMode
          else if starts_with inner ''{'' \<and> str_len inner < 96 then Undecided
          else TextMode
      | None \<Rightarrow>
          if starts_with trimmed ''{'' \<and> looks_like_tool_json trimmed then ToolMode
          else if starts_with trimmed ''{'' \<and> str_len trimmed < 96 then Undecided
          else TextMode)"

section \<open>Streams\<close>

datatype stream_event = StreamHead nat | EventError string | EventStart string | EventToken string
  | EventReplace string string | EventDone string "string option" string

record stream_writer =
  wr_events :: "stream_event list"
  wr_left :: "nat option"

definition BROKEN_PIPE :: string where
  "BROKEN_PIPE = ''Broken pipe''"

text \<open>A write: the head of the answer or one line of the stream.\<close>

definition write_event :: "stream_event \<Rightarrow> stream_writer \<Rightarrow> unit res \<times> stream_writer" where
  "write_event e w =
     (case wr_left w of
        Some 0 \<Rightarrow> (Err BROKEN_PIPE, w)
      | left \<Rightarrow> (Ok (), \<lparr>wr_events = wr_events w @ [e], wr_left = map_option (\<lambda>n. n - 1) left\<rparr>))"

fun write_events :: "stream_event list \<Rightarrow> stream_writer \<Rightarrow> unit res \<times> stream_writer" where
  "write_events [] w = (Ok (), w)"
| "write_events (e # es) w =
     (case write_event e w of (Inl m, w) \<Rightarrow> (Err m, w) | (Inr _, w) \<Rightarrow> write_events es w)"

record stream_state =
  ss_mode :: stream_mode
  ss_pending :: string
  ss_emitted :: bool

definition stream_init :: stream_state where
  "stream_init = \<lparr>ss_mode = Undecided, ss_pending = [], ss_emitted = False\<rparr>"

text \<open>What the consumer does with one token, and with all of them.\<close>

definition consume_token ::
  "string \<Rightarrow> stream_state \<Rightarrow> stream_writer \<Rightarrow> (string + stream_state) \<times> stream_writer" where
  "consume_token token st w =
     (case ss_mode st of
        TextMode \<Rightarrow>
          (case write_event (EventToken token) w of
             (Inl e, w) \<Rightarrow> (Err e, w) | (Inr _, w) \<Rightarrow> (Ok (st\<lparr>ss_emitted := True\<rparr>), w))
      | ToolMode \<Rightarrow> (Ok (st\<lparr>ss_pending := ss_pending st @ token\<rparr>), w)
      | Undecided \<Rightarrow>
          let pending = ss_pending st @ token in
          (case detect_stream_mode pending of
             TextMode \<Rightarrow>
               (case write_event (EventToken pending) w of
                  (Inl e, w) \<Rightarrow> (Err e, w)
                | (Inr _, w) \<Rightarrow> (Ok \<lparr>ss_mode = TextMode, ss_pending = [], ss_emitted = True\<rparr>, w))
           | ToolMode \<Rightarrow> (Ok (st\<lparr>ss_pending := pending, ss_mode := ToolMode\<rparr>), w)
           | Undecided \<Rightarrow> (Ok (st\<lparr>ss_pending := pending\<rparr>), w)))"

fun consume :: "string list \<Rightarrow> stream_state \<Rightarrow> stream_writer \<Rightarrow> (string + stream_state) \<times> stream_writer" where
  "consume [] st w = (Ok st, w)"
| "consume (t # ts) st w =
     (case consume_token t st w of (Inl e, w) \<Rightarrow> (Err e, w) | (Inr st, w) \<Rightarrow> consume ts st w)"

type_synonym 'd stream_op = "message list \<Rightarrow> nat \<Rightarrow> 'd \<Rightarrow> string list \<times> string res \<times> 'd"

text \<open>The end of a streamed turn, with the response of the model: the tool call in it, or the text
  that was still pending; then the last event.\<close>

definition finish_stream ::
  "'d chat_ops \<Rightarrow> 'd chat_env \<Rightarrow> string \<Rightarrow> incoming_turn \<Rightarrow> memory_read_context tool_execution_context \<Rightarrow>
     string \<Rightarrow> stream_state \<Rightarrow> stream_writer \<Rightarrow> gate_state \<times> 'd \<Rightarrow> unit res \<times> stream_writer \<times> gate_state \<times> 'd" where
  "finish_stream ops env conv_id turn ctx llm_response st w gs =
     (let done = (\<lambda>reply tool w g d.
            let d = op_extract ops (turn_text turn) d; (r, w) = write_event (EventDone reply tool conv_id) w
            in (r, w, g, d))
      in case try_tool_call_with_context (en_from_str env) (en_known env) (en_body env)
             (en_gate env) (en_clk env) (en_clk_end env) llm_response ctx gs of
        (Some res, g, d) \<Rightarrow>
          (case finalize_tool_turn ops conv_id llm_response res (en_family env) d of
             (summary, d) \<Rightarrow>
               (case (if \<not> ss_emitted st then write_event (EventReplace summary (res_tool res)) w else (Ok (), w)) of
                  (Inl e, w) \<Rightarrow> (Err e, w, g, d)
                | (Inr _, w) \<Rightarrow> done summary (Some (res_tool res)) w g d))
      | (None, g, d) \<Rightarrow>
          let sanitized = (if is_unparsed_tool_call (en_from_str env) llm_response
                           then en_fallback env else sanitize_output llm_response)
          in (case (if ss_pending st \<noteq> [] \<and> ss_mode st = Undecided
                    then write_event (EventToken (ss_pending st)) w else (Ok (), w)) of
                (Inl e, w) \<Rightarrow> (Err e, w, g, d)
              | (Inr _, w) \<Rightarrow>
                  done sanitized None w g (store_or_log ops conv_id [plain_message ''assistant'' sanitized] d)))"

text \<open>The completion of a streamed turn. A write that fails ends the turn, before the result of the
  model is looked at.\<close>

definition stream_reply ::
  "'d chat_ops \<Rightarrow> 'd stream_op \<Rightarrow> 'd chat_env \<Rightarrow> string \<Rightarrow> incoming_turn \<Rightarrow>
     memory_read_context tool_execution_context \<Rightarrow> message list \<Rightarrow> stream_writer \<Rightarrow> gate_state \<times> 'd \<Rightarrow>
     unit res \<times> stream_writer \<times> gate_state \<times> 'd" where
  "stream_reply ops stream env conv_id turn ctx messages w gs =
     (case stream messages 512 (snd gs) of
        (toks, llm_result, d) \<Rightarrow>
          (case consume toks stream_init w of
             (Inl e, w) \<Rightarrow> (Err e, w, fst gs, d)
           | (Inr st, w) \<Rightarrow>
               (case llm_result of
                  Inl e \<Rightarrow> (Err e, w, fst gs, d)
                | Inr llm_response \<Rightarrow> finish_stream ops env conv_id turn ctx llm_response st w (fst gs, d))))"

definition stream_chat_turn ::
  "'d chat_ops \<Rightarrow> 'd stream_op \<Rightarrow> 'd chat_env \<Rightarrow> string option \<Rightarrow> string \<Rightarrow> incoming_turn \<Rightarrow> request_origin \<Rightarrow>
     stream_writer \<Rightarrow> gate_state \<times> 'd \<Rightarrow> unit res \<times> stream_writer \<times> gate_state \<times> 'd" where
  "stream_chat_turn ops stream env blocked conv_id turn origin w gs =
     (case op_append ops conv_id
             [\<lparr>bm_role = ''user'', bm_content = turn_text turn, bm_tool = None,
               bm_speaker = named_speaker (turn_speaker turn)\<rparr>] (snd gs) of
        (Inl e, d) \<Rightarrow> (Err e, w, fst gs, d)
      | (Inr _, d) \<Rightarrow>
          let ctx = turn_tool_context turn origin False in
          (case op_quick_route ops (turn_text turn) d of
             Some call \<Rightarrow>
               (case write_events [StreamHead 200, EventStart conv_id] w of
                  (Inl e, w) \<Rightarrow> (Err e, w, fst gs, d)
                | (Inr _, w) \<Rightarrow>
                    (case execute_with_context (en_body env) (en_gate env) (en_clk env) (en_clk_end env) call ctx
                            (fst gs, d) of
                       (res, g, d) \<Rightarrow>
                         (case finalize_direct_tool_turn ops (en_to_json env) conv_id call res d of
                            (reply, d) \<Rightarrow>
                              (case write_event (EventReplace reply (res_tool res)) w of
                                 (Inl e, w) \<Rightarrow> (Err e, w, g, d)
                               | (Inr _, w) \<Rightarrow>
                                   let d = op_extract ops (turn_text turn) d;
                                       (r, w) = write_event (EventDone reply (Some (res_tool res)) conv_id) w
                                   in (r, w, g, d)))))
           | None \<Rightarrow>
               (case blocked of
                  Some reasons \<Rightarrow>
                    (case write_events [StreamHead 503, EventError (misconfigured reasons)] w of
                       (r, w) \<Rightarrow> (r, w, fst gs, d))
                | None \<Rightarrow>
                    (case op_recent ops conv_id (en_max_history env) d of
                       (Inl e, d) \<Rightarrow> (Err e, w, fst gs, d)
                     | (Inr history, d') \<Rightarrow>
                         (case write_events [StreamHead 200, EventStart conv_id] w of
                            (Inl e, w) \<Rightarrow> (Err e, w, fst gs, d')
                          | (Inr _, w) \<Rightarrow>
                              stream_reply ops stream env conv_id turn ctx (turn_prompt ops env turn history d) w
                                (fst gs, d'))))))"

definition handle_chat_stream ::
  "'d chat_ops \<Rightarrow> 'd stream_op \<Rightarrow> 'd chat_env \<Rightarrow> (string \<Rightarrow> string) \<Rightarrow> string option \<Rightarrow> string \<Rightarrow> int \<Rightarrow>
     request_origin \<Rightarrow> string option \<Rightarrow> stream_writer \<Rightarrow> 'd chat_world \<Rightarrow>
     unit res \<times> stream_writer \<times> 'd chat_world" where
  "handle_chat_stream ops stream env invalid blocked current now origin body w wd =
     (case read_chat_body (en_from_str env) (\<lambda>b. ''invalid JSON: '' @ invalid b) body of
        Inl m \<Rightarrow> (case write_events [StreamHead 400, EventError m] w of (r, w) \<Rightarrow> (r, w, wd))
      | Inr parsed \<Rightarrow>
          let turn = incoming_turn_from_chat_json parsed current;
              (conv_id, registry) = resolve_chat_conv_id (client_conv_id parsed) turn now (fst wd)
          in (case stream_chat_turn ops stream env blocked conv_id turn origin w (snd wd) of
                (r, w, gs) \<Rightarrow> (r, w, registry, gs)))"

section \<open>Laws of the stream\<close>

text \<open>The text that a list of events shows as tokens.\<close>

definition token_text :: "stream_event \<Rightarrow> string" where
  "token_text e = (case e of EventToken t \<Rightarrow> t | _ \<Rightarrow> [])"

definition shown_text :: "stream_event list \<Rightarrow> string" where
  "shown_text es = concat (map token_text es)"

lemma shown_text_simps [simp]:
  "shown_text [] = []" "shown_text (e # es) = token_text e @ shown_text es"
  "shown_text (xs @ ys) = shown_text xs @ shown_text ys"
  by (simp_all add: shown_text_def)

lemma token_text_simps [simp]:
  "token_text (EventToken t) = t" "token_text (EventDone a b c) = []" "token_text (StreamHead n) = []"
  "token_text (EventReplace rep tool) = []" "token_text (EventStart c) = []" "token_text (EventError m) = []"
  by (simp_all add: token_text_def)

lemma write_event_Ok:
  "write_event e w = (Inr u, w') \<Longrightarrow> wr_events w' = wr_events w @ [e]"
  by (auto simp: write_event_def split: option.splits nat.splits)

lemma write_event_healthy [simp]:
  "wr_left w = None \<Longrightarrow> write_event e w = (Ok (), w\<lparr>wr_events := wr_events w @ [e]\<rparr>)"
  by (cases w) (simp add: write_event_def)

text \<open>What a consumer that has gone as far as \<open>st\<close> has shown of the text received so far.\<close>

definition stream_inv :: "string \<Rightarrow> string \<Rightarrow> stream_state \<Rightarrow> bool" where
  "stream_inv received shown st \<longleftrightarrow>
     (case ss_mode st of
        Undecided \<Rightarrow> shown = [] \<and> ss_pending st = received \<and> \<not> ss_emitted st
      | ToolMode \<Rightarrow> shown = [] \<and> ss_pending st = received \<and> \<not> ss_emitted st
      | TextMode \<Rightarrow> shown = received \<and> ss_pending st = [] \<and> ss_emitted st)"

lemma consume_token_inv:
  assumes "consume_token t st w = (Inr st', w')" and "stream_inv received shown st"
  obtains es where "wr_events w' = wr_events w @ es" and "stream_inv (received @ t) (shown @ shown_text es) st'"
proof (cases "ss_mode st")
  case TextMode
  then have "wr_events w' = wr_events w @ [EventToken t]" "st' = st\<lparr>ss_emitted := True\<rparr>"
    using assms(1) by (auto simp: consume_token_def dest!: write_event_Ok split: prod.splits sum.splits)
  then show ?thesis using that [of "[EventToken t]"] assms(2) TextMode by (simp add: stream_inv_def)
next
  case ToolMode
  then show ?thesis using that [of "[]"] assms by (auto simp: consume_token_def stream_inv_def)
next
  case Undecided
  then have p: "ss_pending st = received" "shown = []" "\<not> ss_emitted st" using assms(2) by (simp_all add: stream_inv_def)
  show ?thesis
  proof (cases "detect_stream_mode (received @ t)")
    case TextMode
    then have "wr_events w' = wr_events w @ [EventToken (received @ t)]"
      "st' = \<lparr>ss_mode = TextMode, ss_pending = [], ss_emitted = True\<rparr>"
      using assms(1) Undecided p
      by (auto simp: consume_token_def Let_def dest!: write_event_Ok split: prod.splits sum.splits)
    then show ?thesis using that [of "[EventToken (received @ t)]"] p by (simp add: stream_inv_def)
  qed (use that [of "[]"] assms p Undecided in \<open>auto simp: consume_token_def Let_def stream_inv_def\<close>)
qed

lemma consume_inv:
  assumes "consume ts st w = (Inr st', w')" and "stream_inv received shown st"
  shows "\<exists>es. wr_events w' = wr_events w @ es \<and> stream_inv (received @ concat ts) (shown @ shown_text es) st'"
  using assms
proof (induction ts arbitrary: st w received shown)
  case (Cons t ts)
  obtain st1 w1 where c: "consume_token t st w = (Inr st1, w1)" "consume ts st1 w1 = (Inr st', w')"
    using Cons.prems(1) by (auto split: prod.splits sum.splits)
  obtain e1 where e1: "wr_events w1 = wr_events w @ e1" "stream_inv (received @ t) (shown @ shown_text e1) st1"
    using consume_token_inv [OF c(1) Cons.prems(2)] by blast
  obtain e2 where "wr_events w' = wr_events w1 @ e2"
    "stream_inv ((received @ t) @ concat ts) ((shown @ shown_text e1) @ shown_text e2) st'"
    using Cons.IH [OF c(2) e1(2)] by blast
  then show ?case using e1 by (intro exI [of _ "e1 @ e2"]) simp
qed simp

lemma consume_init:
  assumes "consume ts stream_init w = (Inr st, w')"
  obtains es where "wr_events w' = wr_events w @ es" and "stream_inv (concat ts) (shown_text es) st"
  using consume_inv [OF assms, of "[]" "[]"] by (auto simp: stream_inv_def [of "[]"] stream_init_def)

text \<open>A stream that is taken for a tool call contains the name of a tool or of a field of a call.\<close>

lemma trim_start_suffix: "\<exists>a. s = a @ trim_start s"
  unfolding trim_start_def by (metis takeWhile_dropWhile_id)

lemma strip_prefix_suffix: "strip_prefix s p = Some r \<Longrightarrow> \<exists>a. s = a @ r"
  by (auto simp: strip_prefix_def rust_str split: if_splits)

lemma looks_like_tool_json_mono: "looks_like_tool_json s \<Longrightarrow> looks_like_tool_json (a @ s @ b)"
  unfolding looks_like_tool_json_def list_ex_iff using str_contains_append by blast

lemma detect_tool_mode: "detect_stream_mode s = ToolMode \<Longrightarrow> looks_like_tool_json s"
proof -
  assume d: "detect_stream_mode s = ToolMode"
  obtain a where a: "s = a @ trim_start s" using trim_start_suffix by blast
  have "\<exists>b r. trim_start s = b @ r \<and> looks_like_tool_json r"
  proof (cases "case strip_prefix (trim_start s) (fence @ ''json'') of Some i \<Rightarrow> Some i | None \<Rightarrow> strip_prefix (trim_start s) fence")
    case None
    then have "looks_like_tool_json (trim_start s)"
      using d by (simp add: detect_stream_mode_def Let_def split: if_splits)
    then show ?thesis by (intro exI [of _ "[]"] exI [of _ "trim_start s"]) simp
  next
    case (Some i)
    then have "looks_like_tool_json (trim_start i)"
      using d by (simp add: detect_stream_mode_def Let_def split: if_splits)
    moreover obtain b where "trim_start s = b @ i" using Some strip_prefix_suffix by (auto split: option.splits)
    moreover obtain c where "i = c @ trim_start i" using trim_start_suffix by blast
    ultimately show ?thesis by (intro exI [of _ "b @ c"] exI [of _ "trim_start i"]) simp
  qed
  then obtain b r where "s = (a @ b) @ r @ []" "looks_like_tool_json r" using a by auto
  then show ?thesis using looks_like_tool_json_mono by metis
qed

lemma consume_token_mode:
  assumes "consume_token t st w = (Inr st', w')" and "stream_inv received shown st"
    and "ss_mode st = ToolMode \<Longrightarrow> looks_like_tool_json received" and "ss_mode st' = ToolMode"
  shows "looks_like_tool_json (received @ t)"
proof (cases "ss_mode st")
  case ToolMode
  then show ?thesis using assms(3) looks_like_tool_json_mono [of received "[]" t] by simp
next
  case Undecided
  then have "detect_stream_mode (received @ t) = ToolMode"
    using assms by (auto simp: consume_token_def stream_inv_def Let_def split: stream_mode.splits prod.splits sum.splits)
  then show ?thesis by (rule detect_tool_mode)
qed (use assms in \<open>auto simp: consume_token_def split: prod.splits sum.splits\<close>)

lemma consume_mode:
  assumes "consume ts st w = (Inr st', w')" and "stream_inv received shown st"
    and "ss_mode st = ToolMode \<Longrightarrow> looks_like_tool_json received" and "ss_mode st' = ToolMode"
  shows "looks_like_tool_json (received @ concat ts)"
  using assms
proof (induction ts arbitrary: st w received shown)
  case (Cons t ts)
  obtain st1 w1 where c: "consume_token t st w = (Inr st1, w1)" "consume ts st1 w1 = (Inr st', w')"
    using Cons.prems(1) by (auto split: prod.splits sum.splits)
  obtain e1 where e1: "stream_inv (received @ t) (shown @ shown_text e1) st1"
    using consume_token_inv [OF c(1) Cons.prems(2)] by blast
  have "looks_like_tool_json ((received @ t) @ concat ts)"
    by (rule Cons.IH [OF c(2) e1]) (use consume_token_mode [OF c(1) Cons.prems(2,3)] Cons.prems(4) in blast)+
  then show ?case by simp
qed (auto simp: consume_token_def)

lemma consume_healthy:
  "wr_left w = None \<Longrightarrow> \<exists>st w'. consume ts st0 w = (Inr st, w') \<and> wr_left w' = None"
proof (induction ts arbitrary: st0 w)
  case (Cons t ts)
  have "\<exists>st w'. consume_token t st0 w = (Inr st, w') \<and> wr_left w' = None"
    using Cons.prems by (auto simp: consume_token_def Let_def split: stream_mode.splits)
  then obtain st1 w1 where "consume_token t st0 w = (Inr st1, w1)" "wr_left w1 = None" by blast
  then show ?case using Cons.IH [of w1 st1] by simp
qed simp

text \<open>A plain answer is streamed as the model wrote it: when the response is no tool call and does
  not look like one, the token events of a streamed turn spell the raw response, and only the last
  event carries the sanitized text, which is also what is stored. So the redaction that the reply of
  a plain chat request goes through does not protect a streamed one.\<close>

theorem streamed_reply_shown_raw:
  assumes "stream messages 512 d = (toks, Inr (concat toks), d')" and "wr_left w = None"
    and "call_in_response (en_from_str env) (en_known env) (concat toks) = None"
    and "\<not> is_unparsed_tool_call (en_from_str env) (concat toks)" and "\<not> looks_like_tool_json (concat toks)"
  shows "\<exists>es w'. stream_reply ops stream env conv_id turn ctx messages w (g, d)
       = (Ok (), w', g, op_extract ops (turn_text turn)
           (store_or_log ops conv_id [plain_message ''assistant'' (sanitize_output (concat toks))] d'))
     \<and> wr_events w' = wr_events w @ es @ [EventDone (sanitize_output (concat toks)) None conv_id]
     \<and> shown_text es = concat toks"
proof -
  obtain st w1 where c: "consume toks stream_init w = (Inr st, w1)" and h: "wr_left w1 = None"
    using consume_healthy [OF assms(2)] by blast
  obtain es where es: "wr_events w1 = wr_events w @ es" "stream_inv (concat toks) (shown_text es) st"
    using consume_init [OF c] by blast
  have nt: "ss_mode st \<noteq> ToolMode"
    using consume_mode [OF c, of "[]" "[]"] assms(5) by (auto simp: stream_inv_def stream_init_def)
  let ?es = "if ss_pending st \<noteq> [] \<and> ss_mode st = Undecided then es @ [EventToken (ss_pending st)] else es"
  have "shown_text ?es = concat toks"
    using es(2) nt by (cases "ss_mode st") (auto simp: stream_inv_def)
  moreover have "stream_reply ops stream env conv_id turn ctx messages w (g, d)
       = (Ok (), w1\<lparr>wr_events := wr_events w @ ?es @ [EventDone (sanitize_output (concat toks)) None conv_id]\<rparr>, g,
          op_extract ops (turn_text turn)
           (store_or_log ops conv_id [plain_message ''assistant'' (sanitize_output (concat toks))] d'))"
    using assms(1,3,4) c h es(1)
    by (simp add: stream_reply_def finish_stream_def try_tool_call_with_context_def Let_def)
  ultimately show ?thesis by (intro exI [of _ ?es] exI conjI) (assumption, simp, assumption)
qed

definition secret_stream :: "unit stream_op" where
  "secret_stream messages n d = ([''Your key is '', ''sk-AbCdEf0123456789xyz''], Ok ''Your key is sk-AbCdEf0123456789xyz'', d)"

lemma streamed_reply_shown_raw_witness:
  "\<forall>(env :: unit chat_env) ctx g. \<exists>es w'.
     fst (snd (stream_reply sample_ops secret_stream (env\<lparr>en_from_str := (\<lambda>j. None)\<rparr>) ''c'' sample_turn ctx []
        \<lparr>wr_events = [], wr_left = None\<rparr> (g, ()))) = w'
     \<and> wr_events w' = es @ [EventDone (sanitize_output ''Your key is sk-AbCdEf0123456789xyz'') None ''c'']
     \<and> shown_text es = ''Your key is sk-AbCdEf0123456789xyz''
     \<and> \<not> str_contains (sanitize_output ''Your key is sk-AbCdEf0123456789xyz'') ''sk-AbCdEf0123456789xyz''"
proof (intro allI)
  fix env :: "unit chat_env" and ctx g
  let ?r = "''Your key is sk-AbCdEf0123456789xyz''"
  let ?env = "env\<lparr>en_from_str := (\<lambda>j. None)\<rparr>"
  have s: "secret_stream [] 512 () = ([''Your key is '', ''sk-AbCdEf0123456789xyz''],
      Inr (concat [''Your key is '', ''sk-AbCdEf0123456789xyz'']), ())" by (simp add: secret_stream_def)
  have "call_in_response (en_from_str ?env) (en_known ?env) (concat [''Your key is '', ''sk-AbCdEf0123456789xyz'']) = None"
    by (simp add: call_in_response_def split: option.split)
  moreover have "\<not> looks_toolish (trim ?r)" by code_simp
  then have "\<not> is_unparsed_tool_call (en_from_str ?env) (concat [''Your key is '', ''sk-AbCdEf0123456789xyz''])"
    by (simp add: is_unparsed_tool_call_def Let_def split: option.split)
  moreover have "\<not> looks_like_tool_json (concat [''Your key is '', ''sk-AbCdEf0123456789xyz''])" by code_simp
  moreover have "\<not> str_contains (sanitize_output ?r) ''sk-AbCdEf0123456789xyz''" by code_simp
  ultimately show "\<exists>es w'. fst (snd (stream_reply sample_ops secret_stream ?env ''c'' sample_turn ctx []
        \<lparr>wr_events = [], wr_left = None\<rparr> (g, ()))) = w'
     \<and> wr_events w' = es @ [EventDone (sanitize_output ?r) None ''c'']
     \<and> shown_text es = ?r \<and> \<not> str_contains (sanitize_output ?r) ''sk-AbCdEf0123456789xyz''"
    using s streamed_reply_shown_raw [of secret_stream "[]" "()" "[''Your key is '', ''sk-AbCdEf0123456789xyz'']" "()"
      "\<lparr>wr_events = [], wr_left = None\<rparr>" ?env sample_ops "''c''" sample_turn ctx g]
    by (auto simp: exI)
qed

section \<open>Streaming and not streaming agree\<close>

text \<open>The events of a turn that ends with a result or an error.\<close>

lemma finish_stream_agrees:
  assumes "wr_left w = None" and "finish_chat_turn ops env conv_id turn ctx r gs = (res, g', d')"
  shows "\<exists>c es. res = Ok c \<and> finish_stream ops env conv_id turn ctx r st w gs
     = (Ok (), w\<lparr>wr_events := wr_events w @ es @ [EventDone (ctr_response c) (ctr_tool c) (ctr_conversation_id c)]\<rparr>, g', d')"
proof (cases "try_tool_call_with_context (en_from_str env) (en_known env) (en_body env)
             (en_gate env) (en_clk env) (en_clk_end env) r ctx gs")
  case (fields tr g d)
  show ?thesis
  proof (cases tr)
    case None
    let ?es = "if ss_pending st \<noteq> [] \<and> ss_mode st = Undecided then [EventToken (ss_pending st)] else []"
    show ?thesis using assms fields None
      by (intro exI [of _ "projr res"] exI [of _ ?es]) (auto simp: finish_stream_def finish_chat_turn_def Let_def)
  next
    case (Some tres)
    let ?es = "if \<not> ss_emitted st
      then [EventReplace (fst (finalize_tool_turn ops conv_id r tres (en_family env) d)) (res_tool tres)] else []"
    show ?thesis using assms fields Some
      by (intro exI [of _ "projr res"] exI [of _ ?es])
         (auto simp: finish_stream_def finish_chat_turn_def Let_def split: prod.splits)
  qed
qed

lemma local_completion: "chat_completion ops None messages d = op_complete ops messages 512 d"
  by (simp add: chat_completion_def may_escalate_def split: prod.split sum.split)



end
