(* ===== verification/OpenAiChat.thy ===== *)
theory OpenAiChat
  imports StreamChat
begin

text \<open>
  The OpenAI-compatible bridge of \<open>server.rs\<close> (\<open>POST /v1/chat/completions\<close>): the messages and hints of
  the request, the turn through memory, model, tools and sanitizer, and the answer. The bridge keeps
  no conversation. The completion with or without hints is an operation; the time is an argument.
\<close>

section \<open>Reading the request\<close>

fun json_as_array :: "json \<Rightarrow> json list option" where
  "json_as_array (JArr xs) = Some xs"
| "json_as_array _ = None"

fun json_as_i64 :: "json \<Rightarrow> int option" where
  "json_as_i64 (JNum (PosInt n)) = (if int n < 2 ^ 63 then Some (int n) else None)"
| "json_as_i64 (JNum (NegInt i)) = Some i"
| "json_as_i64 _ = None"

definition get_str :: "json \<Rightarrow> string \<Rightarrow> string option" where
  "get_str v k = Option.bind (json_get v k) json_as_str"

definition part_text :: "json \<Rightarrow> string option" where
  "part_text part = (if get_str part ''type'' = Some ''text'' then get_str part ''text'' else None)"

definition message_content_to_string :: "json \<Rightarrow> string option" where
  "message_content_to_string content =
     (case json_as_str content of
        Some t \<Rightarrow> Some t
      | None \<Rightarrow>
          (case json_as_array content of
             None \<Rightarrow> None
           | Some parts \<Rightarrow>
               let t = join_str [CHR 10] (List.map_filter part_text parts)
               in if trim t = [] then None else Some t))"

definition openai_message :: "json \<Rightarrow> message option" where
  "openai_message m =
     (case get_str m ''role'' of
        None \<Rightarrow> None
      | Some r \<Rightarrow>
          if r \<in> {''system'', ''user'', ''assistant''}
          then map_option (\<lambda>c. \<lparr>msg_role = r, msg_content = c\<rparr>)
                 (Option.bind (json_get m ''content'') message_content_to_string)
          else None)"

definition parse_openai_messages :: "json list \<Rightarrow> nat \<Rightarrow> message list" where
  "parse_openai_messages ms max_history =
     List.map_filter openai_message (drop (length ms - max_history) ms)"

definition request_messages :: "json \<Rightarrow> nat \<Rightarrow> message list" where
  "request_messages parsed max_history =
     (case Option.bind (json_get parsed ''messages'') json_as_array of
        Some ms \<Rightarrow> parse_openai_messages ms max_history | None \<Rightarrow> [])"

definition last_user_text :: "message list \<Rightarrow> string" where
  "last_user_text ms =
     (case find (\<lambda>m. msg_role m = ''user'') (rev ms) of Some m \<Rightarrow> msg_content m | None \<Rightarrow> [])"

text \<open>\<open>as u32\<close> keeps the low 32 bits.\<close>

definition request_max_tokens :: "json \<Rightarrow> nat" where
  "request_max_tokens parsed =
     (case Option.bind (json_get parsed ''max_tokens'') json_as_u64 of Some n \<Rightarrow> n | None \<Rightarrow> 256) mod 2 ^ 32"

record llm_hints =
  lh_session :: "string option"
  lh_priority :: "int option"
  lh_osl :: "nat option"
  lh_prefill :: bool
  lh_cache_ttl_secs :: "nat option"

definition hints_agent_turn :: "string \<Rightarrow> nat \<Rightarrow> llm_hints" where
  "hints_agent_turn session_id osl =
     \<lparr>lh_session = Some session_id, lh_priority = Some 50, lh_osl = Some osl, lh_prefill = False,
      lh_cache_ttl_secs = Some (15 * 60)\<rparr>"

definition hints_tool_summary :: "string \<Rightarrow> nat \<Rightarrow> llm_hints" where
  "hints_tool_summary session_id osl =
     \<lparr>lh_session = Some session_id, lh_priority = Some 30, lh_osl = Some osl, lh_prefill = False,
      lh_cache_ttl_secs = Some (2 * 60)\<rparr>"

definition agent_hint :: "json \<Rightarrow> string \<Rightarrow> json option" where
  "agent_hint parsed k =
     Option.bind (Option.bind (json_get parsed ''nvext'') (\<lambda>v. json_get v ''agent_hints'')) (\<lambda>v. json_get v k)"

definition llm_hints_from_openai_body :: "json \<Rightarrow> nat \<Rightarrow> llm_hints option" where
  "llm_hints_from_openai_body parsed max_tokens =
     (case (case get_str parsed ''conversation_id'' of
              Some s \<Rightarrow> Some s | None \<Rightarrow> Option.bind (agent_hint parsed ''session_id'') json_as_str) of
        None \<Rightarrow> None
      | Some s \<Rightarrow>
          let session_id = trim s in
          if session_id = [] then None
          else
            let h = hints_agent_turn session_id max_tokens;
                h = (case Option.bind (agent_hint parsed ''priority'') json_as_i64 of
                       Some p \<Rightarrow> h\<lparr>lh_priority := Some (max (- (2 ^ 31)) (min p (2 ^ 31 - 1)))\<rparr> | None \<Rightarrow> h);
                h = (case Option.bind (agent_hint parsed ''osl'') json_as_u64 of
                       Some n \<Rightarrow> h\<lparr>lh_osl := Some (min n (2 ^ 32 - 1))\<rparr> | None \<Rightarrow> h);
                h = (case Option.bind (agent_hint parsed ''speculative_prefill'') json_as_bool of
                       Some b \<Rightarrow> h\<lparr>lh_prefill := b\<rparr> | None \<Rightarrow> h)
            in Some h)"

section \<open>Answers\<close>

definition json_nat :: "nat \<Rightarrow> json" where
  "json_nat n = JNum (PosInt n)"

text \<open>The answer, its keys in the order of the map that holds them.\<close>

definition openai_chat_response :: "nat \<Rightarrow> string \<Rightarrow> string \<Rightarrow> json" where
  "openai_chat_response timestamp model content =
     JObj [(''choices'', JArr [JObj
              [(''finish_reason'', JStr ''stop''), (''index'', json_nat 0),
               (''message'', JObj [(''content'', JStr content), (''role'', JStr ''assistant'')])]]),
           (''created'', json_nat timestamp), (''id'', JStr (''chatcmpl-'' @ show_nat timestamp)),
           (''model'', JStr model), (''object'', JStr ''chat.completion''),
           (''usage'', JObj [(''completion_tokens'', json_nat 0), (''prompt_tokens'', json_nat 0),
              (''total_tokens'', json_nat 0)])]"

definition openai_error_body :: "string \<Rightarrow> string" where
  "openai_error_body m =
     ''{'' @ quoted_key ''error'' @ '':{'' @ quoted_key ''message'' @ '':'' @ quoted_key m @ ''}}''"

definition openai_server_error :: "string \<Rightarrow> string" where
  "openai_server_error m =
     ''{'' @ quoted_key ''error'' @ '':{'' @ quoted_key ''message'' @ '':'' @ quoted_key m @ '',''
     @ quoted_key ''type'' @ '':'' @ quoted_key ''server_error'' @ ''}}''"

section \<open>The bridge\<close>

type_synonym 'd hinted_op = "llm_hints option \<Rightarrow> message list \<Rightarrow> nat \<Rightarrow> 'd \<Rightarrow> string res \<times> 'd"

definition bridge_context :: "request_origin \<Rightarrow> memory_read_context tool_execution_context" where
  "bridge_context origin = \<lparr>ctx_memory = None, request_origin = origin, confirmed = False\<rparr>"

definition bridge_prompt :: "'d chat_ops \<Rightarrow> 'd chat_env \<Rightarrow> message list \<Rightarrow> 'd \<Rightarrow> message list" where
  "bridge_prompt ops env incoming d =
     (let full_prompt = en_system_prompt env @ [CHR 10, CHR 10] @ ''Relevant household context:'' @ [CHR 10]
            @ build_memory_context (en_ellipsis env) (op_memory ops d) (last_user_text incoming);
          messages = \<lparr>msg_role = ''system'', msg_content = full_prompt\<rparr> # incoming
      in fst (apply_reasoning_mode (en_family env) messages (last_user_text incoming) OpenAiBridge))"

text \<open>The summary of a tool result by the model; when it fails, the result itself.\<close>

definition bridge_summary ::
  "'d hinted_op \<Rightarrow> model_family \<Rightarrow> llm_hints option \<Rightarrow> message list \<Rightarrow> string \<Rightarrow> tool_result \<Rightarrow> 'd \<Rightarrow> string \<times> 'd" where
  "bridge_summary chat family hints messages llm_response res d =
     (let summary = messages @
            [\<lparr>msg_role = ''assistant'', msg_content = llm_response\<rparr>,
             \<lparr>msg_role = ''system'', msg_content = ''Tool result: '' @ res_output res\<rparr>,
             \<lparr>msg_role = ''system'', msg_content =
                ''Summarize the tool result in one natural sentence without changing numbers, measurements, or facts.''\<rparr>];
          h = map_option (\<lambda>h. hints_tool_summary (case lh_session h of Some s \<Rightarrow> s | None \<Rightarrow> []) 128) hints
      in case chat h (fst (apply_reasoning_mode family summary [] ToolSummary)) 128 d of
           (Inr t, d) \<Rightarrow> (t, d) | (Inl e, d) \<Rightarrow> (res_output res, d))"

definition bridge_reply ::
  "'d hinted_op \<Rightarrow> 'd chat_env \<Rightarrow> llm_hints option \<Rightarrow> message list \<Rightarrow> string \<Rightarrow> request_origin \<Rightarrow>
     gate_state \<times> 'd \<Rightarrow> string \<times> gate_state \<times> 'd" where
  "bridge_reply chat env hints messages llm_response origin gs =
     (case try_tool_call_with_context (en_from_str env) (en_known env) (en_body env)
             (en_gate env) (en_clk env) (en_clk_end env) llm_response (bridge_context origin) gs of
        (Some res, g, d) \<Rightarrow>
          if should_summarize_tool_result (res_tool res)
          then (case bridge_summary chat (en_family env) hints messages llm_response res d of (t, d) \<Rightarrow> (t, g, d))
          else (res_output res, g, d)
      | (None, g, d) \<Rightarrow>
          (if is_unparsed_tool_call (en_from_str env) llm_response then en_fallback env else llm_response, g, d))"

definition handle_openai_chat ::
  "'d chat_ops \<Rightarrow> 'd hinted_op \<Rightarrow> 'd chat_env \<Rightarrow> (string \<Rightarrow> string) \<Rightarrow> nat \<Rightarrow> request_origin \<Rightarrow> string option \<Rightarrow>
     gate_state \<times> 'd \<Rightarrow> (nat \<times> string) \<times> gate_state \<times> 'd" where
  "handle_openai_chat ops chat env invalid timestamp origin body gs =
     (case body of
        None \<Rightarrow> ((400, openai_error_body ''missing body''), gs)
      | Some b \<Rightarrow>
          (case en_from_str env b of
             None \<Rightarrow> ((400, openai_error_body (invalid b)), gs)
           | Some parsed \<Rightarrow>
               let incoming = request_messages parsed (en_max_history env);
                   user_text = last_user_text incoming;
                   max_tokens = request_max_tokens parsed;
                   model = (case get_str parsed ''model'' of Some m \<Rightarrow> m | None \<Rightarrow> ''nemotron-4b'');
                   answer = (\<lambda>content g d. ((200, en_to_json env (openai_chat_response timestamp model
                       (sanitize_output content))), g, op_extract ops user_text d))
               in if trim user_text = [] then ((400, openai_error_body ''no user message found''), gs)
                  else (case op_quick_route ops user_text (snd gs) of
                    Some call \<Rightarrow>
                      (case execute_with_context (en_body env) (en_gate env) (en_clk env) (en_clk_end env) call
                              (bridge_context origin) gs of
                         (res, g, d) \<Rightarrow>
                           answer (if res_success res then res_output res
                                   else res_tool res @ '' failed: '' @ res_output res) g d)
                  | None \<Rightarrow>
                      let messages = bridge_prompt ops env incoming (snd gs);
                          hints = llm_hints_from_openai_body parsed max_tokens
                      in (case chat hints messages max_tokens (snd gs) of
                            (Inl e, d) \<Rightarrow> ((500, openai_server_error (''LLM error: '' @ e)), fst gs, d)
                          | (Inr llm_response, d) \<Rightarrow>
                              (case bridge_reply chat env hints messages llm_response origin (fst gs, d) of
                                 (reply, g, d) \<Rightarrow> answer reply g d)))))"

section \<open>Properties\<close>

text \<open>Whatever the model, the tools and the memories return, an answer of the bridge is the
  document of a sanitized text; a request is refused, and then changes nothing, exactly for a
  missing or unreadable body or the lack of a user message; and the one other answer reports an
  error of the model and leaves the tool gate alone.\<close>

theorem bridge_answers_sanitized:
  "case handle_openai_chat ops chat env invalid timestamp origin body gs of
     ((status, answer), gs') \<Rightarrow>
       (status = 200 \<and> (\<exists>model raw. answer = en_to_json env (openai_chat_response timestamp model (sanitize_output raw))))
     \<or> (status = 400 \<and> gs' = gs
         \<and> (case body of None \<Rightarrow> True | Some b \<Rightarrow> (case en_from_str env b of None \<Rightarrow> True
             | Some parsed \<Rightarrow> trim (last_user_text (request_messages parsed (en_max_history env))) = [])))
     \<or> (status = 500 \<and> fst gs' = fst gs \<and> (\<exists>h ms n e. fst (chat h ms n (snd gs)) = Err e
         \<and> answer = openai_server_error (''LLM error: '' @ e)))"
proof (cases body)
  case (Some b)
  show ?thesis
  proof (cases "en_from_str env b")
    case (Some parsed)
    show ?thesis
    proof (cases "trim (last_user_text (request_messages parsed (en_max_history env))) = []")
      case False
      let ?u = "last_user_text (request_messages parsed (en_max_history env))"
      show ?thesis
      proof (cases "op_quick_route ops ?u (snd gs)")
        case (Some call)
        then show ?thesis using \<open>body = Some b\<close> \<open>en_from_str env b = Some parsed\<close> False
          by (auto simp: handle_openai_chat_def Let_def split: prod.split)
      next
        case None
        let ?mt = "request_max_tokens parsed"
        let ?ms = "bridge_prompt ops env (request_messages parsed (en_max_history env)) (snd gs)"
        obtain r d where r: "chat (llm_hints_from_openai_body parsed ?mt) ?ms ?mt (snd gs) = (r, d)"
          by (rule prod.exhaust)
        have "\<exists>h ms n e. fst (chat h ms n (snd gs)) = Err e \<and> openai_server_error (''LLM error: '' @ m)
            = openai_server_error (''LLM error: '' @ e)" if "r = Inl m" for m
          using r that by (intro exI [of _ "llm_hints_from_openai_body parsed ?mt"] exI [of _ ?ms] exI [of _ ?mt]
            exI [of _ m]) simp
        then show ?thesis using \<open>body = Some b\<close> \<open>en_from_str env b = Some parsed\<close> False None r
          by (cases r) (auto simp: handle_openai_chat_def Let_def split: prod.split)
      qed
    qed (use \<open>body = Some b\<close> Some in \<open>simp add: handle_openai_chat_def Let_def\<close>)
  qed (use Some in \<open>simp add: handle_openai_chat_def\<close>)
qed (simp add: handle_openai_chat_def)

end
