(* ===== verification/HttpReader.thy ===== *)
theory HttpReader
  imports Routes
begin

text \<open>
  The bounded HTTP/1.1 readers of \<open>genie-common/src/http.rs\<close>: lines, requests and responses.

  A connection is the list of the pieces in which its bytes arrive (what \<open>fill_buf\<close> returns) and
  the way it ends: closed by the peer, failed, or silent for ever. \<open>read_request\<close> answers silence
  with a timeout; for \<open>read_response\<close>, which has no deadline of its own, the same value stands for
  a call that the deadline of its caller ends. The decoding of bytes, lossy and strict, is an argument.
\<close>

section \<open>Connections\<close>

datatype stream_end = PeerClosed | IoFailure string | Silent

datatype http_read_error = Timeout | Closed | Malformed | RequestLineTooLong | StatusLineTooLong
  | HeaderLineTooLong | TooManyHeaders | HeadersTooLarge | BodyTooLarge | InvalidContentLength
  | UnsupportedTransferEncoding | IoError string

type_synonym in_stream = "char list list \<times> stream_end"

definition bytes_of :: "in_stream \<Rightarrow> char list" where
  "bytes_of s = concat (fst s)"

definition http_status_code :: "http_read_error \<Rightarrow> nat option" where
  "http_status_code e =
     (case e of
        RequestLineTooLong \<Rightarrow> Some 431 | StatusLineTooLong \<Rightarrow> Some 431 | HeaderLineTooLong \<Rightarrow> Some 431
      | TooManyHeaders \<Rightarrow> Some 431 | HeadersTooLarge \<Rightarrow> Some 431
      | BodyTooLarge \<Rightarrow> Some 413
      | InvalidContentLength \<Rightarrow> Some 400 | UnsupportedTransferEncoding \<Rightarrow> Some 400
      | Timeout \<Rightarrow> None | Closed \<Rightarrow> None | Malformed \<Rightarrow> None | IoError _ \<Rightarrow> None)"

text \<open>What a read finds when the bytes have run out: \<open>Ok\<close> at the end of the stream.\<close>

definition at_end :: "stream_end \<Rightarrow> http_read_error + unit" where
  "at_end e = (case e of PeerClosed \<Rightarrow> Ok () | IoFailure m \<Rightarrow> Err (IoError m) | Silent \<Rightarrow> Err Timeout)"

section \<open>Lines\<close>

fun read_line_loop ::
  "nat \<Rightarrow> http_read_error \<Rightarrow> stream_end \<Rightarrow> char list \<Rightarrow> char list list \<Rightarrow>
     http_read_error + char list \<times> char list list" where
  "read_line_loop max_bytes too_long fin out [] = (case at_end fin of Inl e \<Rightarrow> Err e | Inr _ \<Rightarrow> Ok (out, []))"
| "read_line_loop max_bytes too_long fin out (b # bs) =
     (if b = [] then read_line_loop max_bytes too_long fin out bs
      else case find_index (\<lambda>c. c = CHR 10) b of
        Some idx \<Rightarrow>
          if length out + (idx + 1) > max_bytes then Err too_long
          else Ok (out @ take (idx + 1) b, drop (idx + 1) b # bs)
      | None \<Rightarrow>
          if length out + length b > max_bytes then Err too_long
          else read_line_loop max_bytes too_long fin (out @ b) bs)"

definition read_line_bounded ::
  "nat \<Rightarrow> http_read_error \<Rightarrow> in_stream \<Rightarrow> http_read_error + char list \<times> in_stream" where
  "read_line_bounded max_bytes too_long s =
     (case read_line_loop max_bytes too_long (snd s) [] (fst s) of
        Inl e \<Rightarrow> Err e
      | Inr (line, segs) \<Rightarrow> Ok (line, segs, snd s))"

definition EARLY_EOF :: http_read_error where
  "EARLY_EOF = IoError ''early eof''"

fun read_exact_loop :: "stream_end \<Rightarrow> nat \<Rightarrow> char list \<Rightarrow> char list list \<Rightarrow>
     http_read_error + char list \<times> char list list" where
  "read_exact_loop fin n out [] =
     (if n = 0 then Ok (out, [])
      else case at_end fin of Inl e \<Rightarrow> Err e | Inr _ \<Rightarrow> Err EARLY_EOF)"
| "read_exact_loop fin n out (b # bs) =
     (if n \<le> length b then Ok (out @ take n b, drop n b # bs)
      else read_exact_loop fin (n - length b) (out @ b) bs)"

definition read_exact :: "nat \<Rightarrow> in_stream \<Rightarrow> http_read_error + char list \<times> in_stream" where
  "read_exact n s =
     (case read_exact_loop (snd s) n [] (fst s) of
        Inl e \<Rightarrow> Err e | Inr (bs, segs) \<Rightarrow> Ok (bs, segs, snd s))"

text \<open>\<open>take(cap + 1)\<close> followed by a read to the end.\<close>

definition read_to_end_capped :: "nat \<Rightarrow> in_stream \<Rightarrow> http_read_error + char list" where
  "read_to_end_capped cap s =
     (if cap < length (bytes_of s) then Ok (take (cap + 1) (bytes_of s))
      else case at_end (snd s) of Inl e \<Rightarrow> Err e | Inr _ \<Rightarrow> Ok (bytes_of s))"

section \<open>The pieces do not matter\<close>

text \<open>A line as a function of all the bytes.\<close>

definition line_of :: "nat \<Rightarrow> http_read_error \<Rightarrow> stream_end \<Rightarrow> nat \<Rightarrow> char list \<Rightarrow>
     http_read_error + char list \<times> char list" where
  "line_of max_bytes too_long fin used bs =
     (case find_index (\<lambda>c. c = CHR 10) bs of
        Some idx \<Rightarrow> if used + (idx + 1) > max_bytes then Err too_long else Ok (take (idx + 1) bs, drop (idx + 1) bs)
      | None \<Rightarrow> if 0 < length bs \<and> used + length bs > max_bytes then Err too_long
                else (case at_end fin of Inl e \<Rightarrow> Err e | Inr _ \<Rightarrow> Ok (bs, [])))"

lemma find_index_append:
  "find_index P (xs @ ys) = (case find_index P xs of Some i \<Rightarrow> Some i
     | None \<Rightarrow> map_option (\<lambda>i. length xs + i) (find_index P ys))"
  by (induction xs) (cases "find_index P ys"; simp split: option.splits)+

lemma find_index_less: "find_index P xs = Some i \<Longrightarrow> i < length xs"
  by (induction xs arbitrary: i) (auto split: if_splits)

lemma read_line_loop_flat:
  "map_sum id (\<lambda>(l, segs). (l, concat segs)) (read_line_loop max_bytes too_long fin out segs)
     = map_sum id (\<lambda>(l, r). (out @ l, r)) (line_of max_bytes too_long fin (length out) (concat segs))"
proof (induction segs arbitrary: out)
  case Nil
  then show ?case by (simp add: line_of_def at_end_def split: stream_end.split)
next
  case (Cons b bs)
  show ?case
  proof (cases "b = []")
    case True
    then show ?thesis using Cons.IH [of out] by simp
  next
    case ne: False
    show ?thesis
    proof (cases "find_index (\<lambda>c. c = CHR 10) b")
      case (Some idx)
      then show ?thesis using ne find_index_less [OF Some] by (simp add: line_of_def find_index_append)
    next
      case None
      show ?thesis
      proof (cases "length out + length b > max_bytes")
        case True
        then show ?thesis using ne None by (auto simp: line_of_def find_index_append split: option.splits)
      next
        case False
        then show ?thesis using ne None Cons.IH [of "out @ b"]
          by (cases "concat bs = []")
            (auto simp: line_of_def find_index_append add.assoc simp del: concat_eq_Nil_conv
              split: option.splits sum.splits)
      qed
    qed
  qed
qed

text \<open>Two connections that carry the same bytes and end the same way.\<close>

definition same_bytes :: "in_stream \<Rightarrow> in_stream \<Rightarrow> bool" where
  "same_bytes s t \<longleftrightarrow> bytes_of s = bytes_of t \<and> snd s = snd t"

lemma same_bytes_refl [simp]: "same_bytes s s" by (simp add: same_bytes_def)

lemma observed_same:
  assumes "map_sum id (\<lambda>(l, s'). (l, bytes_of s', snd s')) a = map_sum id (\<lambda>(l, s'). (l, bytes_of s', snd s')) b"
  shows "rel_sum (=) (rel_prod (=) same_bytes) a b"
  using assms by (cases a; cases b) (auto simp: same_bytes_def)

lemma read_line_flat:
  "map_sum id (\<lambda>(l, s'). (l, bytes_of s', snd s')) (read_line_bounded max_bytes too_long s)
     = map_sum id (\<lambda>(l, r). (l, r, snd s)) (line_of max_bytes too_long (snd s) 0 (bytes_of s))"
  using read_line_loop_flat [of max_bytes too_long "snd s" "[]" "fst s"]
  by (cases "read_line_loop max_bytes too_long (snd s) [] (fst s)")
    (auto simp: read_line_bounded_def bytes_of_def map_sum_def split: sum.splits)

lemma line_of_Ok:
  assumes "line_of max_bytes too_long fin u bs = Ok (l, r)"
  shows "bs = l @ r \<and> (0 < length l \<longrightarrow> u + length l \<le> max_bytes)"
  using assms find_index_less [of "\<lambda>c. c = CHR 10" bs]
  by (auto simp: line_of_def min_def split: option.splits if_splits sum.splits)

lemma read_line_Ok:
  assumes "read_line_bounded max_bytes too_long s = Ok (l, s')"
  shows "bytes_of s = l @ bytes_of s'" and "snd s' = snd s" and "0 < length l \<Longrightarrow> length l \<le> max_bytes"
proof -
  have "map_sum id (\<lambda>(l, r). (l, r, snd s)) (line_of max_bytes too_long (snd s) 0 (bytes_of s))
      = Ok (l, bytes_of s', snd s')"
    using read_line_flat [of max_bytes too_long s] assms by simp
  then obtain r where r: "line_of max_bytes too_long (snd s) 0 (bytes_of s) = Ok (l, r)"
    "r = bytes_of s'" "snd s = snd s'"
    by (cases "line_of max_bytes too_long (snd s) 0 (bytes_of s)") auto
  then show "bytes_of s = l @ bytes_of s'" "snd s' = snd s" "0 < length l \<Longrightarrow> length l \<le> max_bytes"
    using line_of_Ok [OF r(1)] by auto
qed

lemma read_line_same:
  assumes "same_bytes s t"
  shows "rel_sum (=) (rel_prod (=) same_bytes) (read_line_bounded m e s) (read_line_bounded m e t)"
  using read_line_flat [of m e s] read_line_flat [of m e t] assms
  by (intro observed_same) (simp add: same_bytes_def)

lemma read_exact_loop_flat:
  "map_sum id (\<lambda>(l, segs). (l, concat segs)) (read_exact_loop fin n out segs)
     = (if n \<le> length (concat segs) then Ok (out @ take n (concat segs), drop n (concat segs))
        else case at_end fin of Inl e \<Rightarrow> Err e | Inr _ \<Rightarrow> Err EARLY_EOF)"
  by (induction segs arbitrary: n out) (auto split: sum.splits)

lemma read_exact_flat:
  "map_sum id (\<lambda>(l, s'). (l, bytes_of s', snd s')) (read_exact n s)
     = (if n \<le> length (bytes_of s) then Ok (take n (bytes_of s), drop n (bytes_of s), snd s)
        else case at_end (snd s) of Inl e \<Rightarrow> Err e | Inr _ \<Rightarrow> Err EARLY_EOF)"
  using read_exact_loop_flat [of "snd s" n "[]" "fst s"]
  by (cases "read_exact_loop (snd s) n [] (fst s)")
    (auto simp: read_exact_def bytes_of_def split: sum.splits if_splits)

lemma read_exact_same:
  assumes "same_bytes s t"
  shows "rel_sum (=) (rel_prod (=) same_bytes) (read_exact n s) (read_exact n t)"
  using read_exact_flat [of n s] read_exact_flat [of n t] assms
  by (intro observed_same) (simp add: same_bytes_def)

lemma read_exact_Ok:
  assumes "read_exact n s = Ok (l, s')"
  shows "bytes_of s = l @ bytes_of s'" and "length l = n" and "snd s' = snd s"
  using read_exact_flat [of n s] assms
  by (auto simp: min_def split: if_splits sum.splits prod.splits)

section \<open>Requests\<close>

record http_limits =
  max_request_line_bytes :: nat
  max_header_line_bytes :: nat
  max_header_count :: nat
  max_header_bytes :: nat
  max_body_bytes :: nat

record inbound_request =
  rq_method :: string
  rq_path :: string
  rq_headers :: "(string \<times> string) list"
  rq_content_length :: nat
  rq_body :: "string option"

text \<open>The shared configuration, with its zeros raised to one.\<close>

record http_server_config =
  cfg_request_line :: nat
  cfg_header_line :: nat
  cfg_header_count :: nat
  cfg_header_bytes :: nat

definition http_limits_from_config :: "http_server_config \<Rightarrow> nat \<Rightarrow> http_limits" where
  "http_limits_from_config cfg max_body =
     \<lparr>max_request_line_bytes = max (cfg_request_line cfg) 1, max_header_line_bytes = max (cfg_header_line cfg) 1,
      max_header_count = cfg_header_count cfg, max_header_bytes = max (cfg_header_bytes cfg) 1,
      max_body_bytes = max_body\<rparr>"

definition header_value :: "inbound_request \<Rightarrow> string \<Rightarrow> string option" where
  "header_value r name =
     map_option snd (find (\<lambda>(k, v). eq_ignore_ascii_case k name) (rq_headers r))"

definition trim_eol :: "string \<Rightarrow> string" where
  "trim_eol s = rev (dropWhile (\<lambda>c. c = CHR 13 \<or> c = CHR 10) (rev s))"

record header_state =
  hs_headers :: "(string \<times> string) list"
  hs_content_length :: nat
  hs_saw_length :: bool

text \<open>One header line: names are lower-cased, a line without a colon is ignored.\<close>

definition header_line :: "string \<Rightarrow> header_state \<Rightarrow> http_read_error + header_state" where
  "header_line trimmed h =
     (case split_once (CHR '':'') trimmed of
        None \<Rightarrow> Ok h
      | Some (n, v) \<Rightarrow>
          let name = to_ascii_lowercase (trim n); val = trim v; hs = hs_headers h @ [(name, val)] in
          if name = ''content-length''
          then if hs_saw_length h then Err InvalidContentLength
               else (case parse_u64 val of
                       None \<Rightarrow> Err InvalidContentLength
                     | Some k \<Rightarrow> Ok \<lparr>hs_headers = hs, hs_content_length = k, hs_saw_length = True\<rparr>)
          else if name = ''transfer-encoding'' \<and> val \<noteq> [] then Err UnsupportedTransferEncoding
          else Ok (h\<lparr>hs_headers := hs\<rparr>))"

function header_loop ::
  "(char list \<Rightarrow> string) \<Rightarrow> http_limits \<Rightarrow> header_state \<Rightarrow> nat \<Rightarrow> in_stream \<Rightarrow>
     http_read_error + header_state \<times> in_stream" where
  "header_loop lossy limits h used_bytes s =
     (if max_header_count limits \<le> length (hs_headers h) then Err TooManyHeaders
      else case read_line_bounded (max_header_line_bytes limits) HeaderLineTooLong s of
        Inl e \<Rightarrow> Err e
      | Inr (line, s') \<Rightarrow>
          if line = [] then Err Closed
          else let used_bytes = u64_sat_add used_bytes (length line) in
          if max_header_bytes limits < used_bytes then Err HeadersTooLarge
          else let trimmed = trim_eol (lossy line) in
          if trimmed = [] then Ok (h, s')
          else (case header_line trimmed h of
                  Inl e \<Rightarrow> Err e
                | Inr h' \<Rightarrow> header_loop lossy limits h' used_bytes s'))"
  by pat_completeness auto
termination
  by (relation "measure (\<lambda>(lossy, limits, h, used_bytes, s). length (bytes_of s))")
    (auto dest!: read_line_Ok(1))

declare header_loop.simps [simp del]

definition read_request :: "(char list \<Rightarrow> string) \<Rightarrow> http_limits \<Rightarrow> in_stream \<Rightarrow> http_read_error + inbound_request" where
  "read_request lossy limits s =
     (case read_line_bounded (max_request_line_bytes limits) RequestLineTooLong s of
        Inl e \<Rightarrow> Err e
      | Inr (line, s) \<Rightarrow>
          if line = [] then Err Closed
          else (case split_whitespace (lossy line) of
                  method # path # _ \<Rightarrow>
                    (case header_loop lossy limits \<lparr>hs_headers = [], hs_content_length = 0, hs_saw_length = False\<rparr> 0 s of
                       Inl e \<Rightarrow> Err e
                     | Inr (h, s) \<Rightarrow>
                         let result = (\<lambda>body. \<lparr>rq_method = method, rq_path = path, rq_headers = hs_headers h,
                                rq_content_length = hs_content_length h, rq_body = body\<rparr>)
                         in if 0 < hs_content_length h
                            then if max_body_bytes limits < hs_content_length h then Err BodyTooLarge
                                 else (case read_exact (hs_content_length h) s of
                                         Inl e \<Rightarrow> Err e
                                       | Inr (bs, s) \<Rightarrow> Ok (result (Some (lossy bs))))
                            else Ok (result None))
                | _ \<Rightarrow> Err Malformed))"

section \<open>Laws of the request reader\<close>

lemma rel_sum_Ok:
  "rel_sum (=) R a b \<Longrightarrow> a = Ok x \<Longrightarrow> \<exists>y. b = Ok y \<and> R x y"
  by (cases b) auto

lemma rel_sum_Err: "rel_sum (=) R a b \<Longrightarrow> a = Err e \<Longrightarrow> b = Err e"
  by (cases b) auto

lemma header_loop_same:
  "same_bytes s t \<Longrightarrow>
     rel_sum (=) (rel_prod (=) same_bytes) (header_loop lossy limits h used_bytes s) (header_loop lossy limits h used_bytes t)"
proof (induction lossy limits h used_bytes s arbitrary: t rule: header_loop.induct)
  case (1 lossy limits h used_bytes s)
  note same = read_line_same [OF 1(2), of "max_header_line_bytes limits" HeaderLineTooLong]
  show ?case
  proof (cases "max_header_count limits \<le> length (hs_headers h)")
    case True
    then show ?thesis by (simp add: header_loop.simps [of _ _ _ _ s] header_loop.simps [of _ _ _ _ t])
  next
    case count: False
    show ?thesis
    proof (cases "read_line_bounded (max_header_line_bytes limits) HeaderLineTooLong s")
      case (Inl e)
      then show ?thesis using count rel_sum_Err [OF same Inl]
        by (simp add: header_loop.simps [of _ _ _ _ s] header_loop.simps [of _ _ _ _ t])
    next
      case (Inr ls)
      obtain line s' where ls: "ls = (line, s')" by (rule prod.exhaust)
      obtain t' where t': "read_line_bounded (max_header_line_bytes limits) HeaderLineTooLong t = Ok (line, t')"
        "same_bytes s' t'"
        using rel_sum_Ok [OF same Inr [unfolded ls]] by auto
      show ?thesis
        using count Inr ls t' 1(1) [OF count Inr [unfolded ls] refl]
        unfolding header_loop.simps [of _ _ _ _ s] header_loop.simps [of _ _ _ _ t]
        by (auto simp: Let_def split: sum.splits)
    qed
  qed
qed

text \<open>The answer of the request reader depends on the bytes of the connection and on how it
  ends, never on the pieces in which they arrive: a request cut anywhere by the network is read as
  if it had come at once.\<close>

theorem request_pieces_irrelevant:
  "read_request lossy limits (segs, fin) = read_request lossy limits ([concat segs], fin)"
proof -
  have same: "same_bytes (segs, fin) ([concat segs], fin)" by (simp add: same_bytes_def bytes_of_def)
  let ?l = "read_line_bounded (max_request_line_bytes limits) RequestLineTooLong"
  note line = read_line_same [OF same, of "max_request_line_bytes limits" RequestLineTooLong]
  show ?thesis
  proof (cases "?l (segs, fin)")
    case (Inl e)
    then show ?thesis using rel_sum_Err [OF line Inl] by (simp add: read_request_def)
  next
    case (Inr ls)
    obtain l s1 where ls: "ls = (l, s1)" by (rule prod.exhaust)
    obtain t1 where t1: "?l ([concat segs], fin) = Ok (l, t1)" "same_bytes s1 t1"
      using rel_sum_Ok [OF line Inr [unfolded ls]] by auto
    let ?h = "header_loop lossy limits \<lparr>hs_headers = [], hs_content_length = 0, hs_saw_length = False\<rparr> 0"
    note head = header_loop_same [OF t1(2), of lossy limits "\<lparr>hs_headers = [], hs_content_length = 0, hs_saw_length = False\<rparr>" 0]
    show ?thesis
    proof (cases "?h s1")
      case (Inl e)
      then show ?thesis using Inr ls t1 rel_sum_Err [OF head Inl] by (simp add: read_request_def split: list.split)
    next
      case hd: (Inr hs)
      obtain h s2 where hs: "hs = (h, s2)" by (rule prod.exhaust)
      obtain t2 where t2: "?h t1 = Ok (h, t2)" "same_bytes s2 t2" using rel_sum_Ok [OF head hd [unfolded hs]] by auto
      note body = read_exact_same [OF t2(2), of "hs_content_length h"]
      have "(case read_exact (hs_content_length h) s2 of Inl e \<Rightarrow> Err e | Inr (bs, s) \<Rightarrow> Ok (f bs))
          = (case read_exact (hs_content_length h) t2 of Inl e \<Rightarrow> Err e | Inr (bs, s) \<Rightarrow> Ok (f bs))"
        for f :: "char list \<Rightarrow> inbound_request"
        using body by (cases "read_exact (hs_content_length h) s2"; cases "read_exact (hs_content_length h) t2") auto
      then show ?thesis using Inr ls t1 hd hs t2 by (simp add: read_request_def Let_def split: list.split)
    qed
  qed
qed

text \<open>The framing facts that the header loop keeps: at most one length, which is the one that counts,
  and no transfer encoding.\<close>

definition framed :: "(string \<times> string) list \<Rightarrow> nat \<Rightarrow> bool" where
  "framed hs n \<longleftrightarrow> list_all (\<lambda>(k, v). k = ''transfer-encoding'' \<longrightarrow> v = []) hs
     \<and> (case filter (\<lambda>(k, v). k = ''content-length'') hs of
          [] \<Rightarrow> n = 0 | [(k, v)] \<Rightarrow> parse_u64 v = Some n | _ \<Rightarrow> False)"

definition header_inv :: "header_state \<Rightarrow> bool" where
  "header_inv h \<longleftrightarrow> framed (hs_headers h) (hs_content_length h)
     \<and> (hs_saw_length h \<longleftrightarrow> filter (\<lambda>(k, v). k = ''content-length'') (hs_headers h) \<noteq> [])"

lemma header_line_inv [rust_invs]:
  assumes "header_line t h = Ok h'" and "header_inv h"
  shows "header_inv h'"
proof -
  obtain hd n b where h: "h = \<lparr>hs_headers = hd, hs_content_length = n, hs_saw_length = b\<rparr>" by (cases h)
  show ?thesis using assms unfolding h
    by (auto simp: header_line_def Let_def header_inv_def framed_def split: option.splits if_splits list.splits)
qed

lemma header_loop_inv:
  assumes "header_loop lossy limits h used_bytes s = Ok (h', s')" and "header_inv h"
    and "used_bytes \<le> u64_max"
  shows "header_inv h' \<and> length (hs_headers h') < max_header_count limits
     \<and> (\<exists>head. bytes_of s = head @ bytes_of s'
          \<and> (used_bytes + length head \<le> max_header_bytes limits \<or> u64_max \<le> max_header_bytes limits))"
  using assms
proof (induction lossy limits h used_bytes s rule: header_loop.induct)
  case (1 lossy limits h used_bytes s)
  obtain line s1 where l: "read_line_bounded (max_header_line_bytes limits) HeaderLineTooLong s = Ok (line, s1)"
    "line \<noteq> []" "\<not> max_header_count limits \<le> length (hs_headers h)"
    "\<not> max_header_bytes limits < u64_sat_add used_bytes (length line)"
    using 1(2) unfolding header_loop.simps [of _ _ _ _ s]
    by (auto simp: Let_def split: if_splits sum.splits)
  let ?used_bytes = "u64_sat_add used_bytes (length line)"
  have sat: "used_bytes + length line \<le> max_header_bytes limits \<or> u64_max \<le> max_header_bytes limits"
    using l(4) by (auto simp: u64_sat_add_def min_def split: if_splits)
  note bytes = read_line_Ok(1) [OF l(1)]
  show ?case
  proof (cases "trim_eol (lossy line) = []")
    case True
    then have "h' = h" "s' = s1" using 1(2) l unfolding header_loop.simps [of _ _ _ _ s] by (simp_all add: Let_def)
    then show ?thesis using 1(3) l(3) bytes sat by (intro conjI exI [of _ line]) auto
  next
    case False
    then obtain h1 where h1: "header_line (trim_eol (lossy line)) h = Ok h1"
      "header_loop lossy limits h1 ?used_bytes s1 = Ok (h', s')"
      using 1(2) l unfolding header_loop.simps [of _ _ _ _ s] by (auto simp: Let_def split: sum.splits)
    have "?used_bytes \<le> u64_max" by (simp add: u64_sat_add_def)
    then obtain head where IH: "header_inv h'" "length (hs_headers h') < max_header_count limits"
      "bytes_of s1 = head @ bytes_of s'"
      "?used_bytes + length head \<le> max_header_bytes limits \<or> u64_max \<le> max_header_bytes limits"
      using 1(1) [OF l(3) l(1) refl l(2) refl l(4) refl False h1(1) h1(2) header_line_inv [OF h1(1) 1(3)]] by blast
    have "used_bytes + length (line @ head) \<le> max_header_bytes limits \<or> u64_max \<le> max_header_bytes limits"
      using IH(4) by (auto simp: u64_sat_add_def min_def split: if_splits)
    then show ?thesis using IH bytes by (intro conjI exI [of _ "line @ head"]) auto
  qed
qed

text \<open>C21: an accepted request is bounded and framed: it was read from a request line, header bytes
  and body bytes that each respect their limit (the header limit for any limit below \<open>2\<^sup>6\<^sup>4 - 1\<close>), it
  has fewer headers than \<open>max_header_count\<close>, at most one content length, which is the length of the
  body, and no transfer encoding; so no two readers can disagree on where it ends.\<close>

theorem accepted_request_bounded:
  "case read_request lossy limits s of
     Inl e \<Rightarrow> True
   | Inr r \<Rightarrow>
       framed (rq_headers r) (rq_content_length r) \<and> length (rq_headers r) < max_header_count limits
       \<and> (\<exists>line head body rest. bytes_of s = line @ head @ body @ rest
            \<and> length line \<le> max_request_line_bytes limits
            \<and> (length head \<le> max_header_bytes limits \<or> u64_max \<le> max_header_bytes limits)
            \<and> length body = rq_content_length r \<and> (body = [] \<or> length body \<le> max_body_bytes limits)
            \<and> rq_body r = (if body = [] then None else Some (lossy body)))"
proof (cases "read_request lossy limits s")
  case (Inr r)
  let ?h0 = "\<lparr>hs_headers = [], hs_content_length = 0, hs_saw_length = False\<rparr>"
  obtain line s1 where l: "read_line_bounded (max_request_line_bytes limits) RequestLineTooLong s = Ok (line, s1)"
    "line \<noteq> []"
    using Inr by (auto simp: read_request_def split: sum.splits if_splits)
  obtain h s2 where h: "header_loop lossy limits ?h0 0 s1 = Ok (h, s2)"
    using Inr l by (auto simp: read_request_def split: sum.splits if_splits list.splits)
  have inv: "header_inv ?h0" by (simp add: header_inv_def framed_def)
  obtain head where hd: "header_inv h" "length (hs_headers h) < max_header_count limits" "bytes_of s1 = head @ bytes_of s2"
    "length head \<le> max_header_bytes limits \<or> u64_max \<le> max_header_bytes limits"
    using header_loop_inv [OF h inv] by auto
  have r: "rq_headers r = hs_headers h" "rq_content_length r = hs_content_length h"
    using Inr l h by (auto simp: read_request_def Let_def split: sum.splits if_splits list.splits)
  have "\<exists>body rest. bytes_of s2 = body @ rest \<and> length body = hs_content_length h
      \<and> (body = [] \<or> length body \<le> max_body_bytes limits)
      \<and> rq_body r = (if body = [] then None else Some (lossy body))"
  proof (cases "hs_content_length h = 0")
    case True
    then have "rq_body r = None"
      using Inr l h by (auto simp: read_request_def Let_def split: sum.splits if_splits list.splits)
    then show ?thesis using True by auto
  next
    case False
    then obtain body s3 where b: "read_exact (hs_content_length h) s2 = Ok (body, s3)"
      "rq_body r = Some (lossy body)" "hs_content_length h \<le> max_body_bytes limits"
      using Inr l h by (auto simp: read_request_def Let_def split: sum.splits if_splits list.splits)
    then show ?thesis using read_exact_Ok [OF b(1)] False by (intro exI [of _ body] exI [of _ "bytes_of s3"]) auto
  qed
  then obtain body rest where b: "bytes_of s2 = body @ rest" "length body = hs_content_length h"
    "body = [] \<or> length body \<le> max_body_bytes limits" "rq_body r = (if body = [] then None else Some (lossy body))"
    by blast
  have "\<exists>line head body rest. bytes_of s = line @ head @ body @ rest
      \<and> length line \<le> max_request_line_bytes limits
      \<and> (length head \<le> max_header_bytes limits \<or> u64_max \<le> max_header_bytes limits)
      \<and> length body = rq_content_length r \<and> (body = [] \<or> length body \<le> max_body_bytes limits)
      \<and> rq_body r = (if body = [] then None else Some (lossy body))"
    using read_line_Ok [OF l(1)] l(2) hd b r
    by (intro exI [of _ line] exI [of _ head] exI [of _ body] exI [of _ rest]) simp
  then show ?thesis using Inr hd(1,2) r by (simp add: header_inv_def)
qed simp

section \<open>Responses\<close>

record http_response_limits =
  max_status_line_bytes :: nat
  resp_header_line_bytes :: nat
  resp_header_count :: nat
  resp_header_bytes :: nat
  resp_body_bytes :: nat

definition with_body_cap :: "nat \<Rightarrow> http_response_limits" where
  "with_body_cap cap =
     \<lparr>max_status_line_bytes = 8192, resp_header_line_bytes = 8192, resp_header_count = 100,
      resp_header_bytes = 65536, resp_body_bytes = cap\<rparr>"

record http_response =
  resp_status :: nat
  resp_body :: string

text \<open>The decoding of bytes: \<open>String::from_utf8_lossy\<close> and the strict one of \<open>read_to_string\<close>.\<close>

record decoder =
  dec_lossy :: "char list \<Rightarrow> string"
  dec_strict :: "char list \<Rightarrow> string option"

record response_head =
  rh_length :: "nat option"
  rh_chunked :: bool

definition response_header_line :: "string \<Rightarrow> response_head \<Rightarrow> response_head" where
  "response_header_line trimmed h =
     (let lower = to_ascii_lowercase trimmed;
          h = (case strip_prefix lower ''content-length:'' of
                 Some v \<Rightarrow> h\<lparr>rh_length := parse_u64 (trim v)\<rparr> | None \<Rightarrow> h)
      in case strip_prefix lower ''transfer-encoding:'' of
           Some v \<Rightarrow> if str_contains v ''chunked'' then h\<lparr>rh_chunked := True\<rparr> else h
         | None \<Rightarrow> h)"

function response_header_loop ::
  "decoder \<Rightarrow> http_response_limits \<Rightarrow> response_head \<Rightarrow> nat \<Rightarrow> nat \<Rightarrow> in_stream \<Rightarrow>
     http_read_error + response_head \<times> in_stream" where
  "response_header_loop dec limits h count used_bytes s =
     (if resp_header_count limits \<le> count then Err TooManyHeaders
      else case read_line_bounded (resp_header_line_bytes limits) HeaderLineTooLong s of
        Inl e \<Rightarrow> Err e
      | Inr (line, s') \<Rightarrow>
          if line = [] then Err Closed
          else let used_bytes = u64_sat_add used_bytes (length line) in
          if resp_header_bytes limits < used_bytes then Err HeadersTooLarge
          else let trimmed = trim_eol (dec_lossy dec line) in
          if trimmed = [] then Ok (h, s')
          else response_header_loop dec limits (response_header_line trimmed h) (count + 1) used_bytes s')"
  by pat_completeness auto
termination
  by (relation "measure (\<lambda>(dec, limits, h, count, used_bytes, s). length (bytes_of s))")
    (auto dest!: read_line_Ok(1))

declare response_header_loop.simps [simp del]

definition MAX_CHUNK_SIZE_LINE_BYTES :: nat where
  "MAX_CHUNK_SIZE_LINE_BYTES = 32"

definition hex_digit :: "char \<Rightarrow> nat option" where
  "hex_digit c =
     (if is_ascii_digit c then Some (code c - 48)
      else if 97 \<le> code c \<and> code c \<le> 102 then Some (code c - 87)
      else if 65 \<le> code c \<and> code c \<le> 70 then Some (code c - 55) else None)"

definition hex_value :: "string \<Rightarrow> nat" where
  "hex_value s = foldl (\<lambda>n c. 16 * n + (case hex_digit c of Some d \<Rightarrow> d | None \<Rightarrow> 0)) 0 s"

text \<open>\<open>usize::from_str_radix(_, 16)\<close>.\<close>

definition parse_hex :: "string \<Rightarrow> nat option" where
  "parse_hex s =
     (let ds = (case s of c # t \<Rightarrow> if c = CHR ''+'' then t else s | [] \<Rightarrow> s)
      in if ds \<noteq> [] \<and> list_all (\<lambda>c. hex_digit c \<noteq> None) ds \<and> hex_value ds \<le> u64_max
         then Some (hex_value ds) else None)"

text \<open>The size of a chunk: the text before a semicolon.\<close>

definition chunk_size :: "string \<Rightarrow> nat option" where
  "chunk_size t = parse_hex (trim (hd (split_char (CHR '';'') (trim t))))"

function chunk_loop ::
  "decoder \<Rightarrow> http_response_limits \<Rightarrow> char list \<Rightarrow> in_stream \<Rightarrow> http_read_error + char list" where
  "chunk_loop dec limits body s =
     (case read_line_bounded MAX_CHUNK_SIZE_LINE_BYTES HeaderLineTooLong s of
        Inl e \<Rightarrow> Err e
      | Inr (size_line, s1) \<Rightarrow>
          (case chunk_size (dec_lossy dec size_line) of
             None \<Rightarrow> Err Malformed
           | Some len \<Rightarrow>
               if len = 0
               then (case read_line_bounded MAX_CHUNK_SIZE_LINE_BYTES HeaderLineTooLong s1 of
                       Inl e \<Rightarrow> Err e | Inr _ \<Rightarrow> Ok body)
               else if resp_body_bytes limits < u64_sat_add (length body) len then Err BodyTooLarge
               else (case read_exact len s1 of
                       Inl e \<Rightarrow> Err e
                     | Inr (chunk, s2) \<Rightarrow>
                         (case read_exact 2 s2 of
                            Inl e \<Rightarrow> Err e
                          | Inr (crlf, s3) \<Rightarrow> chunk_loop dec limits (body @ chunk) s3))))"
  by pat_completeness auto
termination
proof (relation "measure (\<lambda>(dec, limits, body, s). length (bytes_of s))", goal_cases)
  case (2 dec limits body s ls size_line s1 len cs chunk s2 rs crlf s3)
  have "bytes_of s = size_line @ bytes_of s1" using 2 by (intro read_line_Ok(1)) simp
  moreover have r1: "read_exact len s1 = Ok (chunk, s2)" and r2: "read_exact 2 s2 = Ok (crlf, s3)" using 2 by simp_all
  moreover note read_exact_Ok(1,2) [OF r1] read_exact_Ok(1,2) [OF r2]
  ultimately show ?case using 2 by simp
qed simp

declare chunk_loop.simps [simp del]

definition NOT_UTF8 :: http_read_error where
  "NOT_UTF8 = IoError ''stream did not contain valid UTF-8''"

definition read_response :: "decoder \<Rightarrow> http_response_limits \<Rightarrow> in_stream \<Rightarrow> http_read_error + http_response" where
  "read_response dec limits s =
     (case read_line_bounded (max_status_line_bytes limits) StatusLineTooLong s of
        Inl e \<Rightarrow> Err e
      | Inr (line, s) \<Rightarrow>
          if line = [] then Err Closed
          else let status = (case split_whitespace (dec_lossy dec line) of
                               _ # w # _ \<Rightarrow> (case parse_u16 w of Some n \<Rightarrow> n | None \<Rightarrow> 0) | _ \<Rightarrow> 0);
                   answer = (\<lambda>body. \<lparr>resp_status = status, resp_body = body\<rparr>) in
          (case response_header_loop dec limits \<lparr>rh_length = None, rh_chunked = False\<rparr> 0 0 s of
             Inl e \<Rightarrow> Err e
           | Inr (h, s) \<Rightarrow>
               if rh_chunked h
               then (case chunk_loop dec limits [] s of
                       Inl e \<Rightarrow> Err e | Inr body \<Rightarrow> Ok (answer (dec_lossy dec body)))
               else (case rh_length h of
                       Some n \<Rightarrow>
                         if resp_body_bytes limits < n then Err BodyTooLarge
                         else (case read_exact n s of
                                 Inl e \<Rightarrow> Err e | Inr (bs, _) \<Rightarrow> Ok (answer (dec_lossy dec bs)))
                     | None \<Rightarrow>
                         (case read_to_end_capped (resp_body_bytes limits) s of
                            Inl e \<Rightarrow> Err e
                          | Inr bs \<Rightarrow> (case dec_strict dec bs of
                                None \<Rightarrow> Err NOT_UTF8
                              | Some body \<Rightarrow>
                                  if resp_body_bytes limits < length bs then Err BodyTooLarge
                                  else Ok (answer body))))))"

section \<open>Chunks\<close>

text \<open>How a server frames a body: each chunk after its size in hexadecimal.\<close>

definition hex_char :: "nat \<Rightarrow> char" where
  "hex_char d = char_of (if d < 10 then 48 + d else 87 + d)"

fun show_hex :: "nat \<Rightarrow> string" where
  "show_hex n = (if n < 16 then [hex_char n] else show_hex (n div 16) @ [hex_char (n mod 16)])"

declare show_hex.simps [simp del]

definition CRLF :: string where "CRLF = [CHR 13, CHR 10]"

definition encode_chunk :: "char list \<Rightarrow> char list" where
  "encode_chunk c = show_hex (length c) @ CRLF @ c @ CRLF"

definition encode_chunks :: "char list list \<Rightarrow> char list" where
  "encode_chunks cs = concat (map encode_chunk cs) @ ''0'' @ CRLF @ CRLF"

lemma hex_digit_char: "d < 16 \<Longrightarrow> hex_digit (hex_char d) = Some d"
  by (auto simp: hex_digit_def hex_char_def is_ascii_digit_def code_char_of)

lemma hex_char_plain:
  "d < 16 \<Longrightarrow> is_ascii (hex_char d) \<and> \<not> is_whitespace (hex_char d) \<and> hex_char d \<noteq> CHR '';'' \<and> hex_char d \<noteq> CHR ''+''
     \<and> hex_char d \<noteq> CHR 10"
proof -
  assume d: "d < 16"
  define c where "c = hex_char d"
  have "code c = (if d < 10 then 48 + d else 87 + d)" using d by (simp add: c_def hex_char_def code_char_of)
  then have "48 \<le> code c" "code c < 103" "code c \<noteq> 59" using d by (auto split: if_splits)
  then show ?thesis unfolding c_def [symmetric] by (auto simp: is_ascii_def is_whitespace_def)
qed

lemma show_hex_plain:
  "show_hex n \<noteq> [] \<and> list_all (\<lambda>c. hex_digit c \<noteq> None \<and> is_ascii c \<and> \<not> is_whitespace c \<and> c \<noteq> CHR '';'' \<and> c \<noteq> CHR ''+''
     \<and> c \<noteq> CHR 10) (show_hex n)"
proof (induction n rule: show_hex.induct)
  case (1 n)
  show ?case
    using 1 hex_char_plain [of n] hex_char_plain [of "n mod 16"] hex_digit_char [of n] hex_digit_char [of "n mod 16"]
    by (simp add: show_hex.simps [of n])
qed

lemma hex_value_append: "hex_value (s @ [c]) = 16 * hex_value s + (case hex_digit c of Some d \<Rightarrow> d | None \<Rightarrow> 0)"
  by (simp add: hex_value_def)

lemma hex_value_show: "hex_value (show_hex n) = n"
proof (induction n rule: show_hex.induct)
  case (1 n)
  show ?case
  proof (cases "n < 16")
    case True
    then show ?thesis by (simp add: show_hex.simps [of n] hex_value_def hex_digit_char)
  next
    case False
    then show ?thesis using 1 by (simp add: show_hex.simps [of n] hex_value_append hex_digit_char)
  qed
qed

lemma show_hex_length: "n < 16 ^ Suc k \<Longrightarrow> length (show_hex n) \<le> Suc k"
proof (induction k arbitrary: n)
  case (Suc k)
  then have "n div 16 < 16 ^ Suc k" by (simp add: less_mult_imp_div_less mult.commute)
  then have "length (show_hex (n div 16)) \<le> Suc k" by (rule Suc.IH)
  then show ?case by (simp add: show_hex.simps [of n])
qed (simp add: show_hex.simps)

lemma parse_hex_show: "n \<le> u64_max \<Longrightarrow> parse_hex (show_hex n) = Some n"
  using show_hex_plain [of n] hex_value_show [of n]
  by (cases "show_hex n") (auto simp: parse_hex_def list_all_iff)

lemma split_char_absent: "d \<notin> set s \<Longrightarrow> split_char d s = [s]"
  by (induction s) auto

lemma dropWhile_append_all: "list_all P xs \<Longrightarrow> dropWhile P (xs @ ys) = dropWhile P ys"
  by (induction xs) auto

lemma chunk_size_show:
  assumes "n \<le> u64_max"
  shows "chunk_size (show_hex n @ CRLF) = Some n"
proof -
  define x where "x = show_hex n"
  have x: "x \<noteq> []" "\<forall>c \<in> set x. \<not> is_whitespace c \<and> c \<noteq> CHR '';''"
    using show_hex_plain [of n] by (auto simp: x_def list_all_iff)
  have ends: "\<not> is_whitespace (hd x)" "\<not> is_whitespace (last x)" using x by simp_all
  have start: "trim_start (x @ CRLF) = x @ CRLF" using x(1) ends(1)
    by (cases x) (simp_all add: trim_start_def)
  have "trim_start (rev (x @ CRLF)) = trim_start (rev x)"
    by (simp add: CRLF_def trim_start_def is_whitespace_def)
  then have "trim (x @ CRLF) = rev (trim_start (rev x))" by (simp only: trim_def start)
  also have "trim_start (rev x) = rev x" using x(1) ends(2) by (simp add: trim_start_def dropWhile_eq_self_iff hd_rev)
  finally have t: "trim (x @ CRLF) = x" by simp
  have "trim x = x" using ends by (intro trim_id) simp
  moreover have "split_char (CHR '';'') x = [x]" using x(2) by (intro split_char_absent) auto
  ultimately have "chunk_size (x @ CRLF) = parse_hex x" by (simp only: chunk_size_def t list.sel)
  then show ?thesis using parse_hex_show [OF assms] by (simp only: x_def)
qed

lemma read_line_first:
  assumes "bytes_of s = l @ CHR 10 # r" and "CHR 10 \<notin> set l" and "length l < m"
  shows "\<exists>s'. read_line_bounded m e s = Ok (l @ [CHR 10], s') \<and> bytes_of s' = r"
proof -
  have "find_index (\<lambda>c. c = CHR 10) (l @ CHR 10 # r) = Some (length l)"
    using assms(2) by (induction l) auto
  then have "line_of m e (snd s) 0 (bytes_of s) = Ok (l @ [CHR 10], r)"
    using assms(1,3) by (simp add: line_of_def)
  then show ?thesis using read_line_flat [of m e s] by (cases "read_line_bounded m e s") auto
qed

lemma read_exact_first:
  assumes "bytes_of s = l @ r"
  shows "\<exists>s'. read_exact (length l) s = Ok (l, s') \<and> bytes_of s' = r"
  using read_exact_flat [of "length l" s] assms by (cases "read_exact (length l) s") auto

lemma show_hex_line:
  assumes "n \<le> u64_max" and "bytes_of s = show_hex n @ CRLF @ r"
  shows "\<exists>s'. read_line_bounded MAX_CHUNK_SIZE_LINE_BYTES e s = Ok (show_hex n @ CRLF, s') \<and> bytes_of s' = r"
proof -
  have "n < 16 ^ Suc 15" using assms(1) by (simp add: u64_max_def)
  then have "length (show_hex n) \<le> 16" using show_hex_length [of n 15] by simp
  then show ?thesis
    using read_line_first [of s "show_hex n @ [CHR 13]" r MAX_CHUNK_SIZE_LINE_BYTES e] assms(2) show_hex_plain [of n]
    by (auto simp: CRLF_def MAX_CHUNK_SIZE_LINE_BYTES_def list_all_iff)
qed

lemma chunk_loop_encoded:
  assumes "\<And>bs. list_all is_ascii bs \<Longrightarrow> dec_lossy dec bs = bs" and "resp_body_bytes limits \<le> u64_max"
    and "list_all (\<lambda>c. c \<noteq> []) cs" and "length body + length (concat cs) \<le> resp_body_bytes limits"
    and "bytes_of s = encode_chunks cs @ rest"
  shows "chunk_loop dec limits body s = Ok (body @ concat cs)"
  using assms(3-5)
proof (induction cs arbitrary: body s)
  case Nil
  have z: "show_hex 0 = ''0''" by (simp add: show_hex.simps hex_char_def)
  obtain s1 where s1: "read_line_bounded MAX_CHUNK_SIZE_LINE_BYTES HeaderLineTooLong s = Ok (show_hex 0 @ CRLF, s1)"
    "bytes_of s1 = CRLF @ rest"
    using show_hex_line [of 0 s "CRLF @ rest" HeaderLineTooLong] Nil(3) by (auto simp: z encode_chunks_def)
  obtain s2 where s2: "read_line_bounded MAX_CHUNK_SIZE_LINE_BYTES HeaderLineTooLong s1 = Ok ([CHR 13] @ [CHR 10], s2)"
    using read_line_first [of s1 "[CHR 13]" rest MAX_CHUNK_SIZE_LINE_BYTES HeaderLineTooLong] s1(2)
    by (auto simp: CRLF_def MAX_CHUNK_SIZE_LINE_BYTES_def)
  have "dec_lossy dec (show_hex 0 @ CRLF) = show_hex 0 @ CRLF"
    by (rule assms(1)) (simp add: z CRLF_def is_ascii_def)
  then show ?case using s1(1) s2 chunk_size_show [of 0] by (simp add: chunk_loop.simps [of _ _ _ s])
next
  case (Cons c cs)
  let ?n = "length c"
  have n: "0 < ?n" "?n \<le> u64_max" "length body + ?n \<le> resp_body_bytes limits"
    using Cons.prems(1,2) assms(2) by auto
  have bs: "bytes_of s = show_hex ?n @ CRLF @ (c @ CRLF @ encode_chunks cs @ rest)"
    using Cons.prems(3) by (simp add: encode_chunks_def encode_chunk_def)
  obtain s1 where s1: "read_line_bounded MAX_CHUNK_SIZE_LINE_BYTES HeaderLineTooLong s = Ok (show_hex ?n @ CRLF, s1)"
    "bytes_of s1 = c @ CRLF @ encode_chunks cs @ rest"
    using show_hex_line [OF n(2) bs] by blast
  obtain s2 where s2: "read_exact ?n s1 = Ok (c, s2)" "bytes_of s2 = CRLF @ encode_chunks cs @ rest"
    using read_exact_first [OF s1(2)] by blast
  obtain s3 where s3: "read_exact 2 s2 = Ok (CRLF, s3)" "bytes_of s3 = encode_chunks cs @ rest"
    using read_exact_first [OF s2(2)] by (auto simp: CRLF_def numeral_2_eq_2)
  have "list_all is_ascii (show_hex ?n @ CRLF)"
    using show_hex_plain [of ?n] by (auto simp: CRLF_def is_ascii_def list_all_iff)
  then have "dec_lossy dec (show_hex ?n @ CRLF) = show_hex ?n @ CRLF" by (rule assms(1))
  then have "chunk_loop dec limits body s = chunk_loop dec limits (body @ c) s3"
    using s1(1) s2(1) s3(1) chunk_size_show [OF n(2)] n
    by (simp add: chunk_loop.simps [of _ _ _ s] u64_sat_add_def)
  also have "\<dots> = Ok ((body @ c) @ concat cs)" using Cons.prems(1,2) s3(2) by (intro Cons.IH) simp_all
  finally show ?case by simp
qed

text \<open>C37: a chunked body is read back whole: for any division of the body into chunks, none empty,
  that fits the cap, whatever follows on the connection and in whatever pieces it arrives, the
  chunk reader returns the concatenation of the chunks. Assumes that the lossy decoder leaves ASCII alone.\<close>

theorem chunked_body_roundtrip:
  assumes "\<And>bs. list_all is_ascii bs \<Longrightarrow> dec_lossy dec bs = bs" and "resp_body_bytes limits \<le> u64_max"
    and "list_all (\<lambda>c. c \<noteq> []) cs" and "length (concat cs) \<le> resp_body_bytes limits"
    and "concat segs = encode_chunks cs @ rest"
  shows "chunk_loop dec limits [] (segs, fin) = Ok (concat cs)"
  using chunk_loop_encoded [of dec limits cs "[]" "(segs, fin)" rest] assms by (simp add: bytes_of_def)

lemma chunked_body_roundtrip_witness:
  "chunk_loop \<lparr>dec_lossy = \<lambda>b. b, dec_strict = Some\<rparr> (with_body_cap 100) []
     ([''5'' @ CRLF @ ''he'', ''llo'' @ CRLF @ ''0'' @ CRLF, CRLF], PeerClosed) = Ok ''hello''"
proof -
  have "show_hex 5 = ''5''" by code_simp
  then have "concat [''5'' @ CRLF @ ''he'', ''llo'' @ CRLF @ ''0'' @ CRLF, CRLF] = encode_chunks [''hello''] @ []"
    by (simp add: encode_chunks_def encode_chunk_def numeral_eq_Suc)
  then have "chunk_loop \<lparr>dec_lossy = \<lambda>b. b, dec_strict = Some\<rparr> (with_body_cap 100) []
      ([''5'' @ CRLF @ ''he'', ''llo'' @ CRLF @ ''0'' @ CRLF, CRLF], PeerClosed) = Ok (concat [''hello''])"
    by (intro chunked_body_roundtrip) (simp_all add: with_body_cap_def u64_max_def)
  then show ?thesis by simp
qed

end
