(* ===== verification/Sha.thy ===== *)
theory Sha
  imports HttpReader
begin

text \<open>
  The hand-written SHA-256 of \<open>genie-core/src/prompt_sha.rs\<close>, on 32-bit words, and the algorithm of
  FIPS 180-4 as a specification: the message schedule as a recurrence, the padding by its least
  number of zero bytes, the constants as roots of primes.
\<close>

unbundle bit_operations_syntax

section \<open>The code\<close>

type_synonym u8 = "8 word"
type_synonym u32 = "32 word"
type_synonym sha_state = "u32 \<times> u32 \<times> u32 \<times> u32 \<times> u32 \<times> u32 \<times> u32 \<times> u32"

text \<open>The constants, in decimal.\<close>

definition SHA_INITIAL_STATE :: "nat list" where
  "SHA_INITIAL_STATE = [1779033703, 3144134277, 1013904242, 2773480762, 1359893119, 2600822924, 528734635, 1541459225]"

definition SHA_ROUND_CONSTANTS :: "nat list" where
  "SHA_ROUND_CONSTANTS = [
    1116352408, 1899447441, 3049323471, 3921009573, 961987163, 1508970993, 2453635748, 2870763221,
    3624381080, 310598401, 607225278, 1426881987, 1925078388, 2162078206, 2614888103, 3248222580,
    3835390401, 4022224774, 264347078, 604807628, 770255983, 1249150122, 1555081692, 1996064986,
    2554220882, 2821834349, 2952996808, 3210313671, 3336571891, 3584528711, 113926993, 338241895,
    666307205, 773529912, 1294757372, 1396182291, 1695183700, 1986661051, 2177026350, 2456956037,
    2730485921, 2820302411, 3259730800, 3345764771, 3516065817, 3600352804, 4094571909, 275423344,
    430227734, 506948616, 659060556, 883997877, 958139571, 1322822218, 1537002063, 1747873779,
    1955562222, 2024104815, 2227730452, 2361852424, 2428436474, 2756734187, 3204031479, 3329325298]"

definition state_of :: "u32 list \<Rightarrow> sha_state" where
  "state_of ws = (ws ! 0, ws ! 1, ws ! 2, ws ! 3, ws ! 4, ws ! 5, ws ! 6, ws ! 7)"

definition sha_bytes :: "string \<Rightarrow> u8 list" where
  "sha_bytes s = map (\<lambda>c. of_nat (of_char c)) (utf8 s)"

text \<open>The zero bytes of the padding, pushed one at a time; how many are missing is the measure.\<close>

definition pad_missing :: "nat \<Rightarrow> nat" where
  "pad_missing n = (if n mod 64 \<le> 56 then 56 - n mod 64 else 120 - n mod 64)"

lemma pad_missing_Suc: "n mod 64 \<noteq> 56 \<Longrightarrow> pad_missing n = Suc (pad_missing (Suc n))"
proof -
  assume "n mod 64 \<noteq> 56"
  moreover have "n mod 64 < 64" by simp
  ultimately show ?thesis by (auto simp: pad_missing_def mod_Suc)
qed

function pad_loop :: "u8 list \<Rightarrow> u8 list" where
  "pad_loop m = (if length m mod 64 \<noteq> 56 then pad_loop (m @ [0]) else m)"
  by auto
termination by (relation "measure (\<lambda>m. pad_missing (length m))") (simp_all add: pad_missing_Suc)

declare pad_loop.simps [simp del]

definition be_bytes64 :: "64 word \<Rightarrow> u8 list" where
  "be_bytes64 w = map (\<lambda>i. ucast (drop_bit (56 - 8 * i) w)) [0..<8]"

definition sha_padded :: "u8 list \<Rightarrow> u8 list" where
  "sha_padded m = pad_loop (m @ [0x80]) @ be_bytes64 (of_nat (length m) * 8)"

function chunks_exact :: "nat \<Rightarrow> 'a list \<Rightarrow> 'a list list" where
  "chunks_exact n xs = (if n = 0 \<or> length xs < n then [] else take n xs # chunks_exact n (drop n xs))"
  by auto
termination by (relation "measure (length \<circ> snd)") auto

declare chunks_exact.simps [simp del]

definition be_word :: "u8 list \<Rightarrow> u32" where
  "be_word bs = push_bit 24 (ucast (bs ! 0)) OR push_bit 16 (ucast (bs ! 1)) OR push_bit 8 (ucast (bs ! 2))
     OR ucast (bs ! 3)"

definition schedule_step :: "nat \<Rightarrow> u32 list \<Rightarrow> u32 list" where
  "schedule_step i w =
     (let s0 = word_rotr 7 (w ! (i - 15)) XOR word_rotr 18 (w ! (i - 15)) XOR drop_bit 3 (w ! (i - 15));
          s1 = word_rotr 17 (w ! (i - 2)) XOR word_rotr 19 (w ! (i - 2)) XOR drop_bit 10 (w ! (i - 2))
      in w[i := w ! (i - 16) + s0 + w ! (i - 7) + s1])"

definition sha_schedule :: "u8 list \<Rightarrow> u32 list" where
  "sha_schedule block =
     fold schedule_step [16..<64] (map be_word (chunks_exact 4 block) @ replicate 48 0)"

definition sha_round :: "u32 list \<Rightarrow> nat \<Rightarrow> sha_state \<Rightarrow> sha_state" where
  "sha_round w i st =
     (case st of (a, b, c, d, e, f, g, h) \<Rightarrow>
        let s1 = word_rotr 6 e XOR word_rotr 11 e XOR word_rotr 25 e;
            ch = (e AND f) XOR (NOT e AND g);
            t1 = h + s1 + ch + of_nat (SHA_ROUND_CONSTANTS ! i) + w ! i;
            s0 = word_rotr 2 a XOR word_rotr 13 a XOR word_rotr 22 a;
            maj = (a AND b) XOR (a AND c) XOR (b AND c);
            t2 = s0 + maj
        in (t1 + t2, a, b, c, d + t1, e, f, g))"

definition add_states :: "sha_state \<Rightarrow> sha_state \<Rightarrow> sha_state" where
  "add_states x y =
     (case (x, y) of ((a, b, c, d, e, f, g, h), (a', b', c', d', e', f', g', h')) \<Rightarrow>
        (a + a', b + b', c + c', d + d', e + e', f + f', g + g', h + h'))"

definition sha_block :: "u8 list \<Rightarrow> sha_state \<Rightarrow> sha_state" where
  "sha_block block st = add_states st (fold (sha_round (sha_schedule block)) [0..<64] st)"

text \<open>The format \<open>{:08x}\<close>.\<close>

definition hex08 :: "u32 \<Rightarrow> string" where
  "hex08 w = (let h = show_hex (unat w) in replicate (8 - length h) (CHR ''0'') @ h)"

definition state_words :: "sha_state \<Rightarrow> u32 list" where
  "state_words st = (case st of (a, b, c, d, e, f, g, h) \<Rightarrow> [a, b, c, d, e, f, g, h])"

definition sha256_hex :: "string \<Rightarrow> string" where
  "sha256_hex data =
     concat (map hex08 (state_words
       (fold sha_block (chunks_exact 64 (sha_padded (sha_bytes data))) (state_of (map of_nat SHA_INITIAL_STATE)))))"

section \<open>FIPS 180-4\<close>

definition sha_ch :: "u32 \<Rightarrow> u32 \<Rightarrow> u32 \<Rightarrow> u32" where "sha_ch x y z = (x AND y) XOR (NOT x AND z)"
definition sha_maj :: "u32 \<Rightarrow> u32 \<Rightarrow> u32 \<Rightarrow> u32" where "sha_maj x y z = (x AND y) XOR (x AND z) XOR (y AND z)"
definition big_sigma0 :: "u32 \<Rightarrow> u32" where "big_sigma0 x = word_rotr 2 x XOR word_rotr 13 x XOR word_rotr 22 x"
definition big_sigma1 :: "u32 \<Rightarrow> u32" where "big_sigma1 x = word_rotr 6 x XOR word_rotr 11 x XOR word_rotr 25 x"
definition small_sigma0 :: "u32 \<Rightarrow> u32" where "small_sigma0 x = word_rotr 7 x XOR word_rotr 18 x XOR drop_bit 3 x"
definition small_sigma1 :: "u32 \<Rightarrow> u32" where "small_sigma1 x = word_rotr 17 x XOR word_rotr 19 x XOR drop_bit 10 x"

text \<open>The schedule of a block, whose words are given by their number (section 6.2.2, step 1).\<close>

function fips_w :: "(nat \<Rightarrow> u32) \<Rightarrow> nat \<Rightarrow> u32" where
  "fips_w m t =
     (if t < 16 then m t
      else small_sigma1 (fips_w m (t - 2)) + fips_w m (t - 7) + small_sigma0 (fips_w m (t - 15)) + fips_w m (t - 16))"
  by auto
termination by (relation "measure snd") auto

declare fips_w.simps [simp del]

text \<open>The first 32 bits of the fractional parts of the cube roots of the first primes, and those of
  the square roots (sections 4.2.2 and 5.3.3).\<close>

definition first_primes :: "nat list" where
  "first_primes = filter (\<lambda>n. list_all (\<lambda>d. n mod d \<noteq> 0 \<or> n = d) [2..<18]) [2..<312]"

definition int_root :: "nat \<Rightarrow> nat \<Rightarrow> nat" where
  "int_root k p = last (filter (\<lambda>n. n ^ k \<le> p) [0, 1, 2, 3, 4, 5, 6, 7])"

definition fraction32 :: "nat \<Rightarrow> nat \<Rightarrow> nat \<Rightarrow> bool" where
  "fraction32 k p w \<longleftrightarrow> w < 2 ^ 32
     \<and> (int_root k p * 2 ^ 32 + w) ^ k \<le> p * 2 ^ (32 * k)
     \<and> p * 2 ^ (32 * k) < (int_root k p * 2 ^ 32 + w + 1) ^ k"

primrec fips_rounds :: "(nat \<Rightarrow> u32) \<Rightarrow> (nat \<Rightarrow> u32) \<Rightarrow> nat \<Rightarrow> sha_state \<Rightarrow> sha_state" where
  "fips_rounds k w 0 st = st"
| "fips_rounds k w (Suc t) st =
     (case fips_rounds k w t st of (a, b, c, d, e, f, g, h) \<Rightarrow>
        let t1 = h + big_sigma1 e + sha_ch e f g + k t + w t; t2 = big_sigma0 a + sha_maj a b c
        in (t1 + t2, a, b, c, d + t1, e, f, g))"

text \<open>The padded message: one bit, the least number of zeros, the length in bits (section 5.1.1).\<close>

definition fips_padded :: "u8 list \<Rightarrow> u8 list" where
  "fips_padded m =
     m @ [0x80] @ replicate (LEAST k. (length m + 1 + k) mod 64 = 56) 0 @ be_bytes64 (of_nat (8 * length m))"

definition fips_block_word :: "u8 list \<Rightarrow> nat \<Rightarrow> nat \<Rightarrow> u32" where
  "fips_block_word m i t = be_word (map (\<lambda>j. m ! (64 * i + 4 * t + j)) [0..<4])"

definition fips_hash :: "(nat \<Rightarrow> u32) \<Rightarrow> sha_state \<Rightarrow> u8 list \<Rightarrow> nat \<Rightarrow> sha_state" where
  "fips_hash k h0 m n =
     fold (\<lambda>i st. add_states st (fips_rounds k (fips_w (fips_block_word m i)) 64 st)) [0..<n] h0"

section \<open>The code computes the standard\<close>

lemma pad_loop_eq: "pad_loop m = m @ replicate (pad_missing (length m)) 0"
proof (induction m rule: pad_loop.induct)
  case (1 m)
  show ?case
  proof (cases "length m mod 64 = 56")
    case True
    then show ?thesis by (simp add: pad_loop.simps [of m] pad_missing_def)
  next
    case False
    have "pad_loop m = pad_loop (m @ [0])" using False by (subst pad_loop.simps) simp
    also have "\<dots> = (m @ [0]) @ replicate (pad_missing (Suc (length m))) 0" using 1 [OF False] by simp
    also have "\<dots> = m @ replicate (pad_missing (length m)) 0" by (simp add: pad_missing_Suc [OF False])
    finally show ?thesis .
  qed
qed

lemma pad_missing_fits: "(n + pad_missing n) mod 64 = 56"
proof (induction k \<equiv> "pad_missing n" arbitrary: n)
  case 0
  have "n mod 64 < 64" by simp
  then show ?case using 0 by (simp add: pad_missing_def split: if_splits)
next
  case (Suc k)
  then have "n mod 64 \<noteq> 56" by (auto simp: pad_missing_def)
  then have "pad_missing n = Suc (pad_missing (Suc n))" by (rule pad_missing_Suc)
  then show ?case using Suc.hyps(1) [of "Suc n"] Suc.hyps(2) by simp
qed

lemma pad_missing_least: "(n + k) mod 64 = 56 \<Longrightarrow> pad_missing n \<le> k"
proof (induction k arbitrary: n)
  case (Suc k)
  then show ?case
    using pad_missing_Suc [of n] by (cases "n mod 64 = 56") (simp_all add: pad_missing_def [of n])
qed (simp add: pad_missing_def)

lemma sha_padded_fips: "sha_padded m = fips_padded m"
proof -
  have "(LEAST k. (length m + 1 + k) mod 64 = 56) = pad_missing (length m + 1)"
    by (rule Least_equality) (simp_all only: pad_missing_fits pad_missing_least)
  then show ?thesis by (simp add: sha_padded_def fips_padded_def pad_loop_eq mult.commute)
qed

lemma chunks_exact_map:
  "0 < n \<Longrightarrow> chunks_exact n xs = map (\<lambda>i. take n (drop (n * i) xs)) [0..<length xs div n]"
proof (induction n xs rule: chunks_exact.induct)
  case (1 n xs)
  show ?case
  proof (cases "length xs < n")
    case True
    then show ?thesis by (simp add: chunks_exact.simps)
  next
    case False
    then have d: "length xs div n = Suc ((length xs - n) div n)" using 1(2) by (simp add: div_if [of "length xs"])
    have "chunks_exact n xs = take n xs # map (\<lambda>i. take n (drop (n * i) (drop n xs))) [0..<(length xs - n) div n]"
      using 1 False by (subst chunks_exact.simps) simp
    also have "\<dots> = map (\<lambda>i. take n (drop (n * i) xs)) [0..<length xs div n]"
      unfolding d by (subst upt_conv_Cons) (simp_all add: map_Suc_upt [symmetric] comp_def add.commute del: upt_Suc map_Suc_upt)
    finally show ?thesis .
  qed
qed

lemma schedule_fold:
  assumes "length w = 64" and "\<And>t. t < 16 \<Longrightarrow> w ! t = m t" and "j \<le> 48"
  shows "length (fold schedule_step [16..<16 + j] w) = 64
    \<and> (\<forall>t < 16 + j. fold schedule_step [16..<16 + j] w ! t = fips_w m t)"
  using assms(3)
proof (induction j)
  case 0
  then show ?case using assms(1,2) by (auto simp: fips_w.simps [of m])
next
  case (Suc j)
  let ?w = "fold schedule_step [16..<16 + j] w"
  have IH: "length ?w = 64" "\<And>t. t < 16 + j \<Longrightarrow> ?w ! t = fips_w m t" using Suc by auto
  have "[16..<16 + Suc j] = [16..<16 + j] @ [16 + j]" using upt_Suc_append [of 16 "16 + j"] by simp
  then have step: "fold schedule_step [16..<16 + Suc j] w = schedule_step (16 + j) ?w"
    by (simp only: fold_append fold_simps comp_apply)
  have "schedule_step (16 + j) ?w = ?w[16 + j := fips_w m (16 + j)]"
    using IH(2) [of "16 + j - 15"] IH(2) [of "16 + j - 2"] IH(2) [of "16 + j - 7"] IH(2) [of "16 + j - 16"]
    by (subst fips_w.simps) (simp add: schedule_step_def small_sigma0_def small_sigma1_def Let_def ac_simps)
  then show ?case unfolding step using IH Suc.prems by (auto simp: nth_list_update less_Suc_eq)
qed

lemma be_word_cong: "(\<And>i. i < 4 \<Longrightarrow> a ! i = b ! i) \<Longrightarrow> be_word a = be_word b"
  by (simp add: be_word_def)

lemma sha_schedule_fips:
  assumes "length block = 64" and "t < 64"
  shows "sha_schedule block ! t = fips_w (\<lambda>t. be_word (map (\<lambda>j. block ! (4 * t + j)) [0..<4])) t"
proof -
  let ?w = "map be_word (chunks_exact 4 block) @ replicate 48 0"
  have c: "chunks_exact 4 block = map (\<lambda>i. take 4 (drop (4 * i) block)) [0..<16]"
    using chunks_exact_map [of 4 block] assms(1) by simp
  have "?w ! i = be_word (map (\<lambda>j. block ! (4 * i + j)) [0..<4])" if "i < 16" for i
  proof -
    have "?w ! i = be_word (take 4 (drop (4 * i) block))" using that unfolding c by (simp add: nth_append del: upt_Suc)
    also have "\<dots> = be_word (map (\<lambda>j. block ! (4 * i + j)) [0..<4])"
    proof (rule be_word_cong)
      fix j :: nat
      assume j: "j < 4"
      have "take 4 (drop (4 * i) block) ! j = block ! (4 * i + j)" using that j assms(1) by (simp only: nth_take nth_drop)
      also have "\<dots> = map (\<lambda>j. block ! (4 * i + j)) [0..<4] ! j" using j by (simp only: nth_map length_upt nth_upt) simp
      finally show "take 4 (drop (4 * i) block) ! j = map (\<lambda>j. block ! (4 * i + j)) [0..<4] ! j" .
    qed
    finally show ?thesis .
  qed
  moreover have "length ?w = 64" by (simp add: c)
  ultimately have "\<forall>t < 16 + 48. fold schedule_step [16..<16 + 48] ?w ! t
      = fips_w (\<lambda>t. be_word (map (\<lambda>j. block ! (4 * t + j)) [0..<4])) t"
    by (intro schedule_fold [THEN conjunct2]) simp_all
  then show ?thesis using assms(2) by (simp add: sha_schedule_def)
qed

lemma rounds_fips:
  assumes "\<And>t. t < n \<Longrightarrow> w ! t = v t"
  shows "fold (sha_round w) [0..<n] st = fips_rounds (\<lambda>t. of_nat (SHA_ROUND_CONSTANTS ! t)) v n st"
  using assms
proof (induction n)
  case (Suc n)
  then have IH: "fold (sha_round w) [0..<n] st = fips_rounds (\<lambda>t. of_nat (SHA_ROUND_CONSTANTS ! t)) v n st" by simp
  have "fold (sha_round w) [0..<Suc n] st
      = sha_round w n (fips_rounds (\<lambda>t. of_nat (SHA_ROUND_CONSTANTS ! t)) v n st)"
    by (simp add: IH)
  also have "\<dots> = fips_rounds (\<lambda>t. of_nat (SHA_ROUND_CONSTANTS ! t)) v (Suc n) st"
    using Suc.prems [of n]
    by (simp add: sha_round_def big_sigma0_def big_sigma1_def sha_ch_def sha_maj_def Let_def split: prod.split)
  finally show ?case .
qed simp

lemma fips_w_cong: "(\<And>t. t < 16 \<Longrightarrow> m t = m' t) \<Longrightarrow> fips_w m t = fips_w m' t"
  by (induction m t rule: fips_w.induct) (subst (1 2) fips_w.simps, simp)

lemma sha_block_fips:
  assumes "64 * i + 64 \<le> length m"
  shows "sha_block (take 64 (drop (64 * i) m)) st
    = add_states st (fips_rounds (\<lambda>t. of_nat (SHA_ROUND_CONSTANTS ! t)) (fips_w (fips_block_word m i)) 64 st)"
proof -
  let ?b = "take 64 (drop (64 * i) m)"
  have b: "length ?b = 64" using assms by simp
  have "sha_schedule ?b ! t = fips_w (fips_block_word m i) t" if "t < 64" for t
    unfolding sha_schedule_fips [OF b that] using assms
    by (intro fips_w_cong) (auto simp: fips_block_word_def ac_simps intro!: be_word_cong simp del: upt_Suc)
  then show ?thesis unfolding sha_block_def using rounds_fips [of 64] by metis
qed

lemma sha_hash_fips:
  "fold sha_block (chunks_exact 64 m) h0
     = fips_hash (\<lambda>t. of_nat (SHA_ROUND_CONSTANTS ! t)) h0 m (length m div 64)"
proof -
  have "fold sha_block (map (\<lambda>i. take 64 (drop (64 * i) m)) [0..<n]) h0
      = fips_hash (\<lambda>t. of_nat (SHA_ROUND_CONSTANTS ! t)) h0 m n" if "n \<le> length m div 64" for n
    using that
  proof (induction n)
    case (Suc n)
    have "64 * n + 64 \<le> length m" using Suc.prems by (simp add: less_eq_div_iff_mult_less_eq)
    then show ?case using Suc sha_block_fips [of n m] by (simp add: fips_hash_def)
  qed (simp add: fips_hash_def)
  then show ?thesis using chunks_exact_map [of 64 m] by simp
qed

lemma first_primes_eq:
  "first_primes = [2, 3, 5, 7, 11, 13, 17, 19, 23, 29, 31, 37, 41, 43, 47, 53, 59, 61, 67, 71, 73, 79, 83, 89, 97,
     101, 103, 107, 109, 113, 127, 131, 137, 139, 149, 151, 157, 163, 167, 173, 179, 181, 191, 193, 197, 199, 211,
     223, 227, 229, 233, 239, 241, 251, 257, 263, 269, 271, 277, 281, 283, 293, 307, 311]"
  by (simp add: first_primes_def upt_rec_numeral)

lemma round_constants_are_roots: "list_all2 (fraction32 3) first_primes SHA_ROUND_CONSTANTS"
  by (simp add: first_primes_eq SHA_ROUND_CONSTANTS_def fraction32_def int_root_def)

lemma initial_state_is_roots: "list_all2 (fraction32 2) (take 8 first_primes) SHA_INITIAL_STATE"
  by (simp add: first_primes_eq SHA_INITIAL_STATE_def fraction32_def int_root_def)

lemma length_hex08: "length (hex08 w) = 8"
proof -
  have "unat w < 16 ^ Suc 7" using unsigned_less [of w] by simp
  then have "length (show_hex (unat w)) \<le> 8" using show_hex_length [of "unat w" 7] by simp
  then show ?thesis by (simp add: hex08_def Let_def)
qed

lemma fips_padded_blocks: "length (fips_padded m) mod 64 = 0"
proof -
  define x where "x = length m + 1 + pad_missing (length m + 1)"
  have "x mod 64 = 56" unfolding x_def by (rule pad_missing_fits)
  moreover have "length (fips_padded m) = x + 8"
    by (simp add: sha_padded_fips [symmetric] sha_padded_def pad_loop_eq be_bytes64_def x_def)
  moreover have "(x + 8) mod 64 = (x mod 64 + 8) mod 64" by (rule mod_add_left_eq [symmetric])
  ultimately show ?thesis by simp
qed

text \<open>C22: \<open>sha256_hex\<close> is the SHA-256 of FIPS 180-4: for every text, the digest of the code is the
  standard's hash of all the blocks of the padded message, with the standard's constants: those of
  the code are the fractional parts of the cube and square roots of the first primes. The digest is
  always 64 characters long.\<close>

theorem sha256_is_fips:
  "(let m = fips_padded (sha_bytes data) in
      length m mod 64 = 0
      \<and> sha256_hex data = concat (map hex08 (state_words
          (fips_hash (\<lambda>t. of_nat (SHA_ROUND_CONSTANTS ! t)) (state_of (map of_nat SHA_INITIAL_STATE)) m
            (length m div 64)))))
   \<and> list_all2 (fraction32 3) first_primes SHA_ROUND_CONSTANTS
   \<and> list_all2 (fraction32 2) (take 8 first_primes) SHA_INITIAL_STATE
   \<and> length (sha256_hex data) = 64"
proof -
  have "length (sha256_hex data) = 64"
    by (simp add: sha256_hex_def state_words_def length_hex08 split: prod.split)
  then show ?thesis
    using round_constants_are_roots initial_state_is_roots
    by (simp add: Let_def fips_padded_blocks sha256_hex_def sha_padded_fips sha_hash_fips)
qed

end
