(* ===== verification/LlmRequest.thy ===== *)
theory LlmRequest
  imports OpenAiChat Sha HaGraph
begin

text \<open>
  The requests to model servers (\<open>genie-core/src/llm/openai_compat.rs\<close>, first half): the two request
  profiles, the document of a request, the compaction of the messages for the runtime of the device,
  the hints and cache key it is given, and the flattening of system messages for models without
  them. The printer of JSON is an argument.
\<close>

section \<open>Texts\<close>

definition trim_end :: "string \<Rightarrow> string" where
  "trim_end s = rev (dropWhile is_whitespace (rev s))"

text \<open>The characters that fit whole into the given number of bytes.\<close>

fun utf8_prefix :: "string \<Rightarrow> nat \<Rightarrow> string" where
  "utf8_prefix [] n = []"
| "utf8_prefix (c # s) n =
     (if length (utf8_char c) \<le> n then c # utf8_prefix s (n - length (utf8_char c)) else [])"

definition truncate_utf8 :: "string \<Rightarrow> nat \<Rightarrow> string" where
  "truncate_utf8 s max_bytes = (if str_len s \<le> max_bytes then s else trim_end (utf8_prefix s max_bytes))"

definition truncate_body :: "string \<Rightarrow> string" where
  "truncate_body body =
     (let trimmed = trim body in
      if str_len trimmed \<le> 240 then trimmed else truncate_utf8 trimmed 240 @ ''...'')"

text \<open>\<open>str::rfind\<close>, and \<open>str::lines\<close>.\<close>

definition rfind_str :: "string \<Rightarrow> string \<Rightarrow> nat option" where
  "rfind_str s p = map_option (\<lambda>i. length s - i - length p) (find_str (rev s) (rev p))"

definition strip_cr :: "string \<Rightarrow> string" where
  "strip_cr l = (if l \<noteq> [] \<and> last l = CHR 13 then butlast l else l)"

definition str_lines :: "string \<Rightarrow> string list" where
  "str_lines s =
     (let ls = split_char (CHR 10) s; ls = (if last ls = [] then butlast ls else ls) in map strip_cr ls)"

definition NEWLINES :: string where "NEWLINES = [CHR 10, CHR 10]"

section \<open>Hints for the runtime\<close>

fun session_id_loop :: "string \<Rightarrow> string \<Rightarrow> string" where
  "session_id_loop out [] = out"
| "session_id_loop out (c # s) =
     (let out' = (if is_ascii_alphanumeric c \<or> c = CHR ''_'' \<or> c = CHR ''-'' then out @ [c]
                  else if out = [] \<or> last out \<noteq> CHR ''_'' then out @ ''_'' else out)
      in if length out' = 64 then out' else session_id_loop out' s)"

definition trim_underscores :: "string \<Rightarrow> string" where
  "trim_underscores s = rev (dropWhile (\<lambda>c. c = CHR ''_'') (rev (dropWhile (\<lambda>c. c = CHR ''_'') s)))"

definition normalize_runtime_session_id :: "string \<Rightarrow> string option" where
  "normalize_runtime_session_id raw =
     (let out = trim_underscores (session_id_loop [] raw) in if out = [] then None else Some out)"

definition format_ttl :: "nat \<Rightarrow> string" where
  "format_ttl secs =
     (if 3600 \<le> secs \<and> secs mod 3600 = 0 then show_nat (secs div 3600) @ ''h''
      else if 60 \<le> secs \<and> secs mod 60 = 0 then show_nat (secs div 60) @ ''m''
      else show_nat secs @ ''s'')"

definition CACHE_MARKERS :: "string list" where
  "CACHE_MARKERS = [NEWLINES @ ''Relevant household context:'' @ [CHR 10], NEWLINES @ ''Household context:'' @ [CHR 10]]"

text \<open>The part of the system prompt before the household context: its key and its length in bytes.\<close>

definition system_prompt_prefix_cache :: "message list \<Rightarrow> (string \<times> nat) option" where
  "system_prompt_prefix_cache messages =
     (case find (\<lambda>m. msg_role m = ''system'') messages of
        None \<Rightarrow> None
      | Some m \<Rightarrow>
          (case List.map_filter (\<lambda>p. map_option (\<lambda>pos. pos + length p) (find_str (msg_content m) p)) CACHE_MARKERS of
             [] \<Rightarrow> None
           | e # es \<Rightarrow>
               let pre = take (foldl min e es) (msg_content m)
               in if trim pre = [] then None
                  else Some (''system-prompt-prefix:'' @ sha256_hex pre, str_len pre)))"

definition json_int :: "int \<Rightarrow> json" where
  "json_int i = JNum (if 0 \<le> i then PosInt (nat i) else NegInt i)"

definition opt_field :: "string \<Rightarrow> ('a \<Rightarrow> json) \<Rightarrow> 'a option \<Rightarrow> (string \<times> json) list" where
  "opt_field k f v = (case v of None \<Rightarrow> [] | Some x \<Rightarrow> [(k, f x)])"

definition hint_session :: "llm_hints option \<Rightarrow> string option" where
  "hint_session hints = Option.bind (Option.bind hints lh_session) normalize_runtime_session_id"

definition agent_hints_json :: "string option \<Rightarrow> llm_hints \<Rightarrow> json option" where
  "agent_hints_json session h =
     (if session \<noteq> None \<or> lh_priority h \<noteq> None \<or> lh_osl h \<noteq> None \<or> lh_prefill h
      then Some (JObj (opt_field ''session_id'' JStr session @ opt_field ''priority'' json_int (lh_priority h)
             @ opt_field ''osl'' json_nat (lh_osl h)
             @ (if lh_prefill h then [(''speculative_prefill'', JBool True)] else [])))
      else None)"

definition cache_control_json :: "nat \<Rightarrow> (string \<times> nat) option \<Rightarrow> json" where
  "cache_control_json ttl pre =
     JObj ([(''type'', JStr ''ephemeral''), (''ttl'', JStr (format_ttl ttl))]
       @ opt_field ''scope'' (\<lambda>c. JStr ''system_prompt_prefix'') pre
       @ opt_field ''cache_key'' (\<lambda>c. JStr (fst c)) pre @ opt_field ''prefix_bytes'' (\<lambda>c. json_nat (snd c)) pre)"

definition build_nvext :: "message list \<Rightarrow> llm_hints option \<Rightarrow> json option" where
  "build_nvext messages hints =
     (let ah = Option.bind hints (agent_hints_json (hint_session hints));
          cc = map_option (\<lambda>ttl. cache_control_json ttl (system_prompt_prefix_cache messages))
                 (Option.bind hints lh_cache_ttl_secs)
      in if ah \<noteq> None \<or> cc \<noteq> None
         then Some (JObj (opt_field ''agent_hints'' id ah @ opt_field ''cache_control'' id cc)) else None)"

section \<open>Compaction\<close>

definition GENIE_RUNTIME_MAX_BODY_BYTES :: nat where "GENIE_RUNTIME_MAX_BODY_BYTES = 4 * 1024"
definition GENIE_RUNTIME_BODY_OVERHEAD_BYTES :: nat where "GENIE_RUNTIME_BODY_OVERHEAD_BYTES = 512"
definition GENIE_RUNTIME_CONTEXT_MAX_BYTES :: nat where "GENIE_RUNTIME_CONTEXT_MAX_BYTES = 900"

definition COMPACT_SYSTEM :: string where
  "COMPACT_SYSTEM = ''You are GenieClaw, a local home AI native to NVIDIA Jetson Orin 8GB. Answer the user'' @ [CHR 0x27]
     @ ''s latest request directly and concisely.''"

definition COMPACT_SYSTEM_PREFIX :: string where
  "COMPACT_SYSTEM_PREFIX = ''You are GenieClaw, a local home AI native to NVIDIA Jetson Orin 8GB. Reply briefly for voice. Use a tool only when required. Tool calls must be ONLY JSON: {''
     @ quoted_key ''tool'' @ '':'' @ quoted_key ''tool_name'' @ '','' @ quoted_key ''arguments'' @ '':{}}. No markdown.''"

definition COMPACT_TOOLS :: "(string \<times> string) list" where
  "COMPACT_TOOLS =
     [(''home_control'', ''home_control {entity, action, value?} - control safe home devices/scenes''),
      (''home_status'', ''home_status {entity} - query Home Assistant state''),
      (''home_undo'', ''home_undo {} - undo last reversible home action''),
      (''action_history'', ''action_history {} - recent actions/pending confirmations''),
      (''set_timer'', ''set_timer {seconds, label?}''), (''get_time'', ''get_time {}''),
      (''get_weather'', ''get_weather {location, forecast?}''), (''web_search'', ''web_search {query, limit?, fresh?}''),
      (''system_info'', ''system_info {}''), (''calculate'', ''calculate {expression}''),
      (''play_media'', ''play_media {query}''), (''memory_recall'', ''memory_recall {query}''),
      (''memory_status'', ''memory_status {}''), (''memory_forget'', ''memory_forget {query}''),
      (''memory_store'', ''memory_store {content, category?}''),
      (''hello_world'', ''hello_world {name?} - demo greeting only'')]"

definition compact_tool_lines :: "string \<Rightarrow> string list" where
  "compact_tool_lines system_text =
     map (\<lambda>(n, l). ''- '' @ l) (filter (\<lambda>(n, l). str_contains system_text n) COMPACT_TOOLS)"

definition compact_rules :: "string \<Rightarrow> string" where
  "compact_rules system_text =
     ''Rules:'' @ [CHR 10] @ ''- '' @ join_str ([CHR 10] @ ''- '')
       ([''If no tool is needed, answer naturally in 1-3 short sentences.'',
         ''Use calculate for math, get_weather for weather, get_time for time, and system_info for system/Home Assistant/memory diagnostics.'',
         ''Use memory_recall when the user asks what you remember, what you know about them, or asks for their name.'',
         ''Use memory_store only when explicitly asked; never store secrets, access codes, lock combinations, or sensitive locations.'']
        @ (if str_contains system_text ''web_search''
           then [''Use web_search only for current/recent public facts or explicit web lookup; never send private secrets.''] else [])
        @ (if str_contains system_text ''home_control''
           then [''Use home_control/home_status for smart-home requests; risky actions may require local confirmation.'']
           else if str_contains system_text ''Home control is currently unavailable''
           then [''Home control is unavailable; say Home Assistant is not connected if asked to control a device.''] else [])
        @ (if str_contains system_text ''hello_world''
           then [''Use hello_world only for explicit hello_world demo requests.''] else []))"

definition CONTEXT_MARKERS :: "string list" where
  "CONTEXT_MARKERS = [''Relevant household context:'' @ [CHR 10], ''## Household Context'' @ [CHR 10]]"

definition before_str :: "string \<Rightarrow> string \<Rightarrow> string" where
  "before_str s p = (case find_str s p of Some i \<Rightarrow> take i s | None \<Rightarrow> s)"

text \<open>The lines after the last marker, up to the next heading.\<close>

definition compact_household_context :: "string \<Rightarrow> string option" where
  "compact_household_context system_text =
     (case List.map_filter (\<lambda>m. map_option (\<lambda>pos. (pos, length m)) (rfind_str system_text m)) CONTEXT_MARKERS of
        [] \<Rightarrow> None
      | x # xs \<Rightarrow>
          let (pos, len) = foldl (\<lambda>a b. if fst a \<le> fst b then b else a) x xs;
              context = join_str [CHR 10]
                (filter (\<lambda>l. l \<noteq> [] \<and> l \<noteq> ''(no household context yet)'' \<and> l \<noteq> ''Relevant household context:'')
                  (map trim (str_lines (before_str (drop (pos + len) system_text) ([CHR 10] @ ''## '')))))
          in if context = [] then None else Some (truncate_utf8 context GENIE_RUNTIME_CONTEXT_MAX_BYTES))"

definition compact_genie_runtime_system :: "string \<Rightarrow> string" where
  "compact_genie_runtime_system system_text =
     (let tools = compact_tool_lines system_text in
      join_str NEWLINES
        ([COMPACT_SYSTEM_PREFIX] @ (if tools \<noteq> [] then [''Tools:'' @ [CHR 10] @ join_str [CHR 10] tools] else [])
         @ [compact_rules system_text]
         @ (case compact_household_context system_text of
              Some c \<Rightarrow> [''Household context:'' @ [CHR 10] @ c] | None \<Rightarrow> [])))"

definition joined_system_text :: "message list \<Rightarrow> string" where
  "joined_system_text messages =
     join_str NEWLINES (filter (\<lambda>t. t \<noteq> [])
       (map (\<lambda>m. trim (msg_content m)) (filter (\<lambda>m. msg_role m = ''system'') messages)))"

definition estimate_message_bytes :: "message \<Rightarrow> nat" where
  "estimate_message_bytes m = str_len (msg_role m) + str_len (msg_content m) + 32"

definition estimate_messages_bytes :: "message list \<Rightarrow> nat" where
  "estimate_messages_bytes ms = sum_list (map estimate_message_bytes ms)"

text \<open>The history, newest first, until a message does not fit; the result is in order of time.\<close>

fun retain_history :: "nat \<Rightarrow> nat \<Rightarrow> message list \<Rightarrow> message list \<Rightarrow> message list" where
  "retain_history budget estimated kept [] = rev kept"
| "retain_history budget estimated kept (m # ms) =
     (if estimated + estimate_message_bytes m > budget then rev kept
      else retain_history budget (estimated + estimate_message_bytes m) (kept @ [m]) ms)"

definition compact_genie_runtime_messages :: "message list \<Rightarrow> nat \<Rightarrow> message list" where
  "compact_genie_runtime_messages messages cap =
     (let system_text = joined_system_text messages;
          compacted = (if system_text = [] then []
            else [\<lparr>msg_role = ''system'', msg_content = compact_genie_runtime_system system_text\<rparr>])
      in case (case rposition (\<lambda>m. msg_role m = ''user'') messages of
                 Some i \<Rightarrow> Some i | None \<Rightarrow> rposition (\<lambda>m. msg_role m \<noteq> ''system'') messages) of
           None \<Rightarrow> compacted
         | Some i \<Rightarrow>
             let latest = \<lparr>msg_role = ''user'', msg_content =
                   (if compacted \<noteq> [] then msg_content (messages ! i)
                    else COMPACT_SYSTEM @ NEWLINES @ msg_content (messages ! i))\<rparr>;
                 estimated = estimate_messages_bytes compacted + estimate_message_bytes latest
             in compacted
                @ retain_history (cap - GENIE_RUNTIME_BODY_OVERHEAD_BYTES) estimated []
                    (filter (\<lambda>m. msg_role m \<noteq> ''system'') (rev (take i messages)))
                @ [latest])"

section \<open>The document of a request\<close>

datatype request_profile = GenericProfile string | GenieAiRuntimeProfile

record response_format =
  rf_type :: string
  rf_schema :: "json option"

definition message_json :: "message \<Rightarrow> json" where
  "message_json m = JObj [(''role'', JStr (msg_role m)), (''content'', JStr (msg_content m))]"

definition response_format_json :: "response_format \<Rightarrow> json" where
  "response_format_json f = JObj ([(''type'', JStr (rf_type f))] @ opt_field ''schema'' id (rf_schema f))"

definition TEMPERATURE :: flt where
  "TEMPERATURE = Fin (11744051 / 16777216)"

text \<open>The fields in the order of the struct; absent ones are left out.\<close>

definition chat_request_json ::
  "request_profile \<Rightarrow> message list \<Rightarrow> nat option \<Rightarrow> bool \<Rightarrow> response_format option \<Rightarrow> llm_hints option \<Rightarrow> json" where
  "chat_request_json profile messages max_tokens stream fmt hints =
     (let runtime = (profile = GenieAiRuntimeProfile) in
      JObj ([(''model'', JStr (case profile of GenericProfile m \<Rightarrow> m | GenieAiRuntimeProfile \<Rightarrow> ''jetson-llm'')),
             (''messages'', JArr (map message_json messages))]
        @ opt_field ''max_tokens'' json_nat max_tokens
        @ [(''temperature'', JNum (JFloat TEMPERATURE)), (''stream'', JBool stream)]
        @ (if runtime then opt_field ''conversation_id'' JStr (hint_session hints) @ [(''think'', JBool False)] else [])
        @ opt_field ''response_format'' response_format_json fmt
        @ (if runtime then opt_field ''nvext'' id (build_nvext messages hints) else [])))"

definition prepare_body ::
  "(json \<Rightarrow> string) \<Rightarrow> request_profile \<Rightarrow> message list \<Rightarrow> nat option \<Rightarrow> bool \<Rightarrow> response_format option \<Rightarrow>
     llm_hints option \<Rightarrow> string \<times> bool" where
  "prepare_body to_json profile messages max_tokens stream fmt hints =
     (let body = to_json (chat_request_json profile messages max_tokens stream fmt hints) in
      if profile \<noteq> GenieAiRuntimeProfile \<or> str_len body \<le> GENIE_RUNTIME_MAX_BODY_BYTES then (body, False)
      else (to_json (chat_request_json profile
              (compact_genie_runtime_messages messages GENIE_RUNTIME_MAX_BODY_BYTES) max_tokens stream fmt hints), True))"

section \<open>Models without system messages\<close>

definition system_role_not_supported :: "string \<Rightarrow> bool" where
  "system_role_not_supported t \<longleftrightarrow>
     (let lower = to_lowercase t in
      str_contains lower ''only user and assistant roles are supported''
      \<or> str_contains lower ''system role not supported''
      \<or> (str_contains lower ''unsupported role'' \<and> str_contains lower ''system'')
      \<or> (str_contains lower ''does not support'' \<and> str_contains lower ''system''))"

definition should_retry_without_system_role :: "message list \<Rightarrow> string \<Rightarrow> bool" where
  "should_retry_without_system_role messages err \<longleftrightarrow>
     list_ex (\<lambda>m. msg_role m = ''system'') messages \<and> system_role_not_supported err"

definition flatten_system_into_first_user :: "message list \<Rightarrow> message list" where
  "flatten_system_into_first_user messages =
     (let system_text = joined_system_text messages;
          flattened = filter (\<lambda>m. msg_role m \<noteq> ''system'') messages;
          header = ''System instructions:'' @ [CHR 10] @ system_text
      in if system_text = [] then flattened
         else case find_index (\<lambda>m. msg_role m = ''user'') flattened of
                Some i \<Rightarrow> flattened[i := (flattened ! i)\<lparr>msg_content := header @ NEWLINES @ msg_content (flattened ! i)\<rparr>]
              | None \<Rightarrow> \<lparr>msg_role = ''user'', msg_content = header\<rparr> # flattened)"

section \<open>Laws of compaction\<close>

text \<open>The kept history is the longest run of messages before the latest one that fits the budget.\<close>

definition longest_fit :: "nat \<Rightarrow> nat \<Rightarrow> message list \<Rightarrow> message list \<Rightarrow> bool" where
  "longest_fit budget base old kept \<longleftrightarrow>
     (kept \<noteq> [] \<longrightarrow> base + estimate_messages_bytes kept \<le> budget)
     \<and> (old \<noteq> [] \<longrightarrow> base + estimate_messages_bytes kept + estimate_message_bytes (last old) > budget)"

lemma estimate_messages_simps [simp]:
  "estimate_messages_bytes [] = 0" "estimate_messages_bytes (m # ms) = estimate_message_bytes m + estimate_messages_bytes ms"
  "estimate_messages_bytes (xs @ ys) = estimate_messages_bytes xs + estimate_messages_bytes ys"
  by (simp_all add: estimate_messages_bytes_def)

lemma estimate_messages_rev [simp]: "estimate_messages_bytes (rev xs) = estimate_messages_bytes xs"
  by (induction xs) simp_all

lemma retain_history_spec:
  "\<exists>taken rest. ms = taken @ rest \<and> retain_history budget est kept ms = rev (kept @ taken)
     \<and> (taken \<noteq> [] \<longrightarrow> est + estimate_messages_bytes taken \<le> budget)
     \<and> (rest \<noteq> [] \<longrightarrow> est + estimate_messages_bytes taken + estimate_message_bytes (hd rest) > budget)"
proof (induction budget est kept ms rule: retain_history.induct)
  case (2 budget est kept m ms)
  show ?case
  proof (cases "est + estimate_message_bytes m > budget")
    case True
    then show ?thesis by (intro exI [of _ "[]"] exI [of _ "m # ms"]) simp
  next
    case False
    obtain taken rest where "ms = taken @ rest"
      "retain_history budget (est + estimate_message_bytes m) (kept @ [m]) ms = rev ((kept @ [m]) @ taken)"
      "taken \<noteq> [] \<longrightarrow> est + estimate_message_bytes m + estimate_messages_bytes taken \<le> budget"
      "rest \<noteq> [] \<longrightarrow> est + estimate_message_bytes m + estimate_messages_bytes taken + estimate_message_bytes (hd rest) > budget"
      using 2 False by blast
    then show ?thesis using False by (intro exI [of _ "m # taken"] exI [of _ rest]) (auto simp: ac_simps)
  qed
qed simp

lemma retain_history_longest:
  "\<exists>old. rev ms = old @ retain_history budget est [] ms \<and> longest_fit budget est old (retain_history budget est [] ms)"
proof -
  obtain taken rest where r: "ms = taken @ rest" "retain_history budget est [] ms = rev taken"
    "taken \<noteq> [] \<longrightarrow> est + estimate_messages_bytes taken \<le> budget"
    "rest \<noteq> [] \<longrightarrow> est + estimate_messages_bytes taken + estimate_message_bytes (hd rest) > budget"
    using retain_history_spec [of ms budget est "[]"] by auto
  then show ?thesis by (intro exI [of _ "rev rest"]) (auto simp: longest_fit_def last_rev)
qed

text \<open>The message that an answer is asked for: the last of the user, or else the last that is not
  a system message.\<close>

definition latest_message :: "message list \<Rightarrow> nat option" where
  "latest_message messages =
     (case rposition (\<lambda>m. msg_role m = ''user'') messages of
        Some i \<Rightarrow> Some i | None \<Rightarrow> rposition (\<lambda>m. msg_role m \<noteq> ''system'') messages)"

text \<open>C23: compaction for the runtime of the device keeps what the answer needs: at most one system
  message, then the longest run of the history before the latest message that fits the budget, in
  its order and unchanged, and last the text of the latest message itself, whole, as a message of
  the user. System messages in the history are dropped, nothing later than the latest message stays.\<close>

theorem compaction_keeps_latest:
  "case latest_message messages of
     None \<Rightarrow> list_all (\<lambda>m. msg_role m = ''system'') (compact_genie_runtime_messages messages cap)
   | Some i \<Rightarrow> \<exists>sys old hist pre.
       compact_genie_runtime_messages messages cap
         = sys @ hist @ [\<lparr>msg_role = ''user'', msg_content = pre @ msg_content (messages ! i)\<rparr>]
       \<and> length sys \<le> 1 \<and> list_all (\<lambda>m. msg_role m = ''system'') sys
       \<and> filter (\<lambda>m. msg_role m \<noteq> ''system'') (take i messages) = old @ hist
       \<and> longest_fit (cap - GENIE_RUNTIME_BODY_OVERHEAD_BYTES)
           (estimate_messages_bytes (sys @ [\<lparr>msg_role = ''user'', msg_content = pre @ msg_content (messages ! i)\<rparr>]))
           old hist"
proof (cases "latest_message messages")
  case None
  then show ?thesis
    by (simp add: compact_genie_runtime_messages_def latest_message_def Let_def)
next
  case (Some i)
  let ?st = "joined_system_text messages"
  define sys where "sys = (if ?st = [] then [] else [\<lparr>msg_role = ''system'', msg_content = compact_genie_runtime_system ?st\<rparr>])"
  define pre where "pre = (if sys = [] then COMPACT_SYSTEM @ NEWLINES else [])"
  let ?latest = "\<lparr>msg_role = ''user'', msg_content = pre @ msg_content (messages ! i)\<rparr>"
  let ?ms = "filter (\<lambda>m. msg_role m \<noteq> ''system'') (rev (take i messages))"
  let ?b = "cap - GENIE_RUNTIME_BODY_OVERHEAD_BYTES"
  let ?e = "estimate_messages_bytes (sys @ [?latest])"
  have c: "compact_genie_runtime_messages messages cap = sys @ retain_history ?b ?e [] ?ms @ [?latest]"
    using Some by (simp add: compact_genie_runtime_messages_def latest_message_def sys_def pre_def Let_def)
  define hist where "hist = retain_history ?b ?e [] ?ms"
  obtain old where o: "rev ?ms = old @ hist" "longest_fit ?b ?e old hist"
    using retain_history_longest unfolding hist_def by blast
  have f: "filter (\<lambda>m. msg_role m \<noteq> ''system'') (take i messages) = old @ hist"
    using o(1) by (simp add: rev_filter)
  have "length sys \<le> 1" "list_all (\<lambda>m. msg_role m = ''system'') sys" by (simp_all add: sys_def)
  then have "\<exists>sys old hist pre.
       compact_genie_runtime_messages messages cap
         = sys @ hist @ [\<lparr>msg_role = ''user'', msg_content = pre @ msg_content (messages ! i)\<rparr>]
       \<and> length sys \<le> 1 \<and> list_all (\<lambda>m. msg_role m = ''system'') sys
       \<and> filter (\<lambda>m. msg_role m \<noteq> ''system'') (take i messages) = old @ hist
       \<and> longest_fit ?b
           (estimate_messages_bytes (sys @ [\<lparr>msg_role = ''user'', msg_content = pre @ msg_content (messages ! i)\<rparr>]))
           old hist"
    using c [folded hist_def] f o(2) by blast
  then show ?thesis using Some by simp
qed

section \<open>Laws of flattening and of session ids\<close>

lemma flatten_no_system: "list_all (\<lambda>m. msg_role m \<noteq> ''system'') (flatten_system_into_first_user ms)"
proof -
  let ?f = "filter (\<lambda>m. msg_role m \<noteq> ''system'') ms"
  have f: "list_all (\<lambda>m. msg_role m \<noteq> ''system'') ?f" by (simp add: list_all_iff)
  have "list_all P (xs[i := x])" if "list_all P xs" "P x" for P :: "message \<Rightarrow> bool" and xs i x
    using that set_update_subset_insert [of xs i x] by (auto simp: list_all_iff)
  moreover have "msg_role (?f ! i) \<noteq> ''system''" if "find_index (\<lambda>m. msg_role m = ''user'') ?f = Some i" for i
    using find_index_Some [OF that] by simp
  ultimately show ?thesis using f
    by (simp add: flatten_system_into_first_user_def Let_def split: option.split)
qed

lemma retry_only_with_system:
  "should_retry_without_system_role ms err \<Longrightarrow> \<not> should_retry_without_system_role (flatten_system_into_first_user ms) err'"
  using flatten_no_system [of ms] by (auto simp: should_retry_without_system_role_def list_ex_iff list_all_iff)

definition session_char :: "char \<Rightarrow> bool" where
  "session_char c \<longleftrightarrow> is_ascii_alphanumeric c \<or> c = CHR ''_'' \<or> c = CHR ''-''"

lemma session_loop_shape:
  "list_all session_char out \<Longrightarrow> length out < 64 \<Longrightarrow>
     list_all session_char (session_id_loop out s) \<and> length (session_id_loop out s) \<le> 64"
proof (induction s arbitrary: out)
  case (Cons c s)
  define o' where "o' = (if is_ascii_alphanumeric c \<or> c = CHR ''_'' \<or> c = CHR ''-'' then out @ [c]
    else if out = [] \<or> last out \<noteq> CHR ''_'' then out @ ''_'' else out)"
  have step: "session_id_loop out (c # s) = (if length o' = 64 then o' else session_id_loop o' s)"
    by (simp add: o'_def Let_def)
  have "session_char c" if "is_ascii_alphanumeric c \<or> c = CHR ''_'' \<or> c = CHR ''-''"
    using that by (simp add: session_char_def)
  moreover have "session_char (CHR ''_'')" by (simp add: session_char_def)
  ultimately have "list_all session_char o'" "length o' \<le> 64" using Cons.prems unfolding o'_def by (simp_all split del: if_split_asm)
  then show ?case unfolding step using Cons.IH [of o'] by (cases "length o' = 64") simp_all
qed simp

lemma session_loop_id: "list_all session_char s \<Longrightarrow> length out + length s \<le> 64 \<Longrightarrow> session_id_loop out s = out @ s"
proof (induction s arbitrary: out)
  case (Cons c s)
  then have "session_id_loop out (c # s) = (if length (out @ [c]) = 64 then out @ [c] else session_id_loop (out @ [c]) s)"
    by (auto simp: session_char_def Let_def)
  then show ?case using Cons by (cases s) auto
qed simp

lemma trim_underscores_sub: "\<exists>a b. s = a @ trim_underscores s @ b"
proof -
  let ?d = "dropWhile (\<lambda>c. c = CHR ''_'')"
  have "s = takeWhile (\<lambda>c. c = CHR ''_'') s @ rev (rev (?d s))" by simp
  also have "rev (?d s) = takeWhile (\<lambda>c. c = CHR ''_'') (rev (?d s)) @ ?d (rev (?d s))" by simp
  finally show ?thesis unfolding trim_underscores_def rev_append by (metis append.assoc)
qed

lemma last_dropWhile_same: "dropWhile P xs \<noteq> [] \<Longrightarrow> last (dropWhile P xs) = last xs"
  by (induction xs) (auto split: if_splits)

lemma trim_underscores_ends:
  "trim_underscores s \<noteq> [] \<Longrightarrow> hd (trim_underscores s) \<noteq> CHR ''_'' \<and> last (trim_underscores s) \<noteq> CHR ''_''"
proof -
  let ?d = "dropWhile (\<lambda>c. c = CHR ''_'')"
  assume ne: "trim_underscores s \<noteq> []"
  then have r: "?d (rev (?d s)) \<noteq> []" by (simp add: trim_underscores_def)
  have "last (trim_underscores s) = hd (?d (rev (?d s)))" using r by (simp add: trim_underscores_def last_rev)
  moreover have "hd (?d (rev (?d s))) \<noteq> CHR ''_''" using hd_dropWhile [OF r] by simp
  moreover have "hd (trim_underscores s) = last (?d (rev (?d s)))" using r by (simp add: trim_underscores_def hd_rev)
  moreover have "last (?d (rev (?d s))) = last (rev (?d s))" using r by (rule last_dropWhile_same)
  moreover have ds: "?d s \<noteq> []"
  proof
    assume e: "?d s = []"
    show False using r unfolding e by simp
  qed
  moreover have "last (rev (?d s)) = hd (?d s)" using ds by (simp only: last_rev)
  moreover have "hd (?d s) \<noteq> CHR ''_''" using hd_dropWhile [OF ds] .
  ultimately show ?thesis by simp
qed

lemma trim_underscores_id: "s \<noteq> [] \<Longrightarrow> hd s \<noteq> CHR ''_'' \<Longrightarrow> last s \<noteq> CHR ''_'' \<Longrightarrow> trim_underscores s = s"
proof -
  assume a: "s \<noteq> []" "hd s \<noteq> CHR ''_''" "last s \<noteq> CHR ''_''"
  then have "dropWhile (\<lambda>c. c = CHR ''_'') s = s" by (cases s) auto
  moreover have "dropWhile (\<lambda>c. c = CHR ''_'') (rev s) = rev s"
    using a by (subst dropWhile_eq_self_iff) (simp add: hd_rev)
  ultimately show ?thesis by (simp add: trim_underscores_def)
qed

text \<open>The session id given to the runtime is safe to put in a request: it has 1 to 64 characters,
  all letters, digits, hyphens or underscores, with no underscore at its ends; and normalizing is
  idempotent, so an id that went through once keeps naming the same session.\<close>

theorem session_id_normal_form:
  "case normalize_runtime_session_id raw of
     None \<Rightarrow> True
   | Some s \<Rightarrow> s \<noteq> [] \<and> length s \<le> 64 \<and> list_all session_char s \<and> hd s \<noteq> CHR ''_'' \<and> last s \<noteq> CHR ''_''
       \<and> normalize_runtime_session_id s = Some s"
proof (cases "normalize_runtime_session_id raw")
  case (Some s)
  let ?l = "session_id_loop [] raw"
  have s: "s = trim_underscores ?l" "s \<noteq> []"
    using Some by (auto simp: normalize_runtime_session_id_def Let_def split: if_splits)
  have l: "list_all session_char ?l" "length ?l \<le> 64" using session_loop_shape [of "[]" raw] by simp_all
  obtain a b where "?l = a @ s @ b" using trim_underscores_sub s(1) by blast
  then have sh: "list_all session_char s" "length s \<le> 64" using l by simp_all
  have ends: "hd s \<noteq> CHR ''_''" "last s \<noteq> CHR ''_''" using trim_underscores_ends [of ?l] s(2) unfolding s(1) by blast+
  have "session_id_loop [] s = s" using session_loop_id [of s "[]"] sh by simp
  moreover have "trim_underscores s = s" by (rule trim_underscores_id [OF s(2) ends])
  ultimately have "normalize_runtime_session_id s = Some s"
    unfolding normalize_runtime_session_id_def Let_def using s(2) by (simp only: if_False)
  then show ?thesis using Some s(2) sh ends by simp
qed simp

end
