(* ===== verification/LlmClient.thy ===== *)
theory LlmClient
  imports LlmRequest
begin

text \<open>
  The client of model servers (\<open>genie-core/src/llm/openai_compat.rs\<close>, second half): one completion with
  its retry, and the stream of tokens. The network is an operation that is given an address and a
  request and answers with the reason of a failure or the connection to read from; a connection that
  falls silent stands for a read that its time limit ends, whatever the pace of the bytes before.
  The JSON reader, its error text and the decoder of bytes are arguments; repeated keys of an object,
  which the reader refuses, do not occur.
\<close>

section \<open>Clients\<close>

record llm_timeouts =
  connect_secs :: nat
  read_secs :: nat
  request_secs :: nat

definition llm_timeouts_from_secs :: "nat \<Rightarrow> nat \<Rightarrow> nat \<Rightarrow> llm_timeouts" where
  "llm_timeouts_from_secs c r q = \<lparr>connect_secs = max c 1, read_secs = max r 1, request_secs = max q 1\<rparr>"

definition default_llm_timeouts :: llm_timeouts where
  "default_llm_timeouts = \<lparr>connect_secs = 10, read_secs = 60, request_secs = 120\<rparr>"

text \<open>The value of the authorization header: a token with a line break is refused.\<close>

definition bearer_value :: "string \<Rightarrow> string option" where
  "bearer_value tok =
     (let tok = trim tok in
      if tok = [] \<or> CHR 13 \<in> set tok \<or> CHR 10 \<in> set tok then None else Some (''Bearer '' @ tok))"

record llm_client =
  lc_backend :: string
  lc_endpoint :: endpoint
  lc_profile :: request_profile
  lc_timeouts :: llm_timeouts
  lc_auth :: "string option"

definition client_from_url :: "string \<Rightarrow> string \<Rightarrow> request_profile \<Rightarrow> llm_timeouts \<Rightarrow> llm_client" where
  "client_from_url backend url profile timeouts =
     \<lparr>lc_backend = backend, lc_endpoint = openai_client_from_url url, lc_profile = profile,
      lc_timeouts = timeouts, lc_auth = None\<rparr>"

definition with_bearer_token :: "string \<Rightarrow> llm_client \<Rightarrow> llm_client" where
  "with_bearer_token tok cl = cl\<lparr>lc_auth := bearer_value tok\<rparr>"

definition authorization_header :: "llm_client \<Rightarrow> string" where
  "authorization_header cl =
     (case lc_auth cl of Some v \<Rightarrow> ''Authorization: '' @ v @ CRLF | None \<Rightarrow> [])"

definition client_addr :: "llm_client \<Rightarrow> string" where
  "client_addr cl = ep_host (lc_endpoint cl) @ '':'' @ show_nat (ep_port (lc_endpoint cl))"

section \<open>Exchanges\<close>

datatype exchange = ConnectFailed string | ConnectTimedOut | WriteFailed string | WriteTimedOut
  | Connected in_stream

record 'd llm_net =
  net_exchange :: "string \<Rightarrow> string \<Rightarrow> 'd \<Rightarrow> exchange \<times> 'd"
  net_dec :: decoder
  net_from_str :: "string \<Rightarrow> json option"
  net_to_json :: "json \<Rightarrow> string"
  net_json_error :: "string \<Rightarrow> string"

definition llm_timed_out :: "llm_client \<Rightarrow> string \<Rightarrow> nat \<Rightarrow> string" where
  "llm_timed_out cl what secs = lc_backend cl @ '' '' @ what @ '' timed out after '' @ show_nat secs @ ''s''"

definition failed_with :: "llm_client \<Rightarrow> string \<Rightarrow> string \<Rightarrow> string" where
  "failed_with cl what e = lc_backend cl @ '' '' @ what @ '' failed: '' @ e"

text \<open>\<open>connect\<close> and the write of the request, labelled for the error.\<close>

definition open_exchange ::
  "'d llm_net \<Rightarrow> llm_client \<Rightarrow> string \<Rightarrow> string \<Rightarrow> 'd \<Rightarrow> (string + in_stream) \<times> 'd" where
  "open_exchange net cl label req d =
     (case net_exchange net (client_addr cl) req d of
        (Connected s, d) \<Rightarrow> (Ok s, d)
      | (ConnectFailed e, d) \<Rightarrow> (Err (lc_backend cl @ '' connect failed ('' @ client_addr cl @ ''): '' @ e), d)
      | (ConnectTimedOut, d) \<Rightarrow> (Err (lc_backend cl @ '' connect timed out after ''
            @ show_nat (connect_secs (lc_timeouts cl)) @ ''s ('' @ client_addr cl @ '')''), d)
      | (WriteFailed e, d) \<Rightarrow> (Err (failed_with cl label e), d)
      | (WriteTimedOut, d) \<Rightarrow> (Err (llm_timed_out cl label (read_secs (lc_timeouts cl))), d))"

definition http_read_error_text :: "http_read_error \<Rightarrow> string" where
  "http_read_error_text e =
     (case e of
        Timeout \<Rightarrow> ''request read timed out'' | Closed \<Rightarrow> ''peer closed before a complete request''
      | Malformed \<Rightarrow> ''malformed request line'' | RequestLineTooLong \<Rightarrow> ''request line too long''
      | StatusLineTooLong \<Rightarrow> ''response status line too long'' | HeaderLineTooLong \<Rightarrow> ''header line too long''
      | TooManyHeaders \<Rightarrow> ''too many headers'' | HeadersTooLarge \<Rightarrow> ''headers too large''
      | BodyTooLarge \<Rightarrow> ''request body too large'' | InvalidContentLength \<Rightarrow> ''invalid content-length''
      | UnsupportedTransferEncoding \<Rightarrow> ''unsupported transfer-encoding'' | IoError m \<Rightarrow> ''io error: '' @ m)"

definition DEFAULT_MAX_RESPONSE_BYTES :: nat where "DEFAULT_MAX_RESPONSE_BYTES = 8 * 1024 * 1024"
definition MAX_SSE_LINE_BYTES :: nat where "MAX_SSE_LINE_BYTES = 64 * 1024"

text \<open>A read without an answer ends with the time limit of its caller.\<close>

definition read_bounded_http_response ::
  "'d llm_net \<Rightarrow> llm_client \<Rightarrow> string \<Rightarrow> nat \<Rightarrow> in_stream \<Rightarrow> http_response res" where
  "read_bounded_http_response net cl label budget s =
     (case read_response (net_dec net) (with_body_cap DEFAULT_MAX_RESPONSE_BYTES) s of
        Inr r \<Rightarrow> Ok r
      | Inl Timeout \<Rightarrow> Err (llm_timed_out cl label budget)
      | Inl BodyTooLarge \<Rightarrow> Err ''LLM response exceeded body cap''
      | Inl e \<Rightarrow> Err (http_read_error_text e))"

definition http_post :: "'d llm_net \<Rightarrow> llm_client \<Rightarrow> string \<Rightarrow> string \<Rightarrow> 'd \<Rightarrow> http_response res \<times> 'd" where
  "http_post net cl path body d =
     (case open_exchange net cl ''request write''
             (''POST '' @ path @ '' HTTP/1.1'' @ CRLF @ ''Host: '' @ client_addr cl @ CRLF
              @ ''Content-Type: application/json'' @ CRLF @ ''Content-Length: '' @ show_nat (str_len body) @ CRLF
              @ authorization_header cl @ ''Connection: close'' @ CRLF @ CRLF @ body) d of
        (Inl e, d) \<Rightarrow> (Err e, d)
      | (Inr s, d) \<Rightarrow> (read_bounded_http_response net cl ''response read'' (request_secs (lc_timeouts cl)) s, d))"

definition http_get :: "'d llm_net \<Rightarrow> llm_client \<Rightarrow> string \<Rightarrow> 'd \<Rightarrow> http_response res \<times> 'd" where
  "http_get net cl path d =
     (case open_exchange net cl ''health request write''
             (''GET '' @ path @ '' HTTP/1.1'' @ CRLF @ ''Host: '' @ client_addr cl @ CRLF
              @ authorization_header cl @ ''Connection: close'' @ CRLF @ CRLF) d of
        (Inl e, d) \<Rightarrow> (Err e, d)
      | (Inr s, d) \<Rightarrow> (read_bounded_http_response net cl ''health response read'' (read_secs (lc_timeouts cl)) s, d))"

definition llm_health :: "'d llm_net \<Rightarrow> llm_client \<Rightarrow> 'd \<Rightarrow> bool \<times> 'd" where
  "llm_health net cl d =
     (case http_get net cl ''/health'' d of (Inr r, d) \<Rightarrow> (resp_status r = 200, d) | (Inl e, d) \<Rightarrow> (False, d))"

section \<open>Reading answers\<close>

text \<open>The derived reader of a struct takes an object, or an array of the fields in their order.\<close>

definition struct_fields :: "string list \<Rightarrow> json \<Rightarrow> json option list option" where
  "struct_fields names v =
     (case v of
        JObj kvs \<Rightarrow> Some (map (map_of kvs) names)
      | JArr xs \<Rightarrow> if length xs = length names then Some (map Some xs) else None
      | _ \<Rightarrow> None)"

definition decode_opt :: "(json \<Rightarrow> 'a option) \<Rightarrow> json option \<Rightarrow> 'a option option" where
  "decode_opt f v = (case v of None \<Rightarrow> Some None | Some JNull \<Rightarrow> Some None | Some w \<Rightarrow> map_option Some (f w))"

definition decode_message :: "json \<Rightarrow> message option" where
  "decode_message v =
     (case struct_fields [''role'', ''content''] v of
        Some [Some r, Some c] \<Rightarrow>
          (case (json_as_str r, json_as_str c) of
             (Some r, Some c) \<Rightarrow> Some \<lparr>msg_role = r, msg_content = c\<rparr> | _ \<Rightarrow> None)
      | _ \<Rightarrow> None)"

definition decode_delta :: "json \<Rightarrow> string option option" where
  "decode_delta v =
     (case struct_fields [''content''] v of Some [c] \<Rightarrow> decode_opt json_as_str c | _ \<Rightarrow> None)"

record choice =
  ch_message :: "message option"
  ch_delta :: "string option option"
  ch_finish :: "string option"

definition decode_choice :: "json \<Rightarrow> choice option" where
  "decode_choice v =
     (case struct_fields [''message'', ''delta'', ''finish_reason''] v of
        Some [m, dl, f] \<Rightarrow>
          (case (decode_opt decode_message m, decode_opt decode_delta dl, decode_opt json_as_str f) of
             (Some m, Some dl, Some f) \<Rightarrow> Some \<lparr>ch_message = m, ch_delta = dl, ch_finish = f\<rparr>
           | _ \<Rightarrow> None)
      | _ \<Rightarrow> None)"

definition decode_chat_response :: "json \<Rightarrow> choice list option" where
  "decode_chat_response v =
     (case struct_fields [''choices''] v of
        Some [Some (JArr xs)] \<Rightarrow> those (map decode_choice xs) | _ \<Rightarrow> None)"

definition parse_chat_response :: "'d llm_net \<Rightarrow> string \<Rightarrow> choice list option" where
  "parse_chat_response net s = Option.bind (net_from_str net s) decode_chat_response"

definition backend_error_message :: "(string \<Rightarrow> json option) \<Rightarrow> string \<Rightarrow> string" where
  "backend_error_message from_str body =
     (case from_str body of
        None \<Rightarrow> truncate_body body
      | Some v \<Rightarrow>
          (case Option.bind (Option.bind (json_get v ''error'') (\<lambda>e. json_get e ''message'')) json_as_str of
             Some m \<Rightarrow> m
           | None \<Rightarrow> (case Option.bind (json_get v ''message'') json_as_str of
                 Some m \<Rightarrow> m | None \<Rightarrow> truncate_body body)))"

section \<open>One completion\<close>

definition chat_with_prepared_body :: "'d llm_net \<Rightarrow> llm_client \<Rightarrow> string \<Rightarrow> 'd \<Rightarrow> string res \<times> 'd" where
  "chat_with_prepared_body net cl body d =
     (case http_post net cl ''/v1/chat/completions'' body d of
        (Inl e, d) \<Rightarrow> (Err e, d)
      | (Inr r, d) \<Rightarrow>
          (if resp_status r = 0 \<and> trim (resp_body r) = []
           then Err (lc_backend cl @ '' closed connection before HTTP status (request_bytes='' @ show_nat (str_len body) @ '')'')
           else if resp_status r \<noteq> 200
           then Err (lc_backend cl @ '' '' @ show_nat (resp_status r) @ '': ''
                     @ backend_error_message (net_from_str net) (resp_body r))
           else case parse_chat_response net (resp_body r) of
                  None \<Rightarrow> Err (''failed to parse '' @ lc_backend cl @ '' response: '' @ net_json_error net (resp_body r)
                              @ ''; body: '' @ truncate_body (resp_body r))
                | Some cs \<Rightarrow> Ok (case cs of c # _ \<Rightarrow> (case ch_message c of Some m \<Rightarrow> msg_content m | None \<Rightarrow> []) | [] \<Rightarrow> []), d))"

definition chat_once ::
  "'d llm_net \<Rightarrow> llm_client \<Rightarrow> response_format option \<Rightarrow> llm_hints option \<Rightarrow> nat option \<Rightarrow> message list \<Rightarrow> 'd \<Rightarrow>
     string res \<times> 'd" where
  "chat_once net cl fmt hints max_tokens messages d =
     chat_with_prepared_body net cl
       (fst (prepare_body (net_to_json net) (lc_profile cl) messages max_tokens False fmt hints)) d"

definition llm_chat ::
  "'d llm_net \<Rightarrow> llm_client \<Rightarrow> response_format option \<Rightarrow> llm_hints option \<Rightarrow> nat option \<Rightarrow> message list \<Rightarrow> 'd \<Rightarrow>
     string res \<times> 'd" where
  "llm_chat net cl fmt hints max_tokens messages d =
     (case chat_once net cl fmt hints max_tokens messages d of
        (Inr c, d) \<Rightarrow> (Ok c, d)
      | (Inl err, d) \<Rightarrow>
          if should_retry_without_system_role messages err
          then chat_once net cl fmt hints max_tokens (flatten_system_into_first_user messages) d
          else (Err err, d))"

section \<open>The stream of tokens\<close>

datatype line_read = LineRead string | NoMoreLines | LineFailed string | LineTimedOut

definition decoded_line :: "decoder \<Rightarrow> char list \<Rightarrow> line_read" where
  "decoded_line dec bs =
     (case dec_strict dec bs of Some l \<Rightarrow> LineRead l | None \<Rightarrow> LineFailed ''stream did not contain valid UTF-8'')"

text \<open>\<open>Lines::next_line\<close>: the next line without its end, and the bytes after it. The whole line is
  read before anything of it is seen.\<close>

definition next_line :: "decoder \<Rightarrow> stream_end \<Rightarrow> char list \<Rightarrow> line_read \<times> char list" where
  "next_line dec fin bs =
     (case find_index (\<lambda>c. c = CHR 10) bs of
        Some i \<Rightarrow> (decoded_line dec (strip_cr (take i bs)), drop (i + 1) bs)
      | None \<Rightarrow> (case fin of
            PeerClosed \<Rightarrow> (if bs = [] then NoMoreLines else decoded_line dec bs, [])
          | IoFailure m \<Rightarrow> (LineFailed m, []) | Silent \<Rightarrow> (LineTimedOut, [])))"

lemma next_line_shorter: "next_line dec fin bs = (LineRead l, rest) \<Longrightarrow> length rest < length bs"
  by (auto simp: next_line_def decoded_line_def split: option.splits stream_end.splits if_splits
      dest!: find_index_less)

definition parse_status_line :: "string \<Rightarrow> nat" where
  "parse_status_line line =
     (case split_whitespace line of _ # w # _ \<Rightarrow> (case parse_u16 w of Some n \<Rightarrow> n | None \<Rightarrow> 0) | _ \<Rightarrow> 0)"

definition exceeded :: "llm_client \<Rightarrow> string \<Rightarrow> nat \<Rightarrow> string" where
  "exceeded cl what n = lc_backend cl @ '' streaming '' @ what @ '' exceeded '' @ show_nat n @ '' bytes''"

function error_body_loop ::
  "'d llm_net \<Rightarrow> llm_client \<Rightarrow> stream_end \<Rightarrow> nat \<Rightarrow> string \<Rightarrow> char list \<Rightarrow> string" where
  "error_body_loop net cl fin status error_body bs =
     (case next_line (net_dec net) fin bs of
        (NoMoreLines, _) \<Rightarrow> lc_backend cl @ '' '' @ show_nat status @ '': ''
           @ backend_error_message (net_from_str net) error_body
      | (LineFailed m, _) \<Rightarrow> failed_with cl ''stream error read'' m
      | (LineTimedOut, _) \<Rightarrow> llm_timed_out cl ''stream error read'' (read_secs (lc_timeouts cl))
      | (LineRead line, rest) \<Rightarrow>
          if str_len line > MAX_SSE_LINE_BYTES then exceeded cl ''error line'' MAX_SSE_LINE_BYTES
          else if u64_sat_add (str_len error_body) (str_len line) > DEFAULT_MAX_RESPONSE_BYTES
          then exceeded cl ''error body'' DEFAULT_MAX_RESPONSE_BYTES
          else error_body_loop net cl fin status (error_body @ line) rest)"
  by pat_completeness auto
termination
  by (relation "measure (\<lambda>(net, cl, fin, status, error_body, bs). length bs)") (auto dest: next_line_shorter [OF sym])

declare error_body_loop.simps [simp del]

record sse_state =
  sse_status :: nat
  sse_headers_done :: bool
  sse_full :: string
  sse_tokens :: "string list"

text \<open>What a data line does: \<open>Inl\<close> ends the stream with its result.\<close>

definition sse_data ::
  "'d llm_net \<Rightarrow> llm_client \<Rightarrow> string \<Rightarrow> sse_state \<Rightarrow> (string list \<times> string res) + sse_state" where
  "sse_data net cl data st =
     (if data = ''[DONE]'' then Inl (sse_tokens st, Ok (sse_full st))
      else case parse_chat_response net data of
        Some (c # _) \<Rightarrow>
          (case Option.bind (ch_delta c) id of
             Some content \<Rightarrow>
               let toks = sse_tokens st @ [content] in
               if u64_sat_add (str_len (sse_full st)) (str_len content) > DEFAULT_MAX_RESPONSE_BYTES
               then Inl (toks, Err (exceeded cl ''response'' DEFAULT_MAX_RESPONSE_BYTES))
               else let st = st\<lparr>sse_full := sse_full st @ content, sse_tokens := toks\<rparr>
                    in if ch_finish c \<noteq> None then Inl (toks, Ok (sse_full st)) else Inr st
           | None \<Rightarrow> if ch_finish c \<noteq> None then Inl (sse_tokens st, Ok (sse_full st)) else Inr st)
      | _ \<Rightarrow> Inr st)"

text \<open>What a line does, the body of an error answer apart.\<close>

definition sse_line ::
  "'d llm_net \<Rightarrow> llm_client \<Rightarrow> stream_end \<Rightarrow> string \<Rightarrow> char list \<Rightarrow> sse_state \<Rightarrow>
     (string list \<times> string res) + sse_state" where
  "sse_line net cl fin line rest st =
     (if str_len line > MAX_SSE_LINE_BYTES then Inl (sse_tokens st, Err (exceeded cl ''line'' MAX_SSE_LINE_BYTES))
      else if \<not> sse_headers_done st then
        (if starts_with line ''HTTP/'' then Inr (st\<lparr>sse_status := parse_status_line line\<rparr>)
         else if line = [] then
           (if sse_status st \<noteq> 200
            then Inl (sse_tokens st, Err (error_body_loop net cl fin (sse_status st) [] rest))
            else Inr (st\<lparr>sse_headers_done := True\<rparr>))
         else Inr st)
      else (case strip_prefix line ''data: '' of Some data \<Rightarrow> sse_data net cl data st | None \<Rightarrow> Inr st))"

function sse_loop ::
  "'d llm_net \<Rightarrow> llm_client \<Rightarrow> stream_end \<Rightarrow> sse_state \<Rightarrow> char list \<Rightarrow> string list \<times> string res" where
  "sse_loop net cl fin st bs =
     (case next_line (net_dec net) fin bs of
        (NoMoreLines, _) \<Rightarrow>
          (sse_tokens st, if \<not> sse_headers_done st
             then Err (lc_backend cl @ '' closed streaming connection before HTTP status'') else Ok (sse_full st))
      | (LineFailed m, _) \<Rightarrow> (sse_tokens st, Err (failed_with cl ''stream read'' m))
      | (LineTimedOut, _) \<Rightarrow> (sse_tokens st, Err (llm_timed_out cl ''stream read'' (read_secs (lc_timeouts cl))))
      | (LineRead line, rest) \<Rightarrow>
          (case sse_line net cl fin line rest st of Inl r \<Rightarrow> r | Inr st \<Rightarrow> sse_loop net cl fin st rest))"
  by pat_completeness auto
termination
  by (relation "measure (\<lambda>(net, cl, fin, st, bs). length bs)") (auto dest: next_line_shorter [OF sym])

declare sse_loop.simps [simp del]

definition sse_init :: sse_state where
  "sse_init = \<lparr>sse_status = 0, sse_headers_done = False, sse_full = [], sse_tokens = []\<rparr>"

definition stream_request ::
  "'d llm_net \<Rightarrow> llm_client \<Rightarrow> llm_hints option \<Rightarrow> nat option \<Rightarrow> message list \<Rightarrow> string" where
  "stream_request net cl hints max_tokens messages =
     (let body = fst (prepare_body (net_to_json net) (lc_profile cl) messages max_tokens True None hints) in
      ''POST /v1/chat/completions HTTP/1.1'' @ CRLF @ ''Host: '' @ client_addr cl @ CRLF
      @ ''Content-Type: application/json'' @ CRLF @ ''Content-Length: '' @ show_nat (str_len body) @ CRLF
      @ ''Accept: text/event-stream'' @ CRLF @ authorization_header cl @ CRLF @ body)"

text \<open>A streamed completion: the tokens it delivered and its result.\<close>

definition llm_chat_stream ::
  "'d llm_net \<Rightarrow> llm_client \<Rightarrow> llm_hints option \<Rightarrow> nat option \<Rightarrow> message list \<Rightarrow> 'd \<Rightarrow> string list \<times> string res \<times> 'd" where
  "llm_chat_stream net cl hints max_tokens messages d =
     (case open_exchange net cl ''stream request write'' (stream_request net cl hints max_tokens messages) d of
        (Inl e, d) \<Rightarrow> ([], Err e, d)
      | (Inr s, d) \<Rightarrow>
          (case sse_loop net cl (snd s) sse_init (bytes_of s) of (toks, r) \<Rightarrow> (toks, r, d)))"

section \<open>Laws of the stream\<close>

text \<open>The response so far is what the tokens spell, and it fits.\<close>

definition sse_inv :: "sse_state \<Rightarrow> bool" where
  "sse_inv st \<longleftrightarrow> sse_full st = concat (sse_tokens st) \<and> str_len (sse_full st) \<le> DEFAULT_MAX_RESPONSE_BYTES"

text \<open>What may be said of a stream that ended: a result is the tokens and fits; an error leaves at
  most one token too many delivered.\<close>

definition sse_ended :: "string list \<times> string res \<Rightarrow> bool" where
  "sse_ended r \<longleftrightarrow>
     (case snd r of
        Inr full \<Rightarrow> full = concat (fst r) \<and> str_len full \<le> DEFAULT_MAX_RESPONSE_BYTES
      | Inl e \<Rightarrow> str_len (concat (butlast (fst r))) \<le> DEFAULT_MAX_RESPONSE_BYTES)"

lemma sse_invD: "sse_inv st \<Longrightarrow> sse_full st = concat (sse_tokens st)"
  "sse_inv st \<Longrightarrow> str_len (concat (sse_tokens st)) \<le> DEFAULT_MAX_RESPONSE_BYTES"
  by (auto simp: sse_inv_def)

lemma sse_ended_now:
  "sse_inv st \<Longrightarrow> sse_ended (sse_tokens st, Inl e)" "sse_inv st \<Longrightarrow> sse_ended (sse_tokens st, Inr (sse_full st))"
proof -
  assume inv: "sse_inv st"
  have "str_len (concat (butlast ts)) \<le> str_len (concat ts)" for ts :: "string list"
  proof (cases ts rule: rev_cases)
    case (snoc ys y)
    then show ?thesis by simp
  qed simp
  from this [of "sse_tokens st"] sse_invD(2) [OF inv] show "sse_ended (sse_tokens st, Inl e)"
    unfolding sse_ended_def by simp
  from sse_invD [OF inv] show "sse_ended (sse_tokens st, Inr (sse_full st))" by (simp add: sse_ended_def)
qed

lemma within_cap:
  "\<not> u64_sat_add a b > DEFAULT_MAX_RESPONSE_BYTES \<Longrightarrow> a + b \<le> DEFAULT_MAX_RESPONSE_BYTES"
  by (auto simp: u64_sat_add_def u64_max_def DEFAULT_MAX_RESPONSE_BYTES_def min_def split: if_splits)

lemma sse_data_inv:
  assumes "sse_inv st"
  shows "case sse_data net cl data st of Inl r \<Rightarrow> sse_ended r | Inr st' \<Rightarrow> sse_inv st'"
proof (cases "data = ''[DONE]''")
  case False
  show ?thesis
  proof (cases "parse_chat_response net data")
    case (Some cs)
    show ?thesis
    proof (cases cs)
      case (Cons c cs')
      show ?thesis
      proof (cases "Option.bind (ch_delta c) id")
        case None
        then show ?thesis using False Some Cons assms sse_ended_now(2) [OF assms] by (simp add: sse_data_def)
      next
        case content: (Some content)
        let ?t = "sse_tokens st @ [content]"
        let ?st = "st\<lparr>sse_full := sse_full st @ content, sse_tokens := ?t\<rparr>"
        show ?thesis
        proof (cases "u64_sat_add (str_len (sse_full st)) (str_len content) > DEFAULT_MAX_RESPONSE_BYTES")
          case True
          then show ?thesis using False Some Cons content sse_invD [OF assms]
            by (simp add: sse_data_def sse_ended_def)
        next
          case fit: False
          then have "sse_inv ?st" using within_cap [OF fit] assms by (simp add: sse_inv_def)
          then show ?thesis using False Some Cons content fit sse_ended_now(2) [of ?st]
            by (simp add: sse_data_def Let_def)
        qed
      qed
    qed (use False Some assms in \<open>simp add: sse_data_def\<close>)
  qed (use False assms in \<open>simp add: sse_data_def\<close>)
qed (use sse_ended_now(2) [OF assms] in \<open>simp add: sse_data_def\<close>)

lemma sse_line_inv:
  assumes "sse_inv st"
  shows "case sse_line net cl fin line rest st of Inl r \<Rightarrow> sse_ended r | Inr st' \<Rightarrow> sse_inv st'"
proof -
  have keep: "sse_inv (st\<lparr>sse_status := n\<rparr>)" "sse_inv (st\<lparr>sse_headers_done := b\<rparr>)" for n b
    using assms unfolding sse_inv_def by auto
  show ?thesis
  proof (cases "sse_headers_done st \<and> \<not> str_len line > MAX_SSE_LINE_BYTES")
    case True
    then show ?thesis using assms sse_data_inv [OF assms, of net cl]
      by (cases "strip_prefix line ''data: ''") (simp_all add: sse_line_def)
  next
    case False
    then show ?thesis using assms keep sse_ended_now(1) [OF assms] by (auto simp: sse_line_def)
  qed
qed

lemma sse_loop_ended: "sse_inv st \<Longrightarrow> sse_ended (sse_loop net cl fin st bs)"
proof (induction net cl fin st bs rule: sse_loop.induct)
  case (1 net cl fin st bs)
  obtain l rest where n: "next_line (net_dec net) fin bs = (l, rest)" by (rule prod.exhaust)
  show ?case
  proof (cases l)
    case (LineRead line)
    show ?thesis
    proof (cases "sse_line net cl fin line rest st")
      case (Inl r)
      then show ?thesis using sse_line_inv [OF 1(2), of net cl fin line rest] n LineRead
        by (subst sse_loop.simps) simp
    next
      case (Inr st')
      then have "sse_inv st'" using sse_line_inv [OF 1(2), of net cl fin line rest] by simp
      then have "sse_ended (sse_loop net cl fin st' rest)" using 1(1) n LineRead Inr by simp
      then show ?thesis using n LineRead Inr by (subst sse_loop.simps) simp
    qed
  qed (use n sse_ended_now [OF 1(2)] in \<open>subst sse_loop.simps, simp\<close>)+
qed

text \<open>A streamed completion delivers what it returns: its result is exactly the concatenation of
  the tokens it delivered, at most 8 MiB of it; and when it ends with an error, all tokens delivered
  but the last are at most 8 MiB.\<close>

theorem stream_result_is_tokens:
  "case llm_chat_stream net cl hints max_tokens messages d of
     (toks, Inr full, d') \<Rightarrow> full = concat toks \<and> str_len full \<le> DEFAULT_MAX_RESPONSE_BYTES
   | (toks, Inl e, d') \<Rightarrow> str_len (concat (butlast toks)) \<le> DEFAULT_MAX_RESPONSE_BYTES"
proof -
  have "sse_inv sse_init" by (simp add: sse_inv_def sse_init_def)
  then have ended: "sse_ended (sse_loop net cl fin sse_init bs)" for fin bs by (rule sse_loop_ended)
  obtain r d1 where o: "open_exchange net cl ''stream request write'' (stream_request net cl hints max_tokens messages) d = (r, d1)"
    by (rule prod.exhaust)
  show ?thesis
  proof (cases r)
    case (Inl e)
    then show ?thesis using o by (simp add: llm_chat_stream_def)
  next
    case (Inr s)
    obtain toks res where l: "sse_loop net cl (snd s) sse_init (bytes_of s) = (toks, res)" by (rule prod.exhaust)
    have "sse_ended (toks, res)" using ended [of "snd s" "bytes_of s"] unfolding l .
    then show ?thesis using o Inr l by (cases res) (simp_all add: llm_chat_stream_def sse_ended_def)
  qed
qed

text \<open>The bound on the length of a streamed line does not bound what is read: bytes without a line
  break, however many, are all read and waited for, and the stream ends by its time limit, not by
  the bound; the bounded reader of the other paths refuses the same bytes.\<close>

theorem endless_line_not_refused:
  assumes "list_all (\<lambda>c. c \<noteq> CHR 10) bs" and "MAX_SSE_LINE_BYTES < length bs"
  shows "sse_loop net cl Silent st bs
       = (sse_tokens st, Err (llm_timed_out cl ''stream read'' (read_secs (lc_timeouts cl))))
     \<and> read_line_bounded MAX_SSE_LINE_BYTES HeaderLineTooLong ([bs], Silent) = Err HeaderLineTooLong"
proof -
  have f: "find_index (\<lambda>c. c = CHR 10) bs = None" using assms(1) by (induction bs) auto
  have "bs \<noteq> []" using assms(2) by auto
  then have "read_line_bounded MAX_SSE_LINE_BYTES HeaderLineTooLong ([bs], Silent) = Err HeaderLineTooLong"
    using f assms(2) by (simp add: read_line_bounded_def)
  moreover have "sse_loop net cl Silent st bs
       = (sse_tokens st, Err (llm_timed_out cl ''stream read'' (read_secs (lc_timeouts cl))))"
    by (subst sse_loop.simps) (simp add: next_line_def f)
  ultimately show ?thesis by simp
qed

lemma endless_line_not_refused_witness:
  "\<forall>(net :: unit llm_net) cl. snd (sse_loop net cl Silent sse_init (replicate 100000 (CHR ''x'')))
     = Err (llm_timed_out cl ''stream read'' (read_secs (lc_timeouts cl)))"
proof (intro allI)
  fix net :: "unit llm_net" and cl
  have "list_all (\<lambda>c. c \<noteq> CHR 10) (replicate 100000 (CHR ''x''))" by (simp add: list_all_iff)
  moreover have "MAX_SSE_LINE_BYTES < length (replicate 100000 (CHR ''x''))" by (simp add: MAX_SSE_LINE_BYTES_def)
  ultimately show "snd (sse_loop net cl Silent sse_init (replicate 100000 (CHR ''x'')))
     = Err (llm_timed_out cl ''stream read'' (read_secs (lc_timeouts cl)))"
    using endless_line_not_refused [of "replicate 100000 (CHR ''x'')" net cl sse_init] by (simp only: snd_conv)
qed

section \<open>The retry\<close>

text \<open>The request is sent once, or a second time without any system message.\<close>

lemma chat_retry:
  "llm_chat net cl fmt hints mt ms d = chat_once net cl fmt hints mt ms d
   \<or> (\<exists>err d'. chat_once net cl fmt hints mt ms d = (Err err, d') \<and> system_role_not_supported err
        \<and> llm_chat net cl fmt hints mt ms d = chat_once net cl fmt hints mt (flatten_system_into_first_user ms) d'
        \<and> list_all (\<lambda>m. msg_role m \<noteq> ''system'') (flatten_system_into_first_user ms))"
  using flatten_no_system [of ms]
  by (auto simp: llm_chat_def should_retry_without_system_role_def split: prod.split sum.split)

end
