(* ===== verification/HttpServer.thy ===== *)
theory HttpServer
  imports HttpReader
begin

text \<open>
  The front door of the HTTP server: the request guard and the token policy of
  \<open>genie-common/src/http.rs\<close>, and the routing, the gate of chat turns and the admission of a
  request in \<open>genie-core/src/server.rs\<close>.
\<close>

section \<open>The route policy\<close>

datatype route_surface = GenieCore | GenieApi

definition route_requires_local_token :: "route_surface \<Rightarrow> string \<Rightarrow> string \<Rightarrow> bool" where
  "route_requires_local_token surface method path =
     (let path = hd (split_char (CHR ''?'') path) in
      if (method, path) \<in> {(''POST'', ''/api/actuation/confirm''), (''GET'', ''/api/actuation/pending''),
           (''GET'', ''/api/actuation/actions'')} then True
      else if (method, path) = (''GET'', ''/api/actuation/audit'') then surface = GenieApi
      else if (method, path) \<in> {(''GET'', ''/api/chat/history''), (''GET'', ''/api/chat/export''),
           (''GET'', ''/api/conversations'')} then True
      else if (method, path) \<in> {(''GET'', ''/api/memories''), (''POST'', ''/api/memories/update''),
           (''POST'', ''/api/memories/delete''), (''POST'', ''/api/memories/reorder''), (''POST'', ''/api/mode''),
           (''POST'', ''/api/chat/stream''), (''POST'', ''/api/chat''), (''POST'', ''/api/chat/clear''),
           (''POST'', ''/api/web-search''), (''POST'', ''/v1/chat/completions'')} then True
      else False)"

datatype request_route = Root | ChatStream | ChatRoute | History | ClearRoute | Conversations | ToolsRoute
  | RuntimeContract | WebSearchStatus | WebSearchPost | HealthRoute | ConnectivityRoute | ActuationPending
  | ActuationActions | ActuationConfirm | MemoriesList | MemoriesUpdate | MemoriesDelete | MemoriesReorder
  | OpenAiChat | ModelsRoute | OptionsRoute | ExportRoute string | NotFoundRoute

text \<open>The text after the first \<open>id=\<close>, up to the next one: \<open>path.split("id=").nth(1)\<close>.\<close>

definition export_id :: "string \<Rightarrow> string" where
  "export_id path =
     (case find_str path ''id='' of
        None \<Rightarrow> []
      | Some i \<Rightarrow> let r = drop (i + 3) path in (case find_str r ''id='' of None \<Rightarrow> r | Some j \<Rightarrow> take j r))"

definition classify_route :: "string \<Rightarrow> string \<Rightarrow> request_route" where
  "classify_route method path =
     (if method = ''GET'' \<and> path \<in> {''/'', ''/index.html''} then Root
      else if (method, path) = (''POST'', ''/api/chat/stream'') then ChatStream
      else if (method, path) = (''POST'', ''/api/chat'') then ChatRoute
      else if (method, path) = (''GET'', ''/api/chat/history'') then History
      else if (method, path) = (''POST'', ''/api/chat/clear'') then ClearRoute
      else if (method, path) = (''GET'', ''/api/conversations'') then Conversations
      else if (method, path) = (''GET'', ''/api/tools'') then ToolsRoute
      else if (method, path) = (''GET'', ''/api/runtime/contract'') then RuntimeContract
      else if (method, path) = (''GET'', ''/api/web-search'') then WebSearchStatus
      else if (method, path) = (''POST'', ''/api/web-search'') then WebSearchPost
      else if (method, path) = (''GET'', ''/api/health'') then HealthRoute
      else if (method, path) = (''GET'', ''/api/connectivity'') then ConnectivityRoute
      else if (method, path) = (''GET'', ''/api/actuation/pending'') then ActuationPending
      else if (method, path) = (''GET'', ''/api/actuation/actions'') then ActuationActions
      else if (method, path) = (''POST'', ''/api/actuation/confirm'') then ActuationConfirm
      else if (method, path) = (''GET'', ''/api/memories'') then MemoriesList
      else if (method, path) = (''POST'', ''/api/memories/update'') then MemoriesUpdate
      else if (method, path) = (''POST'', ''/api/memories/delete'') then MemoriesDelete
      else if (method, path) = (''POST'', ''/api/memories/reorder'') then MemoriesReorder
      else if (method, path) = (''POST'', ''/v1/chat/completions'') then OpenAiChat
      else if (method, path) = (''GET'', ''/v1/models'') then ModelsRoute
      else if method = ''OPTIONS'' then OptionsRoute
      else if method = ''GET'' \<and> starts_with path ''/api/chat/export'' then ExportRoute (export_id path)
      else NotFoundRoute)"

section \<open>The request guard\<close>

datatype guard_rejection = DisallowedHost | DisallowedOrigin | MissingToken

datatype origin_decision = AllowRequest "string option" | RejectRequest guard_rejection

definition rejection_reason :: "guard_rejection \<Rightarrow> string" where
  "rejection_reason r = (case r of
     DisallowedHost \<Rightarrow> ''host not allowed'' | DisallowedOrigin \<Rightarrow> ''origin not allowed''
   | MissingToken \<Rightarrow> ''missing or invalid local API token'')"

record request_guard =
  g_origins :: "string list"
  g_hosts :: "string list"
  g_token :: "string option"

definition push_unique :: "string list \<Rightarrow> string \<Rightarrow> string list" where
  "push_unique values c = (if c \<in> set values then values else values @ [c])"

definition normalize_origin :: "string \<Rightarrow> string" where
  "normalize_origin origin =
     to_ascii_lowercase (rev (dropWhile (\<lambda>c. c = CHR ''/'') (rev (trim origin))))"

text \<open>The names that one base adds: alone and with the port.\<close>

definition add_base :: "nat \<Rightarrow> string list \<times> string list \<Rightarrow> string \<Rightarrow> string list \<times> string list" where
  "add_base port ho base =
     (let base = to_ascii_lowercase base; with_port = base @ '':'' @ show_nat port in
      (push_unique (push_unique (fst ho) base) with_port,
       push_unique (push_unique (snd ho) (''http://'' @ base)) (''http://'' @ with_port)))"

text \<open>The entries of a configured list, normalized, blank ones left out.\<close>

definition add_extra :: "(string \<Rightarrow> string) \<Rightarrow> string list \<Rightarrow> string \<Rightarrow> string list" where
  "add_extra f hs h = (let h = f h in if h \<noteq> [] then push_unique hs h else hs)"

definition derive_hosts_and_origins :: "string \<Rightarrow> nat \<Rightarrow> string list \<times> string list" where
  "derive_hosts_and_origins listen_host port =
     (let bases = [''127.0.0.1'', ''localhost'', ''[::1]'']; host = trim listen_host;
          bases = (if host \<noteq> [] \<and> host \<notin> {''0.0.0.0'', ''::''}
            then let bracketed = (if CHR '':'' \<in> set host \<and> \<not> starts_with host ''[''
                                  then ''['' @ host @ '']'' else host)
                 in if list_ex (\<lambda>b. eq_ignore_ascii_case b bracketed) bases then bases else bases @ [bracketed]
            else bases)
      in foldl (add_base port) ([], []) bases)"

definition new_request_guard :: "string \<Rightarrow> nat \<Rightarrow> string list \<Rightarrow> string list \<Rightarrow> string \<Rightarrow> request_guard" where
  "new_request_guard listen_host port extra_origins extra_hosts tok =
     (let (hosts, origins) = derive_hosts_and_origins listen_host port;
          hosts = foldl (add_extra (\<lambda>h. to_ascii_lowercase (trim h))) hosts extra_hosts;
          origins = foldl (add_extra normalize_origin) origins extra_origins;
          tok = trim tok
      in \<lparr>g_origins = origins, g_hosts = hosts, g_token = (if tok \<noteq> [] then Some tok else None)\<rparr>)"

definition check_request :: "request_guard \<Rightarrow> inbound_request \<Rightarrow> origin_decision" where
  "check_request g r =
     (let bad_host = (case header_value r ''host'' of
            None \<Rightarrow> False
          | Some h \<Rightarrow> let host = to_ascii_lowercase (trim h) in host \<noteq> [] \<and> \<not> list_ex (\<lambda>x. x = host) (g_hosts g))
      in if bad_host then RejectRequest DisallowedHost
         else (case header_value r ''origin'' of
                 None \<Rightarrow> AllowRequest None
               | Some origin \<Rightarrow>
                   if normalize_origin origin \<in> set (g_origins g) then AllowRequest (Some (trim origin))
                   else RejectRequest DisallowedOrigin))"

text \<open>\<open>split_once(char::is_whitespace)\<close>.\<close>

definition split_once_ws :: "string \<Rightarrow> (string \<times> string) option" where
  "split_once_ws s =
     (case dropWhile (\<lambda>c. \<not> is_whitespace c) s of
        [] \<Rightarrow> None | _ # t \<Rightarrow> Some (takeWhile (\<lambda>c. \<not> is_whitespace c) s, t))"

definition bearer_token :: "string option \<Rightarrow> string option" where
  "bearer_token v =
     (case v of None \<Rightarrow> None
      | Some v \<Rightarrow> (case split_once_ws (trim v) of
            None \<Rightarrow> None
          | Some (scheme, tok) \<Rightarrow>
              if eq_ignore_ascii_case scheme ''bearer'' \<and> trim tok \<noteq> [] then Some (trim tok) else None))"

text \<open>The comparison of the local API token, the same loop as for origin secrets.\<close>

definition token_bytes_eq :: "char list \<Rightarrow> char list \<Rightarrow> bool" where
  "token_bytes_eq a b = (if length a \<noteq> length b then False else byte_diff a b = 0)"

definition presented_token :: "inbound_request \<Rightarrow> string option" where
  "presented_token r =
     (case header_value r ''x-genie-token'' of
        Some t \<Rightarrow> if trim t \<noteq> [] then Some (trim t) else bearer_token (header_value r ''authorization'')
      | None \<Rightarrow> bearer_token (header_value r ''authorization''))"

definition token_ok :: "request_guard \<Rightarrow> inbound_request \<Rightarrow> bool" where
  "token_ok g r =
     (case g_token g of
        None \<Rightarrow> True
      | Some expected \<Rightarrow> (case presented_token r of
            Some t \<Rightarrow> token_bytes_eq (utf8 t) (utf8 expected) | None \<Rightarrow> False))"

definition cors_response_headers :: "string option \<Rightarrow> string" where
  "cors_response_headers reflect =
     (case reflect of
        Some origin \<Rightarrow> ''Access-Control-Allow-Origin: '' @ origin @ CRLF
          @ ''Access-Control-Allow-Methods: GET, POST, OPTIONS'' @ CRLF
          @ ''Access-Control-Allow-Headers: Content-Type, Authorization, X-Genie-Origin, X-Genie-Token'' @ CRLF
          @ ''Vary: Origin'' @ CRLF
      | None \<Rightarrow> ''Vary: Origin'' @ CRLF)"

section \<open>Admission of a request\<close>

text \<open>What \<open>handle_request\<close> decides before any handler runs: drop the connection, answer a bare status,
  refuse, or route with the origin to reflect and the resolved request origin.\<close>

datatype admission = DropConnection | BareStatus nat | GuardRefused guard_rejection "string option"
  | Admitted request_route "string option" request_origin inbound_request

definition admit_request ::
  "request_guard \<Rightarrow> (string option \<Rightarrow> string option \<Rightarrow> request_origin) \<Rightarrow>
     http_read_error + inbound_request \<Rightarrow> admission" where
  "admit_request g resolve_origin rd =
     (case rd of
        Inl e \<Rightarrow> (case http_status_code e of Some st \<Rightarrow> BareStatus st | None \<Rightarrow> DropConnection)
      | Inr r \<Rightarrow>
          (case check_request g r of
             RejectRequest rej \<Rightarrow> GuardRefused rej None
           | AllowRequest echo \<Rightarrow>
               if route_requires_local_token GenieCore (rq_method r) (rq_path r) \<and> \<not> token_ok g r
               then GuardRefused MissingToken echo
               else Admitted (classify_route (rq_method r) (rq_path r)) echo
                      (resolve_origin (header_value r ''x-genie-origin'') (header_value r ''x-genie-origin-token'')) r))"

definition status_text :: "nat \<Rightarrow> string" where
  "status_text n =
     (if n = 200 then ''OK'' else if n = 400 then ''Bad Request'' else if n = 403 then ''Forbidden''
      else if n = 404 then ''Not Found'' else if n = 408 then ''Request Timeout'' else if n = 413 then ''Payload Too Large''
      else if n = 431 then ''Request Header Fields Too Large'' else if n = 502 then ''Bad Gateway''
      else if n = 503 then ''Service Unavailable'' else if n = 500 then ''Internal Server Error'' else ''Unknown'')"

definition response_head_text :: "nat \<Rightarrow> string \<Rightarrow> nat \<Rightarrow> string option \<Rightarrow> string" where
  "response_head_text status content_type len echo =
     ''HTTP/1.1 '' @ show_nat status @ '' '' @ status_text status @ CRLF
     @ ''Content-Type: '' @ content_type @ CRLF @ ''Content-Length: '' @ show_nat len @ CRLF
     @ cors_response_headers echo @ ''Connection: close'' @ CRLF @ CRLF"

section \<open>Laws of the guard\<close>

lemma token_bytes_eq_iff: "token_bytes_eq a b \<longleftrightarrow> a = b"
  by (auto simp: token_bytes_eq_def byte_diff_zero)

interpretation local_token: byte_equality token_bytes_eq
  by unfold_locales (rule token_bytes_eq_iff)

lemma set_push_unique [simp]: "set (push_unique xs c) = insert c (set xs)"
  by (auto simp: push_unique_def)

lemma set_add_extra:
  "set (foldl (add_extra f) acc xs) = set acc \<union> {f h | h. h \<in> set xs \<and> f h \<noteq> []}"
  by (induction xs arbitrary: acc) (auto simp: add_extra_def Let_def)

text \<open>The hosts a server answers to: loopback, the address it is bound to when that is a specific one,
  each with and without the port, and what the operator adds.\<close>

definition bound_bases :: "string \<Rightarrow> string set" where
  "bound_bases listen_host =
     (let host = trim listen_host in
      {''127.0.0.1'', ''localhost'', ''[::1]''} \<union>
      (if host \<in> {[], ''0.0.0.0'', ''::''} then {}
       else {to_ascii_lowercase (if CHR '':'' \<in> set host \<and> \<not> starts_with host ''[''
                                 then ''['' @ host @ '']'' else host)}))"

definition answered_hosts :: "string \<Rightarrow> nat \<Rightarrow> string list \<Rightarrow> string set" where
  "answered_hosts listen_host port extra =
     {b @ p | b p. b \<in> bound_bases listen_host \<and> p \<in> {[], '':'' @ show_nat port}}
     \<union> {to_ascii_lowercase (trim h) | h. h \<in> set extra \<and> trim h \<noteq> []}"

definition answered_origins :: "string \<Rightarrow> nat \<Rightarrow> string list \<Rightarrow> string set" where
  "answered_origins listen_host port extra =
     {''http://'' @ b @ p | b p. b \<in> bound_bases listen_host \<and> p \<in> {[], '':'' @ show_nat port}}
     \<union> {normalize_origin o' | o'. o' \<in> set extra \<and> normalize_origin o' \<noteq> []}"

lemma set_add_base:
  "set (fst (foldl (add_base port) ho bases))
     = set (fst ho) \<union> {to_ascii_lowercase b @ p | b p. b \<in> set bases \<and> p \<in> {[], '':'' @ show_nat port}}"
  "set (snd (foldl (add_base port) ho bases))
     = set (snd ho) \<union> {''http://'' @ to_ascii_lowercase b @ p | b p. b \<in> set bases \<and> p \<in> {[], '':'' @ show_nat port}}"
  by (induction bases arbitrary: ho) (auto simp: add_base_def Let_def)

lemma lower_fixed_bases:
  "to_ascii_lowercase ''127.0.0.1'' = ''127.0.0.1'' \<and> to_ascii_lowercase ''localhost'' = ''localhost''
     \<and> to_ascii_lowercase ''[::1]'' = ''[::1]''"
  by code_simp

lemma derive_sets:
  assumes "derive_hosts_and_origins listen_host port = (hosts, origins)"
  shows "set hosts = {b @ p | b p. b \<in> bound_bases listen_host \<and> p \<in> {[], '':'' @ show_nat port}}"
    and "set origins = {''http://'' @ b @ p | b p. b \<in> bound_bases listen_host \<and> p \<in> {[], '':'' @ show_nat port}}"
proof -
  let ?fixed = "[''127.0.0.1'', ''localhost'', ''[::1]'']"
  let ?host = "trim listen_host"
  let ?br = "if CHR '':'' \<in> set ?host \<and> \<not> starts_with ?host ''['' then ''['' @ ?host @ '']'' else ?host"
  define bases where "bases = (if ?host \<noteq> [] \<and> ?host \<notin> {''0.0.0.0'', ''::''}
      then if list_ex (\<lambda>b. eq_ignore_ascii_case b ?br) ?fixed then ?fixed else ?fixed @ [?br] else ?fixed)"
  have fold: "foldl (add_base port) ([], []) bases = (hosts, origins)"
    using assms unfolding derive_hosts_and_origins_def bases_def Let_def by simp
  have lower: "to_ascii_lowercase ` set bases = bound_bases listen_host"
    using lower_fixed_bases
    by (auto simp: bases_def bound_bases_def Let_def eq_ignore_ascii_case_def)
  have "{to_ascii_lowercase b @ p | b p. b \<in> set bases \<and> p \<in> {[], '':'' @ show_nat port}}
      = {b @ p | b p. b \<in> bound_bases listen_host \<and> p \<in> {[], '':'' @ show_nat port}}"
    unfolding lower [symmetric] by blast
  then show "set hosts = {b @ p | b p. b \<in> bound_bases listen_host \<and> p \<in> {[], '':'' @ show_nat port}}"
    using set_add_base(1) [of port "([], [])" bases] fold by simp
  have "{''http://'' @ to_ascii_lowercase b @ p | b p. b \<in> set bases \<and> p \<in> {[], '':'' @ show_nat port}}
      = {''http://'' @ b @ p | b p. b \<in> bound_bases listen_host \<and> p \<in> {[], '':'' @ show_nat port}}"
    unfolding lower [symmetric] by blast
  then show "set origins = {''http://'' @ b @ p | b p. b \<in> bound_bases listen_host \<and> p \<in> {[], '':'' @ show_nat port}}"
    using set_add_base(2) [of port "([], [])" bases] fold by simp
qed

lemma guard_hosts: "set (g_hosts (new_request_guard lh port eo eh tok)) = answered_hosts lh port eh"
proof -
  obtain hosts origins where d: "derive_hosts_and_origins lh port = (hosts, origins)" by (rule prod.exhaust)
  have "to_ascii_lowercase (trim h) \<noteq> [] \<longleftrightarrow> trim h \<noteq> []" for h by (simp add: to_ascii_lowercase_def)
  then show ?thesis using derive_sets(1) [OF d]
    by (simp add: new_request_guard_def d answered_hosts_def Let_def set_add_extra)
qed

lemma guard_origins: "set (g_origins (new_request_guard lh port eo eh tok)) = answered_origins lh port eo"
proof -
  obtain hosts origins where d: "derive_hosts_and_origins lh port = (hosts, origins)" by (rule prod.exhaust)
  show ?thesis using derive_sets(2) [OF d]
    by (simp add: new_request_guard_def d answered_origins_def Let_def set_add_extra)
qed

text \<open>A request that passes the guard was addressed to the server under one of its own names
  (loopback, the bound address, or a host the operator listed; no \<open>Host\<close> header passes too), which
  closes DNS rebinding; and an origin is reflected only when it is the server's own or a listed one,
  so no other page can read an answer.\<close>

theorem guard_admits_known_names:
  "case check_request (new_request_guard lh port eo eh tok) r of
     RejectRequest rej \<Rightarrow> True
   | AllowRequest echo \<Rightarrow>
       (case header_value r ''host'' of
          None \<Rightarrow> True | Some h \<Rightarrow> to_ascii_lowercase (trim h) \<in> insert [] (answered_hosts lh port eh))
     \<and> (case header_value r ''origin'' of
          None \<Rightarrow> echo = None
        | Some og \<Rightarrow> echo = Some (trim og) \<and> normalize_origin og \<in> answered_origins lh port eo)"
  by (auto simp: check_request_def Let_def list_ex_iff guard_hosts guard_origins split: option.splits if_splits)

text \<open>The routes that are open without the token: the page, the status reads, preflight, unknown paths,
  and, as the code has it, the export of a conversation.\<close>

definition open_route :: "request_route \<Rightarrow> bool" where
  "open_route rt \<longleftrightarrow> rt \<in> {Root, ToolsRoute, RuntimeContract, WebSearchStatus, HealthRoute, ConnectivityRoute,
     ModelsRoute, OptionsRoute, NotFoundRoute} \<or> (\<exists>cid. rt = ExportRoute cid)"

lemma closed_route_needs_token:
  "\<not> open_route (classify_route m p) \<Longrightarrow> route_requires_local_token GenieCore m p"
  by (auto simp: open_route_def classify_route_def route_requires_local_token_def split: if_splits)

lemma token_ok_iff: "token_ok g r \<longleftrightarrow> g_token g = None \<or> presented_token r = g_token g"
  by (auto simp: token_ok_def token_bytes_eq_iff split: option.splits)


definition bare_get :: "string \<Rightarrow> inbound_request" where
  "bare_get path = \<lparr>rq_method = ''GET'', rq_path = path, rq_headers = [], rq_content_length = 0, rq_body = None\<rparr>"

lemma split_char_nonempty: "split_char d s \<noteq> []"
  by (induction s) (auto split: list.split)

lemma split_char_hd: "hd (split_char d s) = takeWhile (\<lambda>c. c \<noteq> d) s"
proof (induction s)
  case (Cons c s)
  then show ?case using split_char_nonempty [of d s] by (cases "split_char d s") auto
qed simp

text \<open>The export route is matched by prefix and the token policy by the exact path, so a request
  for \<open>/api/chat/exports?id=\<close> is routed to the export of that conversation without any token,
  whatever token is configured and whatever the conversation; the exact path is refused.\<close>

theorem export_bypasses_token:
  "admit_request (new_request_guard lh port eo eh tok) resolve_origin (Ok (bare_get (''/api/chat/exports?id='' @ cid)))
     = Admitted (ExportRoute (export_id (''?id='' @ cid))) None (resolve_origin None None)
         (bare_get (''/api/chat/exports?id='' @ cid))
   \<and> (case admit_request (new_request_guard lh port eo eh ''secret'') resolve_origin
             (Ok (bare_get (''/api/chat/export?id='' @ cid))) of
        GuardRefused MissingToken echo \<Rightarrow> True | _ \<Rightarrow> False)"
proof
  let ?p = "''/api/chat/exports?id='' @ cid"
  have id: "export_id ?p = export_id (''?id='' @ cid)" by (simp add: export_id_def Let_def)
  have route: "classify_route ''GET'' ?p = ExportRoute (export_id ?p)"
    by (simp add: classify_route_def)
  have "\<not> route_requires_local_token GenieCore ''GET'' ?p"
    by (simp add: route_requires_local_token_def split_char_hd Let_def)
  then show "admit_request (new_request_guard lh port eo eh tok) resolve_origin (Ok (bare_get ?p))
     = Admitted (ExportRoute (export_id (''?id='' @ cid))) None (resolve_origin None None) (bare_get ?p)"
    using route id by (simp add: admit_request_def check_request_def header_value_def bare_get_def)
  let ?q = "''/api/chat/export?id='' @ cid"
  have need: "route_requires_local_token GenieCore ''GET'' ?q"
    by (simp add: route_requires_local_token_def split_char_hd Let_def)
  obtain hosts origins where d: "derive_hosts_and_origins lh port = (hosts, origins)" by (rule prod.exhaust)
  have "trim ''secret'' = ''secret''" by code_simp
  then have "g_token (new_request_guard lh port eo eh ''secret'') = Some ''secret''"
    by (simp add: new_request_guard_def d Let_def)
  moreover have "presented_token (bare_get ?q) = None"
    by (simp add: presented_token_def header_value_def bare_get_def bearer_token_def)
  ultimately have "\<not> token_ok (new_request_guard lh port eo eh ''secret'') (bare_get ?q)"
    by (simp add: token_ok_iff)
  then show "case admit_request (new_request_guard lh port eo eh ''secret'') resolve_origin (Ok (bare_get ?q)) of
      GuardRefused MissingToken echo \<Rightarrow> True | _ \<Rightarrow> False"
    using need by (simp add: admit_request_def check_request_def header_value_def bare_get_def)
qed

end
