(* ===== verification/ChatGate.thy ===== *)
theory ChatGate
  imports Prelude
begin

text \<open>
  The gate that serializes chat turns (\<open>ChatTurnGate\<close> in \<open>genie-core/src/server.rs\<close>): a lock that one
  request holds at a time, and the counters that \<open>/api/health\<close> reports.

  The requests run as tasks of one thread, so the code between two awaits is one step. A task
  enters (registers as a waiter), gets the lock, gives up after \<open>busy_wait\<close>, is dropped while it
  waits, or ends its turn, by returning or by being dropped; the admission semaphore bounds the
  number of tasks. Times are milliseconds of the monotonic clock.
\<close>

section \<open>State and steps\<close>

datatype task_phase = Absent | Waiting | Holding

record chat_counters =
  waiters :: nat
  in_flight :: bool
  holder_since :: "nat option"
  last_completed :: "nat option"
  completed_turns :: nat

record gate_system =
  counters :: chat_counters
  lock :: "nat option"
  task_at :: "nat \<Rightarrow> task_phase"
  clock :: nat
  ended :: nat

definition U32_MAX :: nat where
  "U32_MAX = 2 ^ 32 - 1"

definition no_counters :: chat_counters where
  "no_counters = \<lparr>waiters = 0, in_flight = False, holder_since = None, last_completed = None, completed_turns = 0\<rparr>"

definition waiter_new :: "chat_counters \<Rightarrow> chat_counters" where
  "waiter_new s = s\<lparr>waiters := min (waiters s + 1) U32_MAX\<rparr>"

definition waiter_drop :: "chat_counters \<Rightarrow> chat_counters" where
  "waiter_drop s = s\<lparr>waiters := waiters s - 1\<rparr>"

definition promote :: "nat \<Rightarrow> chat_counters \<Rightarrow> chat_counters" where
  "promote now s = s\<lparr>waiters := waiters s - 1, in_flight := True, holder_since := Some now\<rparr>"

definition on_turn_complete :: "nat \<Rightarrow> chat_counters \<Rightarrow> chat_counters" where
  "on_turn_complete now s =
     s\<lparr>in_flight := False, holder_since := None, last_completed := Some now,
       completed_turns := min (completed_turns s + 1) u64_max\<rparr>"

record chat_liveness =
  lv_waiters :: nat
  lv_in_flight :: bool
  lv_completed_turns :: nat
  lv_last_turn_age_secs :: "nat option"
  lv_current_turn_age_secs :: "nat option"
  lv_wedged :: bool

definition gate_snapshot :: "nat \<Rightarrow> nat \<Rightarrow> chat_counters \<Rightarrow> chat_liveness" where
  "gate_snapshot wedge_after now s =
     (let current = map_option (\<lambda>t. now - t) (holder_since s) in
      \<lparr>lv_waiters = waiters s, lv_in_flight = in_flight s, lv_completed_turns = completed_turns s,
       lv_last_turn_age_secs = map_option (\<lambda>t. (now - t) div 1000) (last_completed s),
       lv_current_turn_age_secs = map_option (\<lambda>d. d div 1000) current,
       lv_wedged = (case current of Some d \<Rightarrow> wedge_after \<le> d | None \<Rightarrow> False)\<rparr>)"

definition BUSY_WAIT_MS :: nat where "BUSY_WAIT_MS = 120000"
definition WEDGE_AFTER_MS :: nat where "WEDGE_AFTER_MS = 240000"

definition active :: "gate_system \<Rightarrow> nat set" where
  "active g = {t. task_at g t \<noteq> Absent}"

definition gate_init :: gate_system where
  "gate_init = \<lparr>counters = no_counters, lock = None, task_at = (\<lambda>t. Absent), clock = 0, ended = 0\<rparr>"

text \<open>The last component counts the turns that ended; the code does not keep it.\<close>

inductive gate_step :: "nat \<Rightarrow> gate_system \<Rightarrow> gate_system \<Rightarrow> bool" for permits :: nat where
  enter: "task_at g t = Absent \<Longrightarrow> card (active g) < permits \<Longrightarrow>
    gate_step permits g (g\<lparr>counters := waiter_new (counters g), task_at := (task_at g)(t := Waiting)\<rparr>)"
| acquire: "task_at g t = Waiting \<Longrightarrow> lock g = None \<Longrightarrow>
    gate_step permits g (g\<lparr>counters := promote (clock g) (counters g), lock := Some t,
      task_at := (task_at g)(t := Holding)\<rparr>)"
| leave: "task_at g t = Waiting \<Longrightarrow>
    gate_step permits g (g\<lparr>counters := waiter_drop (counters g), task_at := (task_at g)(t := Absent)\<rparr>)"
| finish: "task_at g t = Holding \<Longrightarrow>
    gate_step permits g (g\<lparr>counters := on_turn_complete (clock g) (counters g), lock := None,
      task_at := (task_at g)(t := Absent), ended := ended g + 1\<rparr>)"
| tick: "gate_step permits g (g\<lparr>clock := clock g + d\<rparr>)"

inductive gate_reachable :: "nat \<Rightarrow> gate_system \<Rightarrow> bool" for permits :: nat where
  start: "gate_reachable permits gate_init"
| step: "gate_reachable permits g \<Longrightarrow> gate_step permits g g' \<Longrightarrow> gate_reachable permits g'"

section \<open>The invariant\<close>

definition waiting :: "gate_system \<Rightarrow> nat set" where
  "waiting g = {t. task_at g t = Waiting}"

definition gate_inv :: "nat \<Rightarrow> gate_system \<Rightarrow> bool" where
  "gate_inv permits g \<longleftrightarrow>
     finite (active g) \<and> card (active g) \<le> permits
     \<and> waiters (counters g) = card (waiting g)
     \<and> (\<forall>t. task_at g t = Holding \<longleftrightarrow> lock g = Some t)
     \<and> in_flight (counters g) = (lock g \<noteq> None)
     \<and> (holder_since (counters g) = None) = (lock g = None)
     \<and> completed_turns (counters g) = min (ended g) u64_max"

lemma waiting_active: "waiting g \<subseteq> active g"
  by (auto simp: waiting_def active_def)

lemma waiting_card:
  assumes "gate_inv permits g"
  shows "finite (waiting g)" and "card (waiting g) \<le> permits"
  using assms finite_subset [OF waiting_active] card_mono [OF _ waiting_active, of g]
  by (auto simp: gate_inv_def)

lemma lock_holder: "gate_inv permits g \<Longrightarrow> lock g = Some t \<longleftrightarrow> task_at g t = Holding"
  unfolding gate_inv_def by blast

lemma gate_inv_init: "gate_inv permits gate_init"
  by (simp add: gate_inv_def gate_init_def no_counters_def active_def waiting_def)

lemma gate_inv_step [rust_invs]:
  assumes "gate_step permits g g'" and inv: "gate_inv permits g" and "permits \<le> U32_MAX"
  shows "gate_inv permits g'"
  using assms(1)
proof (cases rule: gate_step.cases)
  case (enter t)
  have t: "t \<notin> active g" "t \<notin> waiting g" using enter by (auto simp: active_def waiting_def)
  have a: "active g' = insert t (active g)" "waiting g' = insert t (waiting g)"
    using enter by (auto simp: active_def waiting_def)
  have "card (waiting g) < permits"
    using enter(3) card_mono [OF _ waiting_active, of g] inv by (auto simp: gate_inv_def)
  moreover have "lock g \<noteq> Some t" using lock_holder [OF inv, of t] enter(2) by simp
  ultimately show ?thesis using enter inv t waiting_card [OF inv] assms(3) unfolding gate_inv_def a
    by (auto simp: waiter_new_def)
next
  case (acquire t)
  have t: "t \<in> waiting g" using acquire by (simp add: waiting_def)
  have a: "active g' = active g" "waiting g' = waiting g - {t}"
    using acquire by (auto simp: active_def waiting_def)
  show ?thesis using acquire inv t waiting_card [OF inv] unfolding gate_inv_def a
    by (auto simp: promote_def)
next
  case (leave t)
  have t: "t \<in> waiting g" "t \<in> active g" using leave by (auto simp: waiting_def active_def)
  have a: "active g' = active g - {t}" "waiting g' = waiting g - {t}"
    using leave by (auto simp: active_def waiting_def)
  have "card (active g - {t}) \<le> permits" using inv t by (auto simp: gate_inv_def)
  moreover have "lock g \<noteq> Some t" using lock_holder [OF inv, of t] leave(2) by simp
  ultimately show ?thesis using leave inv t waiting_card [OF inv] unfolding gate_inv_def a
    by (auto simp: waiter_drop_def)
next
  case (finish t)
  have t: "t \<in> active g" "t \<notin> waiting g" using finish by (auto simp: waiting_def active_def)
  have a: "active g' = active g - {t}" "waiting g' = waiting g"
    using finish by (auto simp: active_def waiting_def)
  have "card (active g - {t}) \<le> permits" using inv t by (auto simp: gate_inv_def)
  then show ?thesis using finish inv t waiting_card [OF inv] unfolding gate_inv_def a
    by (auto simp: on_turn_complete_def)
next
  case (tick d)
  have "active g' = active g" "waiting g' = waiting g" using tick by (simp_all add: active_def waiting_def)
  then show ?thesis using tick inv by (simp add: gate_inv_def)
qed

lemma gate_inv_reachable:
  "gate_reachable permits g \<Longrightarrow> permits \<le> U32_MAX \<Longrightarrow> gate_inv permits g"
  by (induction rule: gate_reachable.induct) (auto intro: gate_inv_init gate_inv_step)

text \<open>C10: in every reachable state, whatever the interleaving of arrivals, grants, time-outs,
  disconnections and completions: at most one chat turn runs; the health report counts exactly the
  requests that wait (a dropped request leaves no phantom waiter), says whether a turn runs, and
  counts the turns that ended; and it calls the gate wedged only when a turn has held it.\<close>

theorem chat_turns_exclusive:
  assumes "gate_reachable permits g" and "permits \<le> U32_MAX"
  shows "card {t. task_at g t = Holding} \<le> 1
     \<and> lv_waiters (gate_snapshot w now (counters g)) = card {t. task_at g t = Waiting}
     \<and> (lv_in_flight (gate_snapshot w now (counters g)) \<longleftrightarrow> (\<exists>t. task_at g t = Holding))
     \<and> lv_completed_turns (gate_snapshot w now (counters g)) = min (ended g) u64_max
     \<and> (lv_wedged (gate_snapshot w now (counters g)) \<le> (\<exists>t. task_at g t = Holding))"
proof -
  have inv: "gate_inv permits g" by (rule gate_inv_reachable [OF assms])
  have "{t. task_at g t = Holding} = set_option (lock g)" using inv by (auto simp: gate_inv_def)
  then have "card {t. task_at g t = Holding} \<le> 1" by (cases "lock g") simp_all
  moreover have "(\<exists>t. task_at g t = Holding) \<longleftrightarrow> lock g \<noteq> None" using inv by (auto simp: gate_inv_def)
  ultimately show ?thesis using inv
    by (auto simp: gate_inv_def gate_snapshot_def waiting_def Let_def split: option.splits)
qed

lemma chat_turns_exclusive_witness:
  "card {t. task_at gate_init t = Holding} \<le> 1
     \<and> lv_waiters (gate_snapshot WEDGE_AFTER_MS 5 (counters gate_init)) = card {t. task_at gate_init t = Waiting}"
  using chat_turns_exclusive [of 1 gate_init WEDGE_AFTER_MS 5] by (simp add: gate_reachable.start U32_MAX_def)

text \<open>No request waits for ever: from every reachable state a waiting request can stop waiting in
  one step (the bounded wait), and as soon as no turn runs it can take its turn; after the running
  turn ends the gate is free.\<close>

theorem waiting_requests_progress:
  assumes "gate_reachable permits g" and "permits \<le> U32_MAX" and "task_at g t = Waiting"
  shows "(\<exists>g'. gate_step permits g g' \<and> task_at g' t = Absent)
     \<and> (\<exists>g1 g2. (g1 = g \<or> gate_step permits g g1) \<and> gate_step permits g1 g2 \<and> task_at g2 t = Holding)"
proof
  show "\<exists>g'. gate_step permits g g' \<and> task_at g' t = Absent"
    using gate_step.leave [OF assms(3), of permits] by (intro exI conjI) (assumption, simp)
  have inv: "gate_inv permits g" by (rule gate_inv_reachable [OF assms(1,2)])
  show "\<exists>g1 g2. (g1 = g \<or> gate_step permits g g1) \<and> gate_step permits g1 g2 \<and> task_at g2 t = Holding"
  proof (cases "lock g")
    case None
    then show ?thesis using gate_step.acquire [OF assms(3) None, of permits]
      by (intro exI [of _ g] exI conjI) (simp, assumption, simp)
  next
    case (Some u)
    then have u: "task_at g u = Holding" using inv by (simp add: gate_inv_def)
    define g1 where "g1 = g\<lparr>counters := on_turn_complete (clock g) (counters g), lock := None,
      task_at := (task_at g)(u := Absent), ended := ended g + 1\<rparr>"
    have g1: "gate_step permits g g1" unfolding g1_def by (rule gate_step.finish [OF u])
    have "task_at g1 t = Waiting" "lock g1 = None" using u assms(3) by (auto simp: g1_def)
    then show ?thesis using g1 gate_step.acquire [of g1 t permits]
      by (intro exI [of _ g1] exI conjI) (simp, simp, simp)
  qed
qed

definition one_waiter :: gate_system where
  "one_waiter = gate_init\<lparr>counters := waiter_new no_counters, task_at := (\<lambda>t. Absent)(0 := Waiting)\<rparr>"

lemma waiting_requests_progress_witness:
  "\<exists>g'. gate_step 1 one_waiter g' \<and> task_at g' 0 = Absent"
proof -
  have "gate_step 1 gate_init (gate_init\<lparr>counters := waiter_new (counters gate_init),
      task_at := (task_at gate_init)(0 := Waiting)\<rparr>)"
    by (rule gate_step.enter) (simp_all add: gate_init_def active_def)
  then have "gate_reachable 1 one_waiter"
    using gate_reachable.step [OF gate_reachable.start] by (simp add: one_waiter_def gate_init_def)
  then show ?thesis using waiting_requests_progress [of 1 one_waiter 0]
    by (simp add: one_waiter_def U32_MAX_def)
qed

end
