(* ===== verification/Telegram.thy ===== *)
theory Telegram
  imports Values
begin

text \<open>
  The Telegram channel (\<open>telegram.rs\<close>, \<open>channel/telegram.rs\<close>): which chats are served, how a
  message becomes a turn, how a reply is cut into messages, and the handling of voice messages
  and voice replies. The drivers that serve the chats are in \<open>TelegramDrivers\<close>.

  The Bot API, the core's \<open>/api/chat\<close>, the audio tools and the file system are operations of a
  record, each passing the rest of the world along; the counter of temporary names is state.
\<close>

section \<open>Configuration and messages\<close>

definition i64_max :: int where
  "i64_max = 2 ^ 63 - 1"

definition i64_sat_succ :: "int \<Rightarrow> int" where
  "i64_sat_succ i = min (i + 1) i64_max"

record tg_voice_config =
  tv_enabled :: bool
  tv_max_duration_secs :: nat
  tv_delete_temp_audio :: bool
  tv_reply_as_voice :: bool
  tv_max_reply_chars :: nat
  tv_max_parallel_voice :: nat

record tg_config =
  tg_api_base :: string
  tg_bot_token :: string
  tg_core_base_url :: string
  tg_allowed_chat_ids :: "int list"
  tg_allow_all_chats :: bool
  tg_voice_cfg :: tg_voice_config
  tg_origin_token :: "string option"
  tg_max_parallel_updates :: nat

record tg_voice =
  tvm_file_id :: string
  tvm_duration :: nat

text \<open>\<open>from\<close> is the sender, with its optional flag \<open>is_bot\<close>.\<close>

record tg_message =
  tm_chat :: int
  tm_from :: "bool option option"
  tm_text :: "string option"
  tm_voice :: "tg_voice option"
  tm_audio :: "tg_voice option"

record tg_update =
  tu_id :: int
  tu_message :: "tg_message option"

text \<open>\<open>TelegramApi::new\<close>: the numbers of voice and update permits.\<close>

definition voice_slots :: "tg_config \<Rightarrow> nat" where
  "voice_slots cfg = max (tv_max_parallel_voice (tg_voice_cfg cfg)) 1"

definition update_slots :: "tg_config \<Rightarrow> nat" where
  "update_slots cfg = max (tg_max_parallel_updates cfg) (voice_slots cfg)"

definition chat_allowed :: "tg_config \<Rightarrow> int \<Rightarrow> bool" where
  "chat_allowed cfg chat \<longleftrightarrow> tg_allow_all_chats cfg \<or> chat \<in> set (tg_allowed_chat_ids cfg)"

definition from_bot :: "tg_message \<Rightarrow> bool" where
  "from_bot m = (case tm_from m of Some (Some b) \<Rightarrow> b | _ \<Rightarrow> False)"

definition trim_end_char :: "char \<Rightarrow> string \<Rightarrow> string" where
  "trim_end_char c s = rev (dropWhile (\<lambda>d. d = c) (rev s))"

definition method_url :: "tg_config \<Rightarrow> string \<Rightarrow> string" where
  "method_url cfg m =
     trim_end_char (CHR 0x2F) (tg_api_base cfg) @ ''/bot'' @ tg_bot_token cfg @ ''/'' @ m"

text \<open>\<open>bootstrap_offset\<close>: the offset after the updates that are pending at the start.\<close>

definition bootstrap_offset :: "tg_update list \<Rightarrow> int" where
  "bootstrap_offset updates =
     (case map tu_id updates of [] \<Rightarrow> 0 | i # is \<Rightarrow> i64_sat_succ (foldl max i is))"

definition next_offset :: "int \<Rightarrow> tg_update \<Rightarrow> int" where
  "next_offset offset u = max offset (i64_sat_succ (tu_id u))"

section \<open>Texts\<close>

definition configured_language :: "string \<Rightarrow> string option" where
  "configured_language raw =
     (let trimmed = trim raw in
      if trimmed = [] \<or> eq_ignore_ascii_case trimmed ''auto'' then None else Some trimmed)"

definition HALLUCINATIONS :: "string list" where
  "HALLUCINATIONS =
     [''[blank_audio]'', ''[ blank_audio ]'', ''(blank audio)'', ''[silence]'', ''(silence)'',
      ''[music]'', ''(music)'', ''[applause]'', ''(applause)'', ''thank you.'',
      ''thanks for watching.'', ''you'']"

definition clean_transcript :: "string \<Rightarrow> string" where
  "clean_transcript raw =
     (let trimmed = trim raw in
      if trimmed = [] then []
      else if to_lowercase trimmed \<in> set HALLUCINATIONS then [] else trimmed)"

datatype voice_reply = ReplyText | SkipOverLength nat | ReplyVoice

definition voice_reply_gate :: "string \<Rightarrow> bool \<Rightarrow> nat \<Rightarrow> voice_reply" where
  "voice_reply_gate reply reply_as_voice max_chars =
     (let trimmed = trim reply in
      if \<not> reply_as_voice \<or> trimmed = [] then ReplyText
      else if max_chars < length trimmed then SkipOverLength (length trimmed)
      else ReplyVoice)"

definition strip_bot_mention :: "string \<Rightarrow> string" where
  "strip_bot_mention t =
     join_str '' '' (filter (\<lambda>part. \<not> starts_with part ''@'') (split_whitespace t))"

definition telegram_session_id :: "int \<Rightarrow> string" where
  "telegram_session_id chat = ''telegram-'' @ show_int chat"

definition MAX_MESSAGE_LEN :: nat where
  "MAX_MESSAGE_LEN = 4096"

definition rfind_char :: "char \<Rightarrow> string \<Rightarrow> nat option" where
  "rfind_char c s =
     map_option (\<lambda>i. length s - 1 - i) (find_index (\<lambda>d. d = c) (rev s))"

text \<open>Where the loop of \<open>split_message\<close> cuts a text that is too long.\<close>

definition cut_at :: "nat \<Rightarrow> string \<Rightarrow> nat" where
  "cut_at limit remaining =
     (let area = take limit remaining;
          chunk_end = (case rfind_char (CHR 10) area of Some i \<Rightarrow> i
            | None \<Rightarrow> (case rfind_char (CHR '' '') area of Some i \<Rightarrow> i | None \<Rightarrow> limit))
      in if chunk_end = 0 then limit else chunk_end)"

lemma cut_at_pos: "0 < limit \<Longrightarrow> 0 < cut_at limit s"
  by (simp add: cut_at_def Let_def)

lemma trim_start_shorter: "length (trim_start s) \<le> length s"
  unfolding trim_start_def by (rule length_dropWhile_le)

function split_loop :: "nat \<Rightarrow> string \<Rightarrow> string list" where
  "split_loop limit remaining =
     (if remaining = [] \<or> limit = 0 then []
      else if length remaining \<le> limit then [remaining]
      else trim (take (cut_at limit remaining) remaining)
           # split_loop limit (trim_start (drop (cut_at limit remaining) remaining)))"
  by pat_completeness auto
termination
proof (relation "measure (length \<circ> snd)", goal_cases)
  case (2 limit remaining)
  then show ?case
    using cut_at_pos [of limit remaining]
      trim_start_shorter [of "drop (cut_at limit remaining) remaining"] by simp
qed simp

declare split_loop.simps [simp del]

definition split_message :: "string \<Rightarrow> string list" where
  "split_message m =
     (if length m \<le> MAX_MESSAGE_LEN then [m] else split_loop MAX_MESSAGE_LEN m)"

section \<open>What a message asks for\<close>

datatype tg_action = VoiceAction tg_voice | NoticeAction | SkipAction | TurnAction string string

text \<open>The body of the loop of \<open>TelegramChatChannel::recv\<close> for one message; a turn carries its
  text and session.\<close>

definition classify_message :: "int \<Rightarrow> tg_message \<Rightarrow> tg_action" where
  "classify_message chat m =
     (case (case tm_voice m of Some v \<Rightarrow> Some v | None \<Rightarrow> tm_audio m) of
        Some v \<Rightarrow> VoiceAction v
      | None \<Rightarrow>
          (case tm_text m of
             None \<Rightarrow> NoticeAction
           | Some t \<Rightarrow>
               if trim t = [] then NoticeAction
               else
                 let normalized = trim (strip_bot_mention (trim t)) in
                 if normalized = [] then SkipAction
                 else TurnAction normalized (telegram_session_id chat)))"

section \<open>Replies and voice messages\<close>

text \<open>
  The answer of the Bot API to a call, once decoded: \<open>ok\<close> and the description. An error on the
  left is a request that failed, an HTTP error or a body that does not decode.
\<close>

record core_request =
  cr_url :: string
  cr_headers :: "(string \<times> string) list"
  cr_message :: string
  cr_conversation_id :: "string option"

record 'w tg_ops =
  op_send_message :: "string \<Rightarrow> int \<Rightarrow> string \<Rightarrow> 'w \<Rightarrow> (bool \<times> string option) res \<times> 'w"
  op_send_voice :: "string \<Rightarrow> int \<Rightarrow> string \<Rightarrow> 'w \<Rightarrow> (bool \<times> string option) res \<times> 'w"
  op_core_chat :: "core_request \<Rightarrow> 'w \<Rightarrow> string res \<times> 'w"
  op_download :: "string \<Rightarrow> string \<Rightarrow> 'w \<Rightarrow> unit res \<times> 'w"
  op_transcode :: "string \<Rightarrow> string \<Rightarrow> 'w \<Rightarrow> unit res \<times> 'w"
  op_transcribe :: "string \<Rightarrow> 'w \<Rightarrow> string res \<times> 'w"
  op_synthesize :: "string \<Rightarrow> string \<Rightarrow> 'w \<Rightarrow> unit res \<times> 'w"
  op_encode :: "string \<Rightarrow> string \<Rightarrow> 'w \<Rightarrow> unit res \<times> 'w"
  op_remove_file :: "string \<Rightarrow> 'w \<Rightarrow> 'w"

fun send_chunks :: "tg_config \<Rightarrow> 'w tg_ops \<Rightarrow> int \<Rightarrow> string list \<Rightarrow> 'w \<Rightarrow> unit res \<times> 'w" where
  "send_chunks cfg ops chat [] w = (Ok (), w)"
| "send_chunks cfg ops chat (c # cs) w =
     (case op_send_message ops (method_url cfg ''sendMessage'') chat c w of
        (Inl e, w1) \<Rightarrow> (Err e, w1)
      | (Inr (ok, descr), w1) \<Rightarrow>
          if \<not> ok
          then (Err (''Telegram sendMessage API error ''
                     @ (case descr of Some d \<Rightarrow> d | None \<Rightarrow> ''unknown error'')), w1)
          else send_chunks cfg ops chat cs w1)"

definition send_text :: "tg_config \<Rightarrow> 'w tg_ops \<Rightarrow> int \<Rightarrow> string \<Rightarrow> 'w \<Rightarrow> unit res \<times> 'w" where
  "send_text cfg ops chat t w = send_chunks cfg ops chat (split_message t) w"

definition send_voice_file :: "tg_config \<Rightarrow> 'w tg_ops \<Rightarrow> int \<Rightarrow> string \<Rightarrow> 'w \<Rightarrow> unit res \<times> 'w" where
  "send_voice_file cfg ops chat path w =
     (case op_send_voice ops (method_url cfg ''sendVoice'') chat path w of
        (Inl e, w1) \<Rightarrow> (Err e, w1)
      | (Inr (ok, descr), w1) \<Rightarrow>
          if \<not> ok
          then (Err (''Telegram sendVoice API error: ''
                     @ (case descr of Some d \<Rightarrow> d | None \<Rightarrow> ''unknown error'')), w1)
          else (Ok (), w1))"

definition chat_core :: "tg_config \<Rightarrow> 'w tg_ops \<Rightarrow> int \<Rightarrow> string \<Rightarrow> 'w \<Rightarrow> string res \<times> 'w" where
  "chat_core cfg ops chat t w =
     op_core_chat ops
       \<lparr>cr_url = tg_core_base_url cfg @ ''/api/chat'',
        cr_headers = (''X-Genie-Origin'', ''telegram'')
          # (case tg_origin_token cfg of None \<Rightarrow> [] | Some tok \<Rightarrow> [(''X-Genie-Origin-Token'', tok)]),
        cr_message = t, cr_conversation_id = Some (telegram_session_id chat)\<rparr> w"

text \<open>\<open>TempCleanup\<close>: dropped on every way out of the two functions below.\<close>

definition temp_cleanup :: "bool \<Rightarrow> 'w tg_ops \<Rightarrow> string \<Rightarrow> string \<Rightarrow> 'r \<times> nat \<times> 'w \<Rightarrow> 'r \<times> nat \<times> 'w" where
  "temp_cleanup delete ops ogg wav rst =
     (let (r, nonce, w) = rst in
      if \<not> delete then (r, nonce, w)
      else (r, nonce, op_remove_file ops wav (op_remove_file ops ogg w)))"

definition temp_path :: "string \<Rightarrow> nat \<Rightarrow> nat \<Rightarrow> string \<Rightarrow> string" where
  "temp_path kind pid nonce ext =
     ''/tmp/geniepod-tg-'' @ kind @ ''-'' @ show_nat pid @ ''-'' @ show_nat nonce @ ext"

text \<open>The state of the two functions is the counter of temporary names and the world.\<close>

definition next_nonce :: "nat \<Rightarrow> nat" where
  "next_nonce n = (n + 1) mod 2 ^ 64"

definition fall_back :: "tg_config \<Rightarrow> 'w tg_ops \<Rightarrow> int \<Rightarrow> string \<Rightarrow> nat \<Rightarrow> 'w \<Rightarrow> unit res \<times> nat \<times> 'w" where
  "fall_back cfg ops chat t nonce w = (let (r, w1) = send_text cfg ops chat t w in (r, nonce, w1))"

definition send_reply ::
  "tg_config \<Rightarrow> 'w tg_ops \<Rightarrow> nat \<Rightarrow> int \<Rightarrow> string \<Rightarrow> nat \<times> 'w \<Rightarrow> unit res \<times> nat \<times> 'w" where
  "send_reply cfg ops pid chat t st =
     (let (nonce, w) = st; v = tg_voice_cfg cfg in
      case voice_reply_gate t (tv_reply_as_voice v) (tv_max_reply_chars v) of
        ReplyText \<Rightarrow> fall_back cfg ops chat t nonce w
      | SkipOverLength n \<Rightarrow> fall_back cfg ops chat t nonce w
      | ReplyVoice \<Rightarrow>
          let wav = temp_path ''reply'' pid nonce ''.wav'';
              ogg = temp_path ''reply'' pid nonce ''.ogg'';
              n1 = next_nonce nonce
          in temp_cleanup (tv_delete_temp_audio v) ops ogg wav
               (case op_synthesize ops (trim t) wav w of
                  (Inl e, w1) \<Rightarrow> fall_back cfg ops chat t n1 w1
                | (Inr _, w1) \<Rightarrow>
                    (case op_encode ops wav ogg w1 of
                       (Inl e, w2) \<Rightarrow> fall_back cfg ops chat t n1 w2
                     | (Inr _, w2) \<Rightarrow>
                         (case send_voice_file cfg ops chat ogg w2 of
                            (Inl e, w3) \<Rightarrow> fall_back cfg ops chat t n1 w3
                          | (Inr _, w3) \<Rightarrow> (Ok (), n1, w3)))))"

text \<open>A notice whose failure the code ignores.\<close>

definition notice :: "tg_config \<Rightarrow> 'w tg_ops \<Rightarrow> int \<Rightarrow> string \<Rightarrow> nat \<Rightarrow> 'w \<Rightarrow> unit res \<times> nat \<times> 'w" where
  "notice cfg ops chat t nonce w = (Ok (), nonce, snd (send_text cfg ops chat t w))"

definition handle_voice_message ::
  "tg_config \<Rightarrow> 'w tg_ops \<Rightarrow> nat \<Rightarrow> int \<Rightarrow> tg_voice \<Rightarrow> nat \<times> 'w \<Rightarrow> unit res \<times> nat \<times> 'w" where
  "handle_voice_message cfg ops pid chat vm st =
     (let (nonce, w) = st; v = tg_voice_cfg cfg in
      if \<not> tv_enabled v
      then notice cfg ops chat ''Voice messages aren't enabled on this deployment.'' nonce w
      else if tv_max_duration_secs v < tvm_duration vm
      then notice cfg ops chat
             (''Voice message is too long ('' @ show_nat (tvm_duration vm) @ ''s); the limit is ''
              @ show_nat (tv_max_duration_secs v) @ ''s.'') nonce w
      else
        let ogg = temp_path ''voice'' pid nonce ''.ogg'';
            wav = temp_path ''voice'' pid nonce ''.wav'';
            n1 = next_nonce nonce
        in temp_cleanup (tv_delete_temp_audio v) ops ogg wav
             (case op_download ops (tvm_file_id vm) ogg w of
                (Inl e, w1) \<Rightarrow>
                  notice cfg ops chat ''Sorry, I couldn't download that voice message from Telegram.'' n1 w1
              | (Inr _, w1) \<Rightarrow>
                  (case op_transcode ops ogg wav w1 of
                     (Inl e, w2) \<Rightarrow>
                       notice cfg ops chat ''Sorry, I couldn't decode that voice message (ffmpeg failed).'' n1 w2
                   | (Inr _, w2) \<Rightarrow>
                       (case op_transcribe ops wav w2 of
                          (Inl e, w3) \<Rightarrow>
                            notice cfg ops chat ''Sorry, I couldn't transcribe that voice message.'' n1 w3
                        | (Inr raw, w3) \<Rightarrow>
                            let transcript = clean_transcript raw in
                            if transcript = []
                            then notice cfg ops chat
                                   ''I couldn't make out any speech in that voice message.'' n1 w3
                            else (case chat_core cfg ops chat transcript w3 of
                                    (Inl e, w4) \<Rightarrow> (Err e, n1, w4)
                                  | (Inr reply, w4) \<Rightarrow>
                                      send_reply cfg ops pid chat reply (n1, w4))))))"

section \<open>Cutting a reply\<close>

definition ink :: "string \<Rightarrow> string" where
  "ink s = filter (\<lambda>c. \<not> is_whitespace c) s"

lemma ink_append [simp]: "ink (s @ t) = ink s @ ink t"
  by (simp add: ink_def)

lemma ink_trim_start [simp]: "ink (trim_start s) = ink s"
  unfolding ink_def trim_start_def by (induction s) auto

lemma ink_rev: "ink (rev s) = rev (ink s)"
  by (simp add: ink_def rev_filter)

lemma ink_trim [simp]: "ink (trim s) = ink s"
  by (simp add: trim_def ink_rev)

lemma trim_shorter: "length (trim s) \<le> length s"
  using trim_start_shorter [of "rev (trim_start s)"] trim_start_shorter [of s] by (simp add: trim_def)

lemma rfind_char_less: "rfind_char c s = Some i \<Longrightarrow> i < length s"
  by (cases s rule: rev_cases) (auto simp: rfind_char_def)

lemma cut_at_le: "cut_at limit s \<le> limit"
  by (auto simp: cut_at_def Let_def dest!: rfind_char_less split: option.splits)

lemma split_loop_props:
  "0 < limit \<Longrightarrow> list_all (\<lambda>c. length c \<le> limit) (split_loop limit s)
     \<and> concat (map ink (split_loop limit s)) = ink s"
proof (induction limit s rule: split_loop.induct)
  case (1 limit s)
  show ?case
  proof (cases "s = [] \<or> length s \<le> limit")
    case True
    then show ?thesis using 1(2) by (subst (1 2) split_loop.simps) (auto simp: ink_def)
  next
    case False
    define k where "k = cut_at limit s"
    have "length (trim (take k s)) \<le> limit"
      using trim_shorter [of "take k s"] cut_at_le [of limit s] unfolding k_def by simp
    moreover have "ink s = ink (take k s) @ ink (drop k s)"
      by (simp add: ink_append [symmetric] del: ink_append)
    ultimately show ?thesis
      using 1 False by (subst (1 2) split_loop.simps) (simp add: k_def)
  qed
qed

text \<open>
  C25: a reply of any length is sent in messages of at most 4,096 characters, the limit of the
  Bot API, and only blanks are lost at the cuts: the messages hold, in order, every other
  character of the reply.
\<close>

theorem split_message_complete:
  "list_all (\<lambda>c. length c \<le> MAX_MESSAGE_LEN) (split_message m) \<and> concat (map ink (split_message m)) = ink m"
  using split_loop_props [of MAX_MESSAGE_LEN m] by (simp add: split_message_def MAX_MESSAGE_LEN_def)

text \<open>A long reply that begins with a blank and a line break is cut into a first message without
  text, which the Bot API refuses; the rest is then not sent.\<close>

lemma find_index_skip: "find_index P (replicate n x @ ys)
    = (if P x \<and> 0 < n then Some 0 else map_option (\<lambda>i. n + i) (find_index P ys))"
proof (induction n)
  case 0
  show ?case by (cases "find_index P ys") simp_all
next
  case (Suc n)
  then show ?case by (cases "find_index P ys") auto
qed

lemma blank_first_message:
  assumes "4095 \<le> n"
  shows "\<exists>rest. split_message ('' '' @ CHR 10 # replicate n (CHR ''a'')) = '''' # rest"
proof -
  have area: "take 4096 ('' '' @ CHR 10 # replicate n (CHR ''a'')) = '' '' @ CHR 10 # replicate 4094 (CHR ''a'')"
    using assms by simp
  have "rfind_char (CHR 10) ('' '' @ CHR 10 # replicate 4094 (CHR ''a'')) = Some 1"
    unfolding rfind_char_def by (simp add: find_index_skip)
  then have "cut_at 4096 ('' '' @ CHR 10 # replicate n (CHR ''a'')) = 1"
    unfolding cut_at_def Let_def area by simp
  then have "split_loop 4096 ('' '' @ CHR 10 # replicate n (CHR ''a''))
      = '''' # split_loop 4096 (trim_start (drop 1 ('' '' @ CHR 10 # replicate n (CHR ''a''))))"
    using assms by (subst split_loop.simps) (simp add: trim_def trim_start_def is_whitespace_def)
  then show ?thesis using assms by (simp add: split_message_def MAX_MESSAGE_LEN_def)
qed

section \<open>Voice messages are answered\<close>

text \<open>\<open>Q\<close> stands for \<open>the chat has been sent something\<close>: every sending establishes it and the
  removal of a file keeps it.\<close>

definition sending_answers :: "'w tg_ops \<Rightarrow> ('w \<Rightarrow> bool) \<Rightarrow> bool" where
  "sending_answers ops Q \<longleftrightarrow>
     (\<forall>url chat t w. Q (snd (op_send_message ops url chat t w)))
     \<and> (\<forall>url chat path w. Q (snd (op_send_voice ops url chat path w)))
     \<and> (\<forall>path w. Q w \<longrightarrow> Q (op_remove_file ops path w))"

lemma split_message_nonempty: "split_message m \<noteq> []"
proof (cases "length m \<le> MAX_MESSAGE_LEN")
  case False
  then have "m \<noteq> []" by auto
  then show ?thesis
    using False by (subst split_message_def) (subst split_loop.simps, simp add: MAX_MESSAGE_LEN_def)
qed (simp add: split_message_def)

lemma send_chunks_answers:
  "sending_answers ops Q \<Longrightarrow> cs \<noteq> [] \<or> Q w \<Longrightarrow> Q (snd (send_chunks cfg ops chat cs w))"
proof (induction cs arbitrary: w)
  case (Cons c cs)
  obtain r w1 where s: "op_send_message ops (method_url cfg ''sendMessage'') chat c w = (r, w1)"
    by (rule prod.exhaust)
  then have "Q w1" using Cons.prems(1) unfolding sending_answers_def by (metis snd_conv)
  then show ?case using Cons s by (auto split: sum.splits prod.splits)
qed simp

lemma send_text_answers: "sending_answers ops Q \<Longrightarrow> Q (snd (send_text cfg ops chat t w))"
  using send_chunks_answers [of ops Q "split_message t" w] split_message_nonempty by (simp add: send_text_def)

lemma send_voice_answers: "sending_answers ops Q \<Longrightarrow> Q (snd (send_voice_file cfg ops chat p w))"
proof -
  assume Q: "sending_answers ops Q"
  obtain r w1 where s: "op_send_voice ops (method_url cfg ''sendVoice'') chat p w = (r, w1)"
    by (rule prod.exhaust)
  then have "Q w1" using Q unfolding sending_answers_def by (metis snd_conv)
  then show ?thesis using s by (auto simp: send_voice_file_def split: sum.splits)
qed

lemma cleanup_answers:
  "sending_answers ops Q \<Longrightarrow> Q (snd (snd rst)) \<Longrightarrow> Q (snd (snd (temp_cleanup d ops ogg wav rst)))"
  by (auto simp: temp_cleanup_def sending_answers_def Let_def split: prod.splits)

lemma fall_back_answers: "sending_answers ops Q \<Longrightarrow> Q (snd (snd (fall_back cfg ops chat t n w)))"
  using send_text_answers [of ops Q cfg chat t w] by (simp add: fall_back_def case_prod_unfold Let_def)

lemma notice_answers: "sending_answers ops Q \<Longrightarrow> Q (snd (snd (notice cfg ops chat t n w)))"
  using send_text_answers by (simp add: notice_def)

lemma send_reply_answers:
  assumes Q: "sending_answers ops Q"
  shows "Q (snd (snd (send_reply cfg ops pid chat t (nonce, w))))"
proof (cases "voice_reply_gate t (tv_reply_as_voice (tg_voice_cfg cfg)) (tv_max_reply_chars (tg_voice_cfg cfg))")
  case ReplyVoice
  define wav where "wav = temp_path ''reply'' pid nonce ''.wav''"
  define ogg where "ogg = temp_path ''reply'' pid nonce ''.ogg''"
  obtain r1 w1 where 1: "op_synthesize ops (trim t) wav w = (r1, w1)" by (rule prod.exhaust)
  obtain r2 w2 where 2: "op_encode ops wav ogg w1 = (r2, w2)" by (rule prod.exhaust)
  obtain r3 w3 where 3: "send_voice_file cfg ops chat ogg w2 = (r3, w3)" by (rule prod.exhaust)
  have "Q w3" using send_voice_answers [OF Q, of cfg chat ogg w2] 3 by simp
  then show ?thesis
    unfolding send_reply_def Let_def prod.case ReplyVoice voice_reply.case wav_def [symmetric] ogg_def [symmetric]
    by (intro cleanup_answers [OF Q], cases r1; cases r2; cases r3)
      (simp_all add: 1 2 3 fall_back_answers [OF Q])
qed (simp_all add: send_reply_def Let_def fall_back_answers [OF Q])

text \<open>A voice message is answered on every path, failures of the audio tools included, unless the
  core gives no reply.\<close>

lemma voice_message_answered:
  assumes Q: "sending_answers ops Q"
    and "handle_voice_message cfg ops pid chat vm (nonce, w) = (Ok (), n, w')"
  shows "Q w'"
proof -
  define good :: "unit res \<times> nat \<times> 'a \<Rightarrow> bool"
    where "good rst = (fst rst = Ok () \<longrightarrow> Q (snd (snd rst)))" for rst
  have cleanup: "good rst \<Longrightarrow> good (temp_cleanup d ops ogg wav rst)" for rst d ogg wav
    using Q by (auto simp: good_def temp_cleanup_def sending_answers_def Let_def split: prod.splits)
  have answered: "good (notice cfg ops chat t k u)" "good (send_reply cfg ops pid chat t (k, u))" for t k u
    using notice_answers [OF Q] send_reply_answers [OF Q] by (simp_all add: good_def)
  have failed: "good (Err e, k, u)" for e k u by (simp add: good_def)
  define ogg where "ogg = temp_path ''voice'' pid nonce ''.ogg''"
  define wav where "wav = temp_path ''voice'' pid nonce ''.wav''"
  obtain r1 w1 where 1: "op_download ops (tvm_file_id vm) ogg w = (r1, w1)" by (rule prod.exhaust)
  obtain r2 w2 where 2: "op_transcode ops ogg wav w1 = (r2, w2)" by (rule prod.exhaust)
  obtain r3 w3 where 3: "op_transcribe ops wav w2 = (r3, w3)" by (rule prod.exhaust)
  obtain r4 w4 where 4: "chat_core cfg ops chat (clean_transcript (projr r3)) w3 = (r4, w4)"
    by (rule prod.exhaust)
  have "good (handle_voice_message cfg ops pid chat vm (nonce, w))"
    unfolding handle_voice_message_def Let_def prod.case ogg_def [symmetric] wav_def [symmetric]
    by (cases "tv_enabled (tg_voice_cfg cfg)";
        cases "tv_max_duration_secs (tg_voice_cfg cfg) < tvm_duration vm";
        simp add: answered; intro cleanup; cases r1; cases r2; cases r3; cases r4)
      (use 4 in \<open>simp_all add: 1 2 3 answered failed\<close>)
  then show ?thesis using assms(2) by (simp add: good_def)
qed

end
