(* ===== verification/TelegramDrivers.thy ===== *)
theory TelegramDrivers
  imports Telegram
begin

text \<open>
  The Telegram poll loop and the drivers that serve the chats (\<open>run\<close>, \<open>spawn_chat_driver\<close> and
  \<open>TelegramChatChannel::recv\<close> of \<open>telegram.rs\<close>, \<open>serve_channel\<close> of \<open>channel/serve.rs\<close>): one
  dispatcher task routes messages to the inbox of the driver of their chat, a driver serves its
  inbox one message at a time and retires when it has been idle for long.

  The tasks interleave at their awaits. A step of the relation is what a task does between two
  awaits; the parts of a turn (the call of the core, the reply) are one phase of the driver,
  because they touch nothing that is shared. The gate of a driver is a fair lock: a task that
  waits for it is served before one that asks later. A driver that has just been spawned does not
  retire before the dispatcher has handed it its message: it would have to be idle for 30 minutes
  first. The dispatcher keeps a sender of every inbox that is open, so a driver never sees
  its inbox disconnected.

  Two histories are kept beside the state of the code: the messages accepted from each chat, and
  what became of each message that has left an inbox.
\<close>

section \<open>State\<close>

definition INBOX_CAPACITY :: nat where
  "INBOX_CAPACITY = 64"

datatype driver_phase = Receiving | AwaitingGate | InGate | Serving tg_message | Ended

record chat_driver =
  dr_chat :: int
  dr_inbox :: "tg_message list"
  dr_phase :: driver_phase

text \<open>What the dispatcher is doing with the message at hand.\<close>

datatype dispatch_phase =
    Polling
  | Locking tg_message nat
  | Sending tg_message nat
  | Redelivering tg_message
  | Refreshing tg_message nat

datatype fate = Served | Dropped

record tg_system =
  sys_offset :: int
  sys_updates :: "tg_update list"
  sys_drivers :: "int \<Rightarrow> nat option"
  sys_tasks :: "nat \<Rightarrow> chat_driver option"
  sys_dispatch :: dispatch_phase
  sys_next :: nat
  sys_accepted :: "int \<Rightarrow> tg_message list"
  sys_left :: "int \<Rightarrow> (tg_message \<times> fate) list"
  sys_send_failed :: "int \<Rightarrow> bool"

definition tg_start :: "int \<Rightarrow> tg_system" where
  "tg_start offset =
     \<lparr>sys_offset = offset, sys_updates = [], sys_drivers = (\<lambda>c. None), sys_tasks = (\<lambda>d. None),
      sys_dispatch = Polling, sys_next = 0, sys_accepted = (\<lambda>c. []), sys_left = (\<lambda>c. []),
      sys_send_failed = (\<lambda>c. False)\<rparr>"

text \<open>\<open>inbox.is_closed()\<close>: the driver closed the inbox when it retired, or its end dropped it.\<close>

definition is_closed :: "tg_system \<Rightarrow> nat \<Rightarrow> bool" where
  "is_closed s d =
     (case sys_tasks s d of None \<Rightarrow> True | Some t \<Rightarrow> dr_phase t = Ended)"

definition set_task :: "nat \<Rightarrow> chat_driver \<Rightarrow> tg_system \<Rightarrow> tg_system" where
  "set_task d t s = s\<lparr>sys_tasks := (sys_tasks s)(d := Some t)\<rparr>"

definition spawn_chat_driver :: "int \<Rightarrow> tg_system \<Rightarrow> nat \<times> tg_system" where
  "spawn_chat_driver c s =
     (sys_next s,
      s\<lparr>sys_tasks := (sys_tasks s)
            (sys_next s := Some \<lparr>dr_chat = c, dr_inbox = [], dr_phase = Receiving\<rparr>),
        sys_next := sys_next s + 1\<rparr>)"

text \<open>\<open>drivers.retain\<close>.\<close>

definition retain_open :: "tg_system \<Rightarrow> tg_system" where
  "retain_open s =
     s\<lparr>sys_drivers := (\<lambda>c. case sys_drivers s c of
          None \<Rightarrow> None | Some d \<Rightarrow> if is_closed s d then None else Some d)\<rparr>"

text \<open>An update that is not a message of an allowed chat written by a person is passed over.\<close>

definition accepts :: "tg_config \<Rightarrow> tg_update \<Rightarrow> tg_message option" where
  "accepts cfg u =
     (case tu_message u of
        None \<Rightarrow> None
      | Some m \<Rightarrow> if from_bot m then None
          else if \<not> chat_allowed cfg (tm_chat m) then None else Some m)"

definition install_driver :: "int \<Rightarrow> tg_system \<Rightarrow> nat \<times> tg_system" where
  "install_driver c s =
     (let (f, s1) = spawn_chat_driver c s
      in (f, s1\<lparr>sys_drivers := (sys_drivers s1)(c := Some f)\<rparr>))"

text \<open>The driver of a chat: the one in the map if its inbox is open, else a new one.\<close>

definition driver_for :: "int \<Rightarrow> tg_system \<Rightarrow> nat \<times> tg_system" where
  "driver_for c s =
     (case sys_drivers s c of
        Some d \<Rightarrow> if \<not> is_closed s d then (d, s) else install_driver c s
      | None \<Rightarrow> install_driver c s)"

text \<open>The body of the loop over the updates, up to the wait for the gate.\<close>

definition take_update :: "tg_config \<Rightarrow> tg_update \<Rightarrow> tg_update list \<Rightarrow> tg_system \<Rightarrow> tg_system" where
  "take_update cfg u us s0 =
     (let s = s0\<lparr>sys_offset := next_offset (sys_offset s0) u, sys_updates := us\<rparr> in
      case accepts cfg u of
        None \<Rightarrow> s
      | Some m \<Rightarrow>
          let (d, s1) = driver_for (tm_chat m) s
          in s1\<lparr>sys_dispatch := Locking m d,
                sys_accepted := (sys_accepted s1)(tm_chat m := sys_accepted s1 (tm_chat m) @ [m])\<rparr>)"

definition push_inbox :: "tg_message \<Rightarrow> chat_driver \<Rightarrow> chat_driver" where
  "push_inbox m t = t\<lparr>dr_inbox := dr_inbox t @ [m]\<rparr>"

definition leave_inbox :: "int \<Rightarrow> tg_message list \<Rightarrow> fate \<Rightarrow> tg_system \<Rightarrow> tg_system" where
  "leave_inbox c ms f s = s\<lparr>sys_left := (sys_left s)(c := sys_left s c @ map (\<lambda>m. (m, f)) ms)\<rparr>"

definition gate_taken :: "tg_system \<Rightarrow> nat \<Rightarrow> bool" where
  "gate_taken s d \<longleftrightarrow> (case sys_dispatch s of Sending m e \<Rightarrow> e = d | _ \<Rightarrow> False)"

text \<open>The receiving end takes the oldest message; a text or voice message then occupies it.\<close>

definition take_message :: "nat \<Rightarrow> chat_driver \<Rightarrow> tg_message \<Rightarrow> tg_message list \<Rightarrow> tg_system \<Rightarrow> tg_system" where
  "take_message d t m ms s =
     set_task d (t\<lparr>dr_inbox := ms,
        dr_phase := (case classify_message (dr_chat t) m of
            VoiceAction v \<Rightarrow> Serving m | NoticeAction \<Rightarrow> Serving m
          | SkipAction \<Rightarrow> Receiving | TurnAction x y \<Rightarrow> Serving m)\<rparr>)
       (leave_inbox (dr_chat t) [m] Served s)"

section \<open>Steps\<close>

inductive tg_step :: "tg_config \<Rightarrow> tg_system \<Rightarrow> tg_system \<Rightarrow> bool" for cfg :: tg_config where
  poll: "sys_dispatch s = Polling \<Longrightarrow> sys_updates s = [] \<Longrightarrow>
    tg_step cfg s ((retain_open s)\<lparr>sys_updates := us\<rparr>)"
| route: "sys_dispatch s = Polling \<Longrightarrow> sys_updates s = u # us \<Longrightarrow>
    tg_step cfg s (take_update cfg u us s)"
| lock: "sys_dispatch s = Locking m d \<Longrightarrow> sys_tasks s d = Some t \<Longrightarrow>
    dr_phase t \<noteq> AwaitingGate \<Longrightarrow> dr_phase t \<noteq> InGate \<Longrightarrow>
    tg_step cfg s (s\<lparr>sys_dispatch := Sending m d\<rparr>)"
| send: "sys_dispatch s = Sending m d \<Longrightarrow> sys_tasks s d = Some t \<Longrightarrow> dr_phase t \<noteq> Ended \<Longrightarrow>
    length (dr_inbox t) < INBOX_CAPACITY \<Longrightarrow>
    tg_step cfg s ((set_task d (push_inbox m t) s)\<lparr>sys_dispatch := Polling\<rparr>)"
| send_closed: "sys_dispatch s = Sending m d \<Longrightarrow> is_closed s d \<Longrightarrow>
    tg_step cfg s (s\<lparr>sys_dispatch := Redelivering m\<rparr>)"
| respawn: "sys_dispatch s = Redelivering m \<Longrightarrow> spawn_chat_driver (tm_chat m) s = (f, s1) \<Longrightarrow>
    tg_step cfg s (s1\<lparr>sys_dispatch := Refreshing m f\<rparr>)"
| resend: "sys_dispatch s = Refreshing m f \<Longrightarrow> sys_tasks s f = Some t \<Longrightarrow> dr_phase t \<noteq> Ended \<Longrightarrow>
    tg_step cfg s ((set_task f (push_inbox m t) s)
      \<lparr>sys_dispatch := Polling, sys_drivers := (sys_drivers s)(tm_chat m := Some f)\<rparr>)"
| resend_closed: "sys_dispatch s = Refreshing m f \<Longrightarrow> is_closed s f \<Longrightarrow>
    tg_step cfg s (s\<lparr>sys_dispatch := Polling, sys_drivers := (sys_drivers s)(tm_chat m := None)\<rparr>)"
| receive: "sys_tasks s d = Some t \<Longrightarrow> dr_phase t = Receiving \<Longrightarrow> dr_inbox t = m # ms \<Longrightarrow>
    tg_step cfg s (take_message d t m ms s)"
| idle: "sys_tasks s d = Some t \<Longrightarrow> dr_phase t = Receiving \<Longrightarrow> dr_inbox t = [] \<Longrightarrow>
    (\<And>m. sys_dispatch s \<noteq> Refreshing m d) \<Longrightarrow>
    tg_step cfg s (set_task d (t\<lparr>dr_phase := AwaitingGate\<rparr>) s)"
| enter_gate: "sys_tasks s d = Some t \<Longrightarrow> dr_phase t = AwaitingGate \<Longrightarrow> \<not> gate_taken s d \<Longrightarrow>
    tg_step cfg s (set_task d (t\<lparr>dr_phase := InGate\<rparr>) s)"
| raced: "sys_tasks s d = Some t \<Longrightarrow> dr_phase t = InGate \<Longrightarrow> dr_inbox t = m # ms \<Longrightarrow>
    tg_step cfg s (take_message d t m ms s)"
| retire: "sys_tasks s d = Some t \<Longrightarrow> dr_phase t = InGate \<Longrightarrow> dr_inbox t = [] \<Longrightarrow>
    tg_step cfg s (set_task d (t\<lparr>dr_phase := Ended\<rparr>) s)"
| served: "sys_tasks s d = Some t \<Longrightarrow> dr_phase t = Serving m \<Longrightarrow>
    tg_step cfg s (set_task d (t\<lparr>dr_phase := Receiving\<rparr>) s)"
| send_fails: "sys_tasks s d = Some t \<Longrightarrow> dr_phase t = Serving m \<Longrightarrow>
    classify_message (dr_chat t) m = TurnAction x y \<Longrightarrow>
    tg_step cfg s (leave_inbox (dr_chat t) (dr_inbox t) Dropped
      (set_task d (t\<lparr>dr_inbox := [], dr_phase := Ended\<rparr>)
        (s\<lparr>sys_send_failed := (sys_send_failed s)(dr_chat t := True)\<rparr>)))"

inductive tg_reachable :: "tg_config \<Rightarrow> tg_system \<Rightarrow> bool" for cfg :: tg_config where
  start: "tg_reachable cfg (tg_start offset)"
| step: "tg_reachable cfg s \<Longrightarrow> tg_step cfg s s' \<Longrightarrow> tg_reachable cfg s'"

section \<open>The invariant\<close>

definition live :: "tg_system \<Rightarrow> nat \<Rightarrow> chat_driver \<Rightarrow> bool" where
  "live s d t \<longleftrightarrow> sys_tasks s d = Some t \<and> dr_phase t \<noteq> Ended"

text \<open>The driver that a chat's messages are meant for.\<close>

definition current_driver :: "tg_system \<Rightarrow> int \<Rightarrow> nat option" where
  "current_driver s c =
     (case sys_dispatch s of
        Refreshing m f \<Rightarrow> if tm_chat m = c then Some f else sys_drivers s c
      | _ \<Rightarrow> sys_drivers s c)"

text \<open>The messages of a chat in its driver's inbox, and the one the dispatcher has in hand.\<close>

definition queued :: "tg_system \<Rightarrow> int \<Rightarrow> tg_message list" where
  "queued s c =
     (case current_driver s c of None \<Rightarrow> []
      | Some d \<Rightarrow> (case sys_tasks s d of None \<Rightarrow> [] | Some t \<Rightarrow> dr_inbox t))"

definition in_hand :: "tg_system \<Rightarrow> int \<Rightarrow> tg_message list" where
  "in_hand s c =
     (case sys_dispatch s of
        Polling \<Rightarrow> []
      | Locking m d \<Rightarrow> if tm_chat m = c then [m] else []
      | Sending m d \<Rightarrow> if tm_chat m = c then [m] else []
      | Redelivering m \<Rightarrow> if tm_chat m = c then [m] else []
      | Refreshing m d \<Rightarrow> if tm_chat m = c then [m] else [])"

definition dispatch_ok :: "tg_system \<Rightarrow> bool" where
  "dispatch_ok s =
     (case sys_dispatch s of
        Polling \<Rightarrow> True
      | Locking m d \<Rightarrow> sys_drivers s (tm_chat m) = Some d
      | Sending m d \<Rightarrow> sys_drivers s (tm_chat m) = Some d
          \<and> (\<forall>t. sys_tasks s d = Some t \<longrightarrow> dr_phase t \<noteq> InGate)
      | Redelivering m \<Rightarrow> (\<forall>d t. live s d t \<longrightarrow> dr_chat t \<noteq> tm_chat m)
      | Refreshing m f \<Rightarrow>
          sys_tasks s f = Some \<lparr>dr_chat = tm_chat m, dr_inbox = [], dr_phase = Receiving\<rparr>)"

definition task_ok :: "tg_system \<Rightarrow> nat \<Rightarrow> chat_driver \<Rightarrow> bool" where
  "task_ok s d t \<longleftrightarrow>
     d < sys_next s
     \<and> (dr_phase t = Ended \<longrightarrow> dr_inbox t = [])
     \<and> (dr_phase t \<noteq> Ended \<longrightarrow> current_driver s (dr_chat t) = Some d)
     \<and> (dr_phase t = AwaitingGate \<longrightarrow> length (dr_inbox t) \<le> 1 \<and> (gate_taken s d \<longrightarrow> dr_inbox t = []))"

definition tg_inv :: "tg_system \<Rightarrow> bool" where
  "tg_inv s \<longleftrightarrow>
     (\<forall>d t. sys_tasks s d = Some t \<longrightarrow> task_ok s d t)
     \<and> (\<forall>c d. sys_drivers s c = Some d \<longrightarrow> (\<exists>t. sys_tasks s d = Some t \<and> dr_chat t = c))
     \<and> dispatch_ok s
     \<and> (\<forall>c. sys_accepted s c = map fst (sys_left s c) @ queued s c @ in_hand s c)
     \<and> (\<forall>c. Dropped \<in> snd ` set (sys_left s c) \<longrightarrow> sys_send_failed s c)"

lemmas inv_defs = tg_inv_def task_ok_def dispatch_ok_def in_hand_def queued_def current_driver_def
  live_def gate_taken_def

lemmas step_defs = set_task_def leave_inbox_def push_inbox_def take_message_def spawn_chat_driver_def
  install_driver_def driver_for_def retain_open_def is_closed_def

lemma tg_inv_start: "tg_inv (tg_start offset)"
  by (simp add: inv_defs tg_start_def)

lemma inv_poll:
  "tg_inv s \<Longrightarrow> sys_dispatch s = Polling \<Longrightarrow> tg_inv ((retain_open s)\<lparr>sys_updates := us\<rparr>)"
  by (auto simp: inv_defs retain_open_def is_closed_def split: option.splits if_splits)

lemma inv_lock:
  assumes "tg_inv s" "sys_dispatch s = Locking m d" "sys_tasks s d = Some t"
    "dr_phase t \<noteq> AwaitingGate" "dr_phase t \<noteq> InGate"
  shows "tg_inv (s\<lparr>sys_dispatch := Sending m d\<rparr>)"
  using assms by (auto simp: inv_defs split: option.splits)

text \<open>The dispatcher hands its message over, to the driver of the chat or to a new one.\<close>

lemma inv_push:
  assumes inv: "tg_inv s" and r: "sys_dispatch s = Sending m d \<or> sys_dispatch s = Refreshing m d"
    and t: "sys_tasks s d = Some t" "dr_phase t \<noteq> Ended"
  shows "tg_inv ((set_task d (push_inbox m t) s)
      \<lparr>sys_dispatch := Polling, sys_drivers := (sys_drivers s)(tm_chat m := Some d)\<rparr>)" (is "tg_inv ?s")
proof -
  have drv: "\<exists>u. sys_tasks s e = Some u \<and> dr_chat u = c" if "sys_drivers s c = Some e" for c e
    using inv that by (simp add: tg_inv_def)
  have chat: "dr_chat t = tm_chat m"
    using inv r t drv [of "tm_chat m" d] by (auto simp: tg_inv_def dispatch_ok_def)
  have cur: "current_driver ?s = current_driver s"
    using inv r by (auto simp: current_driver_def tg_inv_def dispatch_ok_def fun_eq_iff)
  have mine: "current_driver s (tm_chat m) = Some d"
    using inv r by (auto simp: current_driver_def tg_inv_def dispatch_ok_def)
  have other: "current_driver s c \<noteq> Some d" if "c \<noteq> tm_chat m" for c
    using drv [of c d] that t chat r by (auto simp: current_driver_def)
  have tok: "task_ok s e u" if "sys_tasks s e = Some u" for e u using inv that by (simp add: tg_inv_def)
  have gate: "\<not> gate_taken ?s e" for e by (simp add: gate_taken_def)
  have wait: "dr_inbox t = []" if "dr_phase t = AwaitingGate"
    using tok [OF t(1)] that r inv t by (auto simp: task_ok_def gate_taken_def tg_inv_def dispatch_ok_def)
  have "task_ok ?s e u" if u: "sys_tasks ?s e = Some u" for e u
  proof (cases "e = d")
    case True
    then have "u = push_inbox m t" using u by (simp add: set_task_def)
    then show ?thesis using tok [OF t(1)] t(2) wait gate True unfolding task_ok_def cur
      by (auto simp: push_inbox_def set_task_def)
  next
    case False
    then have "sys_tasks s e = Some u" using u by (simp add: set_task_def)
    then show ?thesis using tok [of e u] gate unfolding task_ok_def cur by (simp add: set_task_def)
  qed
  moreover have "\<exists>u. sys_tasks ?s e = Some u \<and> dr_chat u = c" if "sys_drivers ?s c = Some e" for c e
    using drv [of c e] that chat t by (auto simp: set_task_def push_inbox_def split: if_splits)
  moreover have "dispatch_ok ?s" by (simp add: dispatch_ok_def)
  moreover have "sys_accepted ?s c = map fst (sys_left ?s c) @ queued ?s c @ in_hand ?s c" for c
  proof -
    have "queued ?s c = queued s c @ (if tm_chat m = c then [m] else [])"
      unfolding queued_def cur using t mine other [of c]
      by (auto simp: set_task_def push_inbox_def split: option.splits)
    moreover have "in_hand s c = (if tm_chat m = c then [m] else [])" "in_hand ?s c = []"
      using r by (auto simp: in_hand_def)
    ultimately show ?thesis using inv by (simp add: tg_inv_def set_task_def)
  qed
  moreover have "Dropped \<in> snd ` set (sys_left ?s c) \<longrightarrow> sys_send_failed ?s c" for c
    using inv by (simp add: tg_inv_def set_task_def)
  ultimately show ?thesis unfolding tg_inv_def by blast
qed

lemma inv_send:
  assumes inv: "tg_inv s" and s: "sys_dispatch s = Sending m d"
    and t: "sys_tasks s d = Some t" "dr_phase t \<noteq> Ended"
  shows "tg_inv ((set_task d (push_inbox m t) s)\<lparr>sys_dispatch := Polling\<rparr>)"
proof -
  have d: "(sys_drivers s)(tm_chat m := Some d) = sys_drivers s"
    using inv s by (simp add: tg_inv_def dispatch_ok_def fun_upd_idem)
  have "(set_task d (push_inbox m t) s)\<lparr>sys_dispatch := Polling\<rparr>
      = (set_task d (push_inbox m t) s)\<lparr>sys_dispatch := Polling, sys_drivers := (sys_drivers s)(tm_chat m := Some d)\<rparr>"
    unfolding d by (simp add: set_task_def)
  then show ?thesis using inv_push [OF inv _ t] s by metis
qed

lemma inv_send_closed:
  assumes "tg_inv s" "sys_dispatch s = Sending m d" "is_closed s d"
  shows "tg_inv (s\<lparr>sys_dispatch := Redelivering m\<rparr>)"
proof -
  have none: "dr_chat u \<noteq> tm_chat m" if "sys_tasks s e = Some u" "dr_phase u \<noteq> Ended" for e u
  proof
    assume "dr_chat u = tm_chat m"
    then have "e = d" using assms(1,2) that by (fastforce simp: inv_defs)
    then show False using assms(3) that by (simp add: is_closed_def)
  qed
  have "(\<forall>d t. sys_tasks s d = Some t \<longrightarrow> dr_phase t \<noteq> Ended \<longrightarrow> dr_chat t \<noteq> tm_chat m)"
    using none by blast
  then show ?thesis using assms(1,2) by (auto simp: inv_defs split: option.splits)
qed

lemma inv_respawn:
  assumes inv: "tg_inv s" and r: "sys_dispatch s = Redelivering m"
    and sp: "spawn_chat_driver (tm_chat m) s = (f, s1)"
  shows "tg_inv (s1\<lparr>sys_dispatch := Refreshing m f\<rparr>)" (is "tg_inv ?s")
proof -
  define c where "c = tm_chat m"
  have f: "f = sys_next s" and s1: "s1 = s\<lparr>sys_tasks := (sys_tasks s)(f := Some \<lparr>dr_chat = c, dr_inbox = [], dr_phase = Receiving\<rparr>),
      sys_next := f + 1\<rparr>"
    using sp by (auto simp: spawn_chat_driver_def c_def)
  have drv: "\<exists>u. sys_tasks s e = Some u \<and> dr_chat u = k" if "sys_drivers s k = Some e" for k e
    using inv that by (simp add: tg_inv_def)
  have tok: "task_ok s e u" if "sys_tasks s e = Some u" for e u using inv that by (simp add: tg_inv_def)
  have new: "sys_tasks s f = None"
    using tok [of f] unfolding f by (cases "sys_tasks s (sys_next s)") (auto simp: task_ok_def)
  have ended: "dr_phase u = Ended" if "sys_tasks s e = Some u" "dr_chat u = c" for e u
    using inv r that by (auto simp: tg_inv_def dispatch_ok_def live_def c_def)
  have cur: "current_driver s = sys_drivers s" "current_driver ?s = (sys_drivers s)(c := Some f)"
    "in_hand ?s = in_hand s" "gate_taken ?s = gate_taken s"
    by (auto simp: current_driver_def in_hand_def gate_taken_def s1 r c_def fun_eq_iff)
  have tasks: "sys_tasks s1 e = (if e = f then Some \<lparr>dr_chat = c, dr_inbox = [], dr_phase = Receiving\<rparr>
      else sys_tasks s e)" for e by (simp add: s1)
  have dead: "queued s c = []"
    using drv [of c] ended tok by (auto simp: queued_def cur task_ok_def split: option.splits)
  have "task_ok ?s e u" if u: "sys_tasks ?s e = Some u" for e u
  proof (cases "e = f")
    case True
    then show ?thesis using u unfolding task_ok_def cur by (auto simp: s1)
  next
    case False
    then have e: "sys_tasks s e = Some u" using u tasks [of e] by simp
    then show ?thesis using tok [OF e] ended [OF e] unfolding task_ok_def cur by (auto simp: s1 f)
  qed
  moreover have "\<exists>u. sys_tasks ?s e = Some u \<and> dr_chat u = k" if "sys_drivers ?s k = Some e" for k e
    using that drv [of k e] new by (auto simp: s1 split: if_splits)
  moreover have "dispatch_ok ?s" using tasks [of f] by (simp add: dispatch_ok_def c_def)
  moreover have "sys_accepted ?s k = map fst (sys_left ?s k) @ queued ?s k @ in_hand ?s k" for k
  proof -
    have "queued ?s k = queued s k"
    proof (cases "k = c")
      case True
      then show ?thesis using dead tasks [of f] by (simp add: queued_def [of ?s] cur)
    next
      case False
      have "sys_drivers s k \<noteq> Some f" using drv [of k f] new by auto
      then show ?thesis using False unfolding queued_def cur by (auto simp: tasks split: option.splits)
    qed
    then show ?thesis using inv by (simp add: tg_inv_def cur) (simp add: s1)
  qed
  moreover have "Dropped \<in> snd ` set (sys_left ?s k) \<longrightarrow> sys_send_failed ?s k" for k
    using inv by (simp add: tg_inv_def s1)
  ultimately show ?thesis unfolding tg_inv_def by blast
qed

text \<open>A step of the driver of one chat: it takes messages from its inbox and changes its phase,
  and the dispatcher and the other drivers stay as they are.\<close>

lemma inv_driver_step:
  assumes inv: "tg_inv s" and t: "sys_tasks s d = Some t" "dr_phase t \<noteq> Ended"
    and t': "dr_chat t' = dr_chat t" "dr_inbox t = ms @ dr_inbox t'"
      "dr_phase t' = Ended \<Longrightarrow> dr_inbox t' = []" "dr_phase t' = AwaitingGate \<Longrightarrow> dr_inbox t' = []"
      "dr_phase t' = InGate \<Longrightarrow> \<not> gate_taken s d"
    and quiet: "\<And>m. sys_dispatch s \<noteq> Refreshing m d"
    and f: "f = Dropped \<Longrightarrow> failed (dr_chat t)" "\<And>c. sys_send_failed s c \<Longrightarrow> failed c"
  shows "tg_inv (leave_inbox (dr_chat t) ms f (set_task d t' (s\<lparr>sys_send_failed := failed\<rparr>)))"
    (is "tg_inv ?s")
proof -
  have tasks: "sys_tasks ?s e = (if e = d then Some t' else sys_tasks s e)" for e
    by (simp add: leave_inbox_def set_task_def)
  have same: "sys_drivers ?s = sys_drivers s" "sys_dispatch ?s = sys_dispatch s"
    "sys_next ?s = sys_next s" "sys_accepted ?s = sys_accepted s" "sys_send_failed ?s = failed"
    by (simp_all add: leave_inbox_def set_task_def)
  have cur: "current_driver ?s = current_driver s" "in_hand ?s = in_hand s" "gate_taken ?s = gate_taken s"
    by (auto simp: current_driver_def in_hand_def gate_taken_def same split: dispatch_phase.splits)
  have tok: "task_ok s e u" if "sys_tasks s e = Some u" for e u using inv that by (simp add: tg_inv_def)
  have mine: "current_driver s (dr_chat t) = Some d" using tok [OF t(1)] t(2) by (simp add: task_ok_def)
  have drv: "\<exists>u. sys_tasks s e = Some u \<and> dr_chat u = c" if "sys_drivers s c = Some e" for c e
    using inv that by (simp add: tg_inv_def)
  have other: "current_driver s c \<noteq> Some d" if "c \<noteq> dr_chat t" for c
    using that drv [of c d] t(1) quiet
    by (auto simp: current_driver_def split: dispatch_phase.splits if_splits)
  have "task_ok ?s e u" if "sys_tasks ?s e = Some u" for e u
    using that tok [of e u] tok [OF t(1)] mine t' by (auto simp: task_ok_def tasks cur same split: if_splits)
  moreover have "\<exists>u. sys_tasks ?s e = Some u \<and> dr_chat u = c" if "sys_drivers ?s c = Some e" for c e
    using drv [of c e] that t t'(1) by (auto simp: tasks same)
  moreover have "dispatch_ok ?s"
    using inv t t' quiet unfolding tg_inv_def
    by (cases "sys_dispatch s") (auto simp: dispatch_ok_def live_def tasks same gate_taken_def)
  moreover have "sys_accepted ?s c = map fst (sys_left ?s c) @ queued ?s c @ in_hand ?s c" for c
  proof (cases "c = dr_chat t")
    case True
    have "queued ?s c = dr_inbox t'" unfolding queued_def cur using mine True by (simp add: tasks)
    moreover have "queued s c = ms @ dr_inbox t'"
      unfolding queued_def using mine t(1) t'(2) True by simp
    moreover have "sys_left ?s c = sys_left s c @ map (\<lambda>m. (m, f)) ms"
      using True by (simp add: leave_inbox_def set_task_def)
    ultimately show ?thesis using inv by (simp add: tg_inv_def same cur comp_def)
  next
    case False
    have "queued ?s c = queued s c"
      unfolding queued_def cur using other [OF False] by (auto simp: tasks split: option.splits)
    moreover have "sys_left ?s c = sys_left s c"
      using False by (simp add: leave_inbox_def set_task_def)
    ultimately show ?thesis using inv by (simp add: tg_inv_def same cur)
  qed
  moreover have "Dropped \<in> snd ` set (sys_left ?s c) \<longrightarrow> sys_send_failed ?s c" for c
  proof
    have old: "Dropped \<in> snd ` set (sys_left s c) \<Longrightarrow> failed c"
      using inv f(2) by (simp add: tg_inv_def)
    assume "Dropped \<in> snd ` set (sys_left ?s c)"
    then have "Dropped \<in> snd ` set (sys_left s c) \<or> (c = dr_chat t \<and> f = Dropped)"
      by (auto simp: leave_inbox_def set_task_def split: if_splits)
    then show "sys_send_failed ?s c" using old f(1) by (auto simp: same)
  qed
  ultimately show ?thesis unfolding tg_inv_def by blast
qed

lemma leave_nothing [simp]: "leave_inbox c [] f s = s"
  by (simp add: leave_inbox_def)

lemma leave_set_task: "leave_inbox c ms f (set_task d t s) = set_task d t (leave_inbox c ms f s)"
  by (simp add: leave_inbox_def set_task_def)

lemma same_failed: "s\<lparr>sys_send_failed := sys_send_failed s\<rparr> = s"
  by simp

lemma inv_take_message:
  assumes inv: "tg_inv s" and t: "sys_tasks s d = Some t" "dr_phase t \<noteq> Ended" "dr_inbox t = m # ms"
  shows "tg_inv (take_message d t m ms s)"
proof -
  have "sys_dispatch s \<noteq> Refreshing k d" for k
    using inv t by (auto simp: tg_inv_def dispatch_ok_def)
  then show ?thesis
    unfolding take_message_def leave_set_task [symmetric] using inv t
    by (subst same_failed [of s, symmetric], intro inv_driver_step)
      (auto split: tg_action.splits)
qed

lemma busy_not_refreshed:
  "tg_inv s \<Longrightarrow> sys_tasks s d = Some t \<Longrightarrow> dr_phase t \<noteq> Receiving \<Longrightarrow> sys_dispatch s \<noteq> Refreshing k d"
  by (auto simp: tg_inv_def dispatch_ok_def)

lemma inv_new_phase:
  assumes "tg_inv s" "sys_tasks s d = Some t" "dr_phase t \<noteq> Ended"
    and "\<And>k. sys_dispatch s \<noteq> Refreshing k d"
    and "p = Ended \<Longrightarrow> dr_inbox t = []" "p = AwaitingGate \<Longrightarrow> dr_inbox t = []"
      "p = InGate \<Longrightarrow> \<not> gate_taken s d"
  shows "tg_inv (set_task d (t\<lparr>dr_phase := p\<rparr>) s)"
  using inv_driver_step [of s d t "t\<lparr>dr_phase := p\<rparr>" "[]" Served "sys_send_failed s"] assms by simp

lemma inv_send_fails:
  assumes "tg_inv s" "sys_tasks s d = Some t" "dr_phase t = Serving m"
  shows "tg_inv (leave_inbox (dr_chat t) (dr_inbox t) Dropped
      (set_task d (t\<lparr>dr_inbox := [], dr_phase := Ended\<rparr>)
        (s\<lparr>sys_send_failed := (sys_send_failed s)(dr_chat t := True)\<rparr>)))"
  using assms busy_not_refreshed [OF assms(1,2)] by (intro inv_driver_step) auto

lemma install_closed:
  assumes inv: "tg_inv s" and poll: "sys_dispatch s = Polling"
    and closed: "\<And>d. sys_drivers s c = Some d \<Longrightarrow> is_closed s d"
    and inst: "install_driver c s = (f, s1)"
  shows "tg_inv s1" and "sys_drivers s1 c = Some f" and "sys_dispatch s1 = Polling"
    and "queued s1 c = []"
proof -
  have f: "f = sys_next s" and s1: "s1 = s\<lparr>sys_tasks := (sys_tasks s)(f := Some \<lparr>dr_chat = c, dr_inbox = [], dr_phase = Receiving\<rparr>),
      sys_next := f + 1, sys_drivers := (sys_drivers s)(c := Some f)\<rparr>"
    using inst by (auto simp: install_driver_def spawn_chat_driver_def)
  have new: "sys_tasks s f = None"
    using inv unfolding f tg_inv_def task_ok_def by (cases "sys_tasks s (sys_next s)") auto
  have dead: "queued s c = []"
    using inv poll closed
    by (auto simp: inv_defs is_closed_def split: option.splits)
  have drv: "\<exists>u. sys_tasks s e = Some u \<and> dr_chat u = k" if "sys_drivers s k = Some e" for k e
    using inv that by (simp add: tg_inv_def)
  have cur: "current_driver s = sys_drivers s" "current_driver s1 = (sys_drivers s)(c := Some f)"
    "in_hand s1 = in_hand s" "gate_taken s1 = gate_taken s"
    by (simp_all add: current_driver_def in_hand_def gate_taken_def s1 poll fun_eq_iff)
  have tok: "task_ok s e u" if "sys_tasks s e = Some u" for e u using inv that by (simp add: tg_inv_def)
  have ended: "dr_phase u = Ended" if "sys_tasks s e = Some u" "dr_chat u = c" for e u
  proof (rule ccontr)
    assume "dr_phase u \<noteq> Ended"
    then have "sys_drivers s c = Some e" using tok [OF that(1)] that(2) by (simp add: task_ok_def cur)
    then show False using closed that(1) \<open>dr_phase u \<noteq> Ended\<close> by (simp add: is_closed_def)
  qed
  have tasks: "sys_tasks s1 e = (if e = f then Some \<lparr>dr_chat = c, dr_inbox = [], dr_phase = Receiving\<rparr>
      else sys_tasks s e)" for e by (simp add: s1)
  have "task_ok s1 e u" if u: "sys_tasks s1 e = Some u" for e u
  proof (cases "e = f")
    case True
    then show ?thesis using u unfolding task_ok_def cur by (auto simp: s1)
  next
    case False
    then have e: "sys_tasks s e = Some u" using u by (simp add: tasks)
    then show ?thesis using tok [OF e] ended [OF e] unfolding task_ok_def cur by (auto simp: s1 f)
  qed
  moreover have "\<exists>u. sys_tasks s1 e = Some u \<and> dr_chat u = k" if "sys_drivers s1 k = Some e" for k e
    using that drv [of k e] new by (auto simp: s1 split: if_splits)
  moreover have "dispatch_ok s1" by (simp add: dispatch_ok_def s1 poll)
  moreover have "sys_accepted s1 k = map fst (sys_left s1 k) @ queued s1 k @ in_hand s1 k" for k
  proof -
    have "queued s1 k = queued s k"
    proof (cases "k = c")
      case True
      then show ?thesis using dead by (simp add: queued_def cur tasks)
    next
      case False
      have "sys_drivers s k \<noteq> Some f" using drv [of k f] new by auto
      then show ?thesis using False unfolding queued_def cur by (auto simp: tasks split: option.splits)
    qed
    then show ?thesis using inv by (simp add: tg_inv_def cur) (simp add: s1)
  qed
  moreover have "Dropped \<in> snd ` set (sys_left s1 k) \<longrightarrow> sys_send_failed s1 k" for k
    using inv by (simp add: tg_inv_def s1)
  ultimately show "tg_inv s1" unfolding tg_inv_def by blast
  show "sys_drivers s1 c = Some f" "sys_dispatch s1 = Polling" "queued s1 c = []"
    using poll by (simp_all add: s1 queued_def current_driver_def)
qed

lemma driver_for_inv:
  assumes "tg_inv s" "sys_dispatch s = Polling" "driver_for c s = (d, s1)"
  shows "tg_inv s1" and "sys_drivers s1 c = Some d" and "sys_dispatch s1 = Polling"
proof -
  consider "sys_drivers s c = Some d" "s1 = s" | "install_driver c s = (d, s1)"
      "\<And>e. sys_drivers s c = Some e \<Longrightarrow> is_closed s e"
    using assms(3) by (auto simp: driver_for_def split: option.splits if_splits)
  then have "tg_inv s1 \<and> sys_drivers s1 c = Some d \<and> sys_dispatch s1 = Polling"
  proof cases
    case 1
    then show ?thesis using assms(1,2) by simp
  next
    case 2
    show ?thesis using install_closed(1-3) [OF assms(1,2) 2(2,1)] by blast
  qed
  then show "tg_inv s1" "sys_drivers s1 c = Some d" "sys_dispatch s1 = Polling" by blast+
qed

lemma inv_accept:
  assumes "tg_inv s" "sys_dispatch s = Polling" "sys_drivers s (tm_chat m) = Some d"
  shows "tg_inv (s\<lparr>sys_dispatch := Locking m d,
    sys_accepted := (sys_accepted s)(tm_chat m := sys_accepted s (tm_chat m) @ [m])\<rparr>)"
  using assms by (auto simp: inv_defs split: option.splits)

lemma inv_route:
  assumes "tg_inv s" "sys_dispatch s = Polling"
  shows "tg_inv (take_update cfg u us s)"
proof -
  define s0 where "s0 = s\<lparr>sys_offset := next_offset (sys_offset s) u, sys_updates := us\<rparr>"
  have s0: "tg_inv s0" "sys_dispatch s0 = Polling"
    using assms by (auto simp: s0_def inv_defs split: option.splits)
  show ?thesis
  proof (cases "accepts cfg u")
    case None
    then show ?thesis using s0 by (simp add: take_update_def s0_def)
  next
    case (Some m)
    obtain d s1 where f: "driver_for (tm_chat m) s0 = (d, s1)" by (rule prod.exhaust)
    show ?thesis
      using inv_accept [OF driver_for_inv(1,3,2) [OF s0 f]] Some f
      by (simp add: take_update_def s0_def Let_def)
  qed
qed

lemma tg_inv_step [rust_invs]:
  assumes "tg_step cfg s s'" and inv: "tg_inv s"
  shows "tg_inv s'"
  using assms(1)
proof (cases rule: tg_step.cases)
  case (poll us)
  then show ?thesis using inv_poll [OF inv] by simp
next
  case (route u us)
  then show ?thesis using inv_route [OF inv] by simp
next
  case (lock m d t)
  then show ?thesis using inv_lock [OF inv] by simp
next
  case (send m d t)
  then show ?thesis using inv_send [OF inv] by simp
next
  case (send_closed m d)
  then show ?thesis using inv_send_closed [OF inv] by simp
next
  case (respawn m f s1)
  then show ?thesis using inv_respawn [OF inv] by simp
next
  case (resend m f t)
  then show ?thesis using inv_push [OF inv] by simp
next
  case (resend_closed m f)
  then show ?thesis using inv by (simp add: tg_inv_def dispatch_ok_def is_closed_def)
next
  case (receive d t m ms)
  then show ?thesis using inv_take_message [OF inv] by simp
next
  case (idle d t)
  then show ?thesis using inv_new_phase [OF inv idle(2), of AwaitingGate] by simp
next
  case (enter_gate d t)
  then show ?thesis
    using inv_new_phase [OF inv enter_gate(2), of InGate] busy_not_refreshed [OF inv enter_gate(2)] by simp
next
  case (raced d t m ms)
  then show ?thesis using inv_take_message [OF inv] by simp
next
  case (retire d t)
  then show ?thesis
    using inv_new_phase [OF inv retire(2), of Ended] busy_not_refreshed [OF inv retire(2)] by simp
next
  case (served d t m)
  then show ?thesis
    using inv_new_phase [OF inv served(2), of Receiving] busy_not_refreshed [OF inv served(2)] by simp
next
  case (send_fails d t m x y)
  then show ?thesis using inv_send_fails [OF inv] by simp
qed

lemma tg_inv_reachable: "tg_reachable cfg s \<Longrightarrow> tg_inv s"
  by (induction rule: tg_reachable.induct) (auto intro: tg_inv_start tg_inv_step)

section \<open>A run\<close>

definition demo_config :: tg_config where
  "demo_config =
     \<lparr>tg_api_base = ''https://api.telegram.org'', tg_bot_token = ''t'',
      tg_core_base_url = ''http://127.0.0.1:3000'', tg_allowed_chat_ids = [7],
      tg_allow_all_chats = False,
      tg_voice_cfg = \<lparr>tv_enabled = False, tv_max_duration_secs = 60, tv_delete_temp_audio = True,
        tv_reply_as_voice = False, tv_max_reply_chars = 400, tv_max_parallel_voice = 1\<rparr>,
      tg_origin_token = None, tg_max_parallel_updates = 4\<rparr>"

definition demo_message :: "string \<Rightarrow> tg_message" where
  "demo_message t = \<lparr>tm_chat = 7, tm_from = Some None, tm_text = Some t, tm_voice = None, tm_audio = None\<rparr>"

definition demo_update :: "int \<Rightarrow> string \<Rightarrow> tg_update" where
  "demo_update i t = \<lparr>tu_id = i, tu_message = Some (demo_message t)\<rparr>"

definition demo_polled :: tg_system where
  "demo_polled = (retain_open (tg_start 0))\<lparr>sys_updates := [demo_update 1 ''a'', demo_update 2 ''b'']\<rparr>"

definition demo_first :: tg_system where
  "demo_first = take_update demo_config (demo_update 1 ''a'') [demo_update 2 ''b''] demo_polled"

definition demo_driver :: "tg_message list \<Rightarrow> driver_phase \<Rightarrow> chat_driver" where
  "demo_driver ms p = \<lparr>dr_chat = 7, dr_inbox = ms, dr_phase = p\<rparr>"

lemmas demo_defs = demo_config_def demo_message_def demo_update_def demo_polled_def demo_first_def
  demo_driver_def tg_start_def take_update_def accepts_def from_bot_def chat_allowed_def

lemma demo_accepts: "accepts demo_config (demo_update i t) = Some (demo_message t)"
  by (simp add: accepts_def demo_update_def demo_message_def from_bot_def chat_allowed_def demo_config_def)

lemma demo_turn: "\<exists>y. classify_message 7 (demo_message ''a'') = TurnAction ''a'' y"
  by (simp add: classify_message_def demo_message_def trim_def trim_start_def is_whitespace_def
      strip_bot_mention_def split_whitespace_def)

lemma demo_first_state:
  "sys_dispatch demo_first = Locking (demo_message ''a'') 0"
  "sys_tasks demo_first = [0 \<mapsto> demo_driver [] Receiving]" "sys_drivers demo_first = [7 \<mapsto> 0]"
  "sys_updates demo_first = [demo_update 2 ''b'']"
  by (simp_all add: demo_first_def take_update_def demo_accepts demo_polled_def step_defs tg_start_def
      demo_driver_def fun_eq_iff)
    (simp_all add: demo_message_def)

lemma demo_first_reachable: "tg_reachable demo_config demo_first"
proof -
  have "tg_reachable demo_config demo_polled"
    unfolding demo_polled_def
    by (rule tg_reachable.step [OF tg_reachable.start tg_step.poll]) (simp_all add: tg_start_def)
  moreover have "tg_step demo_config demo_polled demo_first"
    unfolding demo_first_def
    by (rule tg_step.route) (simp_all add: demo_polled_def retain_open_def tg_start_def)
  ultimately show ?thesis by (rule tg_reachable.step)
qed

section \<open>Properties\<close>

text \<open>
  C12: a chat never has two live drivers: the drivers of one chat do not overlap, also when one
  retires or fails while a message is on its way to it, so the turns of a chat are served one
  at a time.
\<close>

theorem one_driver_per_chat:
  assumes "tg_reachable cfg s" and "sys_tasks s d = Some t" and "sys_tasks s e = Some u"
    and "dr_chat t = dr_chat u" and "dr_phase t \<noteq> Ended" and "dr_phase u \<noteq> Ended"
  shows "d = e"
proof -
  have "task_ok s d t" "task_ok s e u"
    using tg_inv_reachable [OF assms(1)] assms(2,3) by (simp_all add: tg_inv_def)
  then show ?thesis using assms(4-6) by (simp add: task_ok_def)
qed

theorem one_driver_per_chat_witness:
  "\<exists>d. sys_tasks demo_first 0 = Some (demo_driver [] Receiving) \<and> d = (0::nat)"
  using one_driver_per_chat [OF demo_first_reachable, of 0 "demo_driver [] Receiving" 0 "demo_driver [] Receiving"]
  by (simp add: demo_first_state demo_driver_def)

text \<open>
  C11: no message of a chat is lost or reordered on its way to the chat's drivers. The messages
  accepted from a chat are, in order, those that left an inbox, those in the inbox of the
  current driver, and the one the dispatcher has in hand, across every retirement and
  redelivery; and a message leaves an inbox unserved only if the sending of a reply to that
  chat has failed.
\<close>

theorem messages_kept_in_order:
  assumes "tg_reachable cfg s"
  shows "sys_accepted s c = map fst (sys_left s c) @ queued s c @ in_hand s c
    \<and> (Dropped \<in> snd ` set (sys_left s c)) \<le> sys_send_failed s c"
  using tg_inv_reachable [OF assms] by (simp add: tg_inv_def)

theorem messages_kept_in_order_witness:
  "sys_accepted demo_first 7 = map fst (sys_left demo_first 7) @ queued demo_first 7 @ in_hand demo_first 7"
  using messages_kept_in_order [OF demo_first_reachable, of 7] by blast

text \<open>A driver with messages can always go on.\<close>

lemma driver_goes_on:
  assumes inv: "tg_inv s" and t: "sys_tasks s d = Some t" "dr_inbox t \<noteq> []"
  shows "\<exists>s'. tg_step cfg s s' \<and> sys_tasks s' \<noteq> sys_tasks s"
proof -
  obtain m ms where m: "dr_inbox t = m # ms" using t(2) by (cases "dr_inbox t") auto
  have ok: "task_ok s d t" using inv t(1) by (simp add: tg_inv_def)
  have moved: "sys_tasks (set_task d t' s') \<noteq> sys_tasks s" if "t' \<noteq> t" for t' s'
  proof
    assume "sys_tasks (set_task d t' s') = sys_tasks s"
    then have "Some t' = Some t" using t(1) by (metis (no_types) fun_upd_same set_task_def tg_system.select_convs(4) tg_system.surjective tg_system.update_convs(4))
    then show False using that by simp
  qed
  have taken: "sys_tasks (take_message d t m ms s) \<noteq> sys_tasks s"
    unfolding take_message_def by (rule moved) (use m in \<open>cases t; auto split: tg_action.splits\<close>)
  show ?thesis
  proof (cases "dr_phase t")
    case Receiving
    show ?thesis using tg_step.receive [OF t(1) Receiving m] taken by blast
  next
    case AwaitingGate
    then have "\<not> gate_taken s d" using ok m by (simp add: task_ok_def)
    from tg_step.enter_gate [OF t(1) AwaitingGate this] show ?thesis
      using moved [of "t\<lparr>dr_phase := InGate\<rparr>" s] AwaitingGate by (cases t) auto
  next
    case InGate
    show ?thesis using tg_step.raced [OF t(1) InGate m] taken by blast
  next
    case (Serving k)
    from tg_step.served [OF t(1) Serving] show ?thesis
      using moved [of "t\<lparr>dr_phase := Receiving\<rparr>" s] Serving by (cases t) auto
  next
    case Ended
    then show ?thesis using ok m by (simp add: task_ok_def)
  qed
qed

text \<open>
  C18: the dispatcher and the drivers never block each other: whenever a message waits in an inbox
  or in the dispatcher's hand, some task can take a step that moves the dispatcher or a driver,
  although the dispatcher holds a gate while it waits for room in an inbox of 64 and a retiring
  driver waits for the gate.
\<close>

theorem pending_messages_never_stuck:
  assumes "tg_reachable cfg s" and "queued s c \<noteq> [] \<or> in_hand s c \<noteq> []"
  shows "\<exists>s'. tg_step cfg s s' \<and> (sys_tasks s' \<noteq> sys_tasks s \<or> sys_dispatch s' \<noteq> sys_dispatch s)"
proof (cases "queued s c = []")
  case False
  then obtain d t where "sys_tasks s d = Some t" "dr_inbox t \<noteq> []"
    by (auto simp: queued_def split: option.splits)
  from driver_goes_on [OF tg_inv_reachable [OF assms(1)] this] show ?thesis by blast
next
  case True
  note inv = tg_inv_reachable [OF assms(1)]
  have drv: "\<exists>t. sys_tasks s d = Some t" if "sys_drivers s k = Some d" for k d
    using inv that unfolding tg_inv_def by blast
  show ?thesis
  proof (cases "sys_dispatch s")
    case Polling
    then show ?thesis using assms(2) True by (simp add: in_hand_def)
  next
    case (Locking m d)
    then have "sys_drivers s (tm_chat m) = Some d"
      using inv by (simp add: tg_inv_def dispatch_ok_def)
    then obtain t where t: "sys_tasks s d = Some t" using drv by blast
    show ?thesis
    proof (cases "dr_phase t = AwaitingGate \<or> dr_phase t = InGate")
      case False
      with tg_step.lock [OF Locking t] show ?thesis using Locking by fastforce
    next
      case True
      have moved: "sys_tasks (set_task d (t\<lparr>dr_phase := p\<rparr>) s) \<noteq> sys_tasks s" if "p \<noteq> dr_phase t" for p
      proof
        assume "sys_tasks (set_task d (t\<lparr>dr_phase := p\<rparr>) s) = sys_tasks s"
        from fun_cong [OF this, of d] have "t\<lparr>dr_phase := p\<rparr> = t" using t by (simp add: set_task_def)
        then show False using that by (cases t) simp
      qed
      show ?thesis
      proof (cases "dr_inbox t = []")
        case False
        from driver_goes_on [OF inv t this] show ?thesis by blast
      next
        case empty: True
        have free: "\<not> gate_taken s d" using Locking by (simp add: gate_taken_def)
        show ?thesis
        proof (cases "dr_phase t = AwaitingGate")
          case True
          from tg_step.enter_gate [OF t True free] show ?thesis using moved [of InGate] True by auto
        next
          case False
          then have "dr_phase t = InGate" using True by simp
          from tg_step.retire [OF t this empty] show ?thesis using moved [of Ended] \<open>dr_phase t = InGate\<close> by auto
        qed
      qed
    qed
  next
    case (Sending m d)
    then have "sys_drivers s (tm_chat m) = Some d"
      using inv by (simp add: tg_inv_def dispatch_ok_def)
    then obtain t where t: "sys_tasks s d = Some t" using drv by blast
    consider "dr_phase t = Ended" | "dr_phase t \<noteq> Ended" "length (dr_inbox t) < INBOX_CAPACITY"
      | "dr_inbox t \<noteq> []"
      unfolding INBOX_CAPACITY_def by (metis list.size(3) zero_less_numeral)
    then show ?thesis
    proof cases
      case 1
      then have "is_closed s d" using t by (simp add: is_closed_def)
      from tg_step.send_closed [OF Sending this] show ?thesis using Sending by fastforce
    next
      case 2
      from tg_step.send [OF Sending t 2] show ?thesis using Sending by fastforce
    next
      case 3
      from driver_goes_on [OF inv t 3] show ?thesis by blast
    qed
  next
    case (Redelivering m)
    obtain f s1 where "spawn_chat_driver (tm_chat m) s = (f, s1)" by (rule prod.exhaust)
    from tg_step.respawn [OF Redelivering this] show ?thesis using Redelivering by fastforce
  next
    case (Refreshing m f)
    then obtain t where "sys_tasks s f = Some t" "dr_phase t \<noteq> Ended"
      using inv by (auto simp: tg_inv_def dispatch_ok_def)
    from tg_step.resend [OF Refreshing this] show ?thesis using Refreshing by fastforce
  qed
qed

theorem pending_messages_never_stuck_witness:
  "\<exists>s'. tg_step demo_config demo_first s'
     \<and> (sys_tasks s' \<noteq> sys_tasks demo_first \<or> sys_dispatch s' \<noteq> sys_dispatch demo_first)"
  using pending_messages_never_stuck [OF demo_first_reachable, of 7]
  by (simp add: in_hand_def demo_first_state demo_message_def)

section \<open>A failed reply\<close>

text \<open>
  When the sending of one reply fails, \<open>serve_channel\<close> returns, the driver ends, and the messages
  that wait in its inbox go with it: they were accepted, their updates are acknowledged by the
  next poll, and nobody serves them. Here a chat sends two messages; the reply to the first
  fails, and the second is dropped.
\<close>

lemma failed_reply_drops_queue:
  "\<exists>s. tg_reachable demo_config s \<and> (demo_message ''b'', Dropped) \<in> set (sys_left s 7)"
proof -
  define a where "a = demo_message ''a''"
  define b where "b = demo_message ''b''"
  have ab: "tm_chat a = 7" "tm_chat b = 7" by (simp_all add: a_def b_def demo_message_def)
  define s1 where "s1 = demo_first\<lparr>sys_dispatch := Sending a 0\<rparr>"
  define s2 where "s2 = (set_task 0 (push_inbox a (demo_driver [] Receiving)) s1)\<lparr>sys_dispatch := Polling\<rparr>"
  define s3 where "s3 = take_update demo_config (demo_update 2 ''b'') [] s2"
  define s4 where "s4 = s3\<lparr>sys_dispatch := Sending b 0\<rparr>"
  define s5 where "s5 = (set_task 0 (push_inbox b (demo_driver [a] Receiving)) s4)\<lparr>sys_dispatch := Polling\<rparr>"
  define s6 where "s6 = take_message 0 (demo_driver [a, b] Receiving) a [b] s5"
  note fields = demo_first_state a_def [symmetric] b_def [symmetric]
  obtain y where turn: "classify_message 7 a = TurnAction ''a'' y" using demo_turn by (auto simp: a_def)
  have r1: "tg_reachable demo_config s1"
    unfolding s1_def
    by (rule tg_reachable.step [OF demo_first_reachable tg_step.lock [where t = "demo_driver [] Receiving"]])
      (simp_all add: fields demo_driver_def)
  have r2: "tg_reachable demo_config s2"
    unfolding s2_def
    by (rule tg_reachable.step [OF r1 tg_step.send]) (simp_all add: s1_def fields demo_driver_def INBOX_CAPACITY_def)
  have f2: "sys_dispatch s2 = Polling" "sys_updates s2 = [demo_update 2 ''b'']" "sys_drivers s2 = [7 \<mapsto> 0]"
    "sys_tasks s2 = [0 \<mapsto> demo_driver [a] Receiving]"
    by (simp_all add: s2_def s1_def set_task_def fields push_inbox_def demo_driver_def)
  have r3: "tg_reachable demo_config s3"
    unfolding s3_def by (rule tg_reachable.step [OF r2 tg_step.route]) (simp_all add: f2)
  have f3: "sys_dispatch s3 = Locking b 0" "sys_tasks s3 = [0 \<mapsto> demo_driver [a] Receiving]"
    using f2 ab by (simp_all add: s3_def take_update_def demo_accepts fields driver_for_def is_closed_def
        demo_driver_def)
  have r4: "tg_reachable demo_config s4"
    unfolding s4_def
    by (rule tg_reachable.step [OF r3 tg_step.lock [where t = "demo_driver [a] Receiving"]])
      (simp_all add: f3 demo_driver_def)
  have r5: "tg_reachable demo_config s5"
    unfolding s5_def
    by (rule tg_reachable.step [OF r4 tg_step.send]) (simp_all add: s4_def f3 demo_driver_def INBOX_CAPACITY_def)
  have f5: "sys_tasks s5 = [0 \<mapsto> demo_driver [a, b] Receiving]"
    by (simp add: s5_def s4_def set_task_def f3 push_inbox_def demo_driver_def)
  have r6: "tg_reachable demo_config s6"
    unfolding s6_def
    by (rule tg_reachable.step [OF r5 tg_step.receive]) (simp_all add: f5 demo_driver_def)
  have f6: "sys_tasks s6 0 = Some (demo_driver [b] (Serving a))"
    by (simp add: s6_def take_message_def set_task_def demo_driver_def turn)
  have "classify_message (dr_chat (demo_driver [b] (Serving a))) a = TurnAction ''a'' y"
    by (simp add: demo_driver_def turn)
  from tg_reachable.step [OF r6 tg_step.send_fails [OF f6 _ this]] show ?thesis
    by (intro exI conjI) (auto simp: demo_driver_def leave_inbox_def b_def)
qed

end
