(* ===== verification/Voice.thy ===== *)
theory Voice
  imports Prelude
begin

text \<open>
  What the voice channel speaks: \<open>voice/format.rs\<close> (\<open>for_voice\<close>, the formatter of a complete
  reply) and \<open>voice/streaming.rs\<close> (\<open>SentenceStreamer\<close>, which cuts a reply into sentences while
  the model is still producing it, with the token callback and the end of
  \<open>stream_and_speak_with_hints\<close>).

  Sentence marks of Chinese and Japanese matter here, so a text is a list of Unicode scalar
  values given as numbers (\<open>scalars\<close>), over the whole of Unicode; \<open>us\<close> writes an ASCII text
  that way. Synthesis and playback are not modelled: the sentences sent to the synthesis
  channel are the result.
\<close>

section \<open>Texts of Unicode scalar values\<close>

type_synonym scalars = "nat list"

definition us :: "string \<Rightarrow> scalars" where
  "us s = map of_char s"

text \<open>\<open>char::is_whitespace\<close>: the Unicode property White_Space.\<close>

definition uni_space :: "nat \<Rightarrow> bool" where
  "uni_space c \<longleftrightarrow> (9 \<le> c \<and> c \<le> 13) \<or> c = 32 \<or> c = 133 \<or> c = 160 \<or> c = 5760
     \<or> (8192 \<le> c \<and> c \<le> 8202) \<or> c = 8232 \<or> c = 8233 \<or> c = 8239 \<or> c = 8287 \<or> c = 12288"

definition uni_digit :: "nat \<Rightarrow> bool" where
  "uni_digit c \<longleftrightarrow> 48 \<le> c \<and> c \<le> 57"

definition uni_ascii_lower :: "scalars \<Rightarrow> scalars" where
  "uni_ascii_lower t = map (\<lambda>c. if 65 \<le> c \<and> c \<le> 90 then c + 32 else c) t"

definition trim_by :: "(nat \<Rightarrow> bool) \<Rightarrow> scalars \<Rightarrow> scalars" where
  "trim_by P t = rev (dropWhile P (rev (dropWhile P t)))"

definition uni_trim :: "scalars \<Rightarrow> scalars" where
  "uni_trim t = trim_by uni_space t"

definition trim_end_by :: "(nat \<Rightarrow> bool) \<Rightarrow> scalars \<Rightarrow> scalars" where
  "trim_end_by P t = rev (dropWhile P (rev t))"

text \<open>\<open>str::replace\<close> with a set of characters.\<close>

definition replace_chars :: "nat list \<Rightarrow> scalars \<Rightarrow> scalars \<Rightarrow> scalars" where
  "replace_chars ds r t = concat (map (\<lambda>c. if c \<in> set ds then r else [c]) t)"

fun words_aux :: "scalars \<Rightarrow> scalars \<Rightarrow> scalars list" where
  "words_aux acc [] = (if acc = [] then [] else [rev acc])"
| "words_aux acc (c # t) =
     (if uni_space c then (if acc = [] then [] else [rev acc]) @ words_aux [] t
      else words_aux (c # acc) t)"

text \<open>\<open>str::split_whitespace\<close>.\<close>

definition uni_words :: "scalars \<Rightarrow> scalars list" where
  "uni_words t = words_aux [] t"

text \<open>\<open>str::lines\<close>: pieces that end at a newline, a carriage return before it dropped; no
  last empty piece.\<close>

fun uni_lines_aux :: "scalars \<Rightarrow> scalars \<Rightarrow> scalars list" where
  "uni_lines_aux acc [] = (if acc = [] then [] else [rev acc])"
| "uni_lines_aux acc (c # t) =
     (if c = 10 then rev (if starts_with acc [13] then drop 1 acc else acc) # uni_lines_aux [] t
      else uni_lines_aux (c # acc) t)"

definition uni_lines :: "scalars \<Rightarrow> scalars list" where
  "uni_lines t = uni_lines_aux [] t"

section \<open>The formatter\<close>

definition abbreviations :: "scalars list" where
  "abbreviations = map us
     [''mr'', ''mrs'', ''ms'', ''dr'', ''prof'', ''sr'', ''jr'', ''st'', ''rev'', ''gen'', ''sen'',
      ''rep'', ''gov'', ''pres'', ''vs'', ''etc'', ''inc'', ''ltd'', ''co'', ''corp'', ''llc'',
      ''dept'', ''est'', ''approx'', ''vol'', ''no'', ''fig'', ''e.g'', ''i.e'', ''a.m'', ''p.m'',
      ''u.s'', ''u.k'', ''u.s.a'']"

definition ends_with_abbreviation :: "scalars \<Rightarrow> bool" where
  "ends_with_abbreviation t =
     (let ws = uni_words t;
          last_token = trim_end_by (\<lambda>c. c = 46) (if ws = [] then [] else last ws)
      in if last_token = [] then False
         else uni_ascii_lower last_token \<in> set abbreviations)"

definition is_ascii_terminator :: "nat \<Rightarrow> bool" where
  "is_ascii_terminator c \<longleftrightarrow> c = 46 \<or> c = 33 \<or> c = 63"

definition is_cjk_terminator :: "nat \<Rightarrow> bool" where
  "is_cjk_terminator c \<longleftrightarrow> c = 12290 \<or> c = 65281 \<or> c = 65311"

definition format_min_chars :: nat where
  "format_min_chars = 5"

definition strip_numbered_prefix :: "scalars \<Rightarrow> scalars" where
  "strip_numbered_prefix line =
     (let digits = takeWhile uni_digit line; rest = dropWhile uni_digit line
      in if digits \<noteq> [] \<and> starts_with rest [46, 32] then drop 2 rest else line)"

definition strip_bullet :: "scalars \<Rightarrow> scalars" where
  "strip_bullet line =
     (case strip_prefix line (us ''- '') of Some rest \<Rightarrow> rest
      | None \<Rightarrow> (case strip_prefix line (us ''* '') of Some rest \<Rightarrow> rest
      | None \<Rightarrow> (case strip_prefix line [8226, 32] of Some rest \<Rightarrow> rest
      | None \<Rightarrow> line)))"

text \<open>A bracketed text ends at the next closing bracket, or with the text.\<close>

definition bracketed_part :: "scalars \<Rightarrow> scalars \<times> scalars" where
  "bracketed_part t = (takeWhile (\<lambda>c. c \<noteq> 93) t, drop 1 (dropWhile (\<lambda>c. c \<noteq> 93) t))"

definition skip_url_part :: "scalars \<Rightarrow> scalars" where
  "skip_url_part t =
     (if starts_with t [40] then drop 1 (dropWhile (\<lambda>c. c \<noteq> 41) (drop 1 t)) else t)"

lemma bracketed_part_shorter [termination_simp]:
  "(link, rest) = bracketed_part t \<Longrightarrow> length rest \<le> length t"
  using length_dropWhile_le [of "\<lambda>c. c \<noteq> 93" t] by (auto simp: bracketed_part_def)

lemma skip_url_part_shorter [termination_simp]: "length (skip_url_part t) \<le> length t"
  using length_dropWhile_le [of "\<lambda>c. c \<noteq> 41" "drop 1 t"] by (auto simp: skip_url_part_def)

function strip_links :: "scalars \<Rightarrow> scalars" where
  "strip_links [] = []"
| "strip_links (c # t) =
     (if c = 91 then (let (link, rest) = bracketed_part t in link @ strip_links (skip_url_part rest))
      else c # strip_links t)"
  by pat_completeness auto
termination
proof (relation "measure length", goal_cases)
  case (2 c t p link rest)
  then show ?case
    using bracketed_part_shorter [of link rest t] skip_url_part_shorter [of rest] by simp
qed auto

definition markdown_line :: "bool \<times> scalars \<Rightarrow> scalars \<Rightarrow> bool \<times> scalars" where
  "markdown_line st line =
     (let (in_code_block, result) = st; trimmed = uni_trim line in
      if starts_with trimmed (us ''```'') then (\<not> in_code_block, result)
      else if in_code_block then st
      else
        let l1 = (if starts_with trimmed [35] then uni_trim (dropWhile (\<lambda>c. c = 35) trimmed)
                  else trimmed);
            l2 = strip_numbered_prefix (strip_bullet l1)
        in if l2 = [] then st
           else (in_code_block, (if result = [] then [] else result @ [32]) @ l2))"

text \<open>The marks that both paths drop from a text.\<close>

definition strip_emphasis :: "scalars \<Rightarrow> scalars" where
  "strip_emphasis t =
     replace_chars [96] [] (replace_chars [42] []
       (str_replace (str_replace t (us ''**'') []) (us ''__'') []))"

definition strip_markdown :: "scalars \<Rightarrow> scalars" where
  "strip_markdown t = strip_links (strip_emphasis (snd (foldl markdown_line (False, []) (uni_lines t))))"

definition has_raw_url_marker :: "scalars \<Rightarrow> bool" where
  "has_raw_url_marker t =
     (str_contains t (us ''http://'') \<or> str_contains t (us ''https://'')
      \<or> str_contains t (us ''www.''))"

definition url_punctuation :: "nat list" where
  "url_punctuation = us ''()[]{},;:'' @ [34, 39]"

definition is_raw_url :: "scalars \<Rightarrow> bool" where
  "is_raw_url token =
     (let trimmed = trim_by (\<lambda>c. c \<in> set url_punctuation) token
      in starts_with trimmed (us ''http://'') \<or> starts_with trimmed (us ''https://'')
         \<or> starts_with trimmed (us ''www.''))"

definition strip_raw_urls :: "scalars \<Rightarrow> scalars" where
  "strip_raw_urls t =
     foldl (\<lambda>result token.
              if is_raw_url token then result
              else (if result = [] then [] else result @ [32]) @ token)
       [] (uni_words t)"

text \<open>\<open>normalize_whitespace\<close>; the flag is \<open>last_was_space\<close>.\<close>

fun normalize_whitespace :: "bool \<Rightarrow> scalars \<Rightarrow> scalars" where
  "normalize_whitespace last_was_space [] = []"
| "normalize_whitespace last_was_space (c # t) =
     (if uni_space c
      then (if last_was_space then normalize_whitespace True t
            else 32 # normalize_whitespace True t)
      else c # normalize_whitespace False t)"

definition push_sentence :: "scalars \<Rightarrow> scalars \<Rightarrow> scalars" where
  "push_sentence result s = (if result = [] then [] else result @ [32]) @ s"

definition ends_voice_sentence :: "nat option \<Rightarrow> scalars \<Rightarrow> nat \<Rightarrow> scalars \<Rightarrow> bool" where
  "ends_voice_sentence prev clause ch rest =
     (if is_cjk_terminator ch then True
      else if is_ascii_terminator ch then
        (let nxt = (case rest of [] \<Rightarrow> None | c # _ \<Rightarrow> Some c);
             is_decimal = (ch = 46
               \<and> (case prev of None \<Rightarrow> False | Some c \<Rightarrow> uni_digit c)
               \<and> (case nxt of None \<Rightarrow> False | Some c \<Rightarrow> uni_digit c))
         in \<not> is_decimal
            \<and> (case nxt of None \<Rightarrow> True | Some c \<Rightarrow> uni_space c)
            \<and> format_min_chars \<le> length (uni_trim clause)
            \<and> \<not> ends_with_abbreviation clause)
      else False)"

text \<open>The loop of \<open>truncate_for_voice\<close>: the character before, the result, the number of
  sentences, the current clause and the characters left.\<close>

fun truncate_loop ::
  "nat \<Rightarrow> nat option \<Rightarrow> scalars \<Rightarrow> nat \<Rightarrow> scalars \<Rightarrow> scalars \<Rightarrow> scalars \<times> nat \<times> scalars" where
  "truncate_loop most prev result count clause [] = (result, count, clause)"
| "truncate_loop most prev result count clause (ch # rest) =
     (let clause1 = clause @ [ch] in
      if ends_voice_sentence prev clause1 ch rest then
        (let result1 = push_sentence result (uni_trim clause1)
         in if most \<le> count + 1 then (result1, count + 1, [])
            else truncate_loop most (Some ch) result1 (count + 1) [] rest)
      else truncate_loop most (Some ch) result count clause1 rest)"

definition truncate_for_voice :: "scalars \<Rightarrow> nat \<Rightarrow> scalars" where
  "truncate_for_voice t most =
     (if most = 0 then []
      else
        let (result, count, clause) = truncate_loop most None [] 0 [] t;
            trailing = uni_trim clause
        in if trailing \<noteq> [] \<and> count < most then push_sentence result trailing else result)"

text \<open>The four dash and ellipsis rewritings that both paths make.\<close>

definition speak_dashes :: "scalars \<Rightarrow> scalars" where
  "speak_dashes t =
     str_replace (str_replace (str_replace (str_replace t (us ''...'') (us '', ''))
       (us '' - '') (us '', '')) [32, 8212, 32] (us '', '')) [32, 8211, 32] (us '', '')"

definition dropped_marks :: "nat list" where
  "dropped_marks = us ''[]{}'' @ [34]"

definition clean_for_tts :: "scalars \<Rightarrow> scalars" where
  "clean_for_tts t =
     str_replace
       (concat (map (\<lambda>c. if c = 40 \<or> c = 41 then us '', '' else if c \<in> set dropped_marks then [] else [c])
         (speak_dashes t)))
       [39, 115] [115]"

definition for_voice :: "scalars \<Rightarrow> scalars" where
  "for_voice t =
     (let plain = strip_markdown t;
          spaced = (if has_raw_url_marker plain then strip_raw_urls plain
                    else normalize_whitespace False plain)
      in uni_trim (clean_for_tts (truncate_for_voice spaced 3)))"

section \<open>The sentence streamer\<close>

definition max_spoken_sentences :: nat where
  "max_spoken_sentences = 3"

definition stream_min_chars :: nat where
  "stream_min_chars = 8"

record sentence_streamer =
  pending_sentence :: scalars
  in_code_fence :: bool
  fence_marker_buffer :: scalars
  awaiting_ascii_boundary :: bool
  emitted_sentences :: nat
  max_sentences :: nat

definition new_streamer :: "nat \<Rightarrow> sentence_streamer" where
  "new_streamer most =
     \<lparr>pending_sentence = [], in_code_fence = False, fence_marker_buffer = [],
      awaiting_ascii_boundary = False, emitted_sentences = 0, max_sentences = most\<rparr>"

definition closed_bracket :: "scalars \<Rightarrow> bool" where
  "closed_bracket t \<longleftrightarrow> 93 \<in> set t"

function strip_inline_links :: "scalars \<Rightarrow> scalars" where
  "strip_inline_links [] = []"
| "strip_inline_links (c # t) =
     (if c = 91 then
        (let (link, rest) = bracketed_part t in
         if closed_bracket t \<and> starts_with rest [40]
         then link @ strip_inline_links (skip_url_part rest)
         else 91 # link @ (if closed_bracket t then [93] else []) @ strip_inline_links rest)
      else c # strip_inline_links t)"
  by pat_completeness auto
termination
proof (relation "measure length", goal_cases)
  case (2 c t p link rest)
  then show ?case
    using bracketed_part_shorter [of link rest t] skip_url_part_shorter [of rest] by simp
next
  case (3 c t p link rest)
  then show ?case using bracketed_part_shorter [of link rest t] by simp
qed auto

definition stream_strip_urls :: "scalars \<Rightarrow> scalars" where
  "stream_strip_urls t = join_str [32] (filter (\<lambda>token. \<not> is_raw_url token) (uni_words t))"

definition strip_list_or_header_prefix :: "scalars \<Rightarrow> scalars" where
  "strip_list_or_header_prefix line =
     strip_numbered_prefix (strip_bullet (dropWhile uni_space (dropWhile (\<lambda>c. c = 35) line)))"

text \<open>\<open>collapse_whitespace\<close>: the result so far and \<open>last_was_space\<close> are carried along.\<close>

definition collapse_char :: "scalars \<times> bool \<Rightarrow> nat \<Rightarrow> scalars \<times> bool" where
  "collapse_char st c =
     (let (result, last_was_space) = st in
      if uni_space c
      then if \<not> last_was_space \<and> result \<noteq> [] then (result @ [32], True) else st
      else (result @ [c], False))"

definition collapse_whitespace :: "scalars \<Rightarrow> scalars" where
  "collapse_whitespace t = fst (foldl collapse_char ([], False) t)"

definition clean_sentence :: "scalars \<Rightarrow> scalars" where
  "clean_sentence t =
     (let stripped_urls = stream_strip_urls (strip_inline_links t);
          stripped_inline = strip_emphasis (strip_list_or_header_prefix (uni_trim stripped_urls));
          punct_cleaned =
            str_replace
              (replace_chars dropped_marks []
                (replace_chars [40, 41] (us '', '') (speak_dashes stripped_inline)))
              [39, 115] [115]
      in collapse_whitespace (uni_trim punct_cleaned))"

definition consume_fence_marker :: "sentence_streamer \<Rightarrow> nat \<Rightarrow> bool \<times> sentence_streamer" where
  "consume_fence_marker s ch =
     (if ch = 96 then
        (let buffer = fence_marker_buffer s @ [ch] in
         (True, if length buffer = 3
                then s\<lparr>in_code_fence := \<not> in_code_fence s, fence_marker_buffer := []\<rparr>
                else s\<lparr>fence_marker_buffer := buffer\<rparr>))
      else (False, s\<lparr>fence_marker_buffer := []\<rparr>))"

definition try_emit :: "sentence_streamer \<Rightarrow> scalars option \<times> sentence_streamer" where
  "try_emit s =
     (let cleaned = clean_sentence (pending_sentence s) in
      if stream_min_chars \<le> length cleaned
      then (Some cleaned, s\<lparr>pending_sentence := [], emitted_sentences := emitted_sentences s + 1\<rparr>)
      else (None, s))"

definition push_char :: "nat \<Rightarrow> sentence_streamer \<Rightarrow> sentence_streamer" where
  "push_char ch s = s\<lparr>pending_sentence := pending_sentence s @ [ch]\<rparr>"

definition sentence_cap_reached :: "sentence_streamer \<Rightarrow> bool" where
  "sentence_cap_reached s \<longleftrightarrow> max_sentences s \<le> emitted_sentences s"

text \<open>The loop of \<open>SentenceStreamer::feed\<close> over the characters of a chunk.\<close>

fun feed_loop :: "sentence_streamer \<Rightarrow> scalars list \<Rightarrow> scalars \<Rightarrow> scalars list \<times> sentence_streamer" where
  "feed_loop s out [] = (out, s)"
| "feed_loop s out (ch # rest) =
     (let (absorbed, s1) = consume_fence_marker s ch in
      if absorbed \<or> in_code_fence s1 then feed_loop s1 out rest
      else if awaiting_ascii_boundary s1 \<and> uni_space ch then
        (let s2 = s1\<lparr>awaiting_ascii_boundary := False\<rparr>;
             (sentence, s3) =
               (if ends_with_abbreviation (pending_sentence s2) then (None, s2) else try_emit s2)
         in case sentence of
              Some x \<Rightarrow> if sentence_cap_reached s3 then (out @ [x], s3)
                        else feed_loop (push_char ch s3) (out @ [x]) rest
            | None \<Rightarrow> feed_loop (push_char ch s3) out rest)
      else
        (let s2 = push_char ch (s1\<lparr>awaiting_ascii_boundary := False\<rparr>) in
         if is_cjk_terminator ch then
           (let (sentence, s3) = try_emit s2
            in case sentence of
                 Some x \<Rightarrow> if sentence_cap_reached s3 then (out @ [x], s3)
                           else feed_loop s3 (out @ [x]) rest
               | None \<Rightarrow> feed_loop s3 out rest)
         else if is_ascii_terminator ch
         then feed_loop (s2\<lparr>awaiting_ascii_boundary := True\<rparr>) out rest
         else feed_loop s2 out rest))"

definition feed :: "sentence_streamer \<Rightarrow> scalars \<Rightarrow> scalars list \<times> sentence_streamer" where
  "feed s chunk = (if sentence_cap_reached s then ([], s) else feed_loop s [] chunk)"

definition finish_streamer :: "sentence_streamer \<Rightarrow> scalars option" where
  "finish_streamer s =
     (if sentence_cap_reached s then None
      else
        let pending =
              (if fence_marker_buffer s \<noteq> [] \<and> \<not> in_code_fence s
               then pending_sentence s @ fence_marker_buffer s else pending_sentence s);
            trimmed = uni_trim pending;
            cleaned = clean_sentence trimmed
        in if trimmed = [] \<or> cleaned = [] then None else Some cleaned)"

text \<open>
  \<open>stream_and_speak_with_hints\<close>: every token goes through the streamer, the sentences go to
  the synthesis channel in order, and what is left follows when the stream has ended.
\<close>

definition on_voice_token ::
  "sentence_streamer \<times> scalars list \<Rightarrow> scalars \<Rightarrow> sentence_streamer \<times> scalars list" where
  "on_voice_token st token =
     (let (s, sent) = st; (out, s1) = feed s token in (s1, sent @ out))"

definition spoken_sentences :: "scalars list \<Rightarrow> scalars list" where
  "spoken_sentences tokens =
     (let (s, sent) = foldl on_voice_token (new_streamer max_spoken_sentences, []) tokens
      in sent @ (case finish_streamer s of None \<Rightarrow> [] | Some tail \<Rightarrow> [tail]))"

section \<open>Words\<close>

lemma words_aux_Nil: "words_aux [] t = [] \<Longrightarrow> list_all uni_space t"
proof (induction t)
  case (Cons c t)
  have "words_aux acc u \<noteq> []" if "acc \<noteq> []" for acc u
    using that by (induction acc u rule: words_aux.induct) auto
  then show ?case using Cons by (auto split: if_splits)
qed simp

lemma words_aux_acc: "acc \<noteq> [] \<Longrightarrow> words_aux acc t \<noteq> []"
  by (induction acc t rule: words_aux.induct) auto

lemma words_aux_good:
  "list_all (\<lambda>c. \<not> uni_space c) acc \<Longrightarrow> w \<in> set (words_aux acc t)
     \<Longrightarrow> w \<noteq> [] \<and> list_all (\<lambda>c. \<not> uni_space c) w \<and> (\<exists>a b. rev acc @ t = a @ w @ b)"
proof (induction acc t rule: words_aux.induct)
  case (1 acc)
  then show ?case by (auto split: if_splits simp: list_all_iff intro!: exI [of _ "[]"])
next
  case (2 acc c t)
  show ?case
  proof (cases "uni_space c")
    case False
    then show ?thesis using 2(2) 2(3,4) by simp
  next
    case True
    then consider "acc \<noteq> []" "w = rev acc" | "w \<in> set (words_aux [] t)"
      using 2(4) by (auto split: if_splits)
    then show ?thesis
    proof cases
      case 1
      have "rev acc @ c # t = [] @ w @ c # t" using 1 by simp
      then show ?thesis using 1 2(3) by (auto simp: list_all_iff)
    next
      case 2
      note w = 2
      from "2.IH"(1) [OF True _ w] obtain a b where "w \<noteq> []" "list_all (\<lambda>c. \<not> uni_space c) w"
        "t = a @ w @ b" by auto
      then have "rev acc @ c # t = (rev acc @ c # a) @ w @ b" by simp
      then show ?thesis using \<open>w \<noteq> []\<close> \<open>list_all _ w\<close> by blast
    qed
  qed
qed

lemma uni_words_good:
  "w \<in> set (uni_words t) \<Longrightarrow> w \<noteq> [] \<and> list_all (\<lambda>c. \<not> uni_space c) w \<and> (\<exists>a b. t = a @ w @ b)"
  using words_aux_good [of "[]" w t] by (simp add: uni_words_def)

lemma words_aux_word:
  "list_all (\<lambda>c. \<not> uni_space c) w \<Longrightarrow> words_aux acc (w @ t) = words_aux (rev w @ acc) t"
  by (induction w arbitrary: acc) auto

lemma uni_space_32 [simp]: "uni_space 32"
  by (simp add: uni_space_def)

lemma words_join:
  "list_all (\<lambda>w. w \<noteq> [] \<and> list_all (\<lambda>c. \<not> uni_space c) w) ws
     \<Longrightarrow> uni_words (join_str [32] ws) = ws"
proof (induction "[32::nat]" ws rule: join_str.induct)
  case (2 s)
  then show ?case using words_aux_word [of s "[]" "[]"] by (simp add: uni_words_def)
next
  case (3 s t ss)
  then show ?case
    using words_aux_word [of s "[]" "32 # join_str [32] (t # ss)"] by (simp add: uni_words_def)
qed (simp add: uni_words_def)

lemma words_all_good: "list_all (\<lambda>w. w \<noteq> [] \<and> list_all (\<lambda>c. \<not> uni_space c) w) (uni_words t)"
  using uni_words_good by (auto simp: list_all_iff)

lemma join_words_idem: "join_str [32] (uni_words (join_str [32] (uni_words t))) = join_str [32] (uni_words t)"
  using words_join [OF words_all_good] by simp

definition end_space :: "scalars \<Rightarrow> scalars" where
  "end_space t = (if t \<noteq> [] \<and> uni_space (last t) then [32] else [])"

lemma end_space_Cons [simp]: "t \<noteq> [] \<Longrightarrow> end_space (c # t) = end_space t"
  by (simp add: end_space_def)

lemma end_space_all: "list_all uni_space t \<Longrightarrow> uni_space c \<Longrightarrow> end_space (c # t) = [32]"
  by (cases t rule: rev_cases) (auto simp: end_space_def)

lemma join_Cons: "ws \<noteq> [] \<Longrightarrow> join_str sep (w # ws) = w @ sep @ join_str sep ws"
  by (cases ws) auto

lemma normalize_words_aux:
  "(acc \<noteq> [] \<longrightarrow> rev acc @ normalize_whitespace False t = join_str [32] (words_aux acc t) @ end_space t)
   \<and> normalize_whitespace True t
      = join_str [32] (words_aux [] t) @ (if words_aux [] t = [] then [] else end_space t)"
proof (induction t arbitrary: acc)
  case Nil
  then show ?case by (simp add: end_space_def)
next
  case (Cons c t)
  have ne: "words_aux [] t \<noteq> [] \<Longrightarrow> t \<noteq> []" by auto
  show ?case
  proof (cases "uni_space c")
    case True
    have "rev acc @ normalize_whitespace False (c # t)
        = join_str [32] (words_aux acc (c # t)) @ end_space (c # t)" if "acc \<noteq> []"
    proof (cases "words_aux [] t = []")
      case True
      with Cons.IH \<open>uni_space c\<close> that end_space_all [OF words_aux_Nil] show ?thesis by simp
    next
      case False
      with Cons.IH \<open>uni_space c\<close> that ne show ?thesis by (simp add: join_Cons)
    qed
    then show ?thesis using True Cons.IH ne by auto
  next
    case False
    have "end_space (c # t) = end_space t"
      using False by (cases "t = []") (simp_all add: end_space_def)
    moreover have "rev a @ c # normalize_whitespace False t
        = join_str [32] (words_aux (c # a) t) @ end_space t" for a
      using Cons.IH [of "c # a"] by simp
    note this [of acc] this [of "[]"]
    ultimately show ?thesis using False words_aux_acc [of "[c]" t] by simp
  qed
qed

lemma normalize_words:
  "\<exists>front back. (front = [] \<or> front = [32]) \<and> (back = [] \<or> back = [32])
     \<and> normalize_whitespace False t = front @ join_str [32] (uni_words t) @ back"
proof -
  define space where "space = [32::nat]"
  have aux: "\<exists>back. (back = [] \<or> back = space)
      \<and> normalize_whitespace True u = join_str [32] (words_aux [] u) @ back" for u
    using normalize_words_aux [of "[]" u] by (auto simp: end_space_def space_def)
  show ?thesis
  proof (cases "t \<noteq> [] \<and> uni_space (hd t)")
    case True
    then obtain c u where "t = c # u" "uni_space c" by (cases t) auto
    then have "normalize_whitespace False t = space @ normalize_whitespace True u"
      "uni_words t = words_aux [] u" by (simp_all add: uni_words_def space_def)
    with aux [of u] show ?thesis unfolding space_def by metis
  next
    case False
    then have "normalize_whitespace False t = [] @ normalize_whitespace True t"
      by (cases t) auto
    with aux [of t] show ?thesis unfolding space_def uni_words_def by metis
  qed
qed

section \<open>The URL scan of the formatter\<close>

lemma uni_words_space [simp]: "uni_words (32 # t) = uni_words t"
  by (simp add: uni_words_def)

lemma uni_words_snoc_aux: "words_aux acc (t @ [32]) = words_aux acc t"
  by (induction acc t rule: words_aux.induct) auto

lemma uni_words_snoc [simp]: "uni_words (t @ [32]) = uni_words t"
  by (simp add: uni_words_def uni_words_snoc_aux)

lemma ends_abbreviation_space [simp]:
  "ends_with_abbreviation (32 # t) = ends_with_abbreviation t"
  "ends_with_abbreviation (t @ [32]) = ends_with_abbreviation t"
  by (simp_all add: ends_with_abbreviation_def)

lemma uni_trim_space [simp]: "uni_trim (32 # t) = uni_trim t"
  by (simp add: uni_trim_def trim_by_def)

lemma uni_trim_snoc [simp]: "uni_trim (t @ [32]) = uni_trim t"
proof (cases "list_all uni_space t")
  case True
  then have "dropWhile uni_space (t @ [32]) = []" "dropWhile uni_space t = []"
    unfolding dropWhile_eq_Nil_conv by (auto simp: list_all_iff)
  then show ?thesis unfolding uni_trim_def trim_by_def by (simp only:)
next
  case False
  then have "dropWhile uni_space (t @ [32]) = dropWhile uni_space t @ [32]"
    by (auto simp: list_all_iff dropWhile_append1)
  then show ?thesis by (simp add: uni_trim_def trim_by_def)
qed

text \<open>What \<open>truncate_for_voice\<close> reads of the state in which its loop stops.\<close>

definition truncated :: "scalars \<times> nat \<times> scalars \<Rightarrow> scalars \<times> nat \<times> scalars" where
  "truncated st = (let (result, count, clause) = st in (result, count, uni_trim clause))"

lemma truncate_for_voice_truncated:
  "truncated (truncate_loop most None [] 0 [] t) = truncated (truncate_loop most None [] 0 [] u)
     \<Longrightarrow> truncate_for_voice t most = truncate_for_voice u most"
  by (auto simp: truncate_for_voice_def truncated_def Let_def split: prod.splits)

definition no_digit :: "nat option \<Rightarrow> bool" where
  "no_digit p = (case p of None \<Rightarrow> True | Some c \<Rightarrow> \<not> uni_digit c)"

lemma ends_sentence_front:
  "no_digit p \<Longrightarrow> no_digit q
     \<Longrightarrow> ends_voice_sentence p (32 # clause) ch rest = ends_voice_sentence q clause ch rest"
  by (auto simp: ends_voice_sentence_def no_digit_def split: option.splits)

lemma ends_sentence_prev:
  "ends_voice_sentence (Some c) (32 # clause) ch rest = ends_voice_sentence (Some c) clause ch rest"
  by (simp add: ends_voice_sentence_def)

lemma ends_sentence_back:
  "ends_voice_sentence p clause ch (rest @ [32]) = ends_voice_sentence p clause ch rest"
proof (cases rest)
  case Nil
  have "\<not> uni_digit 32" by (simp add: uni_digit_def)
  then show ?thesis using Nil by (simp add: ends_voice_sentence_def)
qed (simp add: ends_voice_sentence_def)

lemma truncate_front_step:
  "truncated (truncate_loop most (Some c) result count (32 # clause) t)
     = truncated (truncate_loop most (Some c) result count clause t)"
proof (induction t arbitrary: c result count clause)
  case Nil
  then show ?case by (simp add: truncated_def)
next
  case (Cons ch t)
  have e: "ends_voice_sentence (Some c) (32 # clause @ [ch]) ch t
      = ends_voice_sentence (Some c) (clause @ [ch]) ch t" by (rule ends_sentence_prev)
  show ?case by (simp add: e Cons.IH Let_def)
qed

lemma truncate_front:
  "truncated (truncate_loop most None [] 0 [] (32 # t)) = truncated (truncate_loop most None [] 0 [] t)"
proof (cases t)
  case Nil
  then show ?thesis
    by (simp add: truncated_def ends_voice_sentence_def is_cjk_terminator_def is_ascii_terminator_def)
next
  case (Cons c u)
  have s: "truncate_loop most None [] 0 [] (32 # t) = truncate_loop most (Some 32) [] 0 [32] t"
    by (simp add: ends_voice_sentence_def is_cjk_terminator_def is_ascii_terminator_def)
  have e: "ends_voice_sentence (Some 32) (32 # [c]) c u = ends_voice_sentence None [c] c u"
    by (rule ends_sentence_front) (simp_all add: no_digit_def uni_digit_def)
  show ?thesis unfolding s using e by (simp add: Cons truncate_front_step Let_def uni_trim_space [of "[c]"])
qed

lemma truncate_back:
  "truncated (truncate_loop most p result count clause (t @ [32]))
     = truncated (truncate_loop most p result count clause t)"
proof (induction t arbitrary: p result count clause)
  case Nil
  then show ?case
    by (simp add: truncated_def ends_voice_sentence_def is_cjk_terminator_def is_ascii_terminator_def)
next
  case (Cons ch t)
  show ?case by (simp add: ends_sentence_back Cons.IH Let_def)
qed

lemma truncate_spaces:
  assumes "front = [] \<or> front = [32]" and "back = [] \<or> back = [32]"
  shows "truncate_for_voice (front @ t @ back) most = truncate_for_voice t most"
proof -
  have "truncate_for_voice (front @ t @ back) most = truncate_for_voice (t @ back) most"
    using assms(1) truncate_front [of most "t @ back"]
    by (auto intro!: truncate_for_voice_truncated simp del: truncate_loop.simps)
  also have "\<dots> = truncate_for_voice t most"
    using assms(2) truncate_back [of most None "[]" 0 "[]" t]
    by (auto intro!: truncate_for_voice_truncated simp del: truncate_loop.simps)
  finally show ?thesis .
qed

lemma strip_urls_fold:
  "list_all (\<lambda>w. w \<noteq> []) ws
   \<Longrightarrow> foldl (\<lambda>result token.
         if is_raw_url token then result
         else (if result = [] then [] else result @ [32]) @ token) r ws
     = (if filter (\<lambda>w. \<not> is_raw_url w) ws = [] then r
        else (if r = [] then [] else r @ [32]) @ join_str [32] (filter (\<lambda>w. \<not> is_raw_url w) ws))"
proof (induction ws arbitrary: r)
  case (Cons w ws)
  then show ?case
    by (cases "filter (\<lambda>w. \<not> is_raw_url w) ws = []") (auto simp: join_Cons)
qed simp

text \<open>Both paths drop the same words.\<close>

lemma strip_raw_urls_words: "strip_raw_urls t = stream_strip_urls t"
proof -
  have "list_all (\<lambda>w. w \<noteq> []) (uni_words t)" using uni_words_good by (auto simp: list_all_iff)
  from strip_urls_fold [OF this] show ?thesis
    by (simp add: strip_raw_urls_def stream_strip_urls_def)
qed

lemma trim_by_part: "\<exists>a b. t = a @ trim_by P t @ b"
proof -
  have "t = takeWhile P t @ dropWhile P t" by simp
  moreover have "dropWhile P t
      = rev (dropWhile P (rev (dropWhile P t))) @ rev (takeWhile P (rev (dropWhile P t)))"
    by (metis rev_append rev_rev_ident takeWhile_dropWhile_id)
  ultimately show ?thesis unfolding trim_by_def by metis
qed

lemma raw_url_marker: "w \<in> set (uni_words t) \<Longrightarrow> is_raw_url w \<Longrightarrow> has_raw_url_marker t"
proof -
  assume "w \<in> set (uni_words t)" and url: "is_raw_url w"
  then obtain a b where t: "t = a @ w @ b" using uni_words_good by blast
  obtain a' b' where w: "w = a' @ trim_by (\<lambda>c. c \<in> set url_punctuation) w @ b'"
    using trim_by_part by blast
  have "str_contains t m" if "starts_with (trim_by (\<lambda>c. c \<in> set url_punctuation) w) m" for m
  proof -
    from that obtain r where "trim_by (\<lambda>c. c \<in> set url_punctuation) w = m @ r"
      by (auto simp: starts_with_iff)
    with t w have "t = (a @ a') @ m @ (r @ b' @ b)" by simp
    then show ?thesis unfolding str_contains_iff by blast
  qed
  then show ?thesis using url by (auto simp: is_raw_url_def has_raw_url_marker_def Let_def)
qed

text \<open>The formatter as it would be without the gate: every reply is scanned for URLs.\<close>

definition for_voice_scanning :: "scalars \<Rightarrow> scalars" where
  "for_voice_scanning t =
     uni_trim (clean_for_tts (truncate_for_voice (strip_raw_urls (strip_markdown t)) 3))"

text \<open>
  \<open>for_voice\<close> skips the URL scan when the text holds no URL marker and only normalizes the
  blanks. The spoken text is the same, for every text, as when every reply is scanned: the
  gate never lets a URL through, and the blanks at the ends in which the two passes differ
  make no difference to the sentences.
\<close>

theorem url_scan_gate_equivalent: "for_voice t = for_voice_scanning t"
proof (cases "has_raw_url_marker (strip_markdown t)")
  case True
  then show ?thesis by (simp add: for_voice_def for_voice_scanning_def)
next
  case False
  define p where "p = strip_markdown t"
  have "filter (\<lambda>w. \<not> is_raw_url w) (uni_words p) = uni_words p"
    using raw_url_marker False unfolding p_def filter_id_conv by blast
  then have urls: "strip_raw_urls p = join_str [32] (uni_words p)"
    by (simp add: strip_raw_urls_words stream_strip_urls_def)
  obtain front rear where ends: "front = [] \<or> front = [32]" "rear = [] \<or> rear = [32]"
    and n: "normalize_whitespace False p = front @ join_str [32] (uni_words p) @ rear"
    using normalize_words by metis
  have "truncate_for_voice (normalize_whitespace False p) 3 = truncate_for_voice (strip_raw_urls p) 3"
    unfolding n urls using ends by (rule truncate_spaces)
  then show ?thesis using False by (simp add: for_voice_def for_voice_scanning_def p_def)
qed

section \<open>One character of the stream\<close>

definition feed_step :: "sentence_streamer \<Rightarrow> nat \<Rightarrow> scalars option \<times> sentence_streamer" where
  "feed_step s ch =
     (let (absorbed, s1) = consume_fence_marker s ch in
      if absorbed \<or> in_code_fence s1 then (None, s1)
      else if awaiting_ascii_boundary s1 \<and> uni_space ch then
        (let s2 = s1\<lparr>awaiting_ascii_boundary := False\<rparr>;
             (sentence, s3) =
               (if ends_with_abbreviation (pending_sentence s2) then (None, s2) else try_emit s2)
         in (sentence, if sentence \<noteq> None \<and> sentence_cap_reached s3 then s3 else push_char ch s3))
      else
        (let s2 = push_char ch (s1\<lparr>awaiting_ascii_boundary := False\<rparr>) in
         if is_cjk_terminator ch then try_emit s2
         else if is_ascii_terminator ch then (None, s2\<lparr>awaiting_ascii_boundary := True\<rparr>)
         else (None, s2)))"

definition said :: "scalars option \<Rightarrow> scalars list" where
  "said x = (case x of None \<Rightarrow> [] | Some t \<Rightarrow> [t])"

lemma said_simps [simp]: "said None = []" "said (Some t) = [t]"
  by (simp_all add: said_def)

lemma cap_simps [simp]:
  "sentence_cap_reached (push_char ch s) = sentence_cap_reached s"
  "sentence_cap_reached (s\<lparr>awaiting_ascii_boundary := b\<rparr>) = sentence_cap_reached s"
  "sentence_cap_reached (s\<lparr>fence_marker_buffer := f\<rparr>) = sentence_cap_reached s"
  "sentence_cap_reached (s\<lparr>in_code_fence := c\<rparr>) = sentence_cap_reached s"
  "sentence_cap_reached (s\<lparr>in_code_fence := c, fence_marker_buffer := f\<rparr>) = sentence_cap_reached s"
  by (simp_all add: sentence_cap_reached_def push_char_def)

lemma feed_loop_step:
  "feed_loop s out (ch # rest) =
     (let (x, s') = feed_step s ch in
      if x \<noteq> None \<and> sentence_cap_reached s' then (out @ said x, s')
      else feed_loop s' (out @ said x) rest)"
  by (auto simp: feed_step_def Let_def split: prod.splits option.splits)

lemma try_emit_cases:
  obtains "try_emit s = (None, s)"
  | t where "try_emit s = (Some t, s\<lparr>pending_sentence := [], emitted_sentences := emitted_sentences s + 1\<rparr>)"
      "t = clean_sentence (pending_sentence s)" "stream_min_chars \<le> length t"
proof (cases "stream_min_chars \<le> length (clean_sentence (pending_sentence s))")
  case True
  then show thesis by (intro that(2)) (simp_all add: try_emit_def)
next
  case False
  then show thesis by (intro that(1)) (simp add: try_emit_def)
qed

lemma feed_step_emits:
  assumes "feed_step s ch = (x, s')"
  shows "emitted_sentences s' = emitted_sentences s + length (said x)"
    and "max_sentences s' = max_sentences s"
    and "list_all (\<lambda>t. t \<noteq> [] \<and> (\<exists>p. t = clean_sentence p)) (said x)"
proof -
  obtain b s1 where m: "consume_fence_marker s ch = (b, s1)" by (rule prod.exhaust)
  then have s1: "emitted_sentences s1 = emitted_sentences s" "max_sentences s1 = max_sentences s"
    by (auto simp: consume_fence_marker_def Let_def split: if_splits)
  have emit: "emitted_sentences t = emitted_sentences u + length (said y)
      \<and> max_sentences t = max_sentences u
      \<and> list_all (\<lambda>t. t \<noteq> [] \<and> (\<exists>p. t = clean_sentence p)) (said y)"
    if "try_emit u = (y, t)" for u y t
    using that by (cases rule: try_emit_cases [of u]) (auto simp: stream_min_chars_def)
  note e1 = emit [of "s1\<lparr>awaiting_ascii_boundary := False\<rparr>"]
  note e2 = emit [of "push_char ch (s1\<lparr>awaiting_ascii_boundary := False\<rparr>)"]
  have "emitted_sentences s' = emitted_sentences s + length (said x)
    \<and> max_sentences s' = max_sentences s
    \<and> list_all (\<lambda>t. t \<noteq> [] \<and> (\<exists>p. t = clean_sentence p)) (said x)"
    using assms s1 e1 e2 unfolding feed_step_def m
    by (auto simp: Let_def push_char_def split: if_splits prod.splits)
  then show "emitted_sentences s' = emitted_sentences s + length (said x)"
    and "max_sentences s' = max_sentences s"
    and "list_all (\<lambda>t. t \<noteq> [] \<and> (\<exists>p. t = clean_sentence p)) (said x)" by blast+
qed

lemma feed_step_cap:
  "feed_step s ch = (None, s') \<Longrightarrow> sentence_cap_reached s' = sentence_cap_reached s"
  using feed_step_emits(1,2) [of s ch None s'] by (simp add: sentence_cap_reached_def)

section \<open>The chunks do not matter\<close>

lemma feed_loop_append:
  "\<not> sentence_cap_reached s \<Longrightarrow>
   feed_loop s out (a @ b) =
     (let (o1, s1) = feed_loop s out a in
      if sentence_cap_reached s1 then (o1, s1) else feed_loop s1 o1 b)"
proof (induction a arbitrary: s out)
  case (Cons ch a)
  obtain x s' where f: "feed_step s ch = (x, s')" by (rule prod.exhaust)
  show ?case
  proof (cases "x \<noteq> None \<and> sentence_cap_reached s'")
    case True
    then show ?thesis by (simp add: feed_loop_step f del: feed_loop.simps)
  next
    case False
    then have "\<not> sentence_cap_reached s'"
      using feed_step_cap f Cons.prems by (cases x) auto
    then show ?thesis using False Cons.IH by (simp add: feed_loop_step f del: feed_loop.simps)
  qed
qed simp

lemma feed_loop_out:
  "feed_loop s out t = (let (o1, s1) = feed_loop s [] t in (out @ o1, s1))"
proof (induction t arbitrary: s out)
  case (Cons ch t)
  obtain x s' where f: "feed_step s ch = (x, s')" by (rule prod.exhaust)
  show ?case
    using Cons.IH [of s' "out @ said x"] Cons.IH [of s' "said x"]
    by (simp add: feed_loop_step f del: feed_loop.simps split: prod.splits)
qed simp

lemma feed_append:
  "feed s (a @ b) = (let (o1, s1) = feed s a; (o2, s2) = feed s1 b in (o1 @ o2, s2))"
proof (cases "sentence_cap_reached s")
  case False
  obtain o1 s1 where a: "feed_loop s [] a = (o1, s1)" by (rule prod.exhaust)
  show ?thesis
    using False feed_loop_append [OF False, of "[]" a b] feed_loop_out [of s1 o1 b]
    by (auto simp: feed_def a split: prod.splits)
qed (simp add: feed_def)

lemma feed_Nil [simp]: "feed s [] = ([], s)"
  by (simp add: feed_def)

lemma on_tokens_feed:
  "foldl on_voice_token (s, sent) tokens = (let (out, s') = feed s (concat tokens) in (s', sent @ out))"
proof (induction tokens arbitrary: s sent)
  case (Cons t tokens)
  then show ?case by (simp add: on_voice_token_def feed_append split: prod.splits)
qed simp

lemma spoken_whole:
  "spoken_sentences tokens =
     (let (out, s) = feed (new_streamer max_spoken_sentences) (concat tokens)
      in out @ said (finish_streamer s))"
  by (simp add: spoken_sentences_def on_tokens_feed said_def split: prod.splits)

text \<open>
  C19: what is spoken does not depend on how the model cuts its reply into tokens: code fences,
  abbreviations, decimals and sentence ends are recognised across token boundaries, and the
  sentence cap cuts at the same place, so every stream of tokens is spoken exactly as the whole
  reply fed at once.
\<close>

theorem token_boundaries_irrelevant:
  "spoken_sentences tokens = spoken_sentences [concat tokens]"
  by (simp add: spoken_whole)

section \<open>Fenced code is silent\<close>

definition fence :: scalars where
  "fence = [96, 96, 96]"

definition no_backtick :: "scalars \<Rightarrow> bool" where
  "no_backtick t \<longleftrightarrow> 96 \<notin> set t"

definition open_text :: "sentence_streamer \<Rightarrow> bool" where
  "open_text s \<longleftrightarrow> \<not> in_code_fence s \<and> fence_marker_buffer s = []"

lemma feed_step_open:
  assumes "open_text s" and "ch \<noteq> 96" and "feed_step s ch = (x, s')"
  shows "open_text s'"
proof -
  have emit: "open_text u \<Longrightarrow> try_emit u = (y, t) \<Longrightarrow> open_text t" for u y t
    by (auto simp: try_emit_def open_text_def Let_def split: if_splits)
  define s1 where "s1 = s\<lparr>fence_marker_buffer := []\<rparr>"
  have "consume_fence_marker s ch = (False, s1)" "\<not> in_code_fence s1"
    using assms(1,2) by (simp_all add: consume_fence_marker_def s1_def open_text_def)
  moreover have "open_text (s1\<lparr>awaiting_ascii_boundary := b\<rparr>)"
    "open_text (push_char ch (s1\<lparr>awaiting_ascii_boundary := b\<rparr>))" for b
    using assms(1) by (simp_all add: open_text_def s1_def push_char_def)
  moreover have "open_text u \<Longrightarrow> open_text (push_char ch u)"
    "open_text u \<Longrightarrow> open_text (u\<lparr>awaiting_ascii_boundary := b\<rparr>)" for u b
    by (simp_all add: open_text_def push_char_def)
  moreover note emit1 = emit [OF calculation(3)] and emit2 = emit [OF calculation(4)]
  ultimately show ?thesis using assms(3) unfolding feed_step_def
    by (auto simp: Let_def split: if_splits prod.splits dest: emit1 emit2)
qed

lemma feed_loop_open:
  "open_text s \<Longrightarrow> no_backtick t \<Longrightarrow> open_text (snd (feed_loop s out t))"
proof (induction t arbitrary: s out)
  case (Cons ch t)
  obtain x s' where f: "feed_step s ch = (x, s')" by (rule prod.exhaust)
  have "open_text s'" using feed_step_open [OF Cons.prems(1) _ f] Cons.prems(2)
    by (simp add: no_backtick_def)
  then show ?case using Cons by (simp add: feed_loop_step f no_backtick_def del: feed_loop.simps)
qed simp

lemma feed_open: "open_text s \<Longrightarrow> no_backtick t \<Longrightarrow> open_text (snd (feed s t))"
  by (simp add: feed_def feed_loop_open)

lemma feed_loop_code:
  "in_code_fence s \<Longrightarrow> fence_marker_buffer s = [] \<Longrightarrow> no_backtick code_text
     \<Longrightarrow> feed_loop s out (code_text @ t) = feed_loop s out t"
proof (induction code_text)
  case (Cons ch u)
  then have eq: "s\<lparr>fence_marker_buffer := []\<rparr> = s" by (cases s) simp
  show ?case using Cons by (simp add: eq consume_fence_marker_def no_backtick_def)
qed simp

lemma feed_fence:
  assumes "open_text s" and "no_backtick code_text"
  shows "feed s (fence @ code_text @ fence @ t) = feed s t"
proof -
  define s1 where "s1 = s\<lparr>in_code_fence := True, fence_marker_buffer := []\<rparr>"
  have s: "fence_marker_buffer s = []" "\<not> in_code_fence s"
    using assms(1) by (simp_all add: open_text_def)
  have "feed_loop s [] (fence @ code_text @ fence @ t) = feed_loop s1 [] (code_text @ fence @ t)"
    using s by (simp add: fence_def consume_fence_marker_def s1_def)
  also have "\<dots> = feed_loop s1 [] (fence @ t)"
    by (rule feed_loop_code) (simp_all add: s1_def assms(2))
  also have "\<dots> = feed_loop (s1\<lparr>in_code_fence := False, fence_marker_buffer := []\<rparr>) [] t"
    by (simp add: fence_def consume_fence_marker_def s1_def)
  also have "s1\<lparr>in_code_fence := False, fence_marker_buffer := []\<rparr> = s"
    using s unfolding s1_def by (cases s) simp
  finally show ?thesis by (simp add: feed_def)
qed

text \<open>A reply with code blocks: prose and code in turn, and a last piece of prose.\<close>

definition with_blocks :: "(scalars \<times> scalars) list \<Rightarrow> scalars \<Rightarrow> scalars" where
  "with_blocks blocks tail =
     concat (map (\<lambda>(prose, code_text). prose @ fence @ code_text @ fence) blocks) @ tail"

lemma feed_blocks:
  "open_text s \<Longrightarrow> list_all (\<lambda>(p, c). no_backtick p \<and> no_backtick c) blocks
     \<Longrightarrow> feed s (with_blocks blocks tail) = feed s (concat (map fst blocks) @ tail)"
proof (induction blocks arbitrary: s)
  case (Cons b blocks)
  obtain p c where b: "b = (p, c)" by (rule prod.exhaust)
  have pc: "no_backtick p" "no_backtick c"
    and rest: "list_all (\<lambda>(p, c). no_backtick p \<and> no_backtick c) blocks"
    using Cons.prems(2) by (simp_all add: b)
  obtain o1 s1 where a: "feed s p = (o1, s1)" by (rule prod.exhaust)
  have s1: "open_text s1" using feed_open [OF Cons.prems(1) pc(1)] a by simp
  have w: "with_blocks (b # blocks) tail = p @ fence @ c @ fence @ with_blocks blocks tail"
    by (simp add: with_blocks_def b)
  have "feed s1 (fence @ c @ fence @ with_blocks blocks tail)
      = feed s1 (concat (map fst blocks) @ tail)"
    unfolding feed_fence [OF s1 pc(2)] by (rule Cons.IH [OF s1 rest])
  then show ?case unfolding w by (simp add: feed_append [of s p] a b)
qed (simp add: with_blocks_def)

text \<open>
  C24: what stands in a fenced code block is never spoken, however the fences are cut into
  tokens: the reply is spoken as if the blocks, fences included, were not there. Prose and
  code hold no other backticks.
\<close>

theorem fenced_code_never_spoken:
  assumes "list_all (\<lambda>(prose, code_text). no_backtick prose \<and> no_backtick code_text) blocks"
    and "concat tokens = with_blocks blocks tail"
  shows "spoken_sentences tokens = spoken_sentences [concat (map fst blocks) @ tail]"
proof -
  have "open_text (new_streamer max_spoken_sentences)" by (simp add: open_text_def new_streamer_def)
  from feed_blocks [OF this assms(1)] show ?thesis by (simp add: spoken_whole assms(2))
qed

theorem fenced_code_never_spoken_witness:
  "spoken_sentences [us ''Run this: `'', us ''``rm -r'', us '' x``'', us ''` and wait for it.'']
     = spoken_sentences [us ''Run this:  and wait for it.'']"
  using fenced_code_never_spoken [of "[(us ''Run this: '', us ''rm -r x'')]"
      "[us ''Run this: `'', us ''``rm -r'', us '' x``'', us ''` and wait for it.'']"
      "us '' and wait for it.''"]
  by (simp add: us_def no_backtick_def with_blocks_def fence_def)

section \<open>What is spoken is plain\<close>

definition silent_marks :: "nat list" where
  "silent_marks = us ''*`()'' @ dropped_marks"

text \<open>No formatting marks, and words with single blanks between them.\<close>

definition speakable :: "scalars \<Rightarrow> bool" where
  "speakable t \<longleftrightarrow> t \<noteq> [] \<and> list_all (\<lambda>c. c \<notin> set silent_marks) t \<and> t = join_str [32] (uni_words t)"

lemma set_str_replace: "set (str_replace t p r) \<subseteq> set t \<union> set r"
proof (induction t p r rule: str_replace.induct)
  case (2 c t p r)
  show ?case
  proof (cases "p \<noteq> [] \<and> starts_with (c # t) p")
    case True
    then show ?thesis using 2(1) set_drop_subset [of "length p" "c # t"]
      by (auto simp del: set_drop_subset)
  next
    case False
    then show ?thesis using 2(2) by auto
  qed
qed simp

lemma set_replace_chars: "set (replace_chars ds r t) \<subseteq> (set t - set ds) \<union> set r"
  by (auto simp: replace_chars_def)

lemma set_trim_by: "set (trim_by P t) \<subseteq> set t"
  by (auto simp: trim_by_def dest!: set_dropWhileD)

lemma us_values [simp]:
  "us '', '' = [44, 32]" "us ''**'' = [42, 42]" "us ''__'' = [95, 95]" "us ''...'' = [46, 46, 46]"
  "us '' - '' = [32, 45, 32]" "us ''*`()'' = [42, 96, 40, 41]" "us ''[]{}'' = [91, 93, 123, 125]"
  by (simp_all add: us_def)

lemma set_strip_emphasis: "set (strip_emphasis t) \<subseteq> set t - {42, 96}"
  unfolding strip_emphasis_def
  using set_replace_chars [of "[96]" "[]"] set_replace_chars [of "[42]" "[]"]
    set_str_replace [of t "us ''**''" "[]"] set_str_replace [of "str_replace t (us ''**'') []" "us ''__''" "[]"]
  by fastforce

lemma set_speak_dashes: "set (speak_dashes t) \<subseteq> set t \<union> {44, 32}"
proof -
  have s: "set (str_replace u p (us '', '')) \<subseteq> set u \<union> {44, 32}" for u p
    using set_str_replace [of u p "us '', ''"] by simp
  show ?thesis unfolding speak_dashes_def
    by (intro order_trans [OF s] Un_least order_trans [OF s [THEN order_trans]]) auto
qed

lemma collapse_normalize:
  "fst (foldl collapse_char (r, b) t) = r @ normalize_whitespace (b \<or> r = []) t"
  by (induction t arbitrary: r b) (auto simp: collapse_char_def)

lemma trim_no_end: "end_space (uni_trim t) = []"
proof (cases "uni_trim t = []")
  case False
  define d where "d = dropWhile uni_space (rev (dropWhile uni_space t))"
  have "d \<noteq> []" using False by (simp add: d_def uni_trim_def trim_by_def)
  then have "\<not> uni_space (hd d)" unfolding d_def by (rule hd_dropWhile)
  moreover have "last (uni_trim t) = hd d"
    using \<open>d \<noteq> []\<close> by (simp add: d_def uni_trim_def trim_by_def last_rev)
  ultimately show ?thesis by (simp add: end_space_def)
qed (simp add: end_space_def)

lemma collapse_trimmed: "collapse_whitespace (uni_trim t) = join_str [32] (uni_words (uni_trim t))"
  using normalize_words_aux [of "[]" "uni_trim t"] trim_no_end [of t]
  by (simp add: collapse_whitespace_def collapse_normalize uni_words_def)

lemma set_join: "set (join_str sep ws) \<subseteq> \<Union> (set ` set ws) \<union> set sep"
  by (induction sep ws rule: join_str.induct) auto

lemma set_collapsed: "set (join_str [32] (uni_words t)) \<subseteq> set t \<union> {32}"
proof -
  have "set w \<subseteq> set t" if "w \<in> set (uni_words t)" for w using uni_words_good [OF that] by auto
  then show ?thesis using set_join [of "[32]" "uni_words t"] by auto
qed

lemma silent_marks_values: "set silent_marks = {42, 96, 40, 41, 91, 93, 123, 125, 34}"
  "set dropped_marks = {91, 93, 123, 125, 34}" "{44, 32, 115} \<inter> set silent_marks = {}"
  by (simp_all add: silent_marks_def dropped_marks_def)

lemma clean_sentence_speakable: "clean_sentence t \<noteq> [] \<Longrightarrow> speakable (clean_sentence t)"
proof -
  assume ne: "clean_sentence t \<noteq> []"
  define b where "b = strip_emphasis (strip_list_or_header_prefix
    (uni_trim (stream_strip_urls (strip_inline_links t))))"
  define d where "d = speak_dashes b"
  define e where "e = replace_chars dropped_marks [] (replace_chars [40, 41] (us '', '') d)"
  define f where "f = str_replace e [39, 115] [115]"
  have c: "clean_sentence t = join_str [32] (uni_words (uni_trim f))"
    unfolding clean_sentence_def Let_def b_def [symmetric] d_def [symmetric] e_def [symmetric]
      f_def [symmetric] by (rule collapse_trimmed)
  have "set b \<inter> {42, 96} = {}" using set_strip_emphasis unfolding b_def by fastforce
  then have "set d \<inter> {42, 96} = {}" using set_speak_dashes [of b] unfolding d_def by auto
  then have "set e \<inter> set silent_marks = {}"
    using set_replace_chars [of dropped_marks "[]" "replace_chars [40, 41] (us '', '') d"]
      set_replace_chars [of "[40, 41]" "us '', ''" d]
    unfolding e_def silent_marks_values by auto
  then have "set f \<inter> set silent_marks = {}"
    using set_str_replace [of e "[39, 115]" "[115]"] silent_marks_values(3) unfolding f_def by auto
  then have "set (clean_sentence t) \<inter> set silent_marks = {}"
    using set_collapsed [of "uni_trim f"] set_trim_by [of uni_space f] silent_marks_values(3)
    unfolding c uni_trim_def by blast
  then have marks: "list_all (\<lambda>c. c \<notin> set silent_marks) (clean_sentence t)"
    by (auto simp: list_all_iff)
  have words: "clean_sentence t = join_str [32] (uni_words (clean_sentence t))"
    unfolding c by (rule join_words_idem [symmetric])
  show ?thesis unfolding speakable_def using ne marks words by (intro conjI)
qed

lemma feed_loop_speaks:
  assumes "list_all speakable out" and "length out \<le> emitted_sentences s"
    and "\<not> sentence_cap_reached s" and "feed_loop s out t = (o1, s1)"
  shows "list_all speakable o1 \<and> length o1 \<le> emitted_sentences s1
    \<and> emitted_sentences s1 \<le> max_sentences s \<and> max_sentences s1 = max_sentences s"
  using assms
proof (induction t arbitrary: s out)
  case Nil
  then show ?case by (auto simp: sentence_cap_reached_def)
next
  case (Cons ch t)
  obtain x s' where f: "feed_step s ch = (x, s')" by (rule prod.exhaust)
  note e = feed_step_emits [OF f]
  have said: "list_all speakable (out @ said x)" "length (out @ said x) \<le> emitted_sentences s'"
    using Cons.prems(1,2) e clean_sentence_speakable by (auto simp: list_all_iff)
  have less: "emitted_sentences s < max_sentences s"
    using Cons.prems(3) by (simp add: sentence_cap_reached_def)
  show ?case
  proof (cases "x \<noteq> None \<and> sentence_cap_reached s'")
    case True
    then have "o1 = out @ said x" "s1 = s'"
      using Cons.prems(4) by (auto simp: feed_loop_step f simp del: feed_loop.simps)
    then show ?thesis using said e less by (cases x) auto
  next
    case False
    then have "feed_loop s' (out @ said x) t = (o1, s1)" "\<not> sentence_cap_reached s'"
      using Cons.prems(3,4) feed_step_cap [of s ch s'] f
      by (auto simp: feed_loop_step simp del: feed_loop.simps)
    then show ?thesis using Cons.IH [OF said] e(2) by simp
  qed
qed

lemma finish_speakable: "list_all speakable (said (finish_streamer s))"
  using clean_sentence_speakable by (auto simp: finish_streamer_def Let_def)

text \<open>
  At most three sentences of a reply are spoken, and each is plain text: not empty, without
  asterisks, backticks, brackets, braces, parentheses or double quotes, and with single blanks
  between its words. The bound holds with the fragment that is flushed at the end.
\<close>

theorem spoken_sentences_plain:
  "length (spoken_sentences tokens) \<le> max_spoken_sentences
     \<and> list_all speakable (spoken_sentences tokens)"
proof -
  define s0 where "s0 = new_streamer max_spoken_sentences"
  have s0: "\<not> sentence_cap_reached s0" "emitted_sentences s0 = 0" "max_sentences s0 = max_spoken_sentences"
    by (simp_all add: s0_def new_streamer_def sentence_cap_reached_def max_spoken_sentences_def)
  obtain out s where f: "feed_loop s0 [] (concat tokens) = (out, s)" by (rule prod.exhaust)
  have "list_all speakable ([] :: scalars list)" "length ([] :: scalars list) \<le> emitted_sentences s0"
    by simp_all
  from feed_loop_speaks [OF this s0(1) f] have s: "list_all speakable out"
    "length out \<le> emitted_sentences s" "emitted_sentences s \<le> max_spoken_sentences"
    "max_sentences s = max_spoken_sentences" by (simp_all add: s0(3))
  have all: "spoken_sentences tokens = out @ said (finish_streamer s)"
    using f s0(1) by (simp add: spoken_whole feed_def s0_def [symmetric])
  have "length (said (finish_streamer s)) \<le> max_spoken_sentences - emitted_sentences s"
  proof (cases "sentence_cap_reached s")
    case False
    then show ?thesis
      using s(4) by (cases "finish_streamer s") (simp_all add: sentence_cap_reached_def)
  qed (simp add: finish_streamer_def)
  then show ?thesis unfolding all using s finish_speakable [of s] by simp
qed

section \<open>Where the two paths differ\<close>

lemmas voice_eval = clean_sentence_def strip_inline_links.simps stream_strip_urls_def uni_words_def
  uni_space_def is_raw_url_def trim_by_def url_punctuation_def us_def uni_trim_def
  strip_list_or_header_prefix_def strip_bullet_def strip_prefix_def strip_numbered_prefix_def
  uni_digit_def strip_emphasis_def replace_chars_def speak_dashes_def dropped_marks_def
  collapse_whitespace_def collapse_char_def for_voice_def strip_markdown_def uni_lines_def
  markdown_line_def strip_links.simps has_raw_url_marker_def strip_raw_urls_def
  truncate_for_voice_def ends_voice_sentence_def clean_for_tts_def is_cjk_terminator_def
  is_ascii_terminator_def push_sentence_def spoken_sentences_def on_voice_token_def
  new_streamer_def max_spoken_sentences_def feed_def sentence_cap_reached_def
  consume_fence_marker_def try_emit_def push_char_def finish_streamer_def stream_min_chars_def
  ends_with_abbreviation_def trim_end_by_def uni_ascii_lower_def abbreviations_def
  format_min_chars_def Let_def

text \<open>
  The stream drops URLs before it drops the asterisks around them, so an emphasised URL is
  spoken; the formatter strips the asterisks first.
\<close>

lemma emphasised_url_spoken:
  "spoken_sentences [us ''**www.a.b** it is''] = [us ''www.a.b it is'']"
  "for_voice (us ''**www.a.b** it is'') = us ''it is''"
  by (simp_all add: voice_eval)

text \<open>
  A clause of five to seven characters is a sentence for the formatter, whereas the stream joins
  it to the next one: the reply is cut at different places.
\<close>

lemma voice_paths_cut_differently:
  "spoken_sentences [us ''Sure. One two. Then three. All four.'']
     = [us ''Sure. One two.'', us ''Then three.'', us ''All four.'']"
  "for_voice (us ''Sure. One two. Then three. All four.'') = us ''Sure. One two. Then three.''"
  by (simp_all add: voice_eval)

end
