(* ===== verification/Skills.thy ===== *)
theory Skills
  imports Values
begin

text \<open>
  Native skills: the loader of shared libraries (\<open>skills/loader.rs\<close>), the detached signatures
  (\<open>skills/signature.rs\<close>) and the dispatch of a call to a skill (\<open>tools/dispatch/skill.rs\<close>).

  The file system, base64, Ed25519, the JSON library, the mapping of a library into memory
  (\<open>memfd\<close>, sealing and \<open>dlopen\<close>) and a native call are operations of a record. A path is a
  directory and a file name. \<open>load_skill\<close> also returns the bytes whose native code it has mapped
  and run, which the code does not keep. Bytes are lists of characters.
\<close>

section \<open>Paths\<close>

type_synonym path = "string \<times> string"

text \<open>The position of the dot that begins the extension of a file name.\<close>

definition extension_dot :: "string \<Rightarrow> nat option" where
  "extension_dot n =
     (case find_index (\<lambda>c. c = CHR ''.'') (rev n) of
        None \<Rightarrow> None
      | Some i \<Rightarrow> if i + 1 = length n then None else Some (length n - 1 - i))"

definition file_stem :: "path \<Rightarrow> string" where
  "file_stem p = (case extension_dot (snd p) of None \<Rightarrow> snd p | Some i \<Rightarrow> take i (snd p))"

definition path_extension :: "path \<Rightarrow> string option" where
  "path_extension p = map_option (\<lambda>i. drop (i + 1) (snd p)) (extension_dot (snd p))"

definition with_extension :: "path \<Rightarrow> string \<Rightarrow> path" where
  "with_extension p e = (fst p, file_stem p @ ''.'' @ e)"

definition show_path :: "path \<Rightarrow> string" where
  "show_path p = fst p @ ''/'' @ snd p"

section \<open>Data\<close>

record skill_manifest =
  sm_name :: string
  sm_version :: string
  sm_description :: string
  sm_permissions :: "string list"
  sm_capabilities :: "string list"
  sm_reviewed_by :: string
  sm_signature :: string
  sm_key_id :: string

record manifest_audit =
  ma_status :: string
  ma_path :: "path option"
  ma_name :: string
  ma_version :: string
  ma_description :: string
  ma_permissions :: "string list"
  ma_capabilities :: "string list"
  ma_reviewed_by :: string
  ma_key_id :: string
  ma_signed :: bool
  ma_error :: string

record load_policy =
  lp_require_manifest :: bool
  lp_require_signature :: bool
  lp_denied_permissions :: "string list"
  lp_signature_key_dir :: string
  lp_timeout_ms :: nat

datatype manifest_source =
    SourceMissing
  | SourceInvalid path string
  | SourcePresent path skill_manifest

text \<open>The table a library exports; a null pointer is \<open>None\<close>.\<close>

record skill_vtable =
  vt_abi_version :: nat
  vt_name :: "string option"
  vt_description :: "string option"
  vt_version :: "string option"
  vt_parameters :: "string option"

text \<open>A mapped library: its entry point, if it exports one, and what that returns.\<close>

record native_library =
  nl_bytes :: string
  nl_init :: "skill_vtable option res"

record loaded_skill =
  ls_name :: string
  ls_description :: string
  ls_version :: string
  ls_parameters :: string
  ls_path :: path
  ls_manifest :: manifest_audit
  ls_fault_count :: nat
  ls_timeout_ms :: nat
  ls_lib :: native_library

record 'k skill_env =
  fs_read :: "path \<Rightarrow> string res"
  fs_read_text :: "path \<Rightarrow> string res"
  fs_exists :: "path \<Rightarrow> bool"
  fs_read_dir :: "string \<Rightarrow> path list option"
  json_manifest :: "string \<Rightarrow> skill_manifest res"
  json_value :: "string \<Rightarrow> json option"
  base64_decode :: "string \<Rightarrow> string option"
  ed_key :: "string \<Rightarrow> 'k option"
  ed_verify_strict :: "'k \<Rightarrow> string \<Rightarrow> string \<Rightarrow> bool"
  map_library :: "string \<Rightarrow> string \<Rightarrow> native_library res"

record 'k skill_loader =
  sl_dir :: string
  sl_policy :: load_policy
  sl_keys :: "(string \<times> 'k) list"
  sl_loaded :: "loaded_skill list"

definition ABI_VERSION :: nat where
  "ABI_VERSION = 1"

section \<open>Trusted keys and signatures\<close>

definition decode_verifying_key :: "'k skill_env \<Rightarrow> string \<Rightarrow> 'k option" where
  "decode_verifying_key env b64 =
     (case base64_decode env b64 of
        None \<Rightarrow> None
      | Some bytes \<Rightarrow> if length bytes = 32 then ed_key env bytes else None)"

definition add_trusted_key ::
  "'k skill_env \<Rightarrow> (string \<times> 'k) list \<Rightarrow> path \<Rightarrow> (string \<times> 'k) list" where
  "add_trusted_key env keys p =
     (if path_extension p \<noteq> Some ''pub'' then keys
      else case fs_read_text env p of
             Inl e \<Rightarrow> keys
           | Inr contents \<Rightarrow>
               (case decode_verifying_key env (trim contents) of
                  Some key \<Rightarrow> AList.update (file_stem p) key keys
                | None \<Rightarrow> keys))"

definition load_trusted_keys :: "'k skill_env \<Rightarrow> string \<Rightarrow> (string \<times> 'k) list" where
  "load_trusted_keys env dir =
     (case fs_read_dir env dir of None \<Rightarrow> [] | Some ps \<Rightarrow> foldl (add_trusted_key env) [] ps)"

text \<open>\<open>Signature::from_slice\<close> takes exactly 64 bytes.\<close>

definition verify_detached ::
  "'k skill_env \<Rightarrow> (string \<times> 'k) list \<Rightarrow> string \<Rightarrow> string \<Rightarrow> string \<Rightarrow> bool" where
  "verify_detached env keys key_id message signature_b64 =
     (if trim key_id = [] \<or> trim signature_b64 = [] then False
      else case map_of keys (trim key_id) of
             None \<Rightarrow> False
           | Some key \<Rightarrow>
               (case base64_decode env (trim signature_b64) of
                  None \<Rightarrow> False
                | Some sig \<Rightarrow> if length sig \<noteq> 64 then False else ed_verify_strict env key message sig))"

section \<open>Manifests\<close>

definition manifest_sidecar_candidates :: "path \<Rightarrow> path list" where
  "manifest_sidecar_candidates p =
     [with_extension p ''skill.json'', with_extension p ''manifest.json'', with_extension p ''json'']"

definition find_manifest_sidecar :: "'k skill_env \<Rightarrow> path \<Rightarrow> path option" where
  "find_manifest_sidecar env p = find (fs_exists env) (manifest_sidecar_candidates p)"

definition read_manifest_source :: "'k skill_env \<Rightarrow> path \<Rightarrow> manifest_source" where
  "read_manifest_source env p =
     (case find_manifest_sidecar env p of
        None \<Rightarrow> SourceMissing
      | Some q \<Rightarrow>
          (case fs_read_text env q of
             Inl e \<Rightarrow> SourceInvalid q e
           | Inr content \<Rightarrow>
               (case json_manifest env content of
                  Inl e \<Rightarrow> SourceInvalid q e
                | Inr m \<Rightarrow> SourcePresent q m)))"

definition verify_skill_signature ::
  "'k skill_env \<Rightarrow> string \<Rightarrow> skill_manifest \<Rightarrow> (string \<times> 'k) list \<Rightarrow> bool" where
  "verify_skill_signature env so_bytes m keys =
     verify_detached env keys (sm_key_id m) so_bytes (sm_signature m)"

definition audit_missing :: manifest_audit where
  "audit_missing =
     \<lparr>ma_status = ''missing'', ma_path = None, ma_name = [], ma_version = [], ma_description = [],
      ma_permissions = [], ma_capabilities = [], ma_reviewed_by = [], ma_key_id = [],
      ma_signed = False, ma_error = ''no sidecar manifest found''\<rparr>"

definition audit_invalid :: "path \<Rightarrow> string \<Rightarrow> manifest_audit" where
  "audit_invalid p e =
     \<lparr>ma_status = ''invalid'', ma_path = Some p, ma_name = [], ma_version = [], ma_description = [],
      ma_permissions = [], ma_capabilities = [], ma_reviewed_by = [], ma_key_id = [],
      ma_signed = False, ma_error = e\<rparr>"

definition manifest_problem :: "string \<Rightarrow> string \<Rightarrow> string \<Rightarrow> string list" where
  "manifest_problem what declared found =
     (if trim declared = [] then [''manifest '' @ what @ '' is empty'']
      else if declared \<noteq> found
      then [''manifest '' @ what @ '' '' @ [CHR 39] @ declared @ [CHR 39]
            @ '' does not match loaded skill '' @ [CHR 39] @ found @ [CHR 39]]
      else [])"

definition audit_from_manifest ::
  "path \<Rightarrow> skill_manifest \<Rightarrow> bool \<Rightarrow> string \<Rightarrow> string \<Rightarrow> manifest_audit" where
  "audit_from_manifest p m verified loaded_name loaded_version =
     (let problems = manifest_problem ''name'' (sm_name m) loaded_name
            @ manifest_problem ''version'' (sm_version m) loaded_version
      in \<lparr>ma_status = (if problems = [] then ''ok'' else ''mismatch''), ma_path = Some p,
          ma_name = sm_name m, ma_version = sm_version m, ma_description = sm_description m,
          ma_permissions = sm_permissions m, ma_capabilities = sm_capabilities m,
          ma_reviewed_by = sm_reviewed_by m, ma_key_id = sm_key_id m, ma_signed = verified,
          ma_error = join_str ''; '' problems\<rparr>)"

definition build_manifest_audit ::
  "manifest_source \<Rightarrow> bool \<Rightarrow> string \<Rightarrow> string \<Rightarrow> manifest_audit" where
  "build_manifest_audit src verified loaded_name loaded_version =
     (case src of
        SourceMissing \<Rightarrow> audit_missing
      | SourceInvalid p e \<Rightarrow> audit_invalid p e
      | SourcePresent p m \<Rightarrow> audit_from_manifest p m verified loaded_name loaded_version)"

definition enforce_skill_policy :: "manifest_audit \<Rightarrow> load_policy \<Rightarrow> unit res" where
  "enforce_skill_policy m policy =
     (if lp_require_manifest policy \<and> ma_status m \<noteq> ''ok''
      then Err (''skill manifest required but status is '' @ [CHR 39] @ ma_status m @ [CHR 39] @ '': ''
                @ ma_error m)
      else
        let denied = filter (\<lambda>p. p \<in> set (lp_denied_permissions policy)) (ma_permissions m)
        in if denied \<noteq> [] then Err (''skill requests denied permission(s): '' @ join_str '', '' denied)
           else Ok ())"

section \<open>Loading\<close>

definition new_loader :: "'k skill_env \<Rightarrow> string \<Rightarrow> load_policy \<Rightarrow> 'k skill_loader" where
  "new_loader env dir policy =
     \<lparr>sl_dir = dir, sl_policy = policy,
      sl_keys = load_trusted_keys env (lp_signature_key_dir policy), sl_loaded = []\<rparr>"

definition read_c_str :: "string option \<Rightarrow> string" where
  "read_c_str p = (case p of None \<Rightarrow> [] | Some s \<Rightarrow> s)"

definition source_verified :: "'k skill_env \<Rightarrow> 'k skill_loader \<Rightarrow> manifest_source \<Rightarrow> string \<Rightarrow> bool" where
  "source_verified env l src so_bytes =
     (case src of
        SourcePresent p m \<Rightarrow> verify_skill_signature env so_bytes m (sl_keys l)
      | _ \<Rightarrow> False)"

text \<open>The part of \<open>load_skill\<close> after the library has been mapped and its entry point called.\<close>

definition admit_vtable ::
  "'k skill_env \<Rightarrow> 'k skill_loader \<Rightarrow> path \<Rightarrow> manifest_source \<Rightarrow> bool \<Rightarrow> native_library \<Rightarrow> skill_vtable
     \<Rightarrow> string res \<times> 'k skill_loader" where
  "admit_vtable env l p src verified lib vt =
     (let name = read_c_str (vt_name vt); description = read_c_str (vt_description vt);
          version = read_c_str (vt_version vt); parameters = read_c_str (vt_parameters vt);
          audit = build_manifest_audit src verified name version
      in if vt_abi_version vt \<noteq> ABI_VERSION
         then (Err (''ABI version mismatch: skill has '' @ show_nat (vt_abi_version vt)
                    @ '', core expects '' @ show_nat ABI_VERSION), l)
         else if name = [] then (Err (''skill in '' @ show_path p @ '' has empty name''), l)
         else if description = []
         then (Err (''skill '' @ [CHR 39] @ name @ [CHR 39] @ '' has empty description''), l)
         else if json_value env parameters = None
         then (Err (''skill '' @ [CHR 39] @ name @ [CHR 39] @ '' has invalid parameters_json''), l)
         else if name \<in> ls_name ` set (sl_loaded l)
         then (Err (''skill '' @ [CHR 39] @ name @ [CHR 39] @ '' already loaded''), l)
         else case enforce_skill_policy audit (sl_policy l) of
                Inl e \<Rightarrow> (Err e, l)
              | Inr _ \<Rightarrow>
                  (Ok name, l\<lparr>sl_loaded := sl_loaded l @
                     [\<lparr>ls_name = name, ls_description = description, ls_version = version,
                       ls_parameters = parameters, ls_path = p, ls_manifest = audit,
                       ls_fault_count = 0, ls_timeout_ms = lp_timeout_ms (sl_policy l),
                       ls_lib = lib\<rparr>]\<rparr>))"

text \<open>The last component is the native code that was mapped, and so ran: at most one library.\<close>

definition load_skill ::
  "'k skill_env \<Rightarrow> path \<Rightarrow> 'k skill_loader \<Rightarrow> string res \<times> 'k skill_loader \<times> string list" where
  "load_skill env p l =
     (let src = read_manifest_source env p in
      case fs_read env p of
        Inl e \<Rightarrow> (Err (''failed to read '' @ show_path p @ '': '' @ e), l, [])
      | Inr so_bytes \<Rightarrow>
          let verified = source_verified env l src so_bytes in
          if lp_require_signature (sl_policy l) \<and> \<not> verified
          then (Err (''skill signature required but not cryptographically verified for '' @ show_path p
                @ '' (need a trusted key in '' @ lp_signature_key_dir (sl_policy l)
                @ '' and a matching detached signature)''), l, [])
          else
            (case map_library env so_bytes (snd p) of
               Inl e \<Rightarrow> (Err e, l, [so_bytes])
             | Inr lib \<Rightarrow>
                 (case nl_init lib of
                    Inl e \<Rightarrow> (Err (''symbol '' @ [CHR 39] @ ''genie_skill_init'' @ [CHR 39]
                       @ '' not found in '' @ show_path p @ '': '' @ e), l, [so_bytes])
                  | Inr None \<Rightarrow> (Err (''genie_skill_init returned null for '' @ show_path p), l, [so_bytes])
                  | Inr (Some vt) \<Rightarrow>
                      (let (r, l1) = admit_vtable env l p src verified lib vt
                       in (r, l1, [so_bytes])))))"

text \<open>One entry of the directory in \<open>load_all\<close>.\<close>

definition load_entry ::
  "'k skill_env \<Rightarrow> string list \<times> 'k skill_loader \<times> string list \<Rightarrow> path
     \<Rightarrow> string list \<times> 'k skill_loader \<times> string list" where
  "load_entry env st p =
     (let (names, l, mapped) = st in
      if path_extension p \<noteq> Some ''so'' then st
      else (case load_skill env p l of
              (Inr name, l1, new) \<Rightarrow> (names @ [name], l1, mapped @ new)
            | (Inl e, l1, new) \<Rightarrow> (names, l1, mapped @ new)))"

text \<open>A directory that is missing or cannot be read has no entries.\<close>

definition load_all ::
  "'k skill_env \<Rightarrow> 'k skill_loader \<Rightarrow> string list \<times> 'k skill_loader \<times> string list" where
  "load_all env l =
     (case fs_read_dir env (sl_dir l) of
        None \<Rightarrow> ([], l, [])
      | Some ps \<Rightarrow> foldl (load_entry env) ([], l, []) ps)"

text \<open>What a library needs to be admitted, and what loading it then does.\<close>

lemma admit_ok:
  assumes "vt_abi_version vt = ABI_VERSION" and "read_c_str (vt_name vt) \<noteq> []"
    and "read_c_str (vt_description vt) \<noteq> []" and "json_value env (read_c_str (vt_parameters vt)) \<noteq> None"
    and "read_c_str (vt_name vt) \<notin> ls_name ` set (sl_loaded l)"
    and "enforce_skill_policy (build_manifest_audit src verified (read_c_str (vt_name vt))
           (read_c_str (vt_version vt))) (sl_policy l) = Ok ()"
  shows "\<exists>s. admit_vtable env l p src verified lib vt
           = (Ok (read_c_str (vt_name vt)), l\<lparr>sl_loaded := sl_loaded l @ [s]\<rparr>)
         \<and> ls_name s = read_c_str (vt_name vt)"
proof -
  define s where "s = \<lparr>ls_name = read_c_str (vt_name vt), ls_description = read_c_str (vt_description vt),
    ls_version = read_c_str (vt_version vt), ls_parameters = read_c_str (vt_parameters vt), ls_path = p,
    ls_manifest = build_manifest_audit src verified (read_c_str (vt_name vt)) (read_c_str (vt_version vt)),
    ls_fault_count = 0, ls_timeout_ms = lp_timeout_ms (sl_policy l), ls_lib = lib\<rparr>"
  have "admit_vtable env l p src verified lib vt
      = (Ok (read_c_str (vt_name vt)), l\<lparr>sl_loaded := sl_loaded l @ [s]\<rparr>)"
    using assms by (auto simp: admit_vtable_def Let_def s_def)
  moreover have "ls_name s = read_c_str (vt_name vt)" by (simp add: s_def)
  ultimately show ?thesis by blast
qed

lemma load_ok:
  assumes "fs_read env p = Ok so_bytes" and "read_manifest_source env p = src"
    and "source_verified env l src so_bytes" and "map_library env so_bytes (snd p) = Ok lib"
    and "nl_init lib = Ok (Some vt)" and "admit_vtable env l p src True lib vt = (r, l1)"
  shows "load_skill env p l = (r, l1, [so_bytes])"
  using assms by (simp add: load_skill_def)

section \<open>Running and unloading\<close>

definition remove_first :: "('a \<Rightarrow> bool) \<Rightarrow> 'a list \<Rightarrow> 'a list" where
  "remove_first P xs = takeWhile (\<lambda>x. \<not> P x) xs @ drop 1 (dropWhile (\<lambda>x. \<not> P x) xs)"

definition unload :: "string \<Rightarrow> 'k skill_loader \<Rightarrow> bool \<times> 'k skill_loader" where
  "unload name l =
     (if name \<in> ls_name ` set (sl_loaded l)
      then (True, l\<lparr>sl_loaded := remove_first (\<lambda>s. ls_name s = name) (sl_loaded l)\<rparr>)
      else (False, l))"

definition should_unload :: "loaded_skill \<Rightarrow> bool" where
  "should_unload s \<longleftrightarrow> 3 \<le> ls_fault_count s"

definition prune_faulted :: "'k skill_loader \<Rightarrow> string list \<times> 'k skill_loader" where
  "prune_faulted l =
     (map ls_name (filter should_unload (sl_loaded l)),
      l\<lparr>sl_loaded := filter (\<lambda>s. \<not> should_unload s) (sl_loaded l)\<rparr>)"

text \<open>How a native call ends; a panic of the thread has a message.\<close>

datatype native_result = Returned string | ReturnedNull | Panicked string | Elapsed

record skill_outcome =
  so_success :: bool
  so_output :: string
  so_faulted :: bool

definition parse_outcome :: "'k skill_env \<Rightarrow> string \<Rightarrow> skill_outcome" where
  "parse_outcome env t =
     (case json_value env t of
        Some v \<Rightarrow>
          let success = (case Option.bind (json_get v ''success'') json_as_bool of Some b \<Rightarrow> b | None \<Rightarrow> False)
          in \<lparr>so_success = success,
              so_output = (case Option.bind (json_get v ''output'') json_as_str of Some s \<Rightarrow> s | None \<Rightarrow> t),
              so_faulted = (\<not> success)\<rparr>
      | None \<Rightarrow> \<lparr>so_success = True, so_output = t, so_faulted = False\<rparr>)"

definition invocation_outcome :: "'k skill_env \<Rightarrow> loaded_skill \<Rightarrow> native_result \<Rightarrow> skill_outcome" where
  "invocation_outcome env s r =
     (let failure = (\<lambda>what. \<lparr>so_success = False,
            so_output = ''skill '' @ [CHR 39] @ ls_name s @ [CHR 39] @ what, so_faulted = True\<rparr>) in
      case r of
        Returned t \<Rightarrow> parse_outcome env t
      | ReturnedNull \<Rightarrow> failure '' returned null''
      | Panicked e \<Rightarrow> failure ('' panicked: '' @ e)
      | Elapsed \<Rightarrow> failure ('' exceeded execution timeout of '' @ show_nat (ls_timeout_ms s) @ '' ms''))"

definition bump_fault :: "string \<Rightarrow> loaded_skill list \<Rightarrow> loaded_skill list" where
  "bump_fault name ss =
     (case find_index (\<lambda>s. ls_name s = name) ss of
        None \<Rightarrow> ss
      | Some i \<Rightarrow> ss[i := (ss ! i)\<lparr>ls_fault_count := ls_fault_count (ss ! i) + 1\<rparr>])"

text \<open>The end of \<open>exec_skill\<close>, under the second lock; other tasks may have changed the loader
  since the call began.\<close>

definition record_outcome :: "string \<Rightarrow> skill_outcome \<Rightarrow> 'k skill_loader \<Rightarrow> 'k skill_loader" where
  "record_outcome name r l =
     snd (prune_faulted
       (if so_faulted r then l\<lparr>sl_loaded := bump_fault name (sl_loaded l)\<rparr> else l))"

definition exec_skill ::
  "'k skill_env \<Rightarrow> (native_library \<Rightarrow> string \<Rightarrow> native_result) \<Rightarrow> string \<Rightarrow> string
     \<Rightarrow> ('k skill_loader \<Rightarrow> 'k skill_loader) \<Rightarrow> 'k skill_loader \<Rightarrow> string res \<times> 'k skill_loader" where
  "exec_skill env call name args_json meanwhile l =
     (case find (\<lambda>s. ls_name s = name) (sl_loaded l) of
        None \<Rightarrow> (Err (''unknown tool: '' @ name), l)
      | Some s \<Rightarrow>
          let r = invocation_outcome env s (call (ls_lib s) args_json);
              l1 = record_outcome name r (meanwhile l)
          in (if so_success r then Ok (so_output r) else Err (so_output r), l1))"

section \<open>What the loader admits\<close>

datatype skill_op = OpLoad path | OpLoadAll | OpUnload string | OpOutcome string skill_outcome

fun skill_step :: "'k skill_env \<Rightarrow> 'k skill_loader \<times> string list \<Rightarrow> skill_op \<Rightarrow> 'k skill_loader \<times> string list" where
  "skill_step env (l, mapped) (OpLoad p) = (let (r, l1, new) = load_skill env p l in (l1, mapped @ new))"
| "skill_step env (l, mapped) OpLoadAll = (let (ns, l1, new) = load_all env l in (l1, mapped @ new))"
| "skill_step env (l, mapped) (OpUnload n) = (snd (unload n l), mapped)"
| "skill_step env (l, mapped) (OpOutcome n r) = (record_outcome n r l, mapped)"

text \<open>The loader that \<open>new_with_policy\<close> makes, after any operations, and the native code that
  has run by then.\<close>

definition run_loader :: "'k skill_env \<Rightarrow> string \<Rightarrow> load_policy \<Rightarrow> skill_op list \<Rightarrow> 'k skill_loader \<times> string list" where
  "run_loader env dir policy os = foldl (skill_step env) (new_loader env dir policy, []) os"

definition signed_by_trusted :: "'k skill_env \<Rightarrow> (string \<times> 'k) list \<Rightarrow> string \<Rightarrow> bool" where
  "signed_by_trusted env keys bytes \<longleftrightarrow>
     (\<exists>key_id key sig. map_of keys key_id = Some key \<and> length sig = 64 \<and> ed_verify_strict env key bytes sig)"

definition admitted :: "load_policy \<Rightarrow> loaded_skill \<Rightarrow> bool" where
  "admitted policy s \<longleftrightarrow>
     (lp_require_manifest policy \<longrightarrow> ma_status (ls_manifest s) = ''ok'')
     \<and> (lp_require_signature policy \<longrightarrow> ma_signed (ls_manifest s))
     \<and> set (ma_permissions (ls_manifest s)) \<inter> set (lp_denied_permissions policy) = {}
     \<and> ls_name s \<noteq> [] \<and> ls_description s \<noteq> [] \<and> ls_fault_count s < 3"

definition loader_inv :: "'k skill_env \<Rightarrow> load_policy \<Rightarrow> (string \<times> 'k) list \<Rightarrow> 'k skill_loader \<times> string list \<Rightarrow> bool" where
  "loader_inv env policy keys st \<longleftrightarrow>
     sl_policy (fst st) = policy \<and> sl_keys (fst st) = keys
     \<and> distinct (map ls_name (sl_loaded (fst st)))
     \<and> list_all (admitted policy) (sl_loaded (fst st))
     \<and> (lp_require_signature policy \<longrightarrow> list_all (signed_by_trusted env keys) (snd st))"

lemma verify_detached_trusted: "verify_detached env keys k bytes s \<Longrightarrow> signed_by_trusted env keys bytes"
  by (auto simp: verify_detached_def signed_by_trusted_def split: if_splits option.splits)

lemma source_verified_trusted:
  "source_verified env l src bytes \<Longrightarrow> signed_by_trusted env (sl_keys l) bytes"
  by (auto simp: source_verified_def verify_skill_signature_def verify_detached_trusted
      split: manifest_source.splits)

lemma audit_signed:
  "verified \<Longrightarrow> source_verified env l src b \<Longrightarrow> ma_signed (build_manifest_audit src verified n v)"
  by (auto simp: build_manifest_audit_def audit_from_manifest_def source_verified_def
      split: manifest_source.splits)

lemma enforce_ok:
  "enforce_skill_policy a policy = Inr u \<Longrightarrow>
     (lp_require_manifest policy \<longrightarrow> ma_status a = ''ok'')
     \<and> set (ma_permissions a) \<inter> set (lp_denied_permissions policy) = {}"
  by (auto simp: enforce_skill_policy_def Let_def filter_empty_conv split: if_splits)

lemma admit_inv [rust_invs]:
  assumes inv: "loader_inv env policy keys (l, mapped)"
    and signature: "lp_require_signature policy \<Longrightarrow> verified \<and> source_verified env l src b"
    and a: "admit_vtable env l p src verified lib vt = (r, l1)"
  shows "loader_inv env policy keys (l1, mapped)"
proof (cases "l1 = l")
  case False
  define audit where "audit = build_manifest_audit src verified (read_c_str (vt_name vt)) (read_c_str (vt_version vt))"
  obtain u where e: "enforce_skill_policy audit (sl_policy l) = Inr u"
    and new: "read_c_str (vt_name vt) \<noteq> []" "read_c_str (vt_description vt) \<noteq> []"
      "read_c_str (vt_name vt) \<notin> ls_name ` set (sl_loaded l)"
    and l1: "l1 = l\<lparr>sl_loaded := sl_loaded l @
       [\<lparr>ls_name = read_c_str (vt_name vt), ls_description = read_c_str (vt_description vt),
         ls_version = read_c_str (vt_version vt), ls_parameters = read_c_str (vt_parameters vt),
         ls_path = p, ls_manifest = audit, ls_fault_count = 0,
         ls_timeout_ms = lp_timeout_ms (sl_policy l), ls_lib = lib\<rparr>]\<rparr>"
    using a False by (auto simp: admit_vtable_def Let_def audit_def [symmetric] split: if_splits sum.splits)
  have "sl_policy l = policy" using inv by (simp add: loader_inv_def)
  moreover have "lp_require_signature policy \<Longrightarrow> ma_signed audit"
    using signature audit_signed unfolding audit_def by blast
  ultimately show ?thesis
    using inv enforce_ok [OF e] new by (auto simp: loader_inv_def l1 admitted_def)
qed (use inv in simp)

lemma load_inv [rust_invs]:
  assumes inv: "loader_inv env policy keys (l, mapped)" and s: "load_skill env p l = (r, l1, new)"
  shows "loader_inv env policy keys (l1, mapped @ new)"
proof -
  define src where "src = read_manifest_source env p"
  have pol: "sl_policy l = policy" "sl_keys l = keys" using inv by (simp_all add: loader_inv_def)
  show ?thesis
  proof (cases "new = []")
    case True
    then have "l1 = l" using s
      by (auto simp: load_skill_def Let_def split: sum.splits if_splits option.splits prod.splits)
    then show ?thesis using inv True by simp
  next
    case False
    define verified where "verified = source_verified env l src (hd new)"
    have signature: "lp_require_signature policy \<Longrightarrow> verified"
      and one: "new = [hd new]"
      and admit: "l1 = l \<or> (\<exists>lib vt r'. admit_vtable env l p src verified lib vt = (r', l1))"
      using s False pol
      by (auto simp: load_skill_def Let_def verified_def src_def split: sum.splits if_splits option.splits prod.splits)
    have "loader_inv env policy keys (l1, mapped)"
      using admit inv admit_inv [OF inv] signature unfolding verified_def by blast
    moreover have "lp_require_signature policy \<Longrightarrow> list_all (signed_by_trusted env keys) new"
    proof -
      assume "lp_require_signature policy"
      then have "signed_by_trusted env keys (hd new)"
        using signature source_verified_trusted pol(2) unfolding verified_def by blast
      then show ?thesis by (subst one) simp
    qed
    ultimately show ?thesis by (auto simp: loader_inv_def)
  qed
qed

lemma load_entry_inv:
  "loader_inv env policy keys (l, pre @ mapped) \<Longrightarrow> load_entry env (ns, l, mapped) p = (ns1, l1, m1)
     \<Longrightarrow> loader_inv env policy keys (l1, pre @ m1)"
  using load_inv [of env policy keys l "pre @ mapped" p]
  by (auto simp: load_entry_def split: if_splits prod.splits sum.splits)

lemma load_entries_inv:
  "loader_inv env policy keys (l, pre @ mapped)
     \<Longrightarrow> foldl (load_entry env) (ns, l, mapped) ps = (ns1, l1, m1)
     \<Longrightarrow> loader_inv env policy keys (l1, pre @ m1)"
proof (induction ps arbitrary: ns l mapped)
  case (Cons p ps)
  obtain ns2 l2 m2 where e: "load_entry env (ns, l, mapped) p = (ns2, l2, m2)"
    by (metis prod.exhaust)
  show ?case using Cons.IH [OF load_entry_inv [OF Cons.prems(1) e]] Cons.prems(2) e by simp
qed simp

lemma load_all_inv [rust_invs]:
  "loader_inv env policy keys (l, mapped) \<Longrightarrow> load_all env l = (ns, l1, new)
     \<Longrightarrow> loader_inv env policy keys (l1, mapped @ new)"
  using load_entries_inv [of env policy keys l mapped "[]" "[]"]
  by (auto simp: load_all_def split: option.splits)

lemma remove_first_simps [simp]:
  "remove_first P [] = []"
  "remove_first P (x # xs) = (if P x then xs else x # remove_first P xs)"
  by (simp_all add: remove_first_def)

lemma set_remove_first: "set (remove_first P xs) \<subseteq> set xs"
  by (induction xs) auto

lemma distinct_remove_first: "distinct (map f xs) \<Longrightarrow> distinct (map f (remove_first P xs))"
  using set_remove_first by (induction xs) fastforce+

lemma bump_names [simp]: "map ls_name (bump_fault n ss) = map ls_name ss"
proof (cases "find_index (\<lambda>s. ls_name s = n) ss")
  case (Some i)
  then have "bump_fault n ss = ss[i := (ss ! i)\<lparr>ls_fault_count := ls_fault_count (ss ! i) + 1\<rparr>]"
    by (simp add: bump_fault_def)
  then show ?thesis by (simp add: map_update) (metis list_update_beyond list_update_id map_update not_le)
qed (simp add: bump_fault_def)

lemma bump_admitted:
  assumes "list_all (admitted policy) ss"
  shows "list_all (admitted policy) (filter (\<lambda>s. \<not> should_unload s) (bump_fault n ss))"
proof (cases "find_index (\<lambda>s. ls_name s = n) ss")
  case None
  then show ?thesis using assms by (auto simp: bump_fault_def list_all_iff)
next
  case (Some i)
  have "admitted policy s" if s: "s \<in> set (bump_fault n ss)" "\<not> should_unload s" for s
  proof (cases "i < length ss")
    case True
    define x where "x = (ss ! i)\<lparr>ls_fault_count := ls_fault_count (ss ! i) + 1\<rparr>"
    have "s = x \<or> s \<in> set ss"
      using s(1) set_update_subset_insert [of ss i x] by (auto simp: bump_fault_def Some x_def)
    moreover have "admitted policy (ss ! i)" using assms True by (simp add: list_all_iff)
    then have "admitted policy x" if "\<not> should_unload x"
      using that by (simp add: x_def admitted_def should_unload_def)
    ultimately show ?thesis using s(2) assms by (auto simp: list_all_iff)
  qed (use s assms in \<open>simp add: bump_fault_def Some list_all_iff list_update_beyond not_less\<close>)
  then show ?thesis by (auto simp: list_all_iff)
qed

lemma unload_inv [rust_invs]:
  "loader_inv env policy keys (l, mapped) \<Longrightarrow> loader_inv env policy keys (snd (unload n l), mapped)"
  using set_remove_first [of "\<lambda>s. ls_name s = n" "sl_loaded l"]
  by (auto simp: loader_inv_def unload_def list_all_iff distinct_remove_first)

lemma outcome_inv [rust_invs]:
  assumes "loader_inv env policy keys (l, mapped)"
  shows "loader_inv env policy keys (record_outcome n r l, mapped)"
proof -
  have d: "distinct (map ls_name (filter P ss))" if "distinct (map ls_name ss)" for P and ss :: "loaded_skill list"
    using that by (rule distinct_map_filter)
  have "distinct (map ls_name (filter (\<lambda>s. \<not> should_unload s) (bump_fault n (sl_loaded l))))"
    by (rule d) (use assms in \<open>simp add: loader_inv_def\<close>)
  moreover have "distinct (map ls_name (filter (\<lambda>s. \<not> should_unload s) (sl_loaded l)))"
    by (rule d) (use assms in \<open>simp add: loader_inv_def\<close>)
  ultimately show ?thesis
    using assms bump_admitted [of policy "sl_loaded l" n]
    by (auto simp: loader_inv_def record_outcome_def prune_faulted_def list_all_iff)
qed

lemma skill_step_inv [rust_invs]:
  "loader_inv env policy keys st \<Longrightarrow> loader_inv env policy keys (skill_step env st p)"
proof (cases st)
  case (Pair l mapped)
  assume "loader_inv env policy keys st"
  then show ?thesis
    using load_inv [of env policy keys l mapped] load_all_inv [of env policy keys l mapped]
      unload_inv [of env policy keys l mapped] outcome_inv [of env policy keys l mapped]
    by (cases p) (auto simp: Pair split: prod.splits)
qed

lemma run_loader_inv:
  "loader_inv env policy (load_trusted_keys env (lp_signature_key_dir policy)) (run_loader env dir policy os)"
proof -
  define keys where "keys = load_trusted_keys env (lp_signature_key_dir policy)"
  have "loader_inv env policy keys st \<Longrightarrow> loader_inv env policy keys (foldl (skill_step env) st os)" for st
    by (induction os arbitrary: st) (simp_all add: skill_step_inv)
  moreover have "loader_inv env policy keys (new_loader env dir policy, [])"
    by (simp add: loader_inv_def new_loader_def keys_def)
  ultimately show ?thesis unfolding run_loader_def keys_def by blast
qed

section \<open>Properties\<close>

definition demo_manifest :: skill_manifest where
  "demo_manifest =
     \<lparr>sm_name = ''hello'', sm_version = ''1.0'', sm_description = ''greets'', sm_permissions = [],
      sm_capabilities = [], sm_reviewed_by = [], sm_signature = ''SIG'', sm_key_id = ''k''\<rparr>"

definition demo_vtable :: skill_vtable where
  "demo_vtable =
     \<lparr>vt_abi_version = 1, vt_name = Some ''hello'', vt_description = Some ''greets'',
      vt_version = Some ''1.0'', vt_parameters = Some ''{}''\<rparr>"

text \<open>One trusted key, which has signed the library \<open>code\<close> and no other.\<close>

definition demo_env :: "unit skill_env" where
  "demo_env =
     \<lparr>fs_read = (\<lambda>p. Ok ''code''),
      fs_read_text = (\<lambda>p. Ok (if snd p = ''k.pub'' then ''KEY'' else ''MANIFEST'')),
      fs_exists = (\<lambda>p. True), fs_read_dir = (\<lambda>d. Some [(d, ''k.pub'')]),
      json_manifest = (\<lambda>t. Ok demo_manifest), json_value = (\<lambda>t. Some (JObj [])),
      base64_decode = (\<lambda>t. Some (replicate (if t = ''KEY'' then 32 else 64) (CHR ''x''))),
      ed_key = (\<lambda>b. Some ()), ed_verify_strict = (\<lambda>k m sig. m = ''code''),
      map_library = (\<lambda>b label. Ok \<lparr>nl_bytes = b, nl_init = Ok (Some demo_vtable)\<rparr>)\<rparr>"

definition strict_policy :: load_policy where
  "strict_policy =
     \<lparr>lp_require_manifest = True, lp_require_signature = True, lp_denied_permissions = [''network.raw''],
      lp_signature_key_dir = ''keys'', lp_timeout_ms = 5000\<rparr>"

lemma demo_keys: "load_trusted_keys demo_env d = [(''k'', ())]"
  by (simp add: load_trusted_keys_def add_trusted_key_def path_extension_def extension_dot_def
      file_stem_def decode_verifying_key_def demo_env_def trim_def trim_start_def is_whitespace_def)

lemma demo_source: "\<exists>q. read_manifest_source demo_env p = SourcePresent q demo_manifest"
  by (simp add: read_manifest_source_def find_manifest_sidecar_def manifest_sidecar_candidates_def demo_env_def)

lemma demo_verified: "verify_skill_signature demo_env ''code'' demo_manifest [(''k'', ())]"
  by (simp add: verify_skill_signature_def verify_detached_def demo_manifest_def demo_env_def
      trim_def trim_start_def is_whitespace_def)

lemma demo_audit:
  "build_manifest_audit (SourcePresent q demo_manifest) True ''hello'' ''1.0''
     = \<lparr>ma_status = ''ok'', ma_path = Some q, ma_name = ''hello'', ma_version = ''1.0'',
        ma_description = ''greets'', ma_permissions = [], ma_capabilities = [], ma_reviewed_by = [],
        ma_key_id = ''k'', ma_signed = True, ma_error = []\<rparr>"
  by (simp add: build_manifest_audit_def audit_from_manifest_def manifest_problem_def demo_manifest_def
      trim_def trim_start_def is_whitespace_def)

lemma demo_run:
  "\<exists>l. run_loader demo_env ''skills'' strict_policy [OpLoad (''skills'', ''a.so'')] = (l, [''code''])
     \<and> map ls_name (sl_loaded l) = [''hello'']"
proof -
  define l where "l = new_loader demo_env ''skills'' strict_policy"
  have l: "sl_keys l = [(''k'', ())]" "sl_policy l = strict_policy" "sl_loaded l = []"
    by (simp_all add: l_def new_loader_def demo_keys)
  obtain q where q: "read_manifest_source demo_env (''skills'', ''a.so'') = SourcePresent q demo_manifest"
    using demo_source by blast
  have v: "source_verified demo_env l (SourcePresent q demo_manifest) ''code''"
    by (simp add: source_verified_def l demo_verified)
  have vt: "read_c_str (vt_name demo_vtable) = ''hello''" "read_c_str (vt_version demo_vtable) = ''1.0''"
    "read_c_str (vt_description demo_vtable) = ''greets''" "vt_abi_version demo_vtable = ABI_VERSION"
    by (simp_all add: demo_vtable_def read_c_str_def ABI_VERSION_def)
  have "build_manifest_audit (SourcePresent q demo_manifest) True (read_c_str (vt_name demo_vtable))
      (read_c_str (vt_version demo_vtable)) = \<lparr>ma_status = ''ok'', ma_path = Some q, ma_name = ''hello'',
        ma_version = ''1.0'', ma_description = ''greets'', ma_permissions = [], ma_capabilities = [],
        ma_reviewed_by = [], ma_key_id = ''k'', ma_signed = True, ma_error = []\<rparr>"
    unfolding vt by (rule demo_audit)
  then have "enforce_skill_policy (build_manifest_audit (SourcePresent q demo_manifest) True
      (read_c_str (vt_name demo_vtable)) (read_c_str (vt_version demo_vtable))) (sl_policy l) = Ok ()"
    by (simp add: enforce_skill_policy_def strict_policy_def l)
  from admit_ok [OF _ _ _ _ _ this, of demo_env "(''skills'', ''a.so'')"
      "\<lparr>nl_bytes = ''code'', nl_init = Ok (Some demo_vtable)\<rparr>"]
  obtain s where a: "admit_vtable demo_env l (''skills'', ''a.so'') (SourcePresent q demo_manifest) True
      \<lparr>nl_bytes = ''code'', nl_init = Ok (Some demo_vtable)\<rparr> demo_vtable
      = (Ok ''hello'', l\<lparr>sl_loaded := sl_loaded l @ [s]\<rparr>)" and s: "ls_name s = ''hello''"
    using vt l(3) by (auto simp: demo_env_def)
  have "load_skill demo_env (''skills'', ''a.so'') l = (Ok ''hello'', l\<lparr>sl_loaded := sl_loaded l @ [s]\<rparr>, [''code''])"
    by (rule load_ok [OF _ q v _ _ a]) (simp_all add: demo_env_def)
  then show ?thesis using s l(3) by (simp add: run_loader_def l_def [symmetric])
qed

text \<open>
  C13: with \<open>require_signature\<close>, native code runs only if a trusted key has signed exactly the bytes
  that are mapped. After any operations on the loader, each library that was ever mapped, also
  one that was then refused or unloaded, carries a valid Ed25519 signature of a key of the
  key directory.
\<close>

theorem only_signed_code_runs:
  assumes "lp_require_signature policy" and "run_loader env dir policy os = (l, mapped)"
    and "bytes \<in> set mapped"
  shows "signed_by_trusted env (load_trusted_keys env (lp_signature_key_dir policy)) bytes"
  using run_loader_inv [of env policy dir os] assms by (simp add: loader_inv_def list_all_iff)

theorem only_signed_code_runs_witness:
  "signed_by_trusted demo_env (load_trusted_keys demo_env ''keys'') ''code''"
proof -
  obtain l where "run_loader demo_env ''skills'' strict_policy [OpLoad (''skills'', ''a.so'')] = (l, [''code''])"
    using demo_run by blast
  from only_signed_code_runs [OF _ this, of "''code''"] show ?thesis by (simp add: strict_policy_def)
qed

text \<open>
  C14: after any operations on the loader the loaded skills have distinct, non-empty names, each
  satisfies the load policy (manifest, signature, denied permissions), and none has three
  faults.
\<close>

theorem loaded_skills_admitted:
  assumes "run_loader env dir policy os = (l, mapped)"
  shows "distinct (map ls_name (sl_loaded l)) \<and> list_all (admitted policy) (sl_loaded l)"
  using run_loader_inv [of env policy dir os] assms by (simp add: loader_inv_def)

theorem loaded_skills_admitted_witness:
  "\<exists>l :: unit skill_loader. map ls_name (sl_loaded l) = [''hello''] \<and> list_all (admitted strict_policy) (sl_loaded l)"
proof (rule exE [OF demo_run])
  fix l
  assume l: "run_loader demo_env ''skills'' strict_policy [OpLoad (''skills'', ''a.so'')] = (l, [''code''])
    \<and> map ls_name (sl_loaded l) = [''hello'']"
  have "list_all (admitted strict_policy) (sl_loaded l)"
    by (rule conjunct2 [OF loaded_skills_admitted [OF conjunct1 [OF l]]])
  with conjunct2 [OF l] have "map ls_name (sl_loaded l) = [''hello''] \<and> list_all (admitted strict_policy) (sl_loaded l)"
    by (rule conjI)
  then show ?thesis by (rule exI)
qed

text \<open>The signature covers the library only: the permissions, the reviewer and the capabilities
  of a signed skill can be changed in its manifest, and \<open>denied_permissions\<close> reads them there.\<close>

lemma permissions_not_signed:
  "verify_skill_signature env b (m\<lparr>sm_permissions := ps\<rparr>) keys = verify_skill_signature env b m keys"
  by (simp add: verify_skill_signature_def)

end
