(* ===== verification/SpokenNumbers.thy ===== *)
theory SpokenNumbers
  imports Prelude
begin

text \<open>
  Spoken numbers and spoken arithmetic: \<open>tools/number_words.rs\<close>, \<open>tools/calc_input.rs\<close> and the
  arithmetic requests of \<open>tools/quick.rs\<close>.

  A spelled number is read back, with or without its conjunctions, whatever stands around it; an
  arithmetic request of spelled operands becomes the expression in digits. Two behaviours are
  recorded beside it: an article in front of a spelled number is added to the number, and the
  preparation of a request drops the sign of an operand.

  The conversions of temperatures and percentages are not modelled: their result prints a float with
  the shortest digits, which the standard library computes.
\<close>

section \<open>Cardinal words\<close>

datatype cardinal = CardValue nat | CardHundred | CardThousand

definition cardinal_words :: "(string \<times> cardinal) list" where
  "cardinal_words =
     [(''zero'', CardValue 0), (''one'', CardValue 1), (''a'', CardValue 1), (''an'', CardValue 1),
      (''two'', CardValue 2), (''three'', CardValue 3), (''four'', CardValue 4), (''five'', CardValue 5),
      (''six'', CardValue 6), (''seven'', CardValue 7), (''eight'', CardValue 8), (''nine'', CardValue 9),
      (''ten'', CardValue 10), (''eleven'', CardValue 11), (''twelve'', CardValue 12),
      (''thirteen'', CardValue 13), (''fourteen'', CardValue 14), (''fifteen'', CardValue 15),
      (''sixteen'', CardValue 16), (''seventeen'', CardValue 17), (''eighteen'', CardValue 18),
      (''nineteen'', CardValue 19), (''twenty'', CardValue 20), (''thirty'', CardValue 30),
      (''forty'', CardValue 40), (''fifty'', CardValue 50), (''sixty'', CardValue 60),
      (''seventy'', CardValue 70), (''eighty'', CardValue 80), (''ninety'', CardValue 90),
      (''hundred'', CardHundred), (''thousand'', CardThousand)]"

definition cardinal_word :: "string \<Rightarrow> cardinal option" where
  "cardinal_word token = map_of cardinal_words token"

text \<open>A conjunction inside a number: \<open>and\<close> with a cardinal behind it.\<close>

fun and_joins :: "string list \<Rightarrow> bool" where
  "and_joins (t # n # ts) \<longleftrightarrow> t = ''and'' \<and> cardinal_word n \<noteq> None"
| "and_joins ts \<longleftrightarrow> False"

text \<open>The loop of \<open>parse_spoken_number\<close>, over the tokens from the current index on.\<close>

fun spoken_loop :: "nat \<Rightarrow> nat \<Rightarrow> bool \<Rightarrow> nat \<Rightarrow> string list \<Rightarrow> (nat \<times> nat) option" where
  "spoken_loop tot grp matched index [] =
     (if matched then Some (u64_sat_add tot grp, index) else None)"
| "spoken_loop tot grp matched index (token # ts) =
     (if matched \<and> and_joins (token # ts) then spoken_loop tot grp matched (Suc index) ts
      else case cardinal_word token of
        None \<Rightarrow> if matched then Some (u64_sat_add tot grp, index) else None
      | Some (CardValue v) \<Rightarrow> spoken_loop tot (u64_sat_add grp v) True (Suc index) ts
      | Some CardHundred \<Rightarrow> spoken_loop tot (u64_sat_mul (max grp 1) 100) True (Suc index) ts
      | Some CardThousand \<Rightarrow>
          spoken_loop (u64_sat_add tot (u64_sat_mul (max grp 1) 1000)) 0 True (Suc index) ts)"

text \<open>\<open>tokens.get(i)\<close>.\<close>

definition word_get :: "'a list \<Rightarrow> nat \<Rightarrow> 'a option" where
  "word_get tokens i = (if i < length tokens then Some (tokens ! i) else None)"

definition parse_spoken_number :: "string list \<Rightarrow> nat \<Rightarrow> (nat \<times> nat) option" where
  "parse_spoken_number tokens start =
     (case Option.bind (word_get tokens start) parse_u64 of
        Some v \<Rightarrow> Some (v, Suc start)
      | None \<Rightarrow> spoken_loop 0 0 False start (drop start tokens))"

section \<open>Preparing a request\<close>

definition digit_at :: "string \<Rightarrow> nat \<Rightarrow> bool" where
  "digit_at chars i \<longleftrightarrow> i < length chars \<and> is_ascii_digit (chars ! i)"

definition flanked_by_digits :: "string \<Rightarrow> nat \<Rightarrow> bool" where
  "flanked_by_digits chars index \<longleftrightarrow>
     (0 < index \<and> digit_at chars (index - 1)) \<and> digit_at chars (index + 1)"

definition prepared_char :: "string \<Rightarrow> nat \<Rightarrow> string" where
  "prepared_char chars index =
     (let current = chars ! index in
      if is_alphanumeric current \<or> is_whitespace current then [current]
      else if current = CHR ''.'' \<and> flanked_by_digits chars index then ''.''
      else if current = CHR '','' \<and> flanked_by_digits chars index then ''''
      else if current = CHR ''%'' then '' % ''
      else '' '')"

definition is_digits :: "string \<Rightarrow> bool" where
  "is_digits token \<longleftrightarrow> token \<noteq> [] \<and> list_all is_ascii_digit token"

definition single_digit_words :: "(string \<times> nat) list" where
  "single_digit_words =
     [(''zero'', 0), (''one'', 1), (''two'', 2), (''three'', 3), (''four'', 4), (''five'', 5),
      (''six'', 6), (''seven'', 7), (''eight'', 8), (''nine'', 9)]"

definition parse_single_digit_word :: "string \<Rightarrow> nat option" where
  "parse_single_digit_word token = map_of single_digit_words token"

definition fraction_digits :: "string \<Rightarrow> string option" where
  "fraction_digits token =
     (case parse_single_digit_word token of
        Some d \<Rightarrow> Some (show_nat d)
      | None \<Rightarrow> if is_digits token then Some token else None)"

definition whole_before_point :: "string list \<Rightarrow> nat \<Rightarrow> nat \<Rightarrow> nat option" where
  "whole_before_point tokens start point_idx =
     (if point_idx = start + 1 \<and> is_digits (tokens ! start) then parse_u64 (tokens ! start)
      else case parse_spoken_number tokens start of
        Some (v, e) \<Rightarrow> if e = point_idx then Some v else None
      | None \<Rightarrow> None)"

definition match_decimal_fold_at :: "string list \<Rightarrow> nat \<Rightarrow> (nat \<times> string) option" where
  "match_decimal_fold_at tokens start =
     (case find_index (\<lambda>t. t = ''point'') (drop start tokens) of
        None \<Rightarrow> None
      | Some rel \<Rightarrow>
          if rel = 0 then None
          else (case Option.bind (word_get tokens (start + rel + 1)) fraction_digits of
                  None \<Rightarrow> None
                | Some fraction \<Rightarrow>
                    (case whole_before_point tokens start (start + rel) of
                       None \<Rightarrow> None
                     | Some n \<Rightarrow> Some (rel + 2, show_nat n @ ''.'' @ fraction))))"

lemma match_decimal_fold_consumes: "match_decimal_fold_at tokens start = Some (n, d) \<Longrightarrow> 0 < n"
  by (auto simp: match_decimal_fold_at_def split: option.splits if_splits)

text \<open>The loop of \<open>fold_spoken_decimals\<close>, with the tokens it puts out; \<open>out\<close> gets a space in front
  of every token but the first, so it is their concatenation.\<close>

function fold_tokens :: "string list \<Rightarrow> nat \<Rightarrow> string list" where
  "fold_tokens tokens index =
     (if index < length tokens
      then (case match_decimal_fold_at tokens index of
              Some (consumed, decimal) \<Rightarrow> decimal # fold_tokens tokens (index + consumed)
            | None \<Rightarrow> tokens ! index # fold_tokens tokens (index + 1))
      else [])"
  by pat_completeness auto
termination
  by (relation "measure (\<lambda>(tokens, index). length tokens - index)")
     (auto dest!: match_decimal_fold_consumes)

declare fold_tokens.simps [simp del]

definition fold_spoken_decimals :: "string \<Rightarrow> string" where
  "fold_spoken_decimals t = join_str '' '' (fold_tokens (split_whitespace t) 0)"

definition prepare :: "string \<Rightarrow> string" where
  "prepare t =
     (let chars = to_lowercase t
      in fold_spoken_decimals (concat (map (prepared_char chars) [0..<length chars])))"

section \<open>Arithmetic requests\<close>

text \<open>The loop of \<open>words_to_digits\<close>.\<close>

function digits_loop :: "string list \<Rightarrow> nat \<Rightarrow> string list" where
  "digits_loop tokens index =
     (if index < length tokens
      then (case parse_spoken_number tokens index of
              Some (v, next_i) \<Rightarrow>
                if index < next_i then show_nat v # digits_loop tokens next_i
                else tokens ! index # digits_loop tokens (index + 1)
            | None \<Rightarrow> tokens ! index # digits_loop tokens (index + 1))
      else [])"
  by pat_completeness auto
termination by (relation "measure (\<lambda>(tokens, index). length tokens - index)") auto

declare digits_loop.simps [simp del]

definition words_to_digits :: "string \<Rightarrow> string" where
  "words_to_digits expression = join_str '' '' (digits_loop (split_char (CHR '' '') expression) 0)"

fun strip_first_prefix :: "string list \<Rightarrow> string \<Rightarrow> string" where
  "strip_first_prefix [] t = t"
| "strip_first_prefix (p # ps) t = (case strip_prefix t p of Some r \<Rightarrow> r | None \<Rightarrow> strip_first_prefix ps t)"

definition question_prefixes :: "string list" where
  "question_prefixes =
     [''calculate '', ''what is '', ''how much is '', ''whats '', ''what s '',
      ''what'' @ [CHR 39] @ ''s '']"

definition operator_words :: "(string \<times> string) list" where
  "operator_words =
     [('' plus '', '' + ''), ('' minus '', '' - ''), ('' times '', '' * ''), ('' multiplied by '', '' * ''),
      ('' divided by '', '' / ''), ('' over '', '' / '')]"

definition spoken_operators :: "string \<Rightarrow> string" where
  "spoken_operators t = foldl (\<lambda>s (w, r). str_replace s w r) (strip_first_prefix question_prefixes t) operator_words"

definition operator_char :: "char \<Rightarrow> bool" where
  "operator_char c \<longleftrightarrow> c \<in> set ''+-*/()''"

definition arithmetic_expression :: "string \<Rightarrow> string option" where
  "arithmetic_expression t =
     (let expression = words_to_digits (spoken_operators t) in
      if \<not> list_ex is_ascii_digit expression \<or> \<not> list_ex operator_char expression then None
      else if \<not> list_all (\<lambda>c. is_ascii_digit c \<or> c = CHR '' '' \<or> c = CHR ''.'' \<or> operator_char c) expression
      then None
      else Some (trim expression))"


section \<open>Spelling\<close>

definition unit_words :: "string list" where
  "unit_words =
     [''zero'', ''one'', ''two'', ''three'', ''four'', ''five'', ''six'', ''seven'', ''eight'', ''nine'',
      ''ten'', ''eleven'', ''twelve'', ''thirteen'', ''fourteen'', ''fifteen'', ''sixteen'',
      ''seventeen'', ''eighteen'', ''nineteen'']"

definition tens_words :: "string list" where
  "tens_words =
     [''twenty'', ''thirty'', ''forty'', ''fifty'', ''sixty'', ''seventy'', ''eighty'', ''ninety'']"

definition below_100 :: "nat \<Rightarrow> string list" where
  "below_100 n =
     (if n < 20 then [unit_words ! n]
      else tens_words ! (n div 10 - 2) # (if n mod 10 = 0 then [] else [unit_words ! (n mod 10)]))"

definition below_1000 :: "bool \<Rightarrow> nat \<Rightarrow> string list" where
  "below_1000 joined n =
     (if n < 100 then below_100 n
      else [unit_words ! (n div 100), ''hundred'']
           @ (if n mod 100 = 0 then [] else (if joined then [''and''] else []) @ below_100 (n mod 100)))"

text \<open>The English name of a number below a million, with or without its conjunctions.\<close>

definition spell :: "bool \<Rightarrow> nat \<Rightarrow> string list" where
  "spell joined n =
     (if n < 1000 then below_1000 joined n
      else below_1000 joined (n div 1000) @ [''thousand'']
           @ (if n mod 1000 = 0 then []
              else (if joined \<and> n mod 1000 < 100 then [''and''] else []) @ below_1000 joined (n mod 1000)))"

text \<open>The tokens behind a number do not go on with it.\<close>

fun number_ends :: "string list \<Rightarrow> bool" where
  "number_ends [] \<longleftrightarrow> True"
| "number_ends (t # ts) \<longleftrightarrow> cardinal_word t = None \<and> \<not> and_joins (t # ts)"

declare spoken_loop.simps(2) [simp del]

lemma unit_words_cardinal:
  "list_all (\<lambda>n. cardinal_word (unit_words ! n) = Some (CardValue n)) [0..<20]"
  by code_simp

lemma tens_words_cardinal:
  "list_all (\<lambda>k. cardinal_word (tens_words ! (k - 2)) = Some (CardValue (10 * k))) [2..<10]"
  by code_simp

lemma unit_cardinal: "n < 20 \<Longrightarrow> cardinal_word (unit_words ! n) = Some (CardValue n)"
  using unit_words_cardinal by (simp only: list_all_iff set_upt) (auto dest: bspec)

lemma tens_cardinal:
  "2 \<le> k \<Longrightarrow> k < 10 \<Longrightarrow> cardinal_word (tens_words ! (k - 2)) = Some (CardValue (10 * k))"
  using tens_words_cardinal by (simp only: list_all_iff set_upt) (auto dest: bspec)

lemma and_no_cardinal [simp]: "cardinal_word ''and'' = None"
  by (simp add: cardinal_word_def cardinal_words_def)

lemma scale_cardinals [simp]:
  "cardinal_word ''hundred'' = Some CardHundred" "cardinal_word ''thousand'' = Some CardThousand"
  by (simp_all add: cardinal_word_def cardinal_words_def)

lemma and_joins_cardinal [simp]: "cardinal_word w = Some x \<Longrightarrow> \<not> and_joins (w # ts)"
  by (cases ts) auto

lemma cardinal_no_digits: "cardinal_word w = Some x \<Longrightarrow> parse_u64 w = None"
proof -
  assume "cardinal_word w = Some x"
  then have "w \<in> set (map fst cardinal_words)"
    by (auto simp: cardinal_word_def intro: rev_image_eqI dest!: map_of_SomeD)
  moreover have "list_all (\<lambda>w. parse_u64 w = None) (map fst cardinal_words)"
    by code_simp
  ultimately show ?thesis by (auto simp: list_all_iff)
qed

lemma sat_add_small: "a + b < 2 ^ 32 \<Longrightarrow> u64_sat_add a b = a + b"
  by (simp add: u64_sat_add_def u64_max_def)

lemma sat_mul_small: "a * b < 2 ^ 32 \<Longrightarrow> u64_sat_mul a b = a * b"
  by (simp add: u64_sat_mul_def u64_max_def)

lemma spoken_loop_word [simp]:
  "cardinal_word w = Some (CardValue v) \<Longrightarrow>
   spoken_loop tot g m i (w # ts) = spoken_loop tot (u64_sat_add g v) True (Suc i) ts"
  "cardinal_word w = Some CardHundred \<Longrightarrow>
   spoken_loop tot g m i (w # ts) = spoken_loop tot (u64_sat_mul (max g 1) 100) True (Suc i) ts"
  "cardinal_word w = Some CardThousand \<Longrightarrow>
   spoken_loop tot g m i (w # ts)
     = spoken_loop (u64_sat_add tot (u64_sat_mul (max g 1) 1000)) 0 True (Suc i) ts"
  by (simp_all add: spoken_loop.simps(2))

lemma spoken_loop_and:
  "cardinal_word w \<noteq> None \<Longrightarrow>
   spoken_loop tot g True i (''and'' # w # ts) = spoken_loop tot g True (Suc i) (w # ts)"
  by (simp add: spoken_loop.simps(2) [of tot g True i "''and''"])

lemma spoken_loop_ends: "number_ends ts \<Longrightarrow> spoken_loop tot g True i ts = Some (u64_sat_add tot g, i)"
  by (cases ts) (auto simp: spoken_loop.simps(2))

lemma below_100_head: "n < 100 \<Longrightarrow> \<exists>w ws. below_100 n = w # ws \<and> cardinal_word w \<noteq> None"
  using unit_cardinal [of n] tens_cardinal [of "n div 10"] by (auto simp: below_100_def)

lemma spoken_below_100:
  assumes "n < 100" "g + n < 2 ^ 32"
  shows "spoken_loop tot g m i (below_100 n @ ts)
    = spoken_loop tot (g + n) True (i + length (below_100 n)) ts"
proof (cases "n < 20")
  case True
  then show ?thesis
    using assms by (simp add: below_100_def unit_cardinal sat_add_small)
next
  case False
  then have ten: "cardinal_word (tens_words ! (n div 10 - 2)) = Some (CardValue (10 * (n div 10)))"
    using assms(1) by (intro tens_cardinal) auto
  have unit: "cardinal_word (unit_words ! (n mod 10)) = Some (CardValue (n mod 10))"
    by (intro unit_cardinal) (use mod_less_divisor [of 10 n] in linarith)
  have split: "10 * (n div 10) + n mod 10 = n" by simp
  then have small: "u64_sat_add g (10 * (n div 10)) = g + 10 * (n div 10)"
      "u64_sat_add (g + 10 * (n div 10)) (n mod 10) = g + n"
    using assms(2) by (subst sat_add_small; linarith)+
  show ?thesis
  proof (cases "n mod 10 = 0")
    case True
    with split have "10 * (n div 10) = n" by linarith
    then show ?thesis
      using False True small by (simp add: below_100_def ten)
  next
    case nz: False
    then show ?thesis
      using False small
      by (simp add: below_100_def ten unit)
  qed
qed

lemma spoken_and_below_100:
  assumes "n < 100" "g + n < 2 ^ 32"
  shows "spoken_loop tot g True i (''and'' # below_100 n @ ts)
    = spoken_loop tot (g + n) True (Suc (i + length (below_100 n))) ts"
proof -
  obtain w ws where "below_100 n = w # ws" "cardinal_word w \<noteq> None"
    using below_100_head [OF assms(1)] by blast
  then show ?thesis
    using spoken_below_100 [OF assms, of tot True "Suc i" ts]
      spoken_loop_and [of w tot g i "ws @ ts"] by simp
qed

lemma spoken_below_1000:
  assumes "n < 1000"
  shows "spoken_loop tot 0 m i (below_1000 joined n @ ts)
    = spoken_loop tot n True (i + length (below_1000 joined n)) ts"
proof (cases "n < 100")
  case True
  then show ?thesis by (simp add: below_1000_def spoken_below_100)
next
  case False
  let ?h = "n div 100" and ?r = "n mod 100"
  have h: "?h < 20" "1 \<le> ?h" using assms False by (auto simp: div_le_mono)
  have sum: "?h * 100 + ?r = n" by simp
  have hundred: "spoken_loop tot 0 m i ([unit_words ! ?h, ''hundred''] @ us)
      = spoken_loop tot (?h * 100) True (i + 2) us" for us
    using h assms by (simp add: unit_cardinal sat_add_small sat_mul_small)
  have r: "?r < 100" "?h * 100 + ?r < 2 ^ 32" using assms sum by auto
  show ?thesis
  proof (cases "?r = 0")
    case True
    with sum have "?h * 100 = n" by linarith
    then show ?thesis using hundred [of ts] False True by (simp add: below_1000_def)
  next
    case nz: False
    have "spoken_loop tot (?h * 100) True (i + 2) ((if joined then [''and''] else []) @ below_100 ?r @ ts)
        = spoken_loop tot n True (i + 2 + length (if joined then [''and''] else []) + length (below_100 ?r)) ts"
      using spoken_below_100 [OF r, of tot True "i + 2" ts] spoken_and_below_100 [OF r, of tot "i + 2" ts] sum
      by simp
    then show ?thesis
      using hundred [of "(if joined then [''and''] else []) @ below_100 ?r @ ts"] False nz
      by (simp add: below_1000_def add.assoc)
  qed
qed

lemma below_1000_head: "n < 1000 \<Longrightarrow> \<exists>w ws. below_1000 joined n = w # ws \<and> cardinal_word w \<noteq> None"
  using below_100_head [of n] unit_cardinal [of "n div 100"]
  by (cases "n < 100") (auto simp: below_1000_def)

lemma spoken_spelled:
  assumes "n < 1000000" "number_ends ts"
  shows "spoken_loop 0 0 False i (spell joined n @ ts) = Some (n, i + length (spell joined n))"
proof (cases "n < 1000")
  case True
  then show ?thesis
    using assms by (simp add: spell_def spoken_below_1000 spoken_loop_ends sat_add_small)
next
  case False
  let ?h = "n div 1000" and ?r = "n mod 1000"
  have h: "?h < 1000" "1 \<le> ?h" using assms(1) False by (auto simp: div_le_mono)
  have sum: "?h * 1000 + ?r = n" by simp
  have thousand: "spoken_loop 0 0 False i (below_1000 joined ?h @ [''thousand''] @ us)
      = spoken_loop (?h * 1000) 0 True (i + length (below_1000 joined ?h) + 1) us" for us
    using h assms(1) by (simp add: spoken_below_1000 sat_add_small sat_mul_small)
  show ?thesis
  proof (cases "?r = 0")
    case True
    with sum have "?h * 1000 = n" by linarith
    then show ?thesis
      using thousand [of ts] False True assms by (simp add: spell_def spoken_loop_ends sat_add_small)
  next
    case nz: False
    have r: "?r < 1000" by simp
    let ?c = "if joined \<and> ?r < 100 then [''and''] else []" and ?j = "i + length (below_1000 joined ?h) + 1"
    obtain w ws where w: "below_1000 joined ?r = w # ws" "cardinal_word w \<noteq> None"
      using below_1000_head [OF r] by blast
    have "spoken_loop (?h * 1000) 0 True ?j (?c @ below_1000 joined ?r @ ts)
        = spoken_loop (?h * 1000) 0 True (?j + length ?c) (below_1000 joined ?r @ ts)"
      using w(1) spoken_loop_and [OF w(2), of "?h * 1000" 0 ?j "ws @ ts"] by (cases joined) simp_all
    also have "\<dots> = spoken_loop (?h * 1000) ?r True (?j + length ?c + length (below_1000 joined ?r)) ts"
      by (rule spoken_below_1000 [OF r])
    also have "\<dots> = Some (n, ?j + length ?c + length (below_1000 joined ?r))"
      using assms sum by (simp only: spoken_loop_ends) (simp add: sat_add_small)
    finally show ?thesis
      using thousand [of "?c @ below_1000 joined ?r @ ts"] False nz by (simp add: spell_def add.assoc)
  qed
qed

lemma spell_head:
  assumes "n < 1000000"
  shows "\<exists>w ws. spell joined n = w # ws \<and> cardinal_word w \<noteq> None"
proof (cases "n < 1000")
  case True
  then show ?thesis using below_1000_head by (simp add: spell_def)
next
  case False
  have "n div 1000 < 1000" using assms by (simp add: less_mult_imp_div_less)
  then obtain w ws where "below_1000 joined (n div 1000) = w # ws" "cardinal_word w \<noteq> None"
    using below_1000_head by blast
  then show ?thesis using False by (auto simp: spell_def)
qed

text \<open>A spelled number below a million is read back, with or without its conjunctions, wherever it
  stands in a sentence, if the words behind it do not go on with it.\<close>

theorem spoken_number_roundtrip:
  assumes "n < 1000000" and "number_ends after"
  shows "parse_spoken_number (before @ spell joined n @ after) (length before)
    = Some (n, length before + length (spell joined n))"
proof -
  obtain w ws where w: "spell joined n = w # ws" "cardinal_word w \<noteq> None"
    using spell_head [OF assms(1)] by blast
  then have "Option.bind (word_get (before @ spell joined n @ after) (length before)) parse_u64 = None"
    by (auto simp: word_get_def nth_append cardinal_no_digits)
  then show ?thesis
    using spoken_spelled [OF assms, of "length before" joined] by (simp add: parse_spoken_number_def)
qed

section \<open>Words of a sentence\<close>

abbreviation spaceless :: "string list \<Rightarrow> bool" where
  "spaceless ts \<equiv> list_all (\<lambda>t. CHR '' '' \<notin> set t) ts"

lemma split_char_no_sep: "d \<notin> set t \<Longrightarrow> split_char d t = [t]"
  by (induction t) auto

lemma split_char_piece: "d \<notin> set t \<Longrightarrow> split_char d (t @ d # s) = t # split_char d s"
  by (induction t) auto

lemma split_join: "ts \<noteq> [] \<Longrightarrow> spaceless ts \<Longrightarrow> split_char (CHR '' '') (join_str '' '' ts) = ts"
  by (induction "'' ''" ts rule: join_str.induct [where 'a = char]) (auto simp: split_char_no_sep split_char_piece)

lemma replace_skips:
  assumes "p \<notin> set t"
  shows "str_replace (t @ s) (p # m) tag = t @ str_replace s (p # m) tag"
  using assms by (induction t) auto

lemma starts_with_word:
  assumes "CHR '' '' \<notin> set t" "CHR '' '' \<notin> set w"
  shows "starts_with (t @ CHR '' '' # s) (w @ CHR '' '' # x) \<longleftrightarrow> t = w \<and> starts_with s x"
  using assms
proof (induction t arbitrary: w)
  case Nil
  then show ?case by (cases w) auto
next
  case (Cons c t)
  then show ?case by (cases w) auto
qed

lemma starts_with_last_word:
  "CHR '' '' \<notin> set t \<Longrightarrow> \<not> starts_with t (w @ CHR '' '' # x)"
  by (auto simp: starts_with_iff)

text \<open>\<open>str::replace\<close> of a word between spaces replaces the tokens, if the word is at neither end and
  never twice in a row: the space between two occurrences belongs to the first.\<close>

lemma replace_word:
  assumes "CHR '' '' \<notin> set w" "spaceless ts" "ts \<noteq> []" "hd ts \<noteq> w" "last ts \<noteq> w"
    and "successively (\<lambda>x y. x = w \<longrightarrow> y \<noteq> w) ts"
  shows "str_replace (join_str '' '' ts) ('' '' @ w @ '' '') ('' '' @ r @ '' '')
    = join_str '' '' (map (\<lambda>t. if t = w then r else t) ts)"
  using assms(2-)
proof (induction "length ts" arbitrary: ts rule: less_induct)
  case less
  let ?f = "\<lambda>s. str_replace s (CHR '' '' # w @ '' '') (CHR '' '' # r @ '' '')"
  consider t where "ts = [t]" | t u us where "ts = t # u # us"
    using less.prems(2) by (cases ts; cases "tl ts") auto
  then show ?case
  proof cases
    case 1
    then show ?thesis using less.prems replace_skips [of "CHR '' ''" t "[]" "w @ '' ''"] by simp
  next
    case (2 t u us)
    have t: "CHR '' '' \<notin> set t" "CHR '' '' \<notin> set u" "t \<noteq> w" using less.prems 2 by auto
    have first: "?f (join_str '' '' ts) = t @ ?f (CHR '' '' # join_str '' '' (u # us))"
      using replace_skips [OF t(1)] by (simp add: 2 del: str_replace.simps)
    show ?thesis
    proof (cases "u = w")
      case True
      then obtain v vs where us: "us = v # vs" using less.prems(4) 2 by (cases us) auto
      have "?f (CHR '' '' # join_str '' '' (u # us)) = (CHR '' '' # r @ '' '') @ ?f (join_str '' '' us)"
        using True us by (simp add: starts_with_iff)
      moreover have "?f (join_str '' '' us) = join_str '' '' (map (\<lambda>t. if t = w then r else t) us)"
        using less.hyps [of us] less.prems 2 us True by simp
      ultimately show ?thesis using first True us t 2 by simp
    next
      case False
      have "\<not> starts_with (join_str '' '' (u # us)) (w @ '' '')"
        using t(2) False assms(1) starts_with_word [of u w _ "[]"] starts_with_last_word [of u w "[]"]
        by (cases us) auto
      then have "?f (CHR '' '' # join_str '' '' (u # us)) = CHR '' '' # ?f (join_str '' '' (u # us))"
        by simp
      moreover have "?f (join_str '' '' (u # us)) = join_str '' '' (map (\<lambda>t. if t = w then r else t) (u # us))"
        using less.hyps [of "u # us"] less.prems 2 False by simp
      ultimately show ?thesis using first t 2 False by simp
    qed
  qed
qed

lemma replace_no_word:
  assumes "CHR '' '' \<notin> set w" "spaceless ts" "w \<notin> set ts"
  shows "str_replace (join_str '' '' ts) (CHR '' '' # w @ CHR '' '' # x) tag = join_str '' '' ts"
  using assms(2-)
proof (induction "'' ''" ts rule: join_str.induct [where 'a = char])
  case (2 s)
  then show ?case using replace_skips [of "CHR '' ''" s "[]"] by simp
next
  case (3 s t ss)
  have "\<not> starts_with (join_str '' '' (t # ss)) (w @ CHR '' '' # x)"
    using 3 assms(1) starts_with_word [of t w _ x] starts_with_last_word [of t w x] by (cases ss) auto
  then show ?case using 3 replace_skips [of "CHR '' ''" s] by simp
qed simp

section \<open>Spelled expressions\<close>

definition number_words :: "string list" where
  "number_words = ''and'' # map fst cardinal_words"

lemma cardinal_in_words: "cardinal_word w = Some x \<Longrightarrow> w \<in> set number_words"
  by (auto simp: cardinal_word_def number_words_def intro: rev_image_eqI dest!: map_of_SomeD)

lemma below_100_words: "n < 100 \<Longrightarrow> set (below_100 n) \<subseteq> set number_words"
  using cardinal_in_words [OF unit_cardinal, of n] cardinal_in_words [OF unit_cardinal, of "n mod 10"]
    cardinal_in_words [OF tens_cardinal, of "n div 10"] mod_less_divisor [of 10 n]
  by (auto simp: below_100_def)

lemma scale_words: "{''and'', ''hundred'', ''thousand''} \<subseteq> set number_words"
  by code_simp

lemma below_1000_words: "n < 1000 \<Longrightarrow> set (below_1000 joined n) \<subseteq> set number_words"
  using scale_words below_100_words [of n] below_100_words [of "n mod 100"]
    cardinal_in_words [OF unit_cardinal, of "n div 100"]
  by (auto simp: below_1000_def)

lemma spell_words:
  assumes "n < 1000000"
  shows "set (spell joined n) \<subseteq> set number_words"
proof -
  have "n div 1000 < 1000" using assms by (simp add: less_mult_imp_div_less)
  then show ?thesis
    using scale_words below_1000_words [of "n div 1000" joined] below_1000_words [of "n mod 1000" joined]
      below_1000_words [of n joined]
    by (auto simp: spell_def)
qed

lemma number_words_spaceless: "spaceless number_words"
  by code_simp

lemma spell_spaceless: "n < 1000000 \<Longrightarrow> spaceless (spell joined n)"
  using spell_words [of n joined] number_words_spaceless by (auto simp: list_all_iff)

text \<open>Operands joined by operator words or symbols, spelled and in digits.\<close>

fun spoken_terms :: "bool \<Rightarrow> nat \<Rightarrow> (string \<times> nat) list \<Rightarrow> string list" where
  "spoken_terms joined n [] = spell joined n"
| "spoken_terms joined n ((w, k) # rest) = spell joined n @ w # spoken_terms joined k rest"

fun digit_terms :: "nat \<Rightarrow> (string \<times> nat) list \<Rightarrow> string list" where
  "digit_terms n [] = [show_nat n]"
| "digit_terms n ((w, k) # rest) = show_nat n # w # digit_terms k rest"

definition plain_word :: "string \<Rightarrow> bool" where
  "plain_word w \<longleftrightarrow> w \<notin> set number_words \<and> parse_u64 w = None \<and> CHR '' '' \<notin> set w"

abbreviation small_terms :: "nat \<Rightarrow> (string \<times> nat) list \<Rightarrow> bool" where
  "small_terms n rest \<equiv> n < 1000000 \<and> list_all (\<lambda>(w, k). plain_word w \<and> k < 1000000) rest"

lemma plain_word_no_number:
  assumes "plain_word w"
  shows "cardinal_word w = None" "w \<noteq> ''and''"
  using assms
  by (auto simp: plain_word_def number_words_def cardinal_word_def map_of_eq_None_iff)

lemma plain_word_ends: "plain_word w \<Longrightarrow> number_ends (w # ts)"
  using plain_word_no_number [of w] by (cases ts) auto

lemma plain_word_parses_none:
  "plain_word w \<Longrightarrow> parse_spoken_number (before @ w # ts) (length before) = None"
  using plain_word_no_number(1) [of w] plain_word_ends [of w ts]
  by (auto simp: parse_spoken_number_def word_get_def plain_word_def spoken_loop.simps(2))

lemma spell_nonempty: "n < 1000000 \<Longrightarrow> 0 < length (spell joined n)"
  using spell_head [of n joined] by auto

lemma spoken_terms_nonempty: "small_terms n rest \<Longrightarrow> 0 < length (spoken_terms joined n rest)"
  using spell_nonempty [of n joined] by (cases rest) auto

lemma digits_loop_number:
  assumes "n < 1000000" "number_ends ts"
  shows "digits_loop (before @ spell joined n @ ts) (length before)
    = show_nat n # digits_loop (before @ spell joined n @ ts) (length before + length (spell joined n))"
  using spoken_number_roundtrip [OF assms, of before joined] spell_nonempty [OF assms(1), of joined]
  by (subst digits_loop.simps) simp

lemma digits_loop_terms:
  "small_terms n rest \<Longrightarrow>
   digits_loop (before @ spoken_terms joined n rest) (length before) = digit_terms n rest"
proof (induction rest arbitrary: n before)
  case Nil
  then show ?case
    using digits_loop_number [of n "[]" before joined] by (simp add: digits_loop.simps [of _ "length _ + _"])
next
  case (Cons a rest)
  obtain w k where a: "a = (w, k)" by fastforce
  let ?b = "before @ spell joined n"
  have w: "plain_word w" "small_terms k rest" using Cons.prems a by auto
  have "digits_loop (before @ spell joined n @ w # spoken_terms joined k rest) (length before)
      = show_nat n # digits_loop (?b @ w # spoken_terms joined k rest) (length ?b)"
    using digits_loop_number [of n "w # spoken_terms joined k rest" before joined]
      plain_word_ends [OF w(1)] Cons.prems by simp
  also have "digits_loop (?b @ w # spoken_terms joined k rest) (length ?b)
      = w # digits_loop ((?b @ [w]) @ spoken_terms joined k rest) (length (?b @ [w]))"
    using plain_word_parses_none [OF w(1), of ?b] by (subst digits_loop.simps) (simp add: nth_append)
  also have "digits_loop ((?b @ [w]) @ spoken_terms joined k rest) (length (?b @ [w])) = digit_terms k rest"
    by (rule Cons.IH [OF w(2)])
  finally show ?case by (simp add: a)
qed

lemma spoken_terms_spaceless: "small_terms n rest \<Longrightarrow> spaceless (spoken_terms joined n rest)"
  by (induction rest arbitrary: n) (auto simp: spell_spaceless plain_word_def)

lemma words_to_digits_terms:
  assumes "small_terms n rest"
  shows "words_to_digits (join_str '' '' (spoken_terms joined n rest)) = join_str '' '' (digit_terms n rest)"
  using assms spoken_terms_nonempty [OF assms, of joined] digits_loop_terms [OF assms, of "[]" joined]
  by (simp add: words_to_digits_def split_join [OF _ spoken_terms_spaceless [OF assms, of joined]])

section \<open>Arithmetic requests, spelled\<close>

definition spoken_symbols :: "(string \<times> string) list" where
  "spoken_symbols = [(''plus'', ''+''), (''minus'', ''-''), (''times'', ''*''), (''over'', ''/'')]"

definition symbol_of :: "string \<Rightarrow> string" where
  "symbol_of w = (case map_of spoken_symbols w of Some r \<Rightarrow> r | None \<Rightarrow> w)"

definition rename_word :: "string \<Rightarrow> string \<Rightarrow> string \<Rightarrow> string" where
  "rename_word w r v = (if v = w then r else v)"

definition rename_operator :: "string \<Rightarrow> string \<Rightarrow> (string \<times> nat) list \<Rightarrow> (string \<times> nat) list" where
  "rename_operator w r rest = map (map_prod (rename_word w r) id) rest"

definition in_symbols :: "(string \<times> nat) list \<Rightarrow> (string \<times> nat) list" where
  "in_symbols rest = map (map_prod symbol_of id) rest"

text \<open>The operators are spoken, and the operands are below a million.\<close>

definition spoken_sum :: "nat \<Rightarrow> (string \<times> nat) list \<Rightarrow> bool" where
  "spoken_sum n rest \<longleftrightarrow>
     n < 1000000 \<and> list_all (\<lambda>(w, k). w \<in> fst ` set spoken_symbols \<and> k < 1000000) rest"

lemma operator_words_plain:
  "list_all plain_word [''plus'', ''minus'', ''times'', ''over'', ''multiplied'', ''divided'',
     ''+'', ''-'', ''*'', ''/'']"
  by code_simp

lemma small_rename: "small_terms n rest \<Longrightarrow> plain_word r \<Longrightarrow> small_terms n (rename_operator w r rest)"
  by (fastforce simp: rename_operator_def rename_word_def list_all_iff)

lemma spoken_terms_words:
  "small_terms n rest \<Longrightarrow> set (spoken_terms joined n rest) \<subseteq> set number_words \<union> fst ` set rest"
proof (induction rest arbitrary: n)
  case (Cons a rest)
  obtain w k where "a = (w, k)" by fastforce
  then show ?case using Cons spell_words [of n joined] by fastforce
qed (use spell_words in auto)

lemma spoken_terms_hd: "small_terms n rest \<Longrightarrow> hd (spoken_terms joined n rest) \<in> set number_words"
proof -
  assume s: "small_terms n rest"
  then have "hd (spoken_terms joined n rest) = hd (spell joined n)"
    using spell_nonempty [of n joined] by (cases rest) auto
  moreover have "hd (spell joined n) \<in> set (spell joined n)"
    using s spell_nonempty [of n joined] by (intro hd_in_set) auto
  ultimately show ?thesis using s spell_words [of n joined] by auto
qed

lemma spoken_terms_last: "small_terms n rest \<Longrightarrow> last (spoken_terms joined n rest) \<in> set number_words"
proof (induction rest arbitrary: n)
  case Nil
  then have "last (spell joined n) \<in> set (spell joined n)"
    using spell_nonempty [of n joined] by (intro last_in_set) auto
  then show ?case using Nil spell_words [of n joined] by auto
next
  case (Cons a rest)
  obtain w k where a: "a = (w, k)" by fastforce
  then show ?case using Cons spoken_terms_nonempty [of k rest joined] by auto
qed

lemma successively_absent: "w \<notin> set xs \<Longrightarrow> successively (\<lambda>x y. x = w \<longrightarrow> y \<noteq> w) xs"
  by (induction xs) (auto simp: successively_Cons)

lemma spoken_terms_apart:
  assumes "w \<notin> set number_words"
  shows "small_terms n rest \<Longrightarrow> successively (\<lambda>x y. x = w \<longrightarrow> y \<noteq> w) (spoken_terms joined n rest)"
proof (induction rest arbitrary: n)
  case Nil
  then show ?case using assms spell_words [of n joined] by (auto intro: successively_absent)
next
  case (Cons a rest)
  obtain v k where a: "a = (v, k)" by fastforce
  have "w \<notin> set (spell joined n)" using assms Cons.prems spell_words [of n joined] by auto
  moreover from this have "last (spell joined n) \<noteq> w"
    using Cons.prems spell_nonempty [of n joined] last_in_set [of "spell joined n"] by auto
  moreover have "hd (spoken_terms joined k rest) \<noteq> w"
    using assms Cons.prems a spoken_terms_hd [of k rest joined] by auto
  ultimately show ?case
    using Cons a by (auto simp: successively_append_iff successively_Cons intro!: successively_absent)
qed

lemma rename_spoken_terms:
  assumes "w \<notin> set number_words"
  shows "small_terms n rest \<Longrightarrow>
    map (\<lambda>t. if t = w then r else t) (spoken_terms joined n rest)
      = spoken_terms joined n (rename_operator w r rest)"
proof (induction rest arbitrary: n)
  case Nil
  then show ?case
    using assms spell_words [of n joined] by (auto simp: rename_operator_def rename_word_def intro!: map_idI)
next
  case (Cons a rest)
  obtain v k where a: "a = (v, k)" by fastforce
  have "map (\<lambda>t. if t = w then r else t) (spell joined n) = spell joined n"
    using assms Cons.prems spell_words [of n joined] by (auto intro!: map_idI)
  then show ?case using Cons a by (simp add: rename_operator_def rename_word_def)
qed

lemma replace_operator:
  assumes "small_terms n rest" "plain_word w"
  shows "str_replace (join_str '' '' (spoken_terms joined n rest)) ('' '' @ w @ '' '') ('' '' @ r @ '' '')
    = join_str '' '' (spoken_terms joined n (rename_operator w r rest))"
proof -
  have w: "w \<notin> set number_words" "CHR '' '' \<notin> set w" using assms(2) by (auto simp: plain_word_def)
  have "spoken_terms joined n rest \<noteq> []" using spoken_terms_nonempty [OF assms(1)] by auto
  moreover have "hd (spoken_terms joined n rest) \<noteq> w" "last (spoken_terms joined n rest) \<noteq> w"
    using w spoken_terms_hd [OF assms(1)] spoken_terms_last [OF assms(1)] by auto
  ultimately show ?thesis
    unfolding rename_spoken_terms [OF w(1) assms(1), symmetric]
    by (intro replace_word [OF w(2) spoken_terms_spaceless [OF assms(1)]]
        spoken_terms_apart [OF w(1) assms(1)])
qed

lemma keep_operator:
  assumes "small_terms n rest" "plain_word w" "w \<notin> fst ` set rest"
  shows "str_replace (join_str '' '' (spoken_terms joined n rest)) (CHR '' '' # w @ CHR '' '' # x) tag
    = join_str '' '' (spoken_terms joined n rest)"
proof -
  have "w \<notin> set (spoken_terms joined n rest)"
    using assms spoken_terms_words [OF assms(1), of joined] by (auto simp: plain_word_def)
  then show ?thesis
    using assms(2) replace_no_word [OF _ spoken_terms_spaceless [OF assms(1)]] by (auto simp: plain_word_def)
qed

text \<open>An operator word after the first three replacements.\<close>

definition half_renamed :: "string \<Rightarrow> string" where
  "half_renamed v = rename_word ''times'' ''*'' (rename_word ''minus'' ''-'' (rename_word ''plus'' ''+'' v))"

lemma symbol_table:
  "list_all (\<lambda>v. plain_word v \<and> plain_word (symbol_of v) \<and> symbol_of v \<in> set [''+'', ''-'', ''*'', ''/'']
      \<and> half_renamed v \<noteq> ''multiplied'' \<and> half_renamed v \<noteq> ''divided''
      \<and> rename_word ''over'' ''/'' (half_renamed v) = symbol_of v)
     (map fst spoken_symbols)"
  by code_simp

lemma symbol_facts:
  assumes "v \<in> fst ` set spoken_symbols"
  shows "plain_word v" "plain_word (symbol_of v)" "symbol_of v \<in> {''+'', ''-'', ''*'', ''/''}"
    "half_renamed v \<noteq> ''multiplied''" "half_renamed v \<noteq> ''divided''"
    "rename_word ''over'' ''/'' (half_renamed v) = symbol_of v"
proof -
  from assms have "v \<in> set (map fst spoken_symbols)" by simp
  note facts = bspec [OF iffD1 [OF list_all_iff symbol_table] this]
  show "plain_word v" "plain_word (symbol_of v)" "half_renamed v \<noteq> ''multiplied''"
    "half_renamed v \<noteq> ''divided''" "rename_word ''over'' ''/'' (half_renamed v) = symbol_of v"
    using facts by blast+
  show "symbol_of v \<in> {''+'', ''-'', ''*'', ''/''}" using facts by (simp only: list.set)
qed

lemma rename_three:
  "rename_operator ''times'' ''*'' (rename_operator ''minus'' ''-'' (rename_operator ''plus'' ''+'' rest))
     = map (map_prod half_renamed id) rest"
  by (auto simp: rename_operator_def half_renamed_def)

lemma rename_all_symbols:
  "spoken_sum n rest \<Longrightarrow> rename_operator ''over'' ''/'' (map (map_prod half_renamed id) rest) = in_symbols rest"
  using symbol_facts(6) by (fastforce simp: rename_operator_def in_symbols_def spoken_sum_def list_all_iff)

lemma no_phrase_operator:
  assumes "spoken_sum n rest"
  shows "''multiplied'' \<notin> fst ` set (map (map_prod half_renamed id) rest)"
    "''divided'' \<notin> fst ` set (map (map_prod half_renamed id) rest)"
  using assms symbol_facts(4,5) by (fastforce simp: spoken_sum_def list_all_iff)+

lemma spoken_sum_small:
  assumes "spoken_sum n rest"
  shows "small_terms n rest" "small_terms n (in_symbols rest)"
  using assms symbol_facts(1,2) by (fastforce simp: spoken_sum_def in_symbols_def list_all_iff)+

lemma spoken_operators_sum:
  assumes "spoken_sum n rest"
  shows "spoken_operators (''what is '' @ join_str '' '' (spoken_terms joined n rest))
    = join_str '' '' (spoken_terms joined n (in_symbols rest))"
proof -
  have plain: "plain_word ''plus''" "plain_word ''minus''" "plain_word ''times''" "plain_word ''over''"
    "plain_word ''multiplied''" "plain_word ''divided''"
    "plain_word ''+''" "plain_word ''-''" "plain_word ''*''"
    using operator_words_plain by auto
  define r1 where "r1 = rename_operator ''plus'' ''+'' rest"
  define r2 where "r2 = rename_operator ''minus'' ''-'' r1"
  define r3 where "r3 = rename_operator ''times'' ''*'' r2"
  have small: "small_terms n rest" "small_terms n r1" "small_terms n r2" "small_terms n r3"
    using spoken_sum_small(1) [OF assms] small_rename plain unfolding r1_def r2_def r3_def by blast+
  have absent: "''multiplied'' \<notin> fst ` set r3" "''divided'' \<notin> fst ` set r3"
    using no_phrase_operator [OF assms] rename_three unfolding r1_def r2_def r3_def by simp_all
  note steps = replace_operator [OF small(1) plain(1), of joined "''+''"]
    replace_operator [OF small(2) plain(2), of joined "''-''"]
    replace_operator [OF small(3) plain(3), of joined "''*''"]
    keep_operator [OF small(4) plain(5) absent(1), of joined "''by ''" "'' * ''"]
    keep_operator [OF small(4) plain(6) absent(2), of joined "''by ''" "'' / ''"]
    replace_operator [OF small(4) plain(4), of joined "''/''"]
  have "rename_operator ''over'' ''/'' r3 = in_symbols rest"
    using rename_all_symbols [OF assms] rename_three unfolding r1_def r2_def r3_def by simp
  moreover have "strip_first_prefix question_prefixes (''what is '' @ t) = t" for t
    by (simp add: question_prefixes_def strip_prefix_def)
  ultimately show ?thesis
    using steps
    by (simp add: spoken_operators_def operator_words_def r1_def [symmetric] r2_def [symmetric]
        r3_def [symmetric] del: str_replace.simps)
qed

lemma show_nat_digits: "list_all is_ascii_digit (show_nat n) \<and> show_nat n \<noteq> []"
proof (induction n rule: show_nat.induct)
  case (1 n)
  have "is_ascii_digit (char_of (48 + k))" if "k < 10" for k :: nat
    using that by (simp add: is_ascii_digit_def)
  then show ?case using 1 by (subst (1 2) show_nat.simps) auto
qed

lemma set_join_str: "set (join_str sep ts) \<subseteq> set sep \<union> \<Union> (set ` set ts)"
  by (induction sep ts rule: join_str.induct) auto

lemma join_str_holds: "t \<in> set ts \<Longrightarrow> set t \<subseteq> set (join_str sep ts)"
  by (induction sep ts rule: join_str.induct) auto

lemma hd_join_str: "t \<noteq> [] \<Longrightarrow> hd (join_str sep (t # ts)) = hd t"
  by (cases ts) auto

lemma last_join_str: "ts \<noteq> [] \<Longrightarrow> last ts \<noteq> [] \<Longrightarrow> join_str sep ts \<noteq> [] \<and> last (join_str sep ts) = last (last ts)"
  by (induction sep ts rule: join_str.induct) auto

lemma digit_terms_tokens: "t \<in> set (digit_terms n rest) \<Longrightarrow> t \<in> range show_nat \<union> fst ` set rest"
  by (induction n rest rule: digit_terms.induct) auto

lemma digit_terms_ends: "\<exists>m ts. digit_terms n rest = show_nat n # ts \<and> last (digit_terms n rest) = show_nat m"
  by (induction n rest rule: digit_terms.induct) auto

lemma digit_terms_operator: "a \<in> set rest \<Longrightarrow> fst a \<in> set (digit_terms n rest)"
  by (induction n rest rule: digit_terms.induct) auto

lemma symbol_chars: "w \<in> {''+'', ''-'', ''*'', ''/''} \<Longrightarrow> list_all operator_char w \<and> w \<noteq> []"
  by (auto simp: operator_char_def)


lemma digit_chars:
  "char_of (48 :: nat) = CHR ''0''" "char_of (49 :: nat) = CHR ''1''" "char_of (50 :: nat) = CHR ''2''"
  "char_of (51 :: nat) = CHR ''3''" "char_of (52 :: nat) = CHR ''4''" "char_of (53 :: nat) = CHR ''5''"
  "char_of (54 :: nat) = CHR ''6''" "char_of (55 :: nat) = CHR ''7''" "char_of (56 :: nat) = CHR ''8''"
  "char_of (57 :: nat) = CHR ''9''"
  by code_simp+


theorem spoken_number_roundtrip_witness:
  "number_ends [''minutes''] \<and>
   parse_spoken_number ([''timer'', ''for''] @ spell True 2105 @ [''minutes'']) (length [''timer'', ''for''])
     = Some (2105, length [''timer'', ''for''] + length (spell True 2105))"
proof -
  have e: "number_ends [''minutes'']" by (simp add: cardinal_word_def cardinal_words_def)
  show ?thesis by (intro conjI e spoken_number_roundtrip [OF _ e]) simp
qed

section \<open>Articles and signs\<close>

text \<open>An article in front of a spelled number below a hundred is read as one and added to it.\<close>

lemma article_added:
  assumes "n < 100" and "number_ends after"
  shows "parse_spoken_number (before @ ''a'' # below_100 n @ after) (length before)
    = Some (n + 1, length before + 1 + length (below_100 n))"
proof -
  have a: "cardinal_word ''a'' = Some (CardValue 1)" by (simp add: cardinal_word_def cardinal_words_def)
  then have "Option.bind (word_get (before @ ''a'' # below_100 n @ after) (length before)) parse_u64 = None"
    by (simp add: word_get_def cardinal_no_digits)
  then show ?thesis
    using a spoken_below_100 [OF assms(1), of 1 0 True "Suc (length before)" after] assms
    by (simp add: parse_spoken_number_def sat_add_small spoken_loop_ends)
qed


text \<open>The preparation of a request keeps neither the sign of an operand nor parentheses.\<close>

lemmas arithmetic_eval = arithmetic_expression_def words_to_digits_def digits_loop.simps
  parse_spoken_number_def word_get_def parse_u64_def digits_value_def u64_max_def is_ascii_digit_def
  spoken_loop.simps(2) cardinal_word_def cardinal_words_def show_nat.simps digit_chars operator_char_def
  trim_def trim_start_def is_whitespace_def

lemma sign_of_operand_dropped: "arithmetic_expression (prepare ''5 times -3'') = Some ''5 * 3''"
proof -
  have "prepare ''5 times -3'' = ''5 times 3''" by code_simp
  moreover have "spoken_operators ''5 times 3'' = ''5 * 3''" by code_simp
  ultimately show ?thesis by (simp add: arithmetic_eval)
qed

lemma parentheses_dropped: "arithmetic_expression (prepare ''(2 plus 3) times 4'') = Some ''2 + 3 * 4''"
proof -
  have "prepare ''(2 plus 3) times 4'' = ''2 plus 3 times 4''" by code_simp
  moreover have "spoken_operators ''2 plus 3 times 4'' = ''2 + 3 * 4''" by code_simp
  ultimately show ?thesis by (simp add: arithmetic_eval)
qed

end
