(* ===== verification/SpokenTimers.thy ===== *)
theory SpokenTimers
  imports SpokenNumbers
begin

text \<open>
  Spoken timers: \<open>timer_request\<close> of \<open>tools/quick.rs\<close> with its readers of durations and labels, the
  normalisation of an utterance and the name of a speaker in front of it.

  A timer that is set for spelled spans of time gets their exact sum; an article in front of a
  spelled number makes the timer longer than was asked. The other intents of \<open>quick.rs\<close>, among which
  \<open>route\<close> chooses, are not modelled.
\<close>

section \<open>Normalising an utterance\<close>

text \<open>The loop of \<open>normalize\<close>: \<open>out\<close> is what was pushed so far, in reverse.\<close>

fun normalize_loop :: "bool \<Rightarrow> string \<Rightarrow> string \<Rightarrow> string" where
  "normalize_loop pending_space out [] = rev out"
| "normalize_loop pending_space out (ch # s) =
     (if is_alphanumeric ch
      then normalize_loop False (ch # (if pending_space \<and> out \<noteq> [] then CHR '' '' # out else out)) s
      else normalize_loop True out s)"

definition normalize_utterance :: "string \<Rightarrow> string" where
  "normalize_utterance t = normalize_loop False [] (to_lowercase t)"

definition household_names :: "string list" where
  "household_names = [''jared'', ''sarah'', ''leo'', ''mia'']"

fun strip_speaker :: "string list \<Rightarrow> string \<Rightarrow> string" where
  "strip_speaker [] t = t"
| "strip_speaker (name # names) t =
     (case Option.bind (strip_prefix t name) (\<lambda>rest. strip_prefix rest '' '') of
        Some rest \<Rightarrow> if trim rest \<noteq> [] then trim rest else strip_speaker names t
      | None \<Rightarrow> strip_speaker names t)"

definition strip_household_speaker_prefix :: "string \<Rightarrow> string" where
  "strip_household_speaker_prefix t = strip_speaker household_names t"

section \<open>Durations\<close>

fun first_some :: "('a \<Rightarrow> 'b option) \<Rightarrow> 'a list \<Rightarrow> 'b option" where
  "first_some f [] = None"
| "first_some f (x # xs) = (case f x of Some y \<Rightarrow> Some y | None \<Rightarrow> first_some f xs)"

definition time_units :: "(string \<times> nat) list" where
  "time_units =
     [(''second'', 1), (''seconds'', 1), (''sec'', 1), (''secs'', 1),
      (''minute'', 60), (''minutes'', 60), (''min'', 60), (''mins'', 60),
      (''hour'', 3600), (''hours'', 3600), (''hr'', 3600), (''hrs'', 3600)]"

definition duration_unit_seconds :: "string option \<Rightarrow> nat option" where
  "duration_unit_seconds u = Option.bind u (map_of time_units)"

definition is_time_unit :: "string \<Rightarrow> bool" where
  "is_time_unit t \<longleftrightarrow> t \<in> set (map fst time_units)"

definition is_article :: "string option \<Rightarrow> bool" where
  "is_article t \<longleftrightarrow> t = Some ''a'' \<or> t = Some ''an''"

definition skip_word :: "string \<Rightarrow> string list \<Rightarrow> nat \<Rightarrow> nat" where
  "skip_word w tokens i = (if word_get tokens i = Some w then i + 1 else i)"

text \<open>\<open><number> <unit>\<close> at an index: the seconds and the index of the unit.\<close>

definition span_at :: "string list \<Rightarrow> nat \<Rightarrow> (nat \<times> nat) option" where
  "span_at tokens start =
     (case parse_spoken_number tokens start of
        None \<Rightarrow> None
      | Some (amount, unit_index) \<Rightarrow>
          map_option (\<lambda>m. (u64_sat_mul amount m, unit_index))
            (duration_unit_seconds (word_get tokens unit_index)))"

text \<open>The whole part in front of \<open>and [a] <fraction>\<close>: the leftmost number that ends at the conjunction.\<close>

definition whole_part_seconds :: "string list \<Rightarrow> nat \<Rightarrow> nat \<Rightarrow> nat" where
  "whole_part_seconds tokens i unit_seconds =
     (let lead = (if 0 < i \<and> is_article (word_get tokens (i - 1)) then i - 1 else i) in
      if 0 < lead \<and> word_get tokens (lead - 1) = Some ''and'' then
        (let and_index = lead - 1; head = take and_index tokens in
         case first_some (\<lambda>s. case parse_spoken_number head s of
                 Some (amount, e) \<Rightarrow> if e = and_index then Some amount else None | None \<Rightarrow> None)
               [0..<and_index] of
           Some amount \<Rightarrow> u64_sat_mul amount unit_seconds
         | None \<Rightarrow> 0)
      else 0)"

definition fraction_words :: "(string \<times> nat \<times> nat) list" where
  "fraction_words = [(''half'', 1, 2), (''quarter'', 1, 4)]"

definition fraction_at :: "string list \<Rightarrow> nat \<Rightarrow> (nat \<times> nat) option" where
  "fraction_at tokens i =
     (case map_of fraction_words (tokens ! i) of
        None \<Rightarrow> None
      | Some (numerator, denominator) \<Rightarrow>
          (let after_of = skip_word ''of'' tokens (i + 1);
               unit_index = (if is_article (word_get tokens after_of) then after_of + 1 else after_of)
           in case duration_unit_seconds (word_get tokens unit_index) of
                None \<Rightarrow> None
              | Some unit_seconds \<Rightarrow>
                  Some (u64_sat_add (whole_part_seconds tokens i unit_seconds)
                          (unit_seconds * numerator div denominator), unit_index)))"

definition fractional_duration :: "string list \<Rightarrow> (nat \<times> nat) option" where
  "fractional_duration tokens = first_some (fraction_at tokens) [0..<length tokens]"

definition couple_duration :: "string list \<Rightarrow> (nat \<times> nat) option" where
  "couple_duration tokens =
     (case find_index (\<lambda>t. t = ''couple'') tokens of
        None \<Rightarrow> None
      | Some i \<Rightarrow>
          (let unit_index = skip_word ''of'' tokens (i + 1)
           in map_option (\<lambda>m. (u64_sat_mul 2 m, unit_index))
                (duration_unit_seconds (word_get tokens unit_index))))"

definition dozen_duration :: "string list \<Rightarrow> (nat \<times> nat) option" where
  "dozen_duration tokens =
     (case find_index (\<lambda>t. t = ''dozen'') tokens of
        None \<Rightarrow> None
      | Some i \<Rightarrow>
          if list_ex (\<lambda>t. t = ''half'' \<or> t = ''quarter'') (take 2 (rev (take i tokens))) then None
          else
            (let count = (if 0 < i
                   then (case parse_spoken_number [tokens ! (i - 1)] 0 of Some (v, e) \<Rightarrow> v | None \<Rightarrow> 1)
                   else 1);
                 unit_index = skip_word ''of'' tokens (i + 1)
             in map_option (\<lambda>m. (u64_sat_mul (u64_sat_mul count 12) m, unit_index))
                  (duration_unit_seconds (word_get tokens unit_index))))"

lemma spoken_loop_advances: "spoken_loop tot g m i ts = Some (v, j) \<Longrightarrow> i \<le> j \<and> (\<not> m \<longrightarrow> i < j)"
proof (induction tot g m i ts rule: spoken_loop.induct)
  case (2 tot grp matched index token ts)
  then show ?case
    by (auto simp: spoken_loop.simps(2) split: if_splits option.splits cardinal.splits)
qed (auto split: if_splits)

lemma parse_spoken_number_advances: "parse_spoken_number tokens i = Some (v, j) \<Longrightarrow> i < j"
  by (auto simp: parse_spoken_number_def dest: spoken_loop_advances split: option.splits)

lemma span_at_advances: "span_at tokens i = Some (v, j) \<Longrightarrow> i < j \<and> j < length tokens"
  by (auto simp: span_at_def duration_unit_seconds_def word_get_def
      dest: parse_spoken_number_advances split: option.splits if_splits)

lemma skip_word_le: "i \<le> skip_word w tokens i"
  by (simp add: skip_word_def)

text \<open>The spans directly behind a unit, each after an optional conjunction.\<close>

function trailing_spans :: "string list \<Rightarrow> nat \<Rightarrow> nat \<Rightarrow> nat \<times> nat" where
  "trailing_spans tokens tot last_unit_index =
     (case span_at tokens (skip_word ''and'' tokens (last_unit_index + 1)) of
        None \<Rightarrow> (tot, last_unit_index)
      | Some (seconds, unit_index) \<Rightarrow> trailing_spans tokens (u64_sat_add tot seconds) unit_index)"
  by pat_completeness auto
termination
  by (relation "measure (\<lambda>(tokens, tot, l). length tokens - l)")
     (auto dest!: span_at_advances simp: skip_word_def split: if_splits)

declare trailing_spans.simps [simp del]

definition parse_duration :: "string list \<Rightarrow> (nat \<times> nat) option" where
  "parse_duration tokens =
     map_option (\<lambda>(seconds, unit_index). trailing_spans tokens seconds unit_index)
       (first_some (span_at tokens) [0..<length tokens])"

definition extend_duration_with_trailing_spans :: "string list \<Rightarrow> nat \<Rightarrow> nat \<Rightarrow> nat \<times> nat" where
  "extend_duration_with_trailing_spans tokens tot0 last0 =
     (let (tot, last_unit_index) = trailing_spans tokens tot0 last0;
          after_and = skip_word ''and'' tokens (last_unit_index + 1);
          tail = (if is_article (word_get tokens after_and) then after_and + 1 else after_and)
      in case (Option.bind (word_get tokens tail) (map_of fraction_words),
               duration_unit_seconds (word_get tokens last_unit_index)) of
           (Some (numerator, divisor), Some unit_seconds) \<Rightarrow>
             (u64_sat_add tot (unit_seconds div divisor), tail)
         | _ \<Rightarrow> (tot, last_unit_index))"

section \<open>Labels\<close>

text \<open>The task behind the duration, and the task in front of it.\<close>

definition label_after_duration :: "string list \<Rightarrow> nat \<Rightarrow> string option" where
  "label_after_duration tokens unit_end_index =
     (if length tokens < unit_end_index + 1 then None
      else
        let after_unit = drop (unit_end_index + 1) tokens in
        case find_index (\<lambda>t. t = ''to'') after_unit of
          None \<Rightarrow> None
        | Some to_index \<Rightarrow>
            if ''for'' \<in> set (take to_index after_unit) then None
            else (let label_tokens = drop (to_index + 1) after_unit
                  in if label_tokens = [] then None else Some (join_str '' '' label_tokens)))"

definition label_before_duration :: "string list \<Rightarrow> nat \<Rightarrow> string option" where
  "label_before_duration tokens unit_end_index =
     (case find_index (\<lambda>t. t = ''to'') tokens of
        None \<Rightarrow> None
      | Some to_index \<Rightarrow>
          (let e = min unit_end_index (length tokens) in
           case find (\<lambda>i. tokens ! i = ''in'' \<or> tokens ! i = ''after'') (rev [to_index + 1..<e]) of
             None \<Rightarrow> None
           | Some connective_index \<Rightarrow>
               (let label_tokens = drop (to_index + 1) (take connective_index tokens)
                in if label_tokens = [] then None else Some (join_str '' '' label_tokens))))"

definition reminder_label :: "string list \<Rightarrow> nat \<Rightarrow> bool \<Rightarrow> string option" where
  "reminder_label tokens unit_end_index reminder_style =
     (case label_after_duration tokens unit_end_index of
        Some l \<Rightarrow> Some l
      | None \<Rightarrow> if reminder_style then label_before_duration tokens unit_end_index else None)"

definition clean_timer_label :: "string list \<Rightarrow> string option" where
  "clean_timer_label tokens =
     (let l = trim (strip_first_prefix [''the '', ''a '', ''an ''] (join_str '' '' tokens))
      in if l = [] then None else Some l)"

definition timer_for_label_after :: "string list \<Rightarrow> nat \<Rightarrow> string option" where
  "timer_for_label_after tokens timer_index =
     (case drop (timer_index + 1) tokens of
        [] \<Rightarrow> None
      | w # rest \<Rightarrow>
          if w \<noteq> ''for'' \<or> rest = [] then None
          else if parse_duration rest \<noteq> None then
            (case find_index (\<lambda>t. t = ''for'') rest of
               None \<Rightarrow> None
             | Some for_pos \<Rightarrow>
                 if drop (for_pos + 1) rest \<noteq> [] \<and> parse_duration (drop (for_pos + 1) rest) = None
                 then clean_timer_label (drop (for_pos + 1) rest)
                 else if take for_pos rest \<noteq> [] \<and> parse_duration (take for_pos rest) = None
                 then clean_timer_label (take for_pos rest)
                 else None)
          else clean_timer_label rest)"

definition strip_trailing_duration_prefix :: "string list \<Rightarrow> string list" where
  "strip_trailing_duration_prefix tokens =
     (if length tokens < 2 \<or> \<not> is_time_unit (last tokens) then tokens
      else if parse_u64 (tokens ! (length tokens - 2)) \<noteq> None then take (length tokens - 2) tokens
      else (case find (\<lambda>s. case parse_spoken_number tokens s of
                   Some (v, e) \<Rightarrow> e = length tokens - 1 | None \<Rightarrow> False)
                 (rev [0..<length tokens - 1]) of
              Some s \<Rightarrow> take s tokens
            | None \<Rightarrow> tokens))"

definition label_stop :: "string list" where
  "label_stop =
     [''set'', ''start'', ''create'', ''make'', ''a'', ''an'', ''the'', ''my'', ''our'', ''your'', ''new'']"

definition extract_named_timer_label :: "string list \<Rightarrow> nat \<Rightarrow> string option" where
  "extract_named_timer_label tokens unit_end_index =
     (case find_index (\<lambda>t. t = ''timer'') tokens of
        None \<Rightarrow> None
      | Some timer_index \<Rightarrow>
          if timer_index = 0 then None
          else (case timer_for_label_after tokens timer_index of
                  Some l \<Rightarrow> Some l
                | None \<Rightarrow>
                    if unit_end_index < timer_index \<and> unit_end_index + 1 = timer_index then None
                    else
                      let before_timer = strip_trailing_duration_prefix (take timer_index tokens);
                          label_parts = rev (takeWhile (\<lambda>t. t \<notin> set label_stop) (rev before_timer))
                      in if label_parts = [] then None else Some (join_str '' '' label_parts)))"

section \<open>Timer requests\<close>

text \<open>\<open>trim_end_matches\<close> for a text, which no caller passes empty.\<close>

function trim_end_matches :: "string \<Rightarrow> string \<Rightarrow> string" where
  "trim_end_matches p s =
     (if p \<noteq> [] \<and> ends_with s p then trim_end_matches p (take (length s - length p) s) else s)"
  by pat_completeness auto
termination by (relation "measure (length \<circ> snd)") (auto simp: ends_with_iff)

declare trim_end_matches.simps [simp del]

definition non_empty :: "string option \<Rightarrow> string option" where
  "non_empty l = (case l of Some t \<Rightarrow> if t = [] then None else Some t | None \<Rightarrow> None)"

definition polite_label :: "string option \<Rightarrow> string option" where
  "polite_label l =
     (case l of
        None \<Rightarrow> None
      | Some t \<Rightarrow>
          (let t = rev (trim_start (rev (trim_end_matches '' please'' t)))
           in if t \<noteq> [] \<and> t \<noteq> ''please'' then Some t else None))"

fun or_first :: "(string list \<Rightarrow> 'a option) list \<Rightarrow> string list \<Rightarrow> 'a option" where
  "or_first [] ts = None"
| "or_first (f # fs) ts = (case f ts of Some x \<Rightarrow> Some x | None \<Rightarrow> or_first fs ts)"

definition timer_request :: "string \<Rightarrow> (nat \<times> string) option" where
  "timer_request t =
     (let reminder_style = starts_with t ''remind me '' \<or> starts_with t ''remind us '' in
      if \<not> (str_contains t ''timer'' \<or> reminder_style) then None
      else
        let tokens = split_whitespace t in
        case or_first [fractional_duration, couple_duration, dozen_duration, parse_duration] tokens of
          None \<Rightarrow> None
        | Some (seconds0, unit0) \<Rightarrow>
            (let (seconds, unit_end_index) = extend_duration_with_trailing_spans tokens seconds0 unit0 in
             if seconds = 0 then None
             else
               let found = (case non_empty (reminder_label tokens unit_end_index reminder_style) of
                              Some l \<Rightarrow> Some l
                            | None \<Rightarrow> extract_named_timer_label tokens unit_end_index)
               in Some (seconds,
                    case polite_label found of
                      Some l \<Rightarrow> l
                    | None \<Rightarrow> if starts_with t ''remind '' then ''reminder'' else ''timer'')))"

definition preferred_timer_request :: "string \<Rightarrow> (nat \<times> string) option" where
  "preferred_timer_request t =
     (if str_contains t ''lego cleanup timer'' then Some (600, ''lego cleanup'') else None)"

section \<open>Tokens of a sentence\<close>

definition clean_token :: "string \<Rightarrow> bool" where
  "clean_token t \<longleftrightarrow> t \<noteq> [] \<and> list_all (\<lambda>c. \<not> is_whitespace c) t"

lemma split_ws_run:
  "list_all (\<lambda>c. \<not> is_whitespace c) t \<Longrightarrow> split_ws_aux acc (t @ s) = split_ws_aux (rev t @ acc) s"
  by (induction t arbitrary: acc) auto

lemma split_ws_join: "list_all clean_token ts \<Longrightarrow> split_whitespace (join_str '' '' ts) = ts"
proof (induction "'' ''" ts rule: join_str.induct [where 'a = char])
  case (2 s)
  then show ?case
    using split_ws_run [of s "[]" "[]"] by (simp add: clean_token_def split_whitespace_def)
next
  case (3 s t ss)
  have "is_whitespace (CHR '' '')" by (simp add: is_whitespace_def)
  then show ?case
    using 3 split_ws_run [of s "[]" "CHR '' '' # join_str '' '' (t # ss)"]
    by (simp add: clean_token_def split_whitespace_def)
qed (simp add: split_whitespace_def)

definition timer_words :: "string list" where
  "timer_words = number_words @ map fst time_units @ [''set'', ''timer'', ''for'']"

text \<open>No word of a plain timer request is part of another idiom.\<close>

definition plain_timer_word :: "string \<Rightarrow> bool" where
  "plain_timer_word t \<longleftrightarrow>
     clean_token t \<and> map_of fraction_words t = None \<and> t \<noteq> ''couple'' \<and> t \<noteq> ''dozen'' \<and> t \<noteq> ''to''"

lemma timer_words_plain: "list_all plain_timer_word timer_words"
  by code_simp

lemma plain_words: "set ts \<subseteq> set timer_words \<Longrightarrow> list_all plain_timer_word ts"
  using timer_words_plain by (auto simp: list_all_iff)

lemma find_index_absent: "x \<notin> set ts \<Longrightarrow> find_index (\<lambda>t. t = x) ts = None"
  by (induction ts) auto

lemma find_index_behind:
  "x \<notin> set ts \<Longrightarrow> find_index (\<lambda>t. t = x) (ts @ us) = map_option ((+) (length ts)) (find_index (\<lambda>t. t = x) us)"
  by (induction ts; cases "find_index (\<lambda>t. t = x) us") auto

lemma first_some_None: "(\<And>x. x \<in> set xs \<Longrightarrow> f x = None) \<Longrightarrow> first_some f xs = None"
  by (induction xs) auto

lemma first_some_skip: "(\<And>x. x \<in> set xs \<Longrightarrow> f x = None) \<Longrightarrow> first_some f (xs @ ys) = first_some f ys"
  by (induction xs) auto

lemma plain_no_idiom:
  assumes "list_all plain_timer_word ts"
  shows "fractional_duration ts = None" "couple_duration ts = None" "dozen_duration ts = None"
    "find_index (\<lambda>t. t = ''to'') ts = None"
proof -
  have no: "map_of fraction_words (ts ! i) = None" if "i < length ts" for i
    using assms that by (auto simp: list_all_length plain_timer_word_def)
  show "fractional_duration ts = None"
    unfolding fractional_duration_def by (rule first_some_None) (simp add: fraction_at_def no)
  have "''couple'' \<notin> set ts" "''dozen'' \<notin> set ts" "''to'' \<notin> set ts"
    using assms by (auto simp: list_all_iff plain_timer_word_def)
  then show "couple_duration ts = None" "dozen_duration ts = None" "find_index (\<lambda>t. t = ''to'') ts = None"
    by (simp_all add: couple_duration_def dozen_duration_def find_index_absent)
qed

section \<open>Spans of time\<close>

text \<open>A span: whether a conjunction stands in front of it, the number and the unit.\<close>

type_synonym time_span = "bool \<times> nat \<times> string"

fun span_words :: "bool \<Rightarrow> time_span list \<Rightarrow> string list" where
  "span_words joined [] = []"
| "span_words joined ((c, n, u) # spans) =
     (if c then [''and''] else []) @ spell joined n @ u # span_words joined spans"

fun span_seconds :: "time_span list \<Rightarrow> nat" where
  "span_seconds [] = 0"
| "span_seconds ((c, n, u) # spans) = n * the (map_of time_units u) + span_seconds spans"

definition spelled_span :: "time_span \<Rightarrow> bool" where
  "spelled_span s \<longleftrightarrow> fst (snd s) < 1000000 \<and> snd (snd s) \<in> fst ` set time_units"

text \<open>Spelled spans, the first without a conjunction.\<close>

definition spelled_spans :: "time_span list \<Rightarrow> bool" where
  "spelled_spans spans \<longleftrightarrow>
     list_all spelled_span spans \<and> (case spans of [] \<Rightarrow> False | s # _ \<Rightarrow> \<not> fst s)"

lemma unit_table:
  "list_all (\<lambda>u. plain_word u \<and> (\<exists>m \<in> {1, 60, 3600}. map_of time_units u = Some m)) (map fst time_units)"
  by code_simp

lemma unit_facts:
  assumes "u \<in> fst ` set time_units"
  shows "plain_word u" "duration_unit_seconds (Some u) = Some (the (map_of time_units u))"
    "the (map_of time_units u) \<le> 3600"
proof -
  have "u \<in> set (map fst time_units)" using assms by simp
  from bspec [OF iffD1 [OF list_all_iff unit_table] this]
  show "plain_word u" "duration_unit_seconds (Some u) = Some (the (map_of time_units u))"
    "the (map_of time_units u) \<le> 3600"
    by (auto simp: duration_unit_seconds_def)
qed

lemma span_at_spelled:
  assumes "n < 1000000" "u \<in> fst ` set time_units"
  shows "span_at (before @ spell joined n @ u # ts) (length before)
    = Some (n * the (map_of time_units u), length before + length (spell joined n))"
proof -
  have "n * the (map_of time_units u) \<le> 1000000 * 3600"
    using assms(1) unit_facts(3) [OF assms(2)] by (intro mult_mono) auto
  then have "u64_sat_mul n (the (map_of time_units u)) = n * the (map_of time_units u)"
    by (simp add: u64_sat_mul_def u64_max_def)
  then show ?thesis
    using spoken_number_roundtrip [OF assms(1) plain_word_ends [OF unit_facts(1) [OF assms(2)]], of before joined ts]
      unit_facts(2) [OF assms(2)]
    by (simp add: span_at_def word_get_def nth_append)
qed

lemma span_at_none:
  "parse_spoken_number tokens i = None \<Longrightarrow> span_at tokens i = None"
  by (simp add: span_at_def)

lemma parse_at_end: "length tokens \<le> i \<Longrightarrow> parse_spoken_number tokens i = None"
  by (simp add: parse_spoken_number_def word_get_def)

lemma sat_add_min: "u64_sat_add (min a u64_max) b = min (a + b) u64_max"
  by (simp add: u64_sat_add_def min_def)

lemma trailing_spelled:
  "list_all spelled_span spans \<Longrightarrow> before \<noteq> [] \<Longrightarrow>
   trailing_spans (before @ span_words joined spans) (min tot u64_max) (length before - 1)
     = (min (tot + span_seconds spans) u64_max, length (before @ span_words joined spans) - 1)"
proof (induction spans arbitrary: before tot)
  case Nil
  then show ?case
    by (subst trailing_spans.simps) (simp add: skip_word_def word_get_def span_at_none parse_at_end)
next
  case (Cons s spans)
  obtain c n u where s: "s = (c, n, u)" by (cases s) auto
  have nu: "n < 1000000" "u \<in> fst ` set time_units" using Cons.prems s by (auto simp: spelled_span_def)
  let ?c = "if c then [''and''] else []"
  let ?b = "before @ ?c"
  have i: "skip_word ''and'' (before @ span_words joined (s # spans)) (length before - 1 + 1) = length ?b"
    using Cons.prems(2) spell_head [OF nu(1), of joined]
    by (auto simp: skip_word_def word_get_def nth_append s)
  have "span_at (before @ span_words joined (s # spans)) (length ?b)
      = Some (n * the (map_of time_units u), length ?b + length (spell joined n))"
    using span_at_spelled [OF nu, of ?b joined "span_words joined spans"] by (simp add: s)
  then have "trailing_spans (before @ span_words joined (s # spans)) (min tot u64_max) (length before - 1)
      = trailing_spans (before @ span_words joined (s # spans))
          (min (tot + n * the (map_of time_units u)) u64_max) (length ?b + length (spell joined n))"
    by (subst trailing_spans.simps) (simp only: i option.case prod.case sat_add_min)
  also have "\<dots> = trailing_spans ((?b @ spell joined n @ [u]) @ span_words joined spans)
          (min (tot + n * the (map_of time_units u)) u64_max) (length (?b @ spell joined n @ [u]) - 1)"
    by (simp add: s)
  also have "\<dots> = (min (tot + n * the (map_of time_units u) + span_seconds spans) u64_max,
      length ((?b @ spell joined n @ [u]) @ span_words joined spans) - 1)"
    by (rule Cons.IH) (use Cons.prems in auto)
  finally show ?case by (simp add: s add.assoc)
qed

lemma parse_duration_spelled:
  assumes "spelled_spans spans"
    and "\<And>i. i < length before \<Longrightarrow> span_at (before @ span_words joined spans) i = None"
  shows "parse_duration (before @ span_words joined spans)
    = Some (min (span_seconds spans) u64_max, length (before @ span_words joined spans) - 1)"
proof -
  obtain n u rest where spans: "spans = (False, n, u) # rest"
    using assms(1) by (cases spans) (auto simp: spelled_spans_def)
  have nu: "n < 1000000" "u \<in> fst ` set time_units" "list_all spelled_span rest"
    using assms(1) spans by (auto simp: spelled_spans_def spelled_span_def)
  let ?T = "before @ span_words joined spans" and ?b = "before @ spell joined n @ [u]"
  let ?first = "n * the (map_of time_units u)"
  have T: "?T = ?b @ span_words joined rest" by (simp add: spans)
  have "length before < length ?T" by (simp add: spans)
  then have range: "[0..<length ?T] = [0..<length before] @ length before # [Suc (length before)..<length ?T]"
    using upt_add_eq_append [of 0 "length before" "length ?T - length before"]
    by (simp add: upt_conv_Cons)
  have "span_at ?T (length before) = Some (?first, length before + length (spell joined n))"
    using span_at_spelled [OF nu(1,2), of before joined "span_words joined rest"] by (simp add: spans)
  then have "first_some (span_at ?T) [0..<length ?T] = Some (?first, length ?b - 1)"
    using assms(2) unfolding range by (subst first_some_skip) auto
  then have "parse_duration ?T = Some (trailing_spans ?T ?first (length ?b - 1))"
    by (simp add: parse_duration_def)
  also have "trailing_spans ?T ?first (length ?b - 1) = trailing_spans (?b @ span_words joined rest)
      (min ?first u64_max) (length ?b - 1)"
  proof -
    have "?first \<le> 1000000 * 3600"
      using nu(1) unit_facts(3) [OF nu(2)] by (intro mult_mono) auto
    then show ?thesis unfolding T by (simp add: u64_max_def)
  qed
  also have "\<dots> = (min (span_seconds spans) u64_max, length ?T - 1)"
    unfolding T by (subst trailing_spelled [OF nu(3)]) (simp_all add: spans)
  finally show ?thesis .
qed

lemma span_words_in:
  assumes "list_all spelled_span spans"
  shows "set (span_words joined spans) \<subseteq> set number_words \<union> fst ` set time_units"
  using assms
proof (induction spans)
  case (Cons s spans)
  obtain c n u where "s = (c, n, u)" by (cases s) auto
  moreover have "''and'' \<in> set number_words" by (simp add: number_words_def)
  ultimately show ?case using Cons spell_words [of n joined] by (auto simp: spelled_span_def)
qed simp

lemma span_words_timer: "list_all spelled_span spans \<Longrightarrow> set (span_words joined spans) \<subseteq> set timer_words"
  using span_words_in [of spans joined] by (auto simp: timer_words_def)

lemma for_no_number: "''for'' \<notin> set number_words \<union> fst ` set time_units"
  by code_simp

lemma extend_at_end:
  "extend_duration_with_trailing_spans tokens tot (length tokens - 1) = (tot, length tokens - 1)"
  if "tokens \<noteq> []"
  using that
  by (simp add: extend_duration_with_trailing_spans_def trailing_spans.simps skip_word_def word_get_def
      is_article_def span_at_none parse_at_end)

abbreviation timer_for :: "string list" where
  "timer_for \<equiv> [''set'', ''a'', ''timer'', ''for'']"

lemma opening_no_span: "i < 4 \<Longrightarrow> span_at (timer_for @ ts) i = None"
proof -
  assume "i < 4"
  then consider "i = 0" | "i = 1" | "i = 2" | "i = 3" by linarith
  then show ?thesis
    by cases (simp_all add: span_at_def parse_spoken_number_def word_get_def parse_u64_def is_ascii_digit_def
        spoken_loop.simps(2) cardinal_word_def cardinal_words_def u64_sat_add_def duration_unit_seconds_def
        time_units_def)
qed

lemma label_of_plain_request:
  assumes "spelled_spans spans"
  shows "extract_named_timer_label (timer_for @ span_words joined spans)
      (length (timer_for @ span_words joined spans) - 1) = None"
proof -
  have ok: "list_all spelled_span spans" "spans \<noteq> []" using assms by (auto simp: spelled_spans_def split: list.splits)
  have "''for'' \<notin> set (span_words joined spans)" using span_words_in [OF ok(1)] for_no_number by blast
  moreover have "parse_duration (span_words joined spans) \<noteq> None"
    using parse_duration_spelled [OF assms, of "[]" joined] by simp
  ultimately have "timer_for_label_after (timer_for @ span_words joined spans) 2 = None"
    by (simp add: timer_for_label_after_def find_index_absent)
  moreover have "find_index (\<lambda>t. t = ''timer'') (timer_for @ span_words joined spans) = Some 2" by simp
  moreover have "\<not> is_time_unit ''a''" by (simp add: is_time_unit_def time_units_def)
  moreover have "take 2 (timer_for @ span_words joined spans) = [''set'', ''a'']" by simp
  moreover have "1 < length (span_words joined spans)"
    using ok spell_nonempty by (cases spans) (fastforce simp: spelled_span_def)+
  ultimately show ?thesis
    by (simp add: extract_named_timer_label_def strip_trailing_duration_prefix_def label_stop_def
        numeral_2_eq_2)
qed

text \<open>A request without idioms and labels.\<close>

lemma plain_timer_request:
  assumes "split_whitespace t = ts" "list_all plain_timer_word ts" "parse_duration ts = Some (s, e)"
    "extend_duration_with_trailing_spans ts s e = (s, e)" "s \<noteq> 0"
    "reminder_label ts e False = None" "extract_named_timer_label ts e = None"
    "str_contains t ''timer''" "\<not> starts_with t ''remind me ''" "\<not> starts_with t ''remind us ''"
    "\<not> starts_with t ''remind ''"
  shows "timer_request t = Some (s, ''timer'')"
  using assms(3-) unfolding timer_request_def assms(1) Let_def
  by (simp add: plain_no_idiom(1-3) [OF assms(2)] non_empty_def polite_label_def)




section \<open>Misread durations\<close>

lemma set_below_100: "n < 100 \<Longrightarrow> set (below_100 n) \<subseteq> set timer_words"
  using below_100_words [of n] by (auto simp: timer_words_def)

lemma minute_timer:
  "duration_unit_seconds (Some ''minute'') = Some 60" "number_ends (''minute'' # ts)"
  "parse_u64 ''timer'' = None" "cardinal_word ''timer'' = None" "map_of fraction_words ''timer'' = None"
  "parse_u64 ''set'' = None" "cardinal_word ''set'' = None"
  by (cases ts; simp add: duration_unit_seconds_def time_units_def cardinal_word_def cardinal_words_def
      parse_u64_def is_ascii_digit_def fraction_words_def)+

lemma join_str_last: "ts \<noteq> [] \<Longrightarrow> join_str sep (ts @ [w]) = join_str sep ts @ sep @ w"
  by (induction sep ts rule: join_str.induct) auto

text \<open>C35: An article in front of a spelled number is counted as one minute more: \<open>set a five minute
  timer\<close> sets a timer of six minutes, for every number below a hundred.\<close>

theorem article_lengthens_timer:
  assumes "n < 100"
  shows "timer_request (join_str '' '' ([''set'', ''a''] @ below_100 n @ [''minute'', ''timer'']))
    = Some ((n + 1) * 60, ''timer'')"
proof -
  let ?ts = "[''set'', ''a''] @ below_100 n @ [''minute'', ''timer'']" let ?t = "join_str '' '' ?ts"
  let ?e = "2 + length (below_100 n)"
  have words: "{''set'', ''a'', ''minute'', ''timer''} \<subseteq> set timer_words" by code_simp
  then have plain: "list_all plain_timer_word ?ts"
    using set_below_100 [OF assms] by (intro plain_words) auto
  then have tokens: "split_whitespace ?t = ?ts"
    by (intro split_ws_join) (auto simp: list_all_iff plain_timer_word_def)
  have len: "length ?ts = ?e + 2" by simp
  have unit: "word_get ?ts ?e = Some ''minute''" "word_get ?ts (?e + 1) = Some ''timer''"
    by (simp_all add: word_get_def nth_append)
  have "parse_spoken_number ?ts 1 = Some (n + 1, ?e)"
    using article_added [OF assms minute_timer(2), of "[''set'']" "[''timer'']"] by simp
  moreover have "u64_sat_mul (n + 1) 60 = (n + 1) * 60"
    using assms by (intro sat_mul_small) simp
  ultimately have span: "span_at ?ts 1 = Some ((n + 1) * 60, ?e)"
    unfolding span_at_def using unit minute_timer(1) by simp
  have none: "span_at ?ts 0 = None" "span_at ?ts (?e + 1) = None"
    using minute_timer(3,4,6,7) unit(2)
    by (simp_all add: span_at_def parse_spoken_number_def word_get_def spoken_loop.simps(2))
  have range: "[0..<length ?ts] = 0 # 1 # [2..<length ?ts]"
    using upt_add_eq_append [of 0 2 "length (below_100 n) + 2"] unfolding len
    by (simp del: upt_Suc add: upt_rec [of 0 2] upt_rec [of "Suc 0" 2] add.commute)
  have no_and: "skip_word ''and'' ?ts (?e + 1) = ?e + 1" unfolding skip_word_def unit by simp
  have trailing: "trailing_spans ?ts s ?e = (s, ?e)" for s
    by (subst trailing_spans.simps) (simp only: no_and none option.case)
  have duration: "parse_duration ?ts = Some ((n + 1) * 60, ?e)"
    unfolding parse_duration_def range using none(1) span trailing by simp
  have no_article: "is_article (Some ''timer'') = False" by (simp add: is_article_def)
  have extended: "extend_duration_with_trailing_spans ?ts s ?e = (s, ?e)" for s
    unfolding extend_duration_with_trailing_spans_def trailing Let_def prod.case no_and
    using minute_timer(5) by (simp only: unit no_article if_False Option.bind_lunit option.case prod.case)
  have no_to: "drop (?e + 1) ?ts = [''timer'']" by simp
  have label: "reminder_label ?ts ?e False = None"
    by (simp add: reminder_label_def label_after_duration_def)
  have "''timer'' \<notin> set (below_100 n)"
    using below_100_words [OF assms] minute_timer(4)
    by (auto simp: number_words_def cardinal_word_def map_of_eq_None_iff)
  then have "find_index (\<lambda>t. t = ''timer'') ?ts = Some (?e + 1)"
    by (simp add: find_index_behind)
  then have named: "extract_named_timer_label ?ts ?e = None"
    by (simp add: extract_named_timer_label_def timer_for_label_after_def)
  have t: "?t = ''set a '' @ join_str '' '' (below_100 n @ [''minute'', ''timer''])"
    by (cases "below_100 n") auto
  have "?t = join_str '' '' ([''set'', ''a''] @ below_100 n @ [''minute'']) @ '' '' @ ''timer''"
    using join_str_last [of "[''set'', ''a''] @ below_100 n @ [''minute'']" "'' ''" "''timer''"] by simp
  then have "str_contains ?t ''timer''" unfolding str_contains_iff by (metis append_Nil2 append.assoc)
  moreover have "\<not> starts_with ?t ''remind me ''" "\<not> starts_with ?t ''remind us ''"
    "\<not> starts_with ?t ''remind ''"
    unfolding t by simp_all
  ultimately show ?thesis
    by (intro plain_timer_request [OF tokens plain duration extended _ label named]) auto
qed

theorem article_lengthens_timer_witness:
  "(5 :: nat) < 100 \<and> timer_request ''set a five minute timer'' = Some (360, ''timer'')"
proof -
  have "join_str '' '' ([''set'', ''a''] @ below_100 5 @ [''minute'', ''timer'']) = ''set a five minute timer''"
    by (simp add: below_100_def unit_words_def)
  then show ?thesis using article_lengthens_timer [of 5] by simp
qed

text \<open>The point of a decimal number becomes a space, so only the digits behind it are read: a timer
  for 1.5 hours runs for five.\<close>

lemmas span_eval = span_at_def parse_spoken_number_def word_get_def parse_u64_def digits_value_def
  is_ascii_digit_def u64_max_def duration_unit_seconds_def time_units_def u64_sat_mul_def

lemma decimal_duration_misread:
  "timer_request (normalize_utterance ''Set a timer for 1.5 hours.'') = Some (18000, ''timer'')"
proof -
  let ?ts = "timer_for @ [''1'', ''5'', ''hours'']"
  have said: "normalize_utterance ''Set a timer for 1.5 hours.'' = ''set a timer for 1 5 hours''"
    by code_simp
  have tokens: "split_whitespace ''set a timer for 1 5 hours'' = ?ts" by code_simp
  have plain: "list_all plain_timer_word ?ts" by code_simp
  have spans: "span_at ?ts 4 = None" "span_at ?ts 5 = Some (18000, 6)"
    by (simp_all add: span_eval)
  have range: "[0..<length ?ts] = [0, 1, 2, 3] @ 4 # 5 # [6]" by simp
  have "first_some (span_at ?ts) [0..<length ?ts] = Some (18000, 6)"
    unfolding range by (subst first_some_skip) (auto simp: opening_no_span spans simp del: append_Cons)
  moreover have "trailing_spans ?ts 18000 6 = (18000, 6)"
    by (subst trailing_spans.simps) (simp add: skip_word_def word_get_def span_at_none parse_at_end)
  ultimately have duration: "parse_duration ?ts = Some (18000, 6)"
    by (simp add: parse_duration_def)
  have extended: "extend_duration_with_trailing_spans ?ts 18000 6 = (18000, 6)"
  proof -
    have "length ?ts - 1 = 6" by simp
    then show ?thesis using extend_at_end [of ?ts 18000] by (metis list.discI append_is_Nil_conv)
  qed
  have label: "reminder_label ?ts 6 False = None"
    by (simp add: reminder_label_def label_after_duration_def)
  have rest: "parse_duration [''1'', ''5'', ''hours''] \<noteq> None"
    by (simp add: parse_duration_def span_eval)
  have named: "extract_named_timer_label ?ts 6 = None"
    using rest by (simp add: extract_named_timer_label_def timer_for_label_after_def
        strip_trailing_duration_prefix_def is_time_unit_def time_units_def label_stop_def)
  show ?thesis
    unfolding said by (rule plain_timer_request [OF tokens plain duration extended _ label named]) simp_all
qed

text \<open>Only the last word of the number in front of \<open>dozen\<close> is read.\<close>

lemma dozen_reads_last_word:
  "dozen_duration [''twenty'', ''five'', ''dozen'', ''seconds''] = Some (60, 3)"
  by (simp add: dozen_duration_def skip_word_def span_eval spoken_loop.simps(2) cardinal_word_def
      cardinal_words_def u64_sat_add_def)

end
