(* ===== verification/Spec2Isabelle.thy ===== *)
theory Spec2Isabelle
  imports LoopGuard Taint Injection MemoryPolicy HaProvider Governor Jsonl Session Calc ToolParser Timer LlmClient
    HttpServer ChatGate TelegramDrivers Voice Skills SpokenTimers
begin

text \<open>
  A verification development for GenieClaw, a home agent written in Rust.

  \<^bold>\<open>The program.\<close> \<open>genie-core\<close> (under \<open>src/crates/\<close>) receives requests over HTTP, a voice
  loop, a REPL and Telegram, decides the trusted origin of a request, asks a language model,
  extracts the tool call from the model's output, and dispatches it through a gate of
  policies. Home actions reach the house through a provider, after a household policy, a
  confirmation and a runtime safety check; what was done is kept in a ledger that offers an
  undo and in an audit trail. Spoken and stored facts are governed by a memory policy. Around
  it, \<open>genie-governor\<close> starts and stops services as memory gets short, and \<open>genie-common\<close>
  holds what the binaries share. The model's definitions keep the source's names.

  \<^bold>\<open>Reading the model.\<close> Code is translated to functions that pass the state they change.
  Every fallible operation returns \<open>error + value\<close>. What the code takes from outside is an
  argument: clock readings, random bytes, environment variables, the provider of the home, the
  host of the governor, the JSON reader and printer, the hash behind a confirmation token, the
  outcome of an append to a file. Theorems quantify over these arguments; where a theorem needs
  something of them it is a named premise with a witness. Texts are over U+0000 .. U+00FF
  (\<open>Prelude\<close>), floats are exact rationals rounded as IEEE prescribes (\<open>Values\<close>), counters
  keep their width where they can wrap (\<open>LoopGuard\<close>), saturate or are checked.

  \<^bold>\<open>Theories\<close>, in the order in which a request meets the components:

  \<^item> \<open>Prelude\<close>, \<open>Values\<close>: characters, texts and their UTF-8 bytes, results, floats, JSON values.
  \<^item> \<open>Interfaces\<close>: the contracts that several components share, as locales (bounded tables,
    sliding-window limiters, prefilters in front of a scan, textual enums, byte comparison);
    each is interpreted on the model's operations in the theory of the component.
  \<^item> \<open>HttpReader\<close>: the bounded readers of \<open>genie-common/src/http.rs\<close>. What is read depends on the
    bytes, not on the pieces they arrive in; an accepted request is bounded and framed in one way;
    a chunked body is read back whole.
  \<^item> \<open>HttpServer\<close>: the guard and token policy of \<open>http.rs\<close>, and the routing and admission of a
    request in \<open>server.rs\<close>. A request for household data presented the local token, except for the
    export route, whose prefix match the token policy does not know.
  \<^item> \<open>ChatGate\<close>: \<open>ChatTurnGate\<close> of \<open>server.rs\<close> as a step relation over interleaved requests: one
    turn at a time, exact counters on every exit path, no request waits for ever.
  \<^item> \<open>OriginAuth\<close>: \<open>genie-core/src/origin_auth.rs\<close> and \<open>OriginAuthConfig\<close>: which origin a
    request may claim. The lemmas determine exactly when an origin above \<open>api\<close> is granted and
    that a configured secret cannot be bypassed.
  \<^item> \<open>Injection\<close>: \<open>security/injection.rs\<close>: pattern scan of untrusted text. The gate in front of
    the expensive normalisation changes no verdict, and separators, punctuation or case hide
    no word pattern.
  \<^item> \<open>ToolParser\<close>: \<open>tools/parser.rs\<close>: finding the tool call in a response. What is extracted is
    JSON contained in the response; a serialised object in prose is found whatever its strings
    hold; the evaluation parser and the runtime agree on what is a call.
  \<^item> \<open>LoopGuard\<close>: \<open>security/loop_guard.rs\<close>: per-turn limits. Bounds on the total and on the
    repeats of a call, for fewer than \<open>2^32\<close> calls, past which the 32-bit counter wraps.
  \<^item> \<open>ToolGate\<close>: \<open>tools/dispatch/mod.rs\<close>: origin lists, two-leg confirmations, rate limits,
    audit of every decision. The limits hold in every closed window of 60 seconds.
  \<^item> \<open>HomeAction\<close>, \<open>HaPolicy\<close>: \<open>tools/home_action.rs\<close>, \<open>ha/policy.rs\<close> and the provider's data:
    verbs and their canonical form, the static assessment of an action, the runtime gate.
  \<^item> \<open>Rounding\<close>, \<open>HaGraph\<close>: \<open>ha/provider.rs\<close> and \<open>ha/entity_fidelity.rs\<close>: the house graph built from
    the states of the home server, and the resolution of a spoken target, with scores in \<open>f32\<close>. A
    named match is unambiguous, groups are exact, resolved entities belong to the graph.
  \<^item> \<open>HaProvider\<close>: the provider and its client \<open>ha/client.rs\<close>: the cached graph, one refresh on a miss,
    states, and the service call of an action. An unconfirmed control posts at most one request, and
    none that unlocks or opens.
  \<^item> \<open>Actuation\<close>: \<open>tools/actuation.rs\<close>: pending confirmations, ledger, undo, audit trail. A token
    confirms its request once, within ten minutes; at most 64 are pending and 32 actions
    remembered; the ledger rebuilt from the audit trail refines the one in memory.
  \<^item> \<open>HomeControl\<close>: \<open>tools/home.rs\<close> and \<open>tools/dispatch/home.rs\<close>: the handlers that compose all
    of the above. A request executes at most one action, only if origin, policy, confirmation
    and runtime conditions allow it, and an executed action is in the ledger and the audit.
  \<^item> \<open>MemoryPolicy\<close>: \<open>memory/policy.rs\<close>: what may be written, spoken, injected into the prompt
    or sent to the anonymising proxy. The trigger gates are compared with the tables behind
    them; one loses a phrase, and the lemmas say exactly which.
  \<^item> \<open>Hydration\<close>: \<open>memory/inject.rs\<close>: the household context of a prompt. It stays within 700
    tokens, the linear fit equals the quadratic reference, and only readable memories enter it.
  \<^item> \<open>Routes\<close>: the loopback checks of \<open>genie-common/src/config.rs\<close> and \<open>security/sandbox.rs\<close>, the
    hosts that \<open>llm/openai_compat.rs\<close> and \<open>llm/privacy_proxy.rs\<close> connect to, the gate of the
    optional provider and the escalation gate. The reader of IP addresses is that of the standard
    library. The two checks agree; what passes is characterised exactly; a plain URL that passes
    leads to the device, a URL with userinfo need not.
  \<^item> \<open>Redact\<close>: \<open>sanitize_output\<close> of \<open>security/sandbox.rs\<close>: a secret that stands alone in a text is
    nowhere in the sanitised text.
  \<^item> \<open>Reasoning\<close>: \<open>reasoning.rs\<close>: the reasoning directive changes only the last user message.
  \<^item> \<open>ChatTurn\<close>: \<open>process_chat_turn\<close> of \<open>server.rs\<close> and \<open>channel/mod.rs\<close>, composed of the gate, the
    parser, the hydration, the escalation and the sanitiser. Replies come out of the sanitiser,
    answers from permitted models; what an escalation hands over is made explicit.
  \<^item> \<open>StreamChat\<close>: \<open>handle_chat\<close> and \<open>handle_chat_stream\<close> of \<open>server.rs\<close>, \<open>channel/http.rs\<close>: a connection
    that may break is part of the state. A streamed turn does what the plain turn does; what it shows
    on the way is the raw text of the model.
  \<^item> \<open>OpenAiChat\<close>: \<open>handle_openai_chat\<close> of \<open>server.rs\<close>: every answer of the bridge is sanitised or a refusal.
  \<^item> \<open>Sha\<close>: \<open>prompt_sha.rs\<close>: the hand-written SHA-256 equals that of FIPS 180-4.
  \<^item> \<open>LlmRequest\<close>, \<open>LlmClient\<close>: \<open>llm/openai_compat.rs\<close>: the documents of requests, their compaction for
    the runtime of the device, one completion with its retry, and the stream of tokens over a
    connection. Compaction keeps the latest message whole; a streamed result is what was delivered,
    which is what \<open>StreamChat\<close> takes a stream for.
  \<^item> \<open>Telegram\<close>, \<open>TelegramDrivers\<close>: \<open>telegram.rs\<close> and \<open>channel/serve.rs\<close>: the cutting of replies to
    the length Telegram accepts, voice messages with their attempts at a reply, and the poll loop with
    one task per chat as a step relation. A chat never has two live drivers, its messages stay in
    order, none waits for ever; a reply that cannot be sent drops what the chat had queued.
  \<^item> \<open>Voice\<close>: \<open>voice/streaming.rs\<close> and \<open>voice/format.rs\<close>, over all Unicode scalar values: what is spoken
    of a reply. It does not depend on how the model cuts the reply into tokens, fenced code is never
    spoken, and the scan for URLs may be skipped when its marker is absent.
  \<^item> \<open>Skills\<close>: \<open>skills/loader.rs\<close>, \<open>skills/signature.rs\<close>, \<open>tools/dispatch/skill.rs\<close>: the admission of
    native skills. With signatures required, only bytes signed by a trusted key are ever mapped; every
    loaded skill satisfies the policy and none stays after three faults.
  \<^item> \<open>Taint\<close>: \<open>security/taint.rs\<close>: labels, sinks, declassification.
  \<^item> \<open>Session\<close>: \<open>session.rs\<close>: the registry of sessions, idle expiry and eviction.
  \<^item> \<open>SpokenNumbers\<close>, \<open>SpokenTimers\<close>: \<open>tools/number_words.rs\<close>, \<open>tools/calc_input.rs\<close> and the arithmetic
    and timer requests of \<open>tools/quick.rs\<close>. Spelled numbers are read back, spoken arithmetic becomes
    the expression in digits, a timer for spelled spans is set to their sum; an article in front of a
    spelled number makes the timer longer, the point of a decimal number is lost.
  \<^item> \<open>Calc\<close>: \<open>tools/calc.rs\<close>: the calculator equals the evaluation of the expression trees of its
    grammar, with the cap of 64 nested parentheses.
  \<^item> \<open>Timer\<close>: \<open>tools/timer.rs\<close>: at most 64 timers, each reported exactly once when due.
  \<^item> \<open>Governor\<close>: \<open>genie-common/src/mode.rs\<close>, \<open>genie-governor/src/governor.rs\<close>, \<open>control.rs\<close>,
    \<open>service_ctl.rs\<close>: mode selection, transitions with rollback, the tick, control commands.
  \<^item> \<open>Jsonl\<close>: \<open>genie-common/src/jsonl.rs\<close>: the last lines of a log, read backwards in chunks of
    4096 bytes, equal the last lines of the file.

  \<^bold>\<open>Termination.\<close> All definitions are total HOL functions: loops are structural recursion or
  carry a measure (input left, bytes of the file or of the connection left), so no fuel is used
  anywhere. A connection that never sends another byte is the end \<open>Silent\<close> of its stream, so
  waiting is a value too.

  \<^bold>\<open>Not modelled.\<close> SQLite stores (memory, conversations, governor history), sockets, audio
  devices and signal processing, prompt templates, the dashboard and command-line binaries: input and
  output around the decisions modelled here. Log lines are left out except
  where the code returns them. The other intents of \<open>tools/quick.rs\<close> are a table of
  English phrases, each its own specification. The manifest lists every component with its status.
\<close>

end
